(* ===== verification/Prelude.thy ===== *)
theory Prelude
  imports Main "HOL-Library.Word"
begin

text \<open>
  Shared vocabulary of the development: the outcome of a run of C code (\<open>run\<close>), the part
  of the C library the client calls (\<open>libc\<close>, a parameter of every definition that uses it),
  the character classes and number readers of the C standard library in the C locale, and the
  generic lemmas on lists, words and runs that the component theories use.
\<close>

section \<open>Outcomes of C code\<close>

text \<open>
  \<open>Fault\<close> is undefined behaviour that the model makes visible (a write outside a block, a
  null dereference, a failed assertion), \<open>Exit\<close> is a call of \<open>exit\<close>, \<open>Diverge\<close> is a
  loop that does not end.  \<open>Done\<close> is a normal return.
\<close>

datatype fault = Null_deref | Out_of_bounds | Assert_failed | Use_after_free | Bad_vararg

datatype 'a run = Done 'a | Fault fault | Exit int | Diverge

primrec run_bind :: "'a run \<Rightarrow> ('a \<Rightarrow> 'b run) \<Rightarrow> 'b run" where
  "run_bind (Done x) f = f x"
| "run_bind (Fault e) f = Fault e"
| "run_bind (Exit n) f = Exit n"
| "run_bind Diverge f = Diverge"

named_theorems run_simps \<open>equations that evaluate outcomes\<close>
named_theorems cstr_simps \<open>facts on C strings and character classes\<close>
named_theorems buf_simps \<open>facts on the growable buffer\<close>
named_theorems buf_intros \<open>introduction rules of the buffer invariant\<close>

lemma run_bind_Done_iff [run_simps]:
  "run_bind r f = Done y \<longleftrightarrow> (\<exists>x. r = Done x \<and> f x = Done y)"
  by (cases r) auto

lemma run_bind_assoc: "run_bind (run_bind r f) g = run_bind r (\<lambda>x. run_bind (f x) g)"
  by (cases r) auto

lemma run_bind_cong:
  "r = r' \<Longrightarrow> (\<And>x. r' = Done x \<Longrightarrow> f x = g x) \<Longrightarrow> run_bind r f = run_bind r' g"
  by (cases r') auto

text \<open>\<open>returns P r\<close>: whatever \<open>r\<close> returns, if it returns, satisfies \<open>P\<close>.\<close>

definition returns :: "('a \<Rightarrow> bool) \<Rightarrow> 'a run \<Rightarrow> bool" where
  "returns P r \<longleftrightarrow> (\<forall>x. r = Done x \<longrightarrow> P x)"

lemma returns_simps [simp]:
  "returns P (Done x) \<longleftrightarrow> P x" "returns P (Fault e)" "returns P (Exit n)" "returns P Diverge"
  "returns P (run_bind r f) \<longleftrightarrow> returns (\<lambda>x. returns P (f x)) r"
  by (auto simp: returns_def run_simps)

lemma returns_all: "(\<And>x. P x) \<Longrightarrow> returns P r"
  by (simp add: returns_def)

lemma returnsD: "returns P r \<Longrightarrow> r = Done x \<Longrightarrow> P x"
  by (simp add: returns_def)

lemma returns_mono: "returns P r \<Longrightarrow> (\<And>x. P x \<Longrightarrow> Q x) \<Longrightarrow> returns Q r"
  by (simp add: returns_def)

section \<open>Machine types\<close>

type_synonym size_t = "64 word"
type_synonym uchar = "8 word"

section \<open>The C library as a parameter\<close>

text \<open>
  Address families are kept as the three the client distinguishes.
\<close>

datatype family = AF_UNSPEC | AF_INET | AF_INET6

text \<open>Arguments of a variadic call: a C string, a counted buffer or an int.\<close>

datatype vararg = Arg_s string | Arg_S string | Arg_d int

text \<open>
  What the client takes from outside its own sources.
  \<^item> \<open>lc_alloc n\<close>: whether malloc or realloc of \<open>n\<close> bytes returns a block;
  \<^item> \<open>lc_before\<close>: the byte that lies in front of a heap block, which the code reads in one place;
  \<^item> \<open>lc_vsnprintf\<close>: the text of a conversion the client does not handle itself, and the arguments left;
  \<^item> \<open>lc_getaddrinfo\<close>: the address bytes of a numeric host, in network order;
  \<^item> \<open>lc_inet_ntop\<close>: the text of an address.
\<close>

record libc =
  lc_alloc :: "nat \<Rightarrow> bool"
  lc_before :: char
  lc_vsnprintf :: "string \<Rightarrow> vararg list \<Rightarrow> string \<times> vararg list"
  lc_getaddrinfo :: "family \<Rightarrow> string \<Rightarrow> uchar list option"
  lc_inet_ntop :: "family \<Rightarrow> uchar list \<Rightarrow> string option"

definition alloc_total :: "libc \<Rightarrow> bool" where
  "alloc_total lc \<longleftrightarrow> (\<forall>n. lc_alloc lc n)"

section \<open>Characters, C locale\<close>

abbreviation NUL :: char where "NUL \<equiv> CHR 0x00"

abbreviation code :: "char \<Rightarrow> nat" where "code c \<equiv> of_char c"

definition isdigit :: "char \<Rightarrow> bool" where
  "isdigit c \<longleftrightarrow> 48 \<le> code c \<and> code c \<le> 57"

definition isspace :: "char \<Rightarrow> bool" where
  "isspace c \<longleftrightarrow> code c = 32 \<or> (9 \<le> code c \<and> code c \<le> 13)"

definition toupper :: "char \<Rightarrow> char" where
  "toupper c = (if 97 \<le> code c \<and> code c \<le> 122 then char_of (code c - 32) else c)"

definition tolower :: "char \<Rightarrow> char" where
  "tolower c = (if 65 \<le> code c \<and> code c \<le> 90 then char_of (code c + 32) else c)"

text \<open>The value of a plain \<open>char\<close>, which is signed on the supported platforms.\<close>

definition schar :: "char \<Rightarrow> int" where
  "schar c = (if code c < 128 then int (code c) else int (code c) - 256)"

lemma code_less_256 [simp]: "code c < 256"
  by (metis char_of_char of_char_mod_256 mod_less_divisor zero_less_numeral)

lemma schar_mod: "schar c mod 256 = int (code c)"
proof -
  have "int (code c) mod 256 = int (code c)"
    by simp
  then show ?thesis by (auto simp: schar_def)
qed

lemma schar_inject [simp]: "schar a = schar b \<longleftrightarrow> a = b"
  by (metis schar_mod of_nat_eq_iff of_char_eq_iff)

lemma isdigit_NUL [simp]: "\<not> isdigit NUL"
  by (simp add: isdigit_def)

lemma isspace_NUL [simp]: "\<not> isspace NUL"
  by (simp add: isspace_def)

lemma isdigit_not_isspace: "isdigit c \<Longrightarrow> \<not> isspace c"
  by (auto simp: isdigit_def isspace_def)

text \<open>Equality of two C strings up to case, as \<open>strcasecmp\<close> reports it by 0.\<close>

definition strcaseeq :: "string \<Rightarrow> string \<Rightarrow> bool" where
  "strcaseeq a b \<longleftrightarrow> map tolower a = map tolower b"

text \<open>
  A C string in a buffer ends at its first zero byte.  \<open>cstr\<close> is the string a library
  function sees when it is handed a pointer to these bytes.
\<close>

definition cstr :: "char list \<Rightarrow> string" where
  "cstr bs = takeWhile (\<lambda>c. c \<noteq> NUL) bs"

lemma cstr_append_NUL [cstr_simps]: "NUL \<notin> set xs \<Longrightarrow> cstr (xs @ NUL # ys) = xs"
  by (induction xs) (auto simp: cstr_def)

lemma cstr_no_NUL [cstr_simps]: "NUL \<notin> set xs \<Longrightarrow> cstr xs = xs"
  by (induction xs) (auto simp: cstr_def)

lemma NUL_notin_cstr [simp]: "NUL \<notin> set (cstr bs)"
  by (auto simp: cstr_def dest: set_takeWhileD)

section \<open>Sequences of fallible writes\<close>

text \<open>
  \<open>seq_step r k\<close> is a call whose result is tested, \<open>if (!r) return false\<close>, before \<open>k\<close> goes on.
  The generators of the client are sequences of calls, each followed by
  \<open>if (!\<dots>) return false\<close>: \<open>run_seq\<close> runs such a sequence, \<open>run_when\<close> guards a call.
\<close>

definition seq_step :: "(bool \<times> 's) run \<Rightarrow> ('s \<Rightarrow> (bool \<times> 's) run) \<Rightarrow> (bool \<times> 's) run" where
  "seq_step r k = run_bind r (\<lambda>(ok, s'). if \<not> ok then Done (False, s') else k s')"

lemma seq_step_simps [simp]:
  "seq_step (Done (True, s)) k = k s" "seq_step (Done (False, s)) k = Done (False, s)"
  "seq_step (Fault f) k = Fault f" "seq_step (Exit n) k = Exit n" "seq_step Diverge k = Diverge"
  by (simp_all add: seq_step_def)

lemma seq_step_Done_True_iff [run_simps]:
  "seq_step r k = Done (True, t) \<longleftrightarrow> (\<exists>s. r = Done (True, s) \<and> k s = Done (True, t))"
  by (auto simp: seq_step_def run_simps split: if_splits)

lemma seq_step_return [simp]: "seq_step r (\<lambda>s. Done (True, s)) = r"
  by (cases r) (auto simp: seq_step_def)

fun run_seq :: "('s \<Rightarrow> (bool \<times> 's) run) list \<Rightarrow> 's \<Rightarrow> (bool \<times> 's) run" where
  "run_seq [] s = Done (True, s)"
| "run_seq (e # es) s = seq_step (e s) (run_seq es)"

lemma run_seq_Nil_fun [simp]: "run_seq [] = (\<lambda>s. Done (True, s))"
  by (rule ext) simp

lemma run_seq_single [simp]: "run_seq [e] = e"
  by (rule ext) simp

definition run_when :: "bool \<Rightarrow> ('s \<Rightarrow> (bool \<times> 's) run) \<Rightarrow> 's \<Rightarrow> (bool \<times> 's) run" where
  "run_when c e = (if c then e else (\<lambda>s. Done (True, s)))"

text \<open>
  \<open>emits invar text_of lim ok e xs\<close>: from a state that satisfies the invariant and has room below
  the limit, \<open>e\<close> appends exactly \<open>xs\<close> to the text and keeps the invariant; only when memory
  may run out (\<open>\<not> ok\<close>) can it stop instead, reporting failure or dereferencing the null pointer
  the allocator returned.
\<close>

definition emits ::
  "('s \<Rightarrow> bool) \<Rightarrow> ('s \<Rightarrow> char list) \<Rightarrow> nat \<Rightarrow> bool \<Rightarrow> ('s \<Rightarrow> (bool \<times> 's) run) \<Rightarrow> char list \<Rightarrow> bool" where
  "emits invar text_of lim ok e xs \<longleftrightarrow>
     (\<forall>s. invar s \<and> length (text_of s) + length xs < lim \<longrightarrow>
        (\<exists>s'. e s = Done (True, s') \<and> invar s' \<and> text_of s' = text_of s @ xs)
        \<or> (\<not> ok \<and> (e s = Fault Null_deref \<or> (\<exists>s'. e s = Done (False, s')))))"

lemma emitsI:
  assumes "\<And>s. invar s \<Longrightarrow> length (text_of s) + length xs < lim \<Longrightarrow>
      (\<exists>s'. e s = Done (True, s') \<and> invar s' \<and> text_of s' = text_of s @ xs)
      \<or> (\<not> ok \<and> (e s = Fault Null_deref \<or> (\<exists>s'. e s = Done (False, s'))))"
  shows "emits invar text_of lim ok e xs"
  using assms unfolding emits_def by blast

lemma emits_cases:
  assumes "emits invar text_of lim ok e xs" and "invar s" and "length (text_of s) + length xs < lim"
  obtains (wrote) s' where "e s = Done (True, s')" "invar s'" "text_of s' = text_of s @ xs"
  | (null) "\<not> ok" "e s = Fault Null_deref"
  | (refused) s' where "\<not> ok" "e s = Done (False, s')"
  using assms unfolding emits_def by blast

lemma emits_total:
  assumes "emits invar text_of lim True e xs" and "invar s" and "length (text_of s) + length xs < lim"
  shows "\<exists>s'. e s = Done (True, s') \<and> invar s' \<and> text_of s' = text_of s @ xs"
  using assms unfolding emits_def by blast

lemma emits_seq_Nil: "emits invar text_of lim ok (run_seq []) []"
  by (auto simp: emits_def)

lemma emits_seq_Cons:
  assumes hd: "emits invar text_of lim ok e xs" and tl: "emits invar text_of lim ok (run_seq es) ys"
  shows "emits invar text_of lim ok (run_seq (e # es)) (xs @ ys)"
proof (rule emitsI)
  fix s assume s: "invar s" "length (text_of s) + length (xs @ ys) < lim"
  then have "length (text_of s) + length xs < lim" by simp
  with hd s(1) show "(\<exists>s'. run_seq (e # es) s = Done (True, s') \<and> invar s' \<and> text_of s' = text_of s @ xs @ ys)
      \<or> (\<not> ok \<and> (run_seq (e # es) s = Fault Null_deref \<or> (\<exists>s'. run_seq (e # es) s = Done (False, s'))))"
  proof (cases rule: emits_cases)
    case (wrote s')
    with s have "length (text_of s') + length ys < lim" by simp
    with tl wrote(2) show ?thesis
      by (cases rule: emits_cases) (use wrote in auto)
  qed auto
qed

lemma emits_when:
  "(c \<Longrightarrow> emits invar text_of lim ok e xs) \<Longrightarrow> emits invar text_of lim ok (run_when c e) (if c then xs else [])"
  by (auto simp: run_when_def emits_def)

lemma emits_seq_map:
  assumes "\<And>y. y \<in> set ys \<Longrightarrow> emits invar text_of lim ok (f y) (t y)"
  shows "emits invar text_of lim ok (run_seq (map f ys)) (concat (map t ys))"
  using assms
proof (induction ys)
  case Nil
  show ?case by (simp add: emits_def)
next
  case (Cons y ys)
  then show ?case by (simp add: emits_seq_Cons del: run_seq.simps)
qed

lemma emits_seq_list:
  "list_all2 (emits invar text_of lim ok) es xss \<Longrightarrow> emits invar text_of lim ok (run_seq es) (concat xss)"
  by (induction rule: list_all2_induct)
    (simp_all add: emits_seq_Cons emits_def [where e = "\<lambda>s. Done (True, s)"] del: run_seq.simps)

lemma emits_cong: "emits invar text_of lim ok e xs \<Longrightarrow> xs = ys \<Longrightarrow> emits invar text_of lim ok e ys"
  by simp

text \<open>
  The contract between a buffer and the code that fills it: one append operation, what it does
  to the text, and what follows for every sequence of appends.
\<close>

locale byte_sink =
  fixes invar :: "'s \<Rightarrow> bool"
    and text_of :: "'s \<Rightarrow> char list"
    and lim :: nat
    and ok :: bool
    and append :: "'s \<Rightarrow> 'x \<Rightarrow> (bool \<times> 's) run"
    and bytes :: "'x \<Rightarrow> char list"
  assumes append_emits: "emits invar text_of lim ok (\<lambda>s. append s x) (bytes x)"
begin

lemma append_all:
  "emits invar text_of lim ok (run_seq (map (\<lambda>x s. append s x) xs)) (concat (map bytes xs))"
  by (intro emits_seq_map append_emits)

lemma append_keeps:
  assumes "invar s" and "append s x = Done (True, s')" and "length (text_of s) + length (bytes x) < lim"
  shows "text_of s' = text_of s @ bytes x \<and> invar s'"
  using append_emits [of x] assms(1,3)
  by (cases rule: emits_cases) (use assms(2) in auto)

lemma append_total:
  assumes "ok" and "invar s" and "length (text_of s) + length (bytes x) < lim"
  shows "\<exists>s'. append s x = Done (True, s') \<and> invar s' \<and> text_of s' = text_of s @ bytes x"
  using append_emits [of x] assms(2,3)
  by (cases rule: emits_cases) (use assms(1) in auto)

end

section \<open>Transition systems\<close>

text \<open>
  The contract between a step relation and an invariant of it: what holds at the start and is kept by every step
  holds in every state a run can reach.
\<close>

locale invariant_system =
  fixes init :: "'s \<Rightarrow> bool" and step :: "'s \<Rightarrow> 's \<Rightarrow> bool" and good :: "'s \<Rightarrow> bool"
  assumes init_good: "init s \<Longrightarrow> good s" and step_good: "step s t \<Longrightarrow> good s \<Longrightarrow> good t"
begin

lemma run_good: "step\<^sup>*\<^sup>* s t \<Longrightarrow> good s \<Longrightarrow> good t"
  by (induction rule: rtranclp_induct) (auto intro: step_good)

lemma reachable_good: "init s \<Longrightarrow> step\<^sup>*\<^sup>* s t \<Longrightarrow> good t"
  by (auto intro: run_good init_good)

end

end
