(* ===== verification/Klist.thy ===== *)
theory Klist
  imports Prelude
begin

text \<open>
  \<^verbatim>\<open>src/list.h\<close>: circular doubly linked lists.  A \<open>struct list_head *\<close> is an address, the
  store gives the two pointers of each address.  \<open>ring h head xs\<close> says that from \<open>head\<close> the list
  of elements is \<open>xs\<close>; the operations are shown to act on \<open>xs\<close> as list functions, which is what
  lets the other theories use HOL lists for these structures.
\<close>

section \<open>Store and operations\<close>

type_synonym addr = nat

definition NULL :: addr where
  "NULL = 0"

record lheap =
  lh_next :: "addr \<Rightarrow> addr"
  lh_prev :: "addr \<Rightarrow> addr"

definition set_next :: "addr \<Rightarrow> addr \<Rightarrow> lheap \<Rightarrow> lheap" where
  "set_next a v h = h\<lparr>lh_next := (lh_next h)(a := v)\<rparr>"

definition set_prev :: "addr \<Rightarrow> addr \<Rightarrow> lheap \<Rightarrow> lheap" where
  "set_prev a v h = h\<lparr>lh_prev := (lh_prev h)(a := v)\<rparr>"

lemma lheap_simps [simp]:
  "lh_next (set_next a v h) = (lh_next h)(a := v)" "lh_prev (set_next a v h) = lh_prev h"
  "lh_prev (set_prev a v h) = (lh_prev h)(a := v)" "lh_next (set_prev a v h) = lh_next h"
  by (simp_all add: set_next_def set_prev_def)

definition INIT_LIST_HEAD :: "addr \<Rightarrow> lheap \<Rightarrow> lheap" where
  "INIT_LIST_HEAD l h = set_prev l l (set_next l l h)"

definition list_add_between :: "addr \<Rightarrow> addr \<Rightarrow> addr \<Rightarrow> lheap \<Rightarrow> lheap" where
  "list_add_between new prv nxt h = set_next prv new (set_prev new prv (set_next new nxt (set_prev nxt new h)))"

definition list_add :: "addr \<Rightarrow> addr \<Rightarrow> lheap \<Rightarrow> lheap" where
  "list_add new head h = list_add_between new head (lh_next h head) h"

definition list_add_tail :: "addr \<Rightarrow> addr \<Rightarrow> lheap \<Rightarrow> lheap" where
  "list_add_tail new head h = list_add_between new (lh_prev h head) head h"

definition list_del_between :: "addr \<Rightarrow> addr \<Rightarrow> lheap \<Rightarrow> lheap" where
  "list_del_between prv nxt h = set_next prv nxt (set_prev nxt prv h)"

definition list_del :: "addr \<Rightarrow> lheap \<Rightarrow> lheap" where
  "list_del entry h =
     set_prev entry NULL (set_next entry NULL (list_del_between (lh_prev h entry) (lh_next h entry) h))"

definition list_replace :: "addr \<Rightarrow> addr \<Rightarrow> lheap \<Rightarrow> lheap" where
  "list_replace old new h =
     (let h1 = set_next new (lh_next h old) h;
          h2 = set_prev (lh_next h1 new) new h1;
          h3 = set_prev new (lh_prev h2 old) h2
      in set_next (lh_prev h3 new) new h3)"

definition list_replace_init :: "addr \<Rightarrow> addr \<Rightarrow> lheap \<Rightarrow> lheap" where
  "list_replace_init old new h = INIT_LIST_HEAD old (list_replace old new h)"

definition list_del_init :: "addr \<Rightarrow> lheap \<Rightarrow> lheap" where
  "list_del_init entry h = INIT_LIST_HEAD entry (list_del_between (lh_prev h entry) (lh_next h entry) h)"

definition list_move :: "addr \<Rightarrow> addr \<Rightarrow> lheap \<Rightarrow> lheap" where
  "list_move l head h = list_add l head (list_del_between (lh_prev h l) (lh_next h l) h)"

definition list_move_tail :: "addr \<Rightarrow> addr \<Rightarrow> lheap \<Rightarrow> lheap" where
  "list_move_tail l head h = list_add_tail l head (list_del_between (lh_prev h l) (lh_next h l) h)"

definition list_is_last :: "addr \<Rightarrow> addr \<Rightarrow> lheap \<Rightarrow> bool" where
  "list_is_last l head h \<longleftrightarrow> lh_next h l = head"

definition list_empty :: "addr \<Rightarrow> lheap \<Rightarrow> bool" where
  "list_empty head h \<longleftrightarrow> lh_next h head = head"

text \<open>Walking from \<open>p\<close> to \<open>head\<close>; \<open>None\<close>: the walk does not end.\<close>

partial_function (option) list_walk :: "addr \<Rightarrow> addr \<Rightarrow> lheap \<Rightarrow> addr list option" where
  "list_walk head p h =
     (if p = head then Some [] else Option.bind (list_walk head (lh_next h p) h) (\<lambda>r. Some (p # r)))"

definition list_count :: "addr \<Rightarrow> lheap \<Rightarrow> nat option" where
  "list_count head h = map_option length (list_walk head (lh_next h head) h)"

definition list_empty_careful :: "addr \<Rightarrow> lheap \<Rightarrow> bool" where
  "list_empty_careful head h \<longleftrightarrow> lh_next h head = head \<and> lh_next h head = lh_prev h head"

definition list_splice_between :: "addr \<Rightarrow> addr \<Rightarrow> lheap \<Rightarrow> lheap" where
  "list_splice_between l head h =
     (let first = lh_next h l; lst = lh_prev h l; at = lh_next h head
      in set_prev at lst (set_next lst at (set_next head first (set_prev first head h))))"

definition list_splice :: "addr \<Rightarrow> addr \<Rightarrow> lheap \<Rightarrow> lheap" where
  "list_splice l head h = (if \<not> list_empty l h then list_splice_between l head h else h)"

definition list_splice_init :: "addr \<Rightarrow> addr \<Rightarrow> lheap \<Rightarrow> lheap" where
  "list_splice_init l head h =
     (if \<not> list_empty l h then INIT_LIST_HEAD l (list_splice_between l head h) else h)"

text \<open>
  \<open>list_for_each_safe(pos, n, head) { list_del(pos); \<dots> }\<close>, the loop that frees every element: the
  elements in the order they are freed, and the store afterwards.
\<close>

partial_function (option) list_delete_all :: "addr \<Rightarrow> addr \<Rightarrow> addr \<Rightarrow> lheap \<Rightarrow> (addr list \<times> lheap) option" where
  "list_delete_all head pos n h =
     (if pos = head then Some ([], h)
      else let h' = list_del pos h
           in Option.bind (list_delete_all head n (lh_next h' n) h') (\<lambda>(ps, h''). Some (pos # ps, h'')))"

section \<open>Rings\<close>

text \<open>From \<open>x\<close> over \<open>xs\<close> to \<open>y\<close>, linked in both directions.\<close>

fun links :: "lheap \<Rightarrow> addr \<Rightarrow> addr list \<Rightarrow> addr \<Rightarrow> bool" where
  "links h x [] y \<longleftrightarrow> lh_next h x = y \<and> lh_prev h y = x"
| "links h x (z # zs) y \<longleftrightarrow> lh_next h x = z \<and> lh_prev h z = x \<and> links h z zs y"

definition ring :: "lheap \<Rightarrow> addr \<Rightarrow> addr list \<Rightarrow> bool" where
  "ring h head xs \<longleftrightarrow> links h head xs head \<and> distinct (head # xs)"

lemma links_append: "links h x (xs @ z # zs) y \<longleftrightarrow> links h x xs z \<and> links h z zs y"
  by (induction xs arbitrary: x) auto

lemma links_ends: "links h x xs y \<Longrightarrow> lh_next h x = hd (xs @ [y]) \<and> lh_prev h y = last (x # xs)"
  by (induction xs arbitrary: x) auto

text \<open>Pointers outside the segment may change.\<close>

lemma links_cong:
  assumes "links h x xs y" and "\<And>a. a \<in> set (x # xs) \<Longrightarrow> lh_next h' a = lh_next h a"
    and "\<And>a. a \<in> set (xs @ [y]) \<Longrightarrow> lh_prev h' a = lh_prev h a"
  shows "links h' x xs y"
  using assms by (induction xs arbitrary: x) auto

lemma ring_rotate: "ring h x (xs @ y # ys) \<Longrightarrow> ring h y (ys @ x # xs)"
  by (auto simp: ring_def links_append)

lemma insert_between:
  assumes "ring h x (y # ys)" and "new \<notin> set (x # y # ys)"
  shows "ring (list_add_between new x y h) x (new # y # ys)"
proof -
  have l: "links h y ys x" "distinct (x # y # ys)" using assms(1) by (auto simp: ring_def)
  have "links (list_add_between new x y h) y ys x"
    using l(1) by (rule links_cong) (use assms(2) l(2) in \<open>auto simp: list_add_between_def\<close>)
  then show ?thesis using assms(2) l(2) by (auto simp: ring_def list_add_between_def)
qed

lemma remove_between:
  assumes "ring h x (e # y # ys)"
  shows "ring (list_del_between x y h) x (y # ys)"
proof -
  have l: "links h y ys x" "distinct (x # e # y # ys)" using assms by (auto simp: ring_def)
  have "links (list_del_between x y h) y ys x"
    using l(1) by (rule links_cong) (use l(2) in \<open>auto simp: list_del_between_def\<close>)
  then show ?thesis using l(2) by (auto simp: ring_def list_del_between_def)
qed

lemma list_walk_links: "links h x xs y \<Longrightarrow> y \<notin> set xs \<Longrightarrow> list_walk y (lh_next h x) h = Some xs"
  by (induction xs arbitrary: x) (simp_all add: list_walk.simps)

lemma ring_front: "ring h head (xs @ [z]) \<Longrightarrow> ring h z (head # xs)"
  by (auto simp: ring_def links_append)

lemma ring_back: "ring h z (head # xs) \<Longrightarrow> ring h head (xs @ [z])"
  by (auto simp: ring_def links_append)

lemma ring_init: "ring (INIT_LIST_HEAD l h) l []"
  by (simp add: ring_def INIT_LIST_HEAD_def)

lemma ring_empty_iff: "ring h head xs \<Longrightarrow> list_empty head h \<longleftrightarrow> xs = []"
  by (cases xs) (auto simp: ring_def list_empty_def)

lemma ring_add:
  assumes "ring h head xs" and "new \<notin> set (head # xs)"
  shows "ring (list_add new head h) head (new # xs)"
proof (cases xs)
  case Nil
  with assms show ?thesis by (auto simp: ring_def list_add_def list_add_between_def)
next
  case (Cons y ys)
  moreover from this have "lh_next h head = y" using assms(1) by (simp add: ring_def)
  ultimately show ?thesis using insert_between assms by (simp add: list_add_def)
qed

lemma ring_add_tail:
  assumes "ring h head xs" and "new \<notin> set (head # xs)"
  shows "ring (list_add_tail new head h) head (xs @ [new])"
proof (cases xs rule: rev_cases)
  case Nil
  with assms show ?thesis by (auto simp: ring_def list_add_tail_def list_add_between_def)
next
  case (snoc ys z)
  have "lh_prev h head = z" using assms(1) snoc links_ends by (fastforce simp: ring_def)
  moreover have "ring (list_add_between new z head h) z (new # head # ys)"
    using insert_between [OF ring_front, of h head ys z new] assms snoc by auto
  ultimately show ?thesis using ring_rotate [of _ z "[new]" head ys] snoc by (simp add: list_add_tail_def)
qed

lemma ring_neighbours:
  assumes "ring h head (xs @ e # ys)"
  shows "lh_prev h e = last (head # xs)" "lh_next h e = hd (ys @ [head])"
  using assms links_ends by (fastforce simp: ring_def links_append)+

lemma ring_del_between:
  assumes "ring h head (xs @ e # ys)"
  shows "ring (list_del_between (lh_prev h e) (lh_next h e) h) head (xs @ ys)"
proof -
  note nb = ring_neighbours [OF assms]
  have r: "ring h e (ys @ head # xs)" using assms by (rule ring_rotate)
  consider "xs = []" "ys = []" | y zs where "ys = y # zs" | w ws where "xs = ws @ [w]" "ys = []"
    by (metis list.exhaust rev_cases)
  then show ?thesis
  proof cases
    case 1
    with nb show ?thesis by (simp add: ring_def list_del_between_def)
  next
    case (2 y zs)
    let ?l = "last (head # xs)" and ?f = "butlast (head # xs)"
    have split: "head # xs = ?f @ [?l]" by (metis append_butlast_last_id list.distinct(1))
    have "ring h ?l (e # y # zs @ ?f)"
      using ring_front [of h e "y # zs @ ?f" ?l] r 2 split by (metis append.assoc append_Cons)
    then have "ring (list_del_between ?l y h) ?l (y # zs @ ?f)" by (rule remove_between)
    then have "ring (list_del_between ?l y h) y (zs @ head # xs)"
      using ring_rotate [of _ ?l "[]" y "zs @ ?f"] split by (metis append.assoc append_Nil)
    then show ?thesis using ring_rotate [of _ y zs head xs] nb 2 by simp
  next
    case (3 w ws)
    have "ring h w (e # head # ws)" using ring_front [of h e "head # ws" w] r 3 by simp
    then have "ring (list_del_between w head h) w (head # ws)" by (rule remove_between)
    then show ?thesis using ring_back nb 3 by simp
  qed
qed

lemma ring_frame:
  assumes "ring h head xs" and "\<And>a. a \<in> set (head # xs) \<Longrightarrow> lh_next h' a = lh_next h a \<and> lh_prev h' a = lh_prev h a"
  shows "ring h' head xs"
  using assms links_cong [of h head xs head h'] by (auto simp: ring_def)

lemma ring_del:
  assumes "ring h head (xs @ e # ys)"
  shows "ring (list_del e h) head (xs @ ys)"
  using ring_del_between [OF assms]
  by (rule ring_frame) (use assms in \<open>auto simp: ring_def list_del_def\<close>)

lemma list_count_ring: "ring h head xs \<Longrightarrow> list_count head h = Some (length xs)"
  using list_walk_links [of h head xs head] by (simp add: ring_def list_count_def)

lemma list_delete_all_ring:
  assumes "ring h head xs" and "pos = lh_next h head" and "n = lh_next h pos"
  shows "\<exists>h'. list_delete_all head pos n h = Some (xs, h') \<and> ring h' head []"
  using assms
proof (induction xs arbitrary: h pos n)
  case Nil
  then show ?case by (subst list_delete_all.simps) (simp add: ring_def)
next
  case (Cons x xs)
  have pos: "pos = x" using Cons.prems(1,2) by (simp add: ring_def)
  have ne: "x \<noteq> head" using Cons.prems(1) by (auto simp: ring_def)
  have n: "n = hd (xs @ [head])"
    using ring_neighbours(2) [of h head "[]" x xs] Cons.prems(1,3) pos by simp
  have r: "ring (list_del x h) head xs" using ring_del [of h head "[]" x xs] Cons.prems(1) by simp
  have "lh_next (list_del x h) head = n" using links_ends [of "list_del x h" head xs head] r n by (simp add: ring_def)
  with Cons.IH [OF r] obtain h' where
    "list_delete_all head n (lh_next (list_del x h) n) (list_del x h) = Some (xs, h')" "ring h' head []" by metis
  then show ?case using pos ne by (subst list_delete_all.simps) (simp add: Let_def)
qed

text \<open>A segment entered from elsewhere.\<close>

lemma links_restart:
  assumes "links h l zs z" and "lh_next h' x = hd (zs @ [z])" and "lh_prev h' (hd (zs @ [z])) = x"
    and "\<And>a. a \<in> set zs \<Longrightarrow> lh_next h' a = lh_next h a"
    and "\<And>a. a \<in> set (tl (zs @ [z])) \<Longrightarrow> lh_prev h' a = lh_prev h a"
  shows "links h' x zs z"
proof (cases zs)
  case (Cons y ys)
  then have "links h' y ys z" using links_cong [of h y ys z h'] assms by simp
  with Cons assms(2,3) show ?thesis by simp
qed (use assms in simp)

lemma ring_splice:
  assumes l: "ring h l (zs @ [z])" and x: "ring h head xs" and dj: "set (l # zs @ [z]) \<inter> set (head # xs) = {}"
  shows "ring (list_splice l head h) head (zs @ z # xs)"
proof -
  let ?at = "hd (xs @ [head])" and ?first = "hd (zs @ [z])"
  let ?h = "set_prev ?at z (set_next z ?at (set_next head ?first (set_prev ?first head h)))"
  have "lh_next h l = ?first" "lh_prev h l = z" "lh_next h head = ?at"
    using links_ends [of h l "zs @ [z]" l] links_ends [of h head xs head] l x
    by (simp_all add: ring_def hd_append split: if_splits)
  moreover have "\<not> list_empty l h" using ring_empty_iff [OF l] by simp
  ultimately have h: "list_splice l head h = ?h"
    by (simp add: list_splice_def list_splice_between_def Let_def)
  have d: "distinct (l # zs @ [z])" "distinct (head # xs)" using l x by (simp_all add: ring_def)
  have first: "?first \<in> set (zs @ [z])" "?at \<in> set (head # xs)" by (cases zs; simp) (cases xs; simp)
  have tl: "?first \<notin> set (tl (zs @ [z]))" "?at \<notin> set (tl (xs @ [head]))"
    using d by (cases zs; auto) (use d in \<open>cases xs; auto\<close>)
  have "links ?h head zs z"
  proof (rule links_restart [of h l])
    show "links h l zs z" using l by (simp add: ring_def links_append)
    show "lh_next ?h a = lh_next h a" if "a \<in> set zs" for a using that d dj by auto
    show "lh_prev ?h a = lh_prev h a" if "a \<in> set (tl (zs @ [z]))" for a
      using that tl(1) first(2) dj list.set_sel(2) [of "zs @ [z]" a] by auto
  qed (use d dj first in auto)
  moreover have "links ?h z xs head"
  proof (rule links_restart [of h head])
    show "links h head xs head" using x by (simp add: ring_def)
    show "lh_next ?h a = lh_next h a" if "a \<in> set xs" for a using that d dj by auto
    show "lh_prev ?h a = lh_prev h a" if "a \<in> set (tl (xs @ [head]))" for a
      using that tl(2) first(1) dj list.set_sel(2) [of "xs @ [head]" a] by auto
  qed simp_all
  ultimately show ?thesis unfolding h using d dj by (auto simp: ring_def links_append)
qed

section \<open>Properties\<close>

text \<open>
  \<open>list_add\<close> and \<open>list_add_tail\<close> insert a fresh element in front and at the end: whatever
  the store, from a well-linked ring they make a well-linked ring with the element added there.
\<close>

theorem klist_insert:
  assumes "ring h head xs" and "new \<notin> set (head # xs)"
  shows "ring (list_add new head h) head (new # xs) \<and> ring (list_add_tail new head h) head (xs @ [new])"
  using ring_add [OF assms] ring_add_tail [OF assms] by blast

definition three_ring :: lheap where
  "three_ring = list_add_tail 4 1 (list_add_tail 3 1 (list_add_tail 2 1
     (INIT_LIST_HEAD 1 \<lparr>lh_next = \<lambda>_. NULL, lh_prev = \<lambda>_. NULL\<rparr>)))"

lemma three_ring: "ring three_ring 1 [2, 3, 4]"
  by code_simp

theorem klist_insert_witness:
  "ring (list_add 9 1 three_ring) 1 (9 # [2, 3, 4]) \<and> ring (list_add_tail 9 1 three_ring) 1 ([2, 3, 4] @ [9])"
  by (rule klist_insert [OF three_ring]) simp

text \<open>
  \<open>list_del\<close> takes out exactly the element it is given, wherever it stands, and clears the two
  pointers of that element.
\<close>

theorem klist_delete:
  assumes "ring h head (xs @ e # ys)"
  shows "ring (list_del e h) head (xs @ ys)
     \<and> lh_next (list_del e h) e = NULL \<and> lh_prev (list_del e h) e = NULL"
  using ring_del [OF assms] by (simp add: list_del_def)

theorem klist_delete_witness:
  "ring (list_del 3 three_ring) 1 ([2] @ [4])
     \<and> lh_next (list_del 3 three_ring) 3 = NULL \<and> lh_prev (list_del 3 three_ring) 3 = NULL"
  by (rule klist_delete) (use three_ring in \<open>simp only: append_Cons append_Nil\<close>)

text \<open>
  the loop \<open>list_for_each_safe\<close> around \<open>list_del\<close> ends on every well-linked ring, visits every
  element exactly once and in order, and leaves the empty ring; \<open>list_count\<close> ends as well and
  gives the number of elements.
\<close>

theorem klist_delete_all:
  assumes "ring h head xs"
  shows "\<exists>h'. list_delete_all head (lh_next h head) (lh_next h (lh_next h head)) h = Some (xs, h') \<and> ring h' head []
     \<and> list_count head h = Some (length xs)"
  using list_delete_all_ring [OF assms refl refl] list_count_ring [OF assms] by blast

theorem klist_delete_all_witness:
  "\<exists>h'. list_delete_all 1 (lh_next three_ring 1) (lh_next three_ring (lh_next three_ring 1)) three_ring = Some ([2, 3, 4], h')
     \<and> ring h' 1 [] \<and> list_count 1 three_ring = Some (length [2, 3, 4 :: nat])"
  by (rule klist_delete_all [OF three_ring])

text \<open>
  \<open>list_splice\<close> puts all elements of one ring, in order, in front of those of another.
\<close>

theorem klist_splice:
  assumes "ring h l ys" and "ys \<noteq> []" and "ring h head xs" and "set (l # ys) \<inter> set (head # xs) = {}"
  shows "ring (list_splice l head h) head (ys @ xs)"
proof -
  obtain zs z where "ys = zs @ [z]" using assms(2) by (cases ys rule: rev_cases) auto
  with ring_splice [of h l zs z head xs] assms show ?thesis by simp
qed

theorem klist_splice_witness:
  "ring (list_splice 1 7 (INIT_LIST_HEAD 7 three_ring)) 7 ([2, 3, 4] @ [])"
proof (rule klist_splice)
  show "ring (INIT_LIST_HEAD 7 three_ring) 1 [2, 3, 4]" "ring (INIT_LIST_HEAD 7 three_ring) 7 []" by code_simp+
qed simp_all

end
