(* ===== verification/Hlist.thy ===== *)
theory Hlist
  imports Klist
begin

text \<open>
  \<^verbatim>\<open>src/list.h\<close>, the lists with a single pointer in the head.  A node keeps the address of the pointer that leads to
  it; a \<open>slot\<close> is such an address, the pointer in a head or the one in a node.  Both kinds of lists are instances of
  one interface, and what follows from the interface holds for both.
\<close>

section \<open>Store and operations\<close>

datatype slot = First addr | Next addr

record hheap =
  hh_first :: "addr \<Rightarrow> addr"
  hh_next :: "addr \<Rightarrow> addr"
  hh_pprev :: "addr \<Rightarrow> slot option"

fun get_slot :: "slot \<Rightarrow> hheap \<Rightarrow> addr" where
  "get_slot (First a) h = hh_first h a"
| "get_slot (Next a) h = hh_next h a"

fun put_slot :: "slot \<Rightarrow> addr \<Rightarrow> hheap \<Rightarrow> hheap" where
  "put_slot (First a) v h = h\<lparr>hh_first := (hh_first h)(a := v)\<rparr>"
| "put_slot (Next a) v h = h\<lparr>hh_next := (hh_next h)(a := v)\<rparr>"

definition set_pprev :: "addr \<Rightarrow> slot option \<Rightarrow> hheap \<Rightarrow> hheap" where
  "set_pprev a v h = h\<lparr>hh_pprev := (hh_pprev h)(a := v)\<rparr>"

definition INIT_HLIST_NODE :: "addr \<Rightarrow> hheap \<Rightarrow> hheap" where
  "INIT_HLIST_NODE n h = set_pprev n None (put_slot (Next n) NULL h)"

definition hlist_unhashed :: "addr \<Rightarrow> hheap \<Rightarrow> bool" where
  "hlist_unhashed n h \<longleftrightarrow> hh_pprev h n = None"

definition hlist_empty :: "addr \<Rightarrow> hheap \<Rightarrow> bool" where
  "hlist_empty head h \<longleftrightarrow> hh_first h head = NULL"

definition hlist_unlink :: "addr \<Rightarrow> hheap \<Rightarrow> hheap run" where
  "hlist_unlink n h =
     (let nxt = hh_next h n in
      case hh_pprev h n of
        None \<Rightarrow> Fault Null_deref
      | Some pprev \<Rightarrow>
          let h = put_slot pprev nxt h in
          Done (if nxt \<noteq> NULL then set_pprev nxt (Some pprev) h else h))"

definition hlist_del :: "addr \<Rightarrow> hheap \<Rightarrow> hheap run" where
  "hlist_del n h = run_bind (hlist_unlink n h) (\<lambda>h. Done (set_pprev n None (put_slot (Next n) NULL h)))"

definition hlist_del_init :: "addr \<Rightarrow> hheap \<Rightarrow> hheap run" where
  "hlist_del_init n h =
     (if \<not> hlist_unhashed n h then run_bind (hlist_unlink n h) (\<lambda>h. Done (INIT_HLIST_NODE n h)) else Done h)"

definition hlist_add_head :: "addr \<Rightarrow> addr \<Rightarrow> hheap \<Rightarrow> hheap" where
  "hlist_add_head n head h =
     (let first = hh_first h head;
          h = put_slot (Next n) first h;
          h = (if first \<noteq> NULL then set_pprev first (Some (Next n)) h else h);
          h = put_slot (First head) n h
      in set_pprev n (Some (First head)) h)"

definition hlist_add_before :: "addr \<Rightarrow> addr \<Rightarrow> hheap \<Rightarrow> hheap run" where
  "hlist_add_before n nxt h =
     (if nxt = NULL then Fault Null_deref
      else let h = set_pprev n (hh_pprev h nxt) h;
               h = put_slot (Next n) nxt h;
               h = set_pprev nxt (Some (Next n)) h in
        case hh_pprev h n of None \<Rightarrow> Fault Null_deref | Some pprev \<Rightarrow> Done (put_slot pprev n h))"

definition hlist_add_after :: "addr \<Rightarrow> addr \<Rightarrow> hheap \<Rightarrow> hheap" where
  "hlist_add_after n nxt h =
     (let h = put_slot (Next nxt) (hh_next h n) h;
          h = put_slot (Next n) nxt h;
          h = set_pprev nxt (Some (Next n)) h
      in if hh_next h nxt \<noteq> NULL then set_pprev (hh_next h nxt) (Some (Next nxt)) h else h)"

text \<open>The nodes a loop \<open>hlist_for_each\<close> visits from \<open>pos\<close> on; \<open>None\<close>: it does not end.\<close>

partial_function (option) hlist_walk :: "addr \<Rightarrow> hheap \<Rightarrow> addr list option" where
  "hlist_walk pos h =
     (if pos = NULL then Some [] else Option.bind (hlist_walk (hh_next h pos) h) (\<lambda>r. Some (pos # r)))"

section \<open>Chains\<close>

fun chain :: "hheap \<Rightarrow> slot \<Rightarrow> addr list \<Rightarrow> bool" where
  "chain h s [] \<longleftrightarrow> get_slot s h = NULL"
| "chain h s (x # xs) \<longleftrightarrow> get_slot s h = x \<and> x \<noteq> NULL \<and> hh_pprev h x = Some s \<and> chain h (Next x) xs"

definition hlist :: "hheap \<Rightarrow> addr \<Rightarrow> addr list \<Rightarrow> bool" where
  "hlist h head xs \<longleftrightarrow> chain h (First head) xs \<and> distinct xs"

lemma set_pprev_simps [simp]:
  "hh_pprev (set_pprev a v h) = (hh_pprev h)(a := v)" "hh_next (set_pprev a v h) = hh_next h"
  "hh_first (set_pprev a v h) = hh_first h" "get_slot s (set_pprev a v h) = get_slot s h"
  by (simp_all add: set_pprev_def) (cases s; simp add: set_pprev_def)

lemma put_slot_simps [simp]:
  "hh_pprev (put_slot s v h) = hh_pprev h" "get_slot t (put_slot s v h) = (if t = s then v else get_slot t h)"
  by (cases s; simp) (cases s; cases t; simp)

lemma put_slot_fields [simp]:
  "hh_next (put_slot (Next a) v h) = (hh_next h)(a := v)" "hh_next (put_slot (First a) v h) = hh_next h"
  "hh_first (put_slot (First a) v h) = (hh_first h)(a := v)" "hh_first (put_slot (Next a) v h) = hh_first h"
  by simp_all

declare put_slot.simps [simp del]

text \<open>The beginning of a chain, and the slot behind it.\<close>

fun seg :: "hheap \<Rightarrow> slot \<Rightarrow> addr list \<Rightarrow> bool" where
  "seg h s [] \<longleftrightarrow> True"
| "seg h s (x # xs) \<longleftrightarrow> get_slot s h = x \<and> x \<noteq> NULL \<and> hh_pprev h x = Some s \<and> seg h (Next x) xs"

definition slot_after :: "slot \<Rightarrow> addr list \<Rightarrow> slot" where
  "slot_after s xs = (if xs = [] then s else Next (last xs))"

lemma chain_append: "chain h s (xs @ ys) \<longleftrightarrow> seg h s xs \<and> chain h (slot_after s xs) ys"
  by (induction xs arbitrary: s) (auto simp: slot_after_def)

lemma chain_cong:
  assumes "chain h s xs" and "\<And>t. t \<in> set (s # map Next xs) \<Longrightarrow> get_slot t h' = get_slot t h"
    and "\<And>x. x \<in> set xs \<Longrightarrow> hh_pprev h' x = hh_pprev h x"
  shows "chain h' s xs"
  using assms by (induction xs arbitrary: s) auto

lemma seg_cong:
  assumes "seg h s xs" and "\<And>t. t \<in> set (butlast (s # map Next xs)) \<Longrightarrow> get_slot t h' = get_slot t h"
    and "\<And>x. x \<in> set xs \<Longrightarrow> hh_pprev h' x = hh_pprev h x"
  shows "seg h' s xs"
  using assms
proof (induction xs arbitrary: s)
  case (Cons x xs)
  then have "seg h' (Next x) xs" by (intro Cons.IH) (auto split: if_splits)
  with Cons.prems show ?case by (auto split: if_splits)
qed simp

lemma chain_nonnull: "chain h s xs \<Longrightarrow> NULL \<notin> set xs"
  by (induction xs arbitrary: s) auto

lemma slots_before:
  assumes "distinct (xs @ ys)" and "t \<in> set (butlast (First head # map Next xs))"
  shows "t \<noteq> slot_after (First head) xs" and "\<And>y. y \<in> set ys \<Longrightarrow> t \<noteq> Next y"
proof -
  show "t \<noteq> slot_after (First head) xs"
    using assms by (cases xs rule: rev_cases) (auto simp: slot_after_def butlast_append split: if_splits)
  show "t \<noteq> Next y" if "y \<in> set ys" for y
    using assms that by (cases xs rule: rev_cases) (auto simp: butlast_append split: if_splits)
qed

lemma slot_after_other: "distinct (xs @ ys) \<Longrightarrow> y \<in> set ys \<Longrightarrow> slot_after (First head) xs \<noteq> Next y"
  by (cases xs rule: rev_cases) (auto simp: slot_after_def)

lemma hlist_unlinks:
  assumes "hlist h head (xs @ x # ys)"
  shows "\<exists>h'. hlist_unlink x h = Done h' \<and> hlist h' head (xs @ ys)"
proof -
  let ?t = "slot_after (First head) xs" and ?n = "hh_next h x"
  from assms have d: "distinct (xs @ x # ys)" and c: "seg h (First head) xs" "hh_pprev h x = Some ?t" "chain h (Next x) ys"
    by (auto simp: hlist_def chain_append)
  define h' where "h' = (if ?n \<noteq> NULL then set_pprev ?n (Some ?t) (put_slot ?t ?n h) else put_slot ?t ?n h)"
  have u: "hlist_unlink x h = Done h'" using c(2) by (simp add: hlist_unlink_def h'_def Let_def)
  have g: "get_slot s h' = (if s = ?t then ?n else get_slot s h)" for s by (simp add: h'_def)
  have p: "hh_pprev h' a = (if a = ?n \<and> ?n \<noteq> NULL then Some ?t else hh_pprev h a)" for a by (simp add: h'_def)
  have n: "?n = (case ys of [] \<Rightarrow> NULL | y # _ \<Rightarrow> y)" using c(3) by (cases ys) auto
  have "seg h' (First head) xs"
  proof (rule seg_cong [OF c(1)])
    show "get_slot t h' = get_slot t h" if "t \<in> set (butlast (First head # map Next xs))" for t
      using slots_before(1) [OF d that] by (simp add: g)
    show "hh_pprev h' a = hh_pprev h a" if "a \<in> set xs" for a using that d n by (auto simp: p split: list.splits)
  qed
  moreover have "chain h' ?t ys"
  proof (cases ys)
    case Nil
    then show ?thesis using n by (simp add: g)
  next
    case (Cons y zs)
    have y: "y \<noteq> NULL" "chain h (Next y) zs" using c(3) Cons by auto
    have "chain h' (Next y) zs"
      using y(2) by (rule chain_cong) (use d Cons n slot_after_other [OF d] in \<open>auto simp: g p\<close>)
    with Cons n y(1) show ?thesis by (simp add: g p)
  qed
  ultimately have "hlist h' head (xs @ ys)" using d by (simp add: hlist_def chain_append)
  with u show ?thesis by blast
qed


text \<open>Pointers of a node outside may change.\<close>

lemma hlist_frame:
  assumes "hlist h head xs" and "x \<notin> set xs"
  shows "hlist (set_pprev x v (put_slot (Next x) w h)) head xs"
  using assms unfolding hlist_def by (auto intro: chain_cong)

lemma hlist_deletes:
  assumes "hlist h head (xs @ x # ys)"
  shows "\<exists>h'. hlist_del x h = Done h' \<and> hlist h' head (xs @ ys)"
    and "\<exists>h'. hlist_del_init x h = Done h' \<and> hlist h' head (xs @ ys)"
proof -
  from hlist_unlinks [OF assms] obtain h1 where h1: "hlist_unlink x h = Done h1" "hlist h1 head (xs @ ys)" by blast
  have "x \<notin> set (xs @ ys)" using assms by (auto simp: hlist_def)
  from hlist_frame [OF h1(2) this] h1(1) show "\<exists>h'. hlist_del x h = Done h' \<and> hlist h' head (xs @ ys)"
    by (simp add: hlist_del_def)
  have "hh_pprev h x \<noteq> None" using assms by (auto simp: hlist_def chain_append)
  with hlist_frame [OF h1(2) \<open>x \<notin> set (xs @ ys)\<close>] h1(1) show "\<exists>h'. hlist_del_init x h = Done h' \<and> hlist h' head (xs @ ys)"
    by (simp add: hlist_del_init_def hlist_unhashed_def INIT_HLIST_NODE_def)
qed

lemma hlist_adds_head:
  assumes "hlist h head xs" and "x \<notin> set xs" and "x \<noteq> NULL"
  shows "hlist (hlist_add_head x head h) head (x # xs)"
proof (cases xs)
  case Nil
  with assms show ?thesis by (simp add: hlist_def hlist_add_head_def Let_def)
next
  case (Cons y ys)
  with assms have y: "hh_first h head = y" "y \<noteq> NULL" "y \<noteq> x" "chain h (Next y) ys" "x \<notin> set ys" "distinct (y # ys)"
    by (auto simp: hlist_def)
  have "chain (hlist_add_head x head h) (Next y) ys"
    using y(4) by (rule chain_cong) (use y in \<open>auto simp: hlist_add_head_def Let_def\<close>)
  with Cons y assms(3) show ?thesis by (simp add: hlist_def hlist_add_head_def Let_def)
qed

lemma hlist_adds_after:
  assumes "hlist h head (xs @ n # ys)" and "x \<notin> set (xs @ n # ys)" and "x \<noteq> NULL"
  shows "hlist (hlist_add_after n x h) head (xs @ n # x # ys)"
proof -
  let ?h = "hlist_add_after n x h" and ?t = "slot_after (First head) xs"
  from assms(1) have d: "distinct (xs @ n # ys)"
    and c: "seg h (First head) xs" "get_slot ?t h = n" "n \<noteq> NULL" "hh_pprev h n = Some ?t" "chain h (Next n) ys"
    by (auto simp: hlist_def chain_append)
  have next_n: "hh_next h n = (case ys of [] \<Rightarrow> NULL | y # _ \<Rightarrow> y)" using c(5) by (cases ys) auto
  have g: "get_slot s ?h = (if s = Next n then x else if s = Next x then hh_next h n else get_slot s h)" for s
    using assms(2) by (auto simp: hlist_add_after_def Let_def)
  have p: "hh_pprev ?h a = (if a = hh_next h n \<and> a \<noteq> NULL then Some (Next x) else if a = x then Some (Next n) else hh_pprev h a)" for a
    using assms(2) by (auto simp: hlist_add_after_def Let_def)
  have nx: "hh_next h n \<noteq> x" using next_n assms(2,3) by (auto split: list.splits)
  have "seg ?h (First head) xs"
  proof (rule seg_cong [OF c(1)])
    show "get_slot t ?h = get_slot t h" if "t \<in> set (butlast (First head # map Next xs))" for t
    proof -
      have "distinct (xs @ x # n # ys)" using d assms(2) by auto
      from slots_before(2) [OF this that] show ?thesis by (simp add: g)
    qed
    show "hh_pprev ?h a = hh_pprev h a" if "a \<in> set xs" for a
      using that d assms(2) next_n by (auto simp: p split: list.splits)
  qed
  moreover have "get_slot ?t ?h = n" "hh_pprev ?h n = Some ?t"
  proof -
    have "?t \<noteq> Next n" "?t \<noteq> Next x"
      using slot_after_other [OF d] slot_after_other [of xs "[x]" x head] d assms(2) by auto
    then show "get_slot ?t ?h = n" using c(2) by (simp add: g)
    show "hh_pprev ?h n = Some ?t" using c(3,4) d next_n assms(2) by (auto simp: p split: list.splits)
  qed
  moreover have "chain ?h (Next x) ys"
  proof (cases ys)
    case Nil
    then show ?thesis using next_n assms(2) by (simp add: g)
  next
    case (Cons y zs)
    have y: "y \<noteq> NULL" "chain h (Next y) zs" using c(5) Cons by auto
    have "chain ?h (Next y) zs"
      using y(2) by (rule chain_cong) (use d Cons next_n assms(2) in \<open>auto simp: g p\<close>)
    with Cons next_n y(1) assms(2) show ?thesis by (auto simp: g p)
  qed
  ultimately show ?thesis using c(3) d assms(2,3) nx by (simp add: hlist_def chain_append g p)
qed

lemma hlist_adds_before:
  assumes "hlist h head (xs @ n # ys)" and "x \<notin> set (xs @ n # ys)" and "x \<noteq> NULL"
  shows "\<exists>h'. hlist_add_before x n h = Done h' \<and> hlist h' head (xs @ x # n # ys)"
proof -
  let ?t = "slot_after (First head) xs"
  from assms(1) have d: "distinct (xs @ n # ys)"
    and c: "seg h (First head) xs" "get_slot ?t h = n" "n \<noteq> NULL" "hh_pprev h n = Some ?t" "chain h (Next n) ys"
    by (auto simp: hlist_def chain_append)
  define h' where "h' = put_slot ?t x (set_pprev n (Some (Next x)) (put_slot (Next x) n (set_pprev x (Some ?t) h)))"
  have nx: "n \<noteq> x" using assms(2) by auto
  then have r: "hlist_add_before x n h = Done h'" using c(3,4) by (simp add: hlist_add_before_def Let_def h'_def)
  have g: "get_slot s h' = (if s = ?t then x else if s = Next x then n else get_slot s h)" for s by (simp add: h'_def)
  have p: "hh_pprev h' a = (if a = n then Some (Next x) else if a = x then Some ?t else hh_pprev h a)" for a by (simp add: h'_def)
  have d': "distinct (xs @ x # n # ys)" using d assms(2) by auto
  have "seg h' (First head) xs"
  proof (rule seg_cong [OF c(1)])
    show "get_slot t h' = get_slot t h" if "t \<in> set (butlast (First head # map Next xs))" for t
      using slots_before [OF d' that] by (simp add: g)
    show "hh_pprev h' a = hh_pprev h a" if "a \<in> set xs" for a using that d' by (auto simp: p)
  qed
  moreover have t: "?t \<noteq> Next x" "?t \<noteq> Next n" using slot_after_other [OF d'] by auto
  moreover have other: "Next y \<noteq> ?t" if "y \<in> set (x # n # ys)" for y using slot_after_other [OF d' that, of head] by auto
  moreover have "chain h' (Next n) ys"
  proof (rule chain_cong [OF c(5)])
    show "get_slot t h' = get_slot t h" if "t \<in> set (Next n # map Next ys)" for t
      using that d' other by (auto simp: g)
    show "hh_pprev h' a = hh_pprev h a" if "a \<in> set ys" for a using that d' by (auto simp: p)
  qed
  ultimately have "hlist h' head (xs @ x # n # ys)" using c(3) d' assms(3) nx by (simp add: hlist_def chain_append g p)
  with r show ?thesis by blast
qed

lemma hlist_walk_chain: "chain h s xs \<Longrightarrow> hlist_walk (get_slot s h) h = Some xs"
proof (induction xs arbitrary: s)
  case (Cons x xs)
  then have "hlist_walk (hh_next h x) h = Some xs" using Cons.IH [of "Next x"] by simp
  with Cons.prems show ?case by (subst hlist_walk.simps) simp
qed (simp add: hlist_walk.simps)


section \<open>The interface of both kinds of lists\<close>

text \<open>A list that can take any usable element in front and lose any element it has.\<close>

locale linked_list =
  fixes lists :: "'h \<Rightarrow> addr list \<Rightarrow> bool"
    and usable :: "addr \<Rightarrow> bool"
    and add :: "addr \<Rightarrow> 'h \<Rightarrow> 'h run"
    and del :: "addr \<Rightarrow> 'h \<Rightarrow> 'h run"
  assumes add_law: "lists h xs \<Longrightarrow> usable x \<Longrightarrow> x \<notin> set xs \<Longrightarrow> \<exists>h'. add x h = Done h' \<and> lists h' (x # xs)"
    and del_law: "lists h (xs @ x # ys) \<Longrightarrow> \<exists>h'. del x h = Done h' \<and> lists h' (xs @ ys)"
    and distinct_law: "lists h xs \<Longrightarrow> distinct xs"

datatype list_op = Add addr | Del addr

fun run_ops :: "(addr \<Rightarrow> 'h \<Rightarrow> 'h run) \<Rightarrow> (addr \<Rightarrow> 'h \<Rightarrow> 'h run) \<Rightarrow> list_op list \<Rightarrow> 'h \<Rightarrow> 'h run" where
  "run_ops add del [] h = Done h"
| "run_ops add del (Add x # ops) h = run_bind (add x h) (run_ops add del ops)"
| "run_ops add del (Del x # ops) h = run_bind (del x h) (run_ops add del ops)"

text \<open>The same on plain lists; \<open>None\<close>: an operation is not allowed.\<close>

fun list_ops :: "(addr \<Rightarrow> bool) \<Rightarrow> list_op list \<Rightarrow> addr list \<Rightarrow> addr list option" where
  "list_ops usable [] xs = Some xs"
| "list_ops usable (Add x # ops) xs = (if usable x \<and> x \<notin> set xs then list_ops usable ops (x # xs) else None)"
| "list_ops usable (Del x # ops) xs = (if x \<in> set xs then list_ops usable ops (remove1 x xs) else None)"

context linked_list begin

lemma ops_refine:
  "lists h xs \<Longrightarrow> list_ops usable ops xs = Some ys \<Longrightarrow> \<exists>h'. run_ops add del ops h = Done h' \<and> lists h' ys"
proof (induction ops arbitrary: h xs)
  case (Cons op ops)
  show ?case
  proof (cases op)
    case (Add x)
    with Cons.prems(2) have a: "usable x" "x \<notin> set xs" "list_ops usable ops (x # xs) = Some ys" by (simp_all split: if_splits)
    from add_law [OF Cons.prems(1) a(1,2)] obtain h1 where "add x h = Done h1" "lists h1 (x # xs)" by blast
    with Cons.IH [OF this(2) a(3)] Add show ?thesis by simp
  next
    case (Del x)
    with Cons.prems(2) have a: "x \<in> set xs" "list_ops usable ops (remove1 x xs) = Some ys" by (simp_all split: if_splits)
    from split_list_first [OF a(1)] obtain us vs where xs: "xs = us @ x # vs" "x \<notin> set us" by blast
    then have r: "remove1 x xs = us @ vs" by (simp add: remove1_append)
    from del_law [of h us x vs] Cons.prems(1) xs obtain h1 where "del x h = Done h1" "lists h1 (us @ vs)" by blast
    with Cons.IH [of h1 "us @ vs"] a(2) r Del show ?thesis by simp
  qed
qed simp

text \<open>An element that has just been added can be taken out again, and nothing has changed.\<close>

lemma add_del:
  assumes "lists h xs" and "usable x" and "x \<notin> set xs"
  shows "\<exists>h'. run_ops add del [Add x, Del x] h = Done h' \<and> lists h' xs"
  using ops_refine [OF assms(1), of "[Add x, Del x]" xs] assms(2,3) by simp

end

lemma ring_distinct: "ring h head xs \<Longrightarrow> distinct xs"
  by (simp add: ring_def)

lemma hlist_distinct: "hlist h head xs \<Longrightarrow> distinct xs"
  by (simp add: hlist_def)

interpretation circular: linked_list "\<lambda>h. ring h head" "\<lambda>x. x \<noteq> head" "\<lambda>x h. Done (list_add x head h)" "\<lambda>x h. Done (list_del x h)"
  for head :: addr
  by unfold_locales (auto intro: ring_add ring_del ring_distinct)

interpretation hashed: linked_list "\<lambda>h. hlist h head" "\<lambda>x. x \<noteq> NULL" "\<lambda>x h. Done (hlist_add_head x head h)" hlist_del
  for head :: addr
  by unfold_locales (auto intro: hlist_adds_head hlist_deletes(1) hlist_distinct)

section \<open>Properties\<close>

text \<open>
  C35: both kinds of lists implement lists.  Any sequence of insertions in front and removals that is allowed on a list
  runs on a circular list and on a list with a single head pointer without a fault, and leaves both well linked with
  the elements the list operations give.
\<close>

theorem list_operations_refine:
  assumes "ring h head xs" and "hlist g bucket xs" and "list_ops (\<lambda>x. x \<noteq> head \<and> x \<noteq> NULL) ops xs = Some ys"
  shows "\<exists>h' g'. run_ops (\<lambda>x h. Done (list_add x head h)) (\<lambda>x h. Done (list_del x h)) ops h = Done h' \<and> ring h' head ys
     \<and> run_ops (\<lambda>x h. Done (hlist_add_head x bucket h)) hlist_del ops g = Done g' \<and> hlist g' bucket ys"
proof -
  have weaken: "list_ops P ops xs = Some ys \<Longrightarrow> (\<And>x. P x \<Longrightarrow> Q x) \<Longrightarrow> list_ops Q ops xs = Some ys" for P Q and xs ys :: "addr list"
    by (induction P ops xs rule: list_ops.induct) (auto split: if_splits)
  have "list_ops (\<lambda>x. x \<noteq> head) ops xs = Some ys" "list_ops (\<lambda>x. x \<noteq> NULL) ops xs = Some ys"
    by (rule weaken [OF assms(3)]; simp)+
  then show ?thesis using circular.ops_refine [OF assms(1)] hashed.ops_refine [OF assms(2)] by blast
qed

theorem list_operations_refine_witness:
  "\<exists>h' g'. run_ops (\<lambda>x h. Done (list_add x 1 h)) (\<lambda>x h. Done (list_del x h)) [Add 5, Add 6, Del 5, Add 7]
         (INIT_LIST_HEAD 1 \<lparr>lh_next = \<lambda>_. NULL, lh_prev = \<lambda>_. NULL\<rparr>) = Done h' \<and> ring h' 1 [7, 6]
     \<and> run_ops (\<lambda>x h. Done (hlist_add_head x 1 h)) hlist_del [Add 5, Add 6, Del 5, Add 7]
         \<lparr>hh_first = \<lambda>_. NULL, hh_next = \<lambda>_. NULL, hh_pprev = \<lambda>_. None\<rparr> = Done g' \<and> hlist g' 1 [7, 6]"
  by (rule list_operations_refine [OF ring_init]) (simp_all add: hlist_def NULL_def)

end
