(* ===== verification/Cstr.thy ===== *)
theory Cstr
  imports Prelude
begin

text \<open>
  Plain C strings: the number readers and the decimal printer of the C library that the client
  calls, and the inline helpers of \<^verbatim>\<open>src/string/string.h\<close> that work on \<open>char *\<close>.
  A \<open>char *\<close> that may be null is a \<open>string option\<close>.
\<close>

section \<open>Decimal text\<close>

definition digit_char :: "nat \<Rightarrow> char" where
  "digit_char d = char_of (48 + d)"

fun nat_dec :: "nat \<Rightarrow> string" where
  "nat_dec n = (if n < 10 then [digit_char n] else nat_dec (n div 10) @ [digit_char (n mod 10)])"

declare nat_dec.simps [simp del]

definition int_dec :: "int \<Rightarrow> string" where
  "int_dec i = (if i < 0 then CHR ''-'' # nat_dec (nat (- i)) else nat_dec (nat i))"

text \<open>Value of a digit in a base up to 36; 36 for a character that is no digit.\<close>

definition digit_val :: "char \<Rightarrow> nat" where
  "digit_val c =
     (if isdigit c then code c - 48
      else if 97 \<le> code c \<and> code c \<le> 122 then code c - 87
      else if 65 \<le> code c \<and> code c \<le> 90 then code c - 55
      else 36)"

fun read_digits :: "nat \<Rightarrow> nat \<Rightarrow> string \<Rightarrow> nat \<times> string" where
  "read_digits base acc [] = (acc, [])"
| "read_digits base acc (c # cs) =
     (if digit_val c < base then read_digits base (acc * base + digit_val c) cs else (acc, c # cs))"

definition read_sign :: "string \<Rightarrow> bool \<times> string" where
  "read_sign s = (case s of c # cs \<Rightarrow> if c = CHR ''-'' then (True, cs)
                                  else if c = CHR ''+'' then (False, cs) else (False, s)
                   | [] \<Rightarrow> (False, []))"

text \<open>\<open>strtol(s, &endp, 10)\<close>: the value, clamped to 64 bits, and the text from \<open>endp\<close> on.\<close>

definition strtol10 :: "string \<Rightarrow> int \<times> string" where
  "strtol10 s =
     (let (neg, body) = read_sign (dropWhile isspace s);
          (v, rest) = read_digits 10 0 body
      in if body = [] \<or> \<not> isdigit (hd body) then (0, s)
         else (if neg then max (- (2 ^ 63)) (- int v) else min (2 ^ 63 - 1) (int v), rest))"

text \<open>\<open>atoi\<close>, as the GNU library computes it: \<open>strtol\<close> cut down to 32 bits.\<close>

definition atoi :: "string \<Rightarrow> int" where
  "atoi s = sint (word_of_int (fst (strtol10 s)) :: 32 word)"

text \<open>
  \<open>strtoul(s, NULL, 0)\<close>: base 16 after \<open>0x\<close> and a hexadecimal digit, base 8 after \<open>0\<close>,
  else base 10; a negative number is negated modulo \<open>2^64\<close>, an overflow gives \<open>ULONG_MAX\<close>.
\<close>

definition strtoul0 :: "string \<Rightarrow> nat" where
  "strtoul0 s =
     (let (neg, body) = read_sign (dropWhile isspace s);
          hex = (case body of a # b # c # _ \<Rightarrow> a = CHR ''0'' \<and> tolower b = CHR ''x'' \<and> digit_val c < 16
                            | _ \<Rightarrow> False);
          base = (if hex then 16 else if body \<noteq> [] \<and> hd body = CHR ''0'' then 8 else 10);
          (v, rest) = read_digits base 0 (if hex then drop 2 body else body)
      in if v \<ge> 2 ^ 64 then 2 ^ 64 - 1 else if neg then (2 ^ 64 - v) mod 2 ^ 64 else v)"

section \<open>Helpers of string.h\<close>

definition str_is_empty :: "string option \<Rightarrow> bool" where
  "str_is_empty s = (if s \<noteq> None \<and> 0 < length (the s) then False else True)"

definition str_is_nonempty :: "string option \<Rightarrow> bool" where
  "str_is_nonempty s = (if s \<noteq> None \<and> 0 < length (the s) then True else False)"

definition str_is_true :: "string option \<Rightarrow> bool \<Rightarrow> bool" where
  "str_is_true s def =
     (if str_is_nonempty s
      then if the s = ''0'' \<or> strcaseeq (the s) ''no'' then False
           else if the s = ''1'' \<or> strcaseeq (the s) ''yes'' then True
           else def
      else def)"

text \<open>
  \<open>str_split_at\<close> cuts the string at the first delimiter and returns the remainder; the pair is
  (what is left in the string, what is returned).
\<close>

definition str_split_at :: "string \<Rightarrow> char \<Rightarrow> string \<times> string option" where
  "str_split_at s d =
     (if d \<in> set s then (takeWhile (\<lambda>c. c \<noteq> d) s, Some (tl (dropWhile (\<lambda>c. c \<noteq> d) s)))
      else (s, None))"

definition str_split_at_right :: "string \<Rightarrow> char \<Rightarrow> string \<times> string option" where
  "str_split_at_right s d =
     (if d \<in> set s
      then (rev (tl (dropWhile (\<lambda>c. c \<noteq> d) (rev s))), Some (rev (takeWhile (\<lambda>c. c \<noteq> d) (rev s))))
      else (s, None))"

definition str_alldig :: "string \<Rightarrow> bool" where
  "str_alldig s = (if s = [] then False else list_all isdigit s)"

definition str_skip_spaces :: "string \<Rightarrow> string" where
  "str_skip_spaces s = dropWhile isspace s"

definition str_trim :: "string \<Rightarrow> string" where
  "str_trim s =
     (let s' = str_skip_spaces s
      in if s' = [] then s' else rev (dropWhile isspace (rev s')))"

section \<open>strtok\_r and strncasecmp\<close>

text \<open>
  \<open>strtok_r\<close> with a set of delimiters: the token and what is left for the next call; \<open>None\<close> when
  only delimiters are left.
\<close>

definition strtok_r :: "string \<Rightarrow> string \<Rightarrow> (string \<times> string) option" where
  "strtok_r delim s =
     (let t = dropWhile (\<lambda>c. c \<in> set delim) s
      in if t = [] then None
         else Some (takeWhile (\<lambda>c. c \<notin> set delim) t, tl (dropWhile (\<lambda>c. c \<notin> set delim) t)))"

definition strncaseeq :: "nat \<Rightarrow> string \<Rightarrow> string \<Rightarrow> bool" where
  "strncaseeq n a b \<longleftrightarrow> map tolower (take n a) = map tolower (take n b)"

lemma length_tl_dropWhile: "xs \<noteq> [] \<Longrightarrow> length (tl (dropWhile P xs)) < length xs"
proof -
  assume "xs \<noteq> []"
  then have "0 < length xs" by simp
  then show ?thesis using length_dropWhile_le [of P xs] unfolding length_tl by linarith
qed

lemma strtok_r_shorter:
  assumes "strtok_r d s = Some (t, r)" shows "length r < length s"
proof -
  let ?t = "dropWhile (\<lambda>c. c \<in> set d) s"
  have "?t \<noteq> []" and r: "r = tl (dropWhile (\<lambda>c. c \<notin> set d) ?t)"
    using assms by (auto simp: strtok_r_def Let_def split: if_splits)
  then have "length r < length ?t" using length_tl_dropWhile [of ?t] by simp
  also have "\<dots> \<le> length s" by (rule length_dropWhile_le)
  finally show ?thesis .
qed

lemma strtok_r_line:
  assumes "l \<noteq> []" and "d \<notin> set l"
  shows "strtok_r [d] (l @ d # rest) = Some (l, rest)"
proof -
  have "dropWhile (\<lambda>c. c \<in> set [d]) (l @ d # rest) = l @ d # rest" using assms by (cases l) auto
  moreover have "takeWhile (\<lambda>c. c \<notin> set [d]) (l @ d # rest) = l" "dropWhile (\<lambda>c. c \<notin> set [d]) (l @ d # rest) = d # rest"
    using assms(2) by (induction l) auto
  ultimately show ?thesis using assms(1) by (simp add: strtok_r_def Let_def)
qed

section \<open>Facts\<close>

lemma str_is_nonempty_iff [simp]: "str_is_nonempty s \<longleftrightarrow> \<not> str_is_empty s"
  by (simp add: str_is_empty_def str_is_nonempty_def)

lemma str_is_empty_Some [simp]: "str_is_empty (Some s) \<longleftrightarrow> s = []"
  by (simp add: str_is_empty_def)

lemma str_is_empty_None [simp]: "str_is_empty None"
  by (simp add: str_is_empty_def)

lemma str_split_at_append: "d \<notin> set a \<Longrightarrow> str_split_at (a @ d # b) d = (a, Some b)"
  by (induction a) (auto simp: str_split_at_def)

lemma str_split_at_Some:
  assumes "str_split_at s d = (a, Some b)"
  shows "s = a @ d # b \<and> d \<notin> set a"
proof -
  from assms have "d \<in> set s"
    by (auto simp: str_split_at_def split: if_splits)
  then obtain xs ys where s: "s = xs @ d # ys" "d \<notin> set xs"
    by (meson split_list_first)
  with assms str_split_at_append [of d xs ys] show ?thesis by simp
qed

lemma str_split_at_none: "d \<notin> set s \<Longrightarrow> str_split_at s d = (s, None)"
  by (simp add: str_split_at_def)

lemma isdigit_digit_char [simp]: "d < 10 \<Longrightarrow> isdigit (digit_char d)"
  by (simp add: isdigit_def digit_char_def)

lemma digit_val_digit_char [simp]: "d < 10 \<Longrightarrow> digit_val (digit_char d) = d"
  by (simp add: digit_val_def isdigit_def digit_char_def)

lemma digit_val_less_10 [simp]: "digit_val c < 10 \<longleftrightarrow> isdigit c"
  by (auto simp: digit_val_def isdigit_def)

lemma nat_dec_isdigit: "c \<in> set (nat_dec n) \<Longrightarrow> isdigit c"
proof (induction n rule: nat_dec.induct)
  case (1 n)
  then show ?case by (subst (asm) (2) nat_dec.simps) (auto split: if_splits)
qed

lemma nat_dec_nonempty [simp]: "nat_dec n \<noteq> []"
  by (subst nat_dec.simps) simp

lemma nat_dec_length: "n < 10 ^ k \<Longrightarrow> 0 < k \<Longrightarrow> length (nat_dec n) \<le> k"
proof (induction n arbitrary: k rule: nat_dec.induct)
  case (1 n)
  show ?case
  proof (cases "n < 10")
    case False
    with "1.prems" obtain j where k: "k = Suc j" by (cases k) auto
    with "1.prems"(1) False have "0 < j" by (cases j) auto
    note j = k this
    with "1.prems" have "n div 10 < 10 ^ j" by (simp add: less_mult_imp_div_less mult.commute)
    with 1 False j show ?thesis by (subst nat_dec.simps) simp
  qed (use "1.prems" in \<open>subst nat_dec.simps, simp\<close>)
qed

lemma read_digits_append:
  "(\<And>c. c \<in> set ds \<Longrightarrow> digit_val c < b) \<Longrightarrow>
   read_digits b acc (ds @ rest) = read_digits b (fold (\<lambda>c a. a * b + digit_val c) ds acc) rest"
  by (induction ds arbitrary: acc) auto

lemma nat_dec_value: "fold (\<lambda>c a. a * 10 + digit_val c) (nat_dec n) 0 = n"
proof (induction n rule: nat_dec.induct)
  case (1 n)
  then show ?case by (subst nat_dec.simps) simp
qed

text \<open>Reading a printed number gives it back.\<close>

lemma read_digits_nat_dec: "read_digits 10 0 (nat_dec n) = (n, [])"
  using read_digits_append [of "nat_dec n" 10 0 "[]"] nat_dec_isdigit nat_dec_value by simp

lemma hd_nat_dec_isdigit: "isdigit (hd (nat_dec n))"
  by (rule nat_dec_isdigit [of _ n]) simp

lemma isdigit_first:
  "isdigit c \<Longrightarrow> dropWhile isspace (c # cs) = c # cs \<and> read_sign (c # cs) = (False, c # cs)"
  by (auto simp: read_sign_def isdigit_def isspace_def)

lemma strtol10_nat_dec: "n < 2 ^ 63 \<Longrightarrow> strtol10 (nat_dec n) = (int n, [])"
proof -
  assume n: "n < 2 ^ 63"
  obtain c cs where c: "nat_dec n = c # cs" by (cases "nat_dec n") auto
  then have "isdigit c" using hd_nat_dec_isdigit [of n] by simp
  with c isdigit_first [of c cs] read_digits_nat_dec [of n] n show ?thesis
    by (simp add: strtol10_def)
qed

lemma sint_word32: "- (2 ^ 31) \<le> i \<Longrightarrow> i < 2 ^ 31 \<Longrightarrow> sint (word_of_int i :: 32 word) = i"
  by (simp only: sint_sbintrunc') (simp add: signed_take_bit_int_eq_self)

lemma atoi_nat_dec: "n < 2 ^ 31 \<Longrightarrow> atoi (nat_dec n) = int n"
  using sint_word32 [of "int n"] by (simp add: atoi_def strtol10_nat_dec)

lemma str_alldig_nat_dec: "str_alldig (nat_dec n)"
  by (auto simp: str_alldig_def list_all_iff dest: nat_dec_isdigit)

text \<open>What trimming leaves.\<close>

lemma str_trim_decomp:
  obtains p q where "s = p @ str_trim s @ q" "list_all isspace p" "list_all isspace q"
proof -
  let ?s = "dropWhile isspace s"
  let ?t = "rev (dropWhile isspace (rev ?s))"
  have "s = takeWhile isspace s @ ?s" by simp
  moreover have "?s = ?t @ rev (takeWhile isspace (rev ?s))"
    by (metis rev_append rev_rev_ident takeWhile_dropWhile_id)
  moreover have "list_all isspace (takeWhile isspace s)"
    "list_all isspace (rev (takeWhile isspace (rev ?s)))"
    by (auto simp: list_all_iff dest: set_takeWhileD)
  moreover have "str_trim s = ?t"
    by (cases "?s = []") (simp_all only: str_trim_def str_skip_spaces_def Let_def if_True if_False if_cancel
        rev.simps dropWhile.simps)
  ultimately show ?thesis using that by metis
qed

lemma str_trim_id:
  assumes "s \<noteq> []" and "\<not> isspace (hd s)" and "\<not> isspace (last s)"
  shows "str_trim s = s"
proof -
  have "str_skip_spaces s = s" using assms(1,2) by (cases s) (simp_all add: str_skip_spaces_def)
  moreover have "dropWhile isspace (rev s) = rev s" using assms(1,3) by (cases s rule: rev_cases) simp_all
  ultimately show ?thesis using assms(1) by (simp add: str_trim_def Let_def)
qed

text \<open>The text of an \<open>int\<close>.\<close>

lemma int_dec_length: "length (int_dec (sint (w :: 32 word))) \<le> 11"
proof -
  have b: "- (2 ^ 31) \<le> sint w" "sint w < 2 ^ 31" using sint_range_size [of w] by (simp_all add: word_size)
  then have "nat (sint w) < 10 ^ 10" "nat (- sint w) < 10 ^ 10" by simp_all
  from nat_dec_length [OF this(1)] nat_dec_length [OF this(2)] show ?thesis by (simp add: int_dec_def)
qed

end
