(* ===== verification/Strbuf.thy ===== *)
theory Strbuf
  imports Cstr
begin

unbundle bit_operations_syntax

text \<open>
  The growable buffer \<open>struct string\<close> of \<^verbatim>\<open>src/string/\<close>: its record, one definition
  per function of the library, the well-formedness invariant, and what every operation does to
  the bytes stored.
\<close>

section \<open>State\<close>

text \<open>\<open>sb_s\<close> is the heap block the buffer points to, \<open>None\<close> for a null pointer.\<close>

record strbuf =
  sb_length :: size_t
  sb_size :: size_t
  sb_growby :: size_t
  sb_s :: "char list option"

definition content :: "strbuf \<Rightarrow> char list" where
  "content s = (case sb_s s of None \<Rightarrow> [] | Some b \<Rightarrow> take (unat (sb_length s)) b)"

section \<open>Memory primitives\<close>

text \<open>
  \<open>realloc(s, size + growby)\<close> followed by \<open>memset(buf + size, 0, growby)\<close>: the old bytes
  are kept, the new ones are zero.  The sum is computed in \<open>size_t\<close>, so a sum that wraps asks
  for a block the memset overruns.
\<close>

definition realloc_zeroed :: "libc \<Rightarrow> char list option \<Rightarrow> size_t \<Rightarrow> size_t \<Rightarrow> char list option run" where
  "realloc_zeroed lc s sz growby =
     (let n = unat (sz + growby) in
      if \<not> lc_alloc lc n then Done None
      else if unat sz + unat growby \<le> n
      then Done (Some (take (unat sz) (case s of None \<Rightarrow> [] | Some b \<Rightarrow> b)
                         @ replicate (unat growby) NUL))
      else Fault Out_of_bounds)"

definition store_bytes :: "char list option \<Rightarrow> nat \<Rightarrow> char list \<Rightarrow> char list option run" where
  "store_bytes s i xs =
     (if xs = [] then Done s
      else case s of
        None \<Rightarrow> Fault Null_deref
      | Some b \<Rightarrow> if i + length xs \<le> length b
                  then Done (Some (take i b @ xs @ drop (i + length xs) b))
                  else Fault Out_of_bounds)"

section \<open>Operations\<close>

text \<open>\<^verbatim>\<open>string_init.c\<close>\<close>

definition string_init :: "libc \<Rightarrow> size_t \<Rightarrow> size_t \<Rightarrow> strbuf" where
  "string_init lc sz growby =
     (if lc_alloc lc (unat sz)
      then \<lparr>sb_length = 0, sb_size = sz, sb_growby = growby, sb_s = Some (replicate (unat sz) NUL)\<rparr>
      else \<lparr>sb_length = 0, sb_size = 0, sb_growby = growby, sb_s = None\<rparr>)"

text \<open>\<^verbatim>\<open>string_lazyinit.c\<close>\<close>

definition string_lazyinit :: "size_t \<Rightarrow> strbuf" where
  "string_lazyinit growby = \<lparr>sb_length = 0, sb_size = 0, sb_growby = growby, sb_s = None\<rparr>"

text \<open>\<^verbatim>\<open>string_clear.c\<close>\<close>

definition string_clear :: "strbuf \<Rightarrow> strbuf" where
  "string_clear s = s\<lparr>sb_length := 0\<rparr>"

text \<open>\<^verbatim>\<open>string_free.c\<close>\<close>

definition string_free :: "strbuf \<Rightarrow> strbuf" where
  "string_free s = (if sb_s s \<noteq> None then s\<lparr>sb_s := None, sb_size := 0, sb_length := 0\<rparr> else s)"

text \<open>\<^verbatim>\<open>string_move.c\<close>: the pair (source afterwards, destination afterwards).\<close>

definition string_move :: "strbuf \<Rightarrow> strbuf \<times> strbuf" where
  "string_move s1 = (s1\<lparr>sb_s := None, sb_size := 0, sb_length := 0\<rparr>, s1)"

text \<open>\<^verbatim>\<open>string_get.c\<close>\<close>

definition string_get :: "strbuf \<Rightarrow> char list option" where
  "string_get s = sb_s s"

text \<open>\<^verbatim>\<open>string_putc.c\<close>\<close>

definition string_putc :: "libc \<Rightarrow> strbuf \<Rightarrow> char \<Rightarrow> (bool \<times> strbuf) run" where
  "string_putc lc s c =
     run_bind
       (if sb_size s = sb_length s
        then run_bind (realloc_zeroed lc (sb_s s) (sb_size s) (sb_growby s))
               (\<lambda>buf. Done (map_option (\<lambda>b. s\<lparr>sb_size := sb_size s + sb_growby s, sb_s := Some b\<rparr>) buf))
        else Done (Some s))
       (\<lambda>grown. case grown of
          None \<Rightarrow> Done (False, s)
        | Some s' \<Rightarrow> run_bind (store_bytes (sb_s s') (unat (sb_length s')) [c])
            (\<lambda>b. Done (True, s'\<lparr>sb_s := b, sb_length := sb_length s' + 1\<rparr>)))"

text \<open>
  The growth loop of \<^verbatim>\<open>string_concatb.c\<close> and \<^verbatim>\<open>string_read.c\<close>, in \<open>size_t\<close> arithmetic.
  \<open>None\<close>: the loop does not end; \<open>Some None\<close>: it stops because the size would wrap;
  \<open>Some (Some g)\<close>: it stops with increment \<open>g\<close>.
\<close>

partial_function (option) grow_loop ::
  "size_t \<Rightarrow> size_t \<Rightarrow> size_t \<Rightarrow> size_t \<Rightarrow> size_t \<Rightarrow> size_t option option" where
  "grow_loop sz len sgrow need growby =
     (if sz + growby - len < need
      then (let growby' = growby + sgrow in
            if sz + growby' < sz then Some None
            else grow_loop sz len sgrow need growby')
      else Some (Some growby))"

text \<open>
  \<^verbatim>\<open>string_concatb.c\<close>.  \<open>sta\<close> is the list of the bytes handed over.  The memset comes before
  the test of the result of realloc, so a failed realloc is a null dereference.
\<close>

definition string_concatb :: "libc \<Rightarrow> strbuf \<Rightarrow> char list \<Rightarrow> (bool \<times> strbuf) run" where
  "string_concatb lc s sta =
     (let len = (of_nat (length sta) :: size_t);
          copy = (\<lambda>s'. run_bind (store_bytes (sb_s s') (unat (sb_length s')) sta)
                    (\<lambda>b. Done (True, s'\<lparr>sb_s := b, sb_length := sb_length s' + len\<rparr>)))
      in if sb_size s - sb_length s < len
         then if sb_growby s = 0 then Done (False, s)
              else case grow_loop (sb_size s) (sb_length s) (sb_growby s) len (sb_growby s) of
                None \<Rightarrow> Diverge
              | Some None \<Rightarrow> Done (False, s)
              | Some (Some g) \<Rightarrow>
                  run_bind (realloc_zeroed lc (sb_s s) (sb_size s) g)
                    (\<lambda>buf. case buf of
                       None \<Rightarrow> Fault Null_deref
                     | Some b \<Rightarrow> copy (s\<lparr>sb_size := sb_size s + g, sb_s := Some b\<rparr>))
         else copy s)"

text \<open>\<^verbatim>\<open>string_concat.c\<close>: the terminating zero is copied and then taken off the length.\<close>

definition string_concat :: "libc \<Rightarrow> strbuf \<Rightarrow> string \<Rightarrow> (bool \<times> strbuf) run" where
  "string_concat lc s sta =
     run_bind (string_concatb lc s (sta @ [NUL]))
       (\<lambda>(ok, s'). if \<not> ok then Done (False, s')
                   else Done (True, s'\<lparr>sb_length := sb_length s' - 1\<rparr>))"

text \<open>\<^verbatim>\<open>string_initfromstringz.c\<close>\<close>

definition string_initfromstringz :: "libc \<Rightarrow> string \<Rightarrow> (bool \<times> strbuf) run" where
  "string_initfromstringz lc str = string_concatb lc (string_lazyinit (of_nat (length str))) str"

text \<open>\<open>string_concats\<close> of \<^verbatim>\<open>string.h\<close>\<close>

definition string_concats :: "libc \<Rightarrow> strbuf \<Rightarrow> strbuf \<Rightarrow> (bool \<times> strbuf) run" where
  "string_concats lc s ss = string_concatb lc s (content ss)"

text \<open>
  \<open>string_ensurez\<close> of \<^verbatim>\<open>string.h\<close>.  With a block and length 0 it reads the byte in front
  of the block (\<open>lc_before\<close>).
\<close>

definition string_last_byte :: "libc \<Rightarrow> strbuf \<Rightarrow> char list \<Rightarrow> char run" where
  "string_last_byte lc s b =
     (if sb_length s = 0 then Done (lc_before lc)
      else if unat (sb_length s - 1) < length b then Done (b ! unat (sb_length s - 1))
      else Fault Out_of_bounds)"

definition string_ensurez :: "libc \<Rightarrow> strbuf \<Rightarrow> (bool \<times> strbuf) run" where
  "string_ensurez lc s =
     (let append = run_bind (string_putc lc s NUL)
            (\<lambda>(ok, s'). if \<not> ok then Done (False, s')
                        else Done (True, s'\<lparr>sb_length := sb_length s' - 1\<rparr>))
      in case sb_s s of
           None \<Rightarrow> append
         | Some b \<Rightarrow> run_bind (string_last_byte lc s b)
             (\<lambda>c. if c = NUL then Done (True, s) else append))"

text \<open>\<open>string_mkstatic\<close> of \<^verbatim>\<open>string.h\<close>\<close>

definition string_mkstatic :: "string \<Rightarrow> strbuf" where
  "string_mkstatic z =
     \<lparr>sb_length = of_nat (length z), sb_size = of_nat (length z), sb_growby = 0, sb_s = Some z\<rparr>"

text \<open>
  \<^verbatim>\<open>string_equals.c\<close>.  Two records never share a block here, so the pointer test
  \<open>s1->s == s2->s\<close> holds exactly when both are null.
\<close>

definition string_equals :: "strbuf \<Rightarrow> strbuf \<Rightarrow> bool" where
  "string_equals s1 s2 =
     (if sb_s s1 = None \<and> sb_s s2 = None then True
      else if sb_length s1 \<noteq> sb_length s2 then False
      else if sb_s s1 = None \<or> sb_s s2 = None then False
      else take (unat (sb_length s1)) (the (sb_s s1)) = take (unat (sb_length s1)) (the (sb_s s2)))"

text \<open>
  \<^verbatim>\<open>string_read.c\<close>: as \<open>string_concatb\<close>, without the test for a zero increment and with the
  null test in the right place.  \<open>rd\<close> is the outcome of the read call: the bytes read, or
  \<open>None\<close> for an error.
\<close>

definition string_read :: "libc \<Rightarrow> strbuf \<Rightarrow> size_t \<Rightarrow> char list option \<Rightarrow> (bool \<times> strbuf) run" where
  "string_read lc s len rd =
     (let finish = (\<lambda>s'. case rd of
             None \<Rightarrow> Done (True, s')
           | Some xs \<Rightarrow> run_bind (store_bytes (sb_s s') (unat (sb_length s')) xs)
               (\<lambda>b. Done (True, s'\<lparr>sb_s := b, sb_length := sb_length s' + of_nat (length xs)\<rparr>)))
      in if sb_size s - sb_length s < len
         then case grow_loop (sb_size s) (sb_length s) (sb_growby s) len (sb_growby s) of
                None \<Rightarrow> Diverge
              | Some None \<Rightarrow> Done (False, s)
              | Some (Some g) \<Rightarrow>
                  run_bind (realloc_zeroed lc (sb_s s) (sb_size s) g)
                    (\<lambda>buf. case buf of
                       None \<Rightarrow> Done (False, s)
                     | Some b \<Rightarrow> finish (s\<lparr>sb_size := sb_size s + g, sb_s := Some b\<rparr>))
         else finish s)"

section \<open>The growth loop\<close>

lemma unat_plus_size_t:
  "unat a + unat b < 2 ^ 64 \<Longrightarrow> unat ((a :: size_t) + b) = unat a + unat b"
  by (simp add: unat_word_ariths)

lemma unat_size_t_less: "unat (a :: size_t) < 2 ^ 64"
proof -
  have "unat a < 2 ^ LENGTH(64)" by (rule unsigned_less)
  then show ?thesis by simp
qed

lemma unat_of_nat_size_t: "n < 2 ^ 64 \<Longrightarrow> unat (of_nat n :: size_t) = n"
  by (simp add: unat_of_nat take_bit_nat_eq_self)

text \<open>
  The loop ends, at the first multiple of the increment that makes room: either the increment
  it started with is enough, or one increment less would not have been.
\<close>

lemma grow_loop_total:
  assumes "0 < unat g" and "unat need + unat len + unat g < 2 ^ 64"
    and "unat len \<le> unat sz" and "unat sz + unat growby < 2 ^ 64"
  shows "\<exists>h k. grow_loop sz len g need growby = Some (Some h)
           \<and> unat h = unat growby + k * unat g
           \<and> unat sz + unat h < 2 ^ 64
           \<and> unat need + unat len \<le> unat sz + unat h
           \<and> (h = growby \<or> unat sz + unat h < unat need + unat len + unat g)"
  using assms(4)
proof (induction "unat need + unat len - (unat sz + unat growby)" arbitrary: growby rule: less_induct)
  case less
  have sum: "unat (sz + growby) = unat sz + unat growby"
    using less.prems by (rule unat_plus_size_t)
  then have diff: "unat (sz + growby - len) = unat sz + unat growby - unat len"
    using assms(3) by (simp add: unat_sub word_le_nat_alt)
  show ?case
  proof (cases "sz + growby - len < need")
    case False
    then have "unat need + unat len \<le> unat sz + unat growby"
      using diff assms(3) by (simp add: word_less_nat_alt)
    with False less.prems show ?thesis
      by (subst grow_loop.simps) (auto intro: exI [of _ 0])
  next
    case True
    then have lt: "unat sz + unat growby < unat need + unat len"
      using diff assms(3) by (simp add: word_less_nat_alt)
    have bound: "unat sz + (unat growby + unat g) < 2 ^ 64"
      using lt assms(2) by linarith
    then have g': "unat (growby + g) = unat growby + unat g"
      by (intro unat_plus_size_t) linarith
    have bound': "unat sz + unat (growby + g) < 2 ^ 64"
      using bound g' by simp
    then have "unat (sz + (growby + g)) = unat sz + unat (growby + g)"
      by (rule unat_plus_size_t)
    then have nowrap: "\<not> sz + (growby + g) < sz"
      by (simp add: word_less_nat_alt)
    have "unat need + unat len - (unat sz + unat (growby + g))
            < unat need + unat len - (unat sz + unat growby)"
      using lt g' assms(1) by linarith
    from less.hyps [OF this bound'] obtain h k where
      h: "grow_loop sz len g need (growby + g) = Some (Some h)"
         "unat h = unat (growby + g) + k * unat g" "unat sz + unat h < 2 ^ 64"
         "unat need + unat len \<le> unat sz + unat h"
         "h = growby + g \<or> unat sz + unat h < unat need + unat len + unat g"
      by blast
    have "grow_loop sz len g need growby = Some (Some h)"
      using True nowrap h(1) by (subst grow_loop.simps) (simp add: Let_def)
    moreover have "unat h = unat growby + Suc k * unat g"
      using h(2) g' by simp
    moreover have "unat sz + unat h < unat need + unat len + unat g"
      using h(5) lt g' by auto
    ultimately show ?thesis using h(3,4) by blast
  qed
qed

section \<open>Invariant\<close>

definition buf_ok :: "strbuf \<Rightarrow> bool" where
  "buf_ok s \<longleftrightarrow>
     (case sb_s s of None \<Rightarrow> sb_size s = 0 \<and> sb_length s = 0
                   | Some b \<Rightarrow> length b = unat (sb_size s) \<and> sb_length s \<le> sb_size s)"

definition buf_limit :: nat where
  "buf_limit = 2 ^ 62"

text \<open>The invariant under which appending works: a usable increment and no size near the wrap.\<close>

definition buf_inv :: "strbuf \<Rightarrow> bool" where
  "buf_inv s \<longleftrightarrow> buf_ok s \<and> 0 < unat (sb_growby s) \<and> unat (sb_growby s) \<le> 2 ^ 32
     \<and> unat (sb_size s) \<le> 2 ^ 62 + 2 ^ 32"

lemma buf_ok_length [buf_simps]: "buf_ok s \<Longrightarrow> length (content s) = unat (sb_length s)"
  by (auto simp: buf_ok_def content_def word_le_nat_alt split: option.splits)

lemma buf_ok_length_le [buf_simps]: "buf_ok s \<Longrightarrow> unat (sb_length s) \<le> unat (sb_size s)"
  by (auto simp: buf_ok_def word_le_nat_alt split: option.splits)

lemma buf_inv_ok [simp]: "buf_inv s \<Longrightarrow> buf_ok s"
  by (simp add: buf_inv_def)

lemma buf_inv_length [buf_simps]: "buf_inv s \<Longrightarrow> unat (sb_length s) = length (content s)"
  by (simp add: buf_ok_length)

text \<open>Storing bytes behind the current content.\<close>

lemma store_bytes_append:
  assumes "length b = n" and "l + length xs \<le> n" and "l \<le> n"
  shows "\<exists>b'. store_bytes (Some b) l xs = Done (Some b') \<and> length b' = n
           \<and> take (l + length xs) b' = take l b @ xs"
proof (cases "xs = []")
  case True
  with assms show ?thesis by (simp add: store_bytes_def)
next
  case False
  then have "0 < length xs" by simp
  with assms have "l < length b" by linarith
  with False assms show ?thesis by (auto simp: store_bytes_def)
qed

lemma realloc_zeroed_grows:
  assumes "lc_alloc lc (unat (sz + g))" and "unat sz + unat g < 2 ^ 64"
    and "case s of None \<Rightarrow> sz = 0 | Some b \<Rightarrow> length b = unat sz"
  shows "\<exists>b. realloc_zeroed lc s sz g = Done (Some b) \<and> length b = unat sz + unat g
           \<and> take (unat sz) b = (case s of None \<Rightarrow> [] | Some b \<Rightarrow> b)"
proof -
  have "unat (sz + g) = unat sz + unat g"
    using assms(2) by (rule unat_plus_size_t)
  with assms show ?thesis
    by (cases s) (auto simp: realloc_zeroed_def Let_def)
qed

lemma realloc_zeroed_fails: "\<not> lc_alloc lc (unat (sz + g)) \<Longrightarrow> realloc_zeroed lc s sz g = Done None"
  by (simp add: realloc_zeroed_def Let_def)

text \<open>The copy at the end of an append, once the block is big enough.\<close>

lemma copy_tail:
  assumes ok: "buf_ok s" and room: "unat (sb_length s) + length xs \<le> unat (sb_size s)"
  shows "\<exists>b. store_bytes (sb_s s) (unat (sb_length s)) xs = Done b
      \<and> buf_ok (s\<lparr>sb_s := b, sb_length := sb_length s + of_nat (length xs)\<rparr>)
      \<and> content (s\<lparr>sb_s := b, sb_length := sb_length s + of_nat (length xs)\<rparr>) = content s @ xs
      \<and> unat (sb_length s + of_nat (length xs)) = unat (sb_length s) + length xs"
proof -
  have small: "unat (sb_size s) < 2 ^ 64"
    by (rule unat_size_t_less)
  then have len: "unat (of_nat (length xs) :: size_t) = length xs"
    using room by (intro unat_of_nat_size_t) linarith
  have sum: "unat (sb_length s + of_nat (length xs)) = unat (sb_length s) + length xs"
    using unat_plus_size_t [of "sb_length s" "of_nat (length xs)"] len room small by simp
  show ?thesis
  proof (cases "sb_s s")
    case None
    with ok room have "xs = []" by (simp add: buf_ok_def)
    with None ok show ?thesis by (simp add: store_bytes_def buf_ok_def content_def)
  next
    case (Some b)
    with ok have lb: "length b = unat (sb_size s)" by (simp add: buf_ok_def)
    from store_bytes_append [OF lb room] obtain b' where
      "store_bytes (Some b) (unat (sb_length s)) xs = Done (Some b')"
      "length b' = unat (sb_size s)"
      "take (unat (sb_length s) + length xs) b' = take (unat (sb_length s)) b @ xs"
      using room by auto
    with Some sum room show ?thesis
      by (auto simp: buf_ok_def content_def word_le_nat_alt)
  qed
qed

section \<open>What the operations store\<close>

text \<open>The growth loop on a buffer that satisfies the invariant finds an increment.\<close>

lemma grow_loop_buf:
  assumes s: "buf_inv s" and room: "length (content s) + n \<le> buf_limit"
    and full: "sb_size s - sb_length s < of_nat n"
  obtains h where
    "grow_loop (sb_size s) (sb_length s) (sb_growby s) (of_nat n) (sb_growby s) = Some (Some h)"
    "n + unat (sb_length s) \<le> unat (sb_size s + h)"
    "unat (sb_size s + h) = unat (sb_size s) + unat h"
    "unat (sb_size s + h) \<le> 2 ^ 62 + 2 ^ 32"
proof -
  let ?l = "unat (sb_length s)" and ?g = "unat (sb_growby s)"
  from s have g: "0 < ?g" "?g \<le> 2 ^ 32" and sz: "unat (sb_size s) \<le> 2 ^ 62 + 2 ^ 32"
    by (simp_all add: buf_inv_def)
  from room s have lim: "?l + n \<le> 2 ^ 62"
    by (simp add: buf_inv_length buf_limit_def)
  then have n: "unat (of_nat n :: size_t) = n"
    by (intro unat_of_nat_size_t) simp
  have le: "?l \<le> unat (sb_size s)"
    using s by (simp add: buf_ok_length_le)
  have "\<exists>h k. grow_loop (sb_size s) (sb_length s) (sb_growby s) (of_nat n) (sb_growby s) = Some (Some h)
      \<and> unat h = ?g + k * ?g \<and> unat (sb_size s) + unat h < 2 ^ 64
      \<and> unat (of_nat n :: size_t) + ?l \<le> unat (sb_size s) + unat h
      \<and> (h = sb_growby s \<or> unat (sb_size s) + unat h < unat (of_nat n :: size_t) + ?l + ?g)"
    using g sz lim le n by (intro grow_loop_total) simp_all
  then obtain h where
    h: "grow_loop (sb_size s) (sb_length s) (sb_growby s) (of_nat n) (sb_growby s) = Some (Some h)"
    and h64: "unat (sb_size s) + unat h < 2 ^ 64"
    and fits: "n + ?l \<le> unat (sb_size s) + unat h"
    and small: "unat h = ?g \<or> unat (sb_size s) + unat h < n + ?l + ?g"
    using n by auto
  have szh: "unat (sb_size s + h) = unat (sb_size s) + unat h"
    using h64 by (rule unat_plus_size_t)
  have "unat (sb_size s) - ?l < n"
    using full n le by (simp add: word_less_nat_alt unat_sub word_le_nat_alt)
  with small have "unat (sb_size s + h) \<le> 2 ^ 62 + 2 ^ 32"
    using szh le lim g(2) by linarith
  moreover have "n + ?l \<le> unat (sb_size s + h)"
    using fits szh by simp
  ultimately show ?thesis using h szh that by blast
qed

text \<open>A granted request enlarges the block and keeps the content.\<close>

lemma realloc_buf:
  assumes s: "buf_inv s" and alloc: "lc_alloc lc (unat (sb_size s + h))"
    and szh: "unat (sb_size s + h) = unat (sb_size s) + unat h"
    and bound: "unat (sb_size s + h) \<le> 2 ^ 62 + 2 ^ 32"
  obtains b where
    "realloc_zeroed lc (sb_s s) (sb_size s) h = Done (Some b)"
    "buf_inv (s\<lparr>sb_size := sb_size s + h, sb_s := Some b\<rparr>)"
    "content (s\<lparr>sb_size := sb_size s + h, sb_s := Some b\<rparr>) = content s"
proof -
  have ok: "buf_ok s" using s by simp
  have le: "unat (sb_length s) \<le> unat (sb_size s)"
    using ok by (rule buf_ok_length_le)
  have h64: "unat (sb_size s) + unat h < 2 ^ 64"
    using szh bound by simp
  have "case sb_s s of None \<Rightarrow> sb_size s = 0 | Some b \<Rightarrow> length b = unat (sb_size s)"
    using ok by (auto simp: buf_ok_def split: option.splits)
  from realloc_zeroed_grows [OF alloc h64 this] obtain b where
    b: "realloc_zeroed lc (sb_s s) (sb_size s) h = Done (Some b)"
       "length b = unat (sb_size s) + unat h"
       "take (unat (sb_size s)) b = (case sb_s s of None \<Rightarrow> [] | Some b \<Rightarrow> b)"
    by blast
  have "take (unat (sb_length s)) b = take (unat (sb_length s)) (take (unat (sb_size s)) b)"
    using le by simp
  then have "content (s\<lparr>sb_size := sb_size s + h, sb_s := Some b\<rparr>) = content s"
    using ok b(3) by (auto simp: content_def buf_ok_def split: option.splits)
  moreover have "buf_inv (s\<lparr>sb_size := sb_size s + h, sb_s := Some b\<rparr>)"
    using s b(2) szh le bound by (simp add: buf_inv_def buf_ok_def word_le_nat_alt)
  ultimately show ?thesis using b(1) that by blast
qed

text \<open>The copy into a block with room.\<close>

lemma copy_buf:
  assumes s: "buf_inv s" and room: "unat (sb_length s) + length xs \<le> unat (sb_size s)"
  obtains b where
    "store_bytes (sb_s s) (unat (sb_length s)) xs = Done b"
    "buf_inv (s\<lparr>sb_s := b, sb_length := sb_length s + of_nat (length xs)\<rparr>)"
    "content (s\<lparr>sb_s := b, sb_length := sb_length s + of_nat (length xs)\<rparr>) = content s @ xs"
  using copy_tail [OF buf_inv_ok [OF s] room] s that by (auto simp: buf_inv_def)

lemma string_concatb_core:
  assumes s: "buf_inv s" and room: "length (content s) + length xs \<le> buf_limit"
  shows "(\<exists>s'. string_concatb lc s xs = Done (True, s') \<and> buf_inv s'
            \<and> content s' = content s @ xs)
       \<or> (\<not> alloc_total lc \<and> string_concatb lc s xs = Fault Null_deref)"
proof (cases "sb_size s - sb_length s < of_nat (length xs)")
  case False
  have n: "unat (of_nat (length xs) :: size_t) = length xs"
    using room by (intro unat_of_nat_size_t) (simp add: buf_limit_def)
  have "unat (sb_length s) \<le> unat (sb_size s)"
    using s by (simp add: buf_ok_length_le)
  with False n have "unat (sb_length s) + length xs \<le> unat (sb_size s)"
    by (simp add: word_less_nat_alt unat_sub word_le_nat_alt)
  with s obtain b where
    "store_bytes (sb_s s) (unat (sb_length s)) xs = Done b"
    "buf_inv (s\<lparr>sb_s := b, sb_length := sb_length s + of_nat (length xs)\<rparr>)"
    "content (s\<lparr>sb_s := b, sb_length := sb_length s + of_nat (length xs)\<rparr>) = content s @ xs"
    by (rule copy_buf)
  with False show ?thesis by (simp add: string_concatb_def Let_def)
next
  case True
  from s room True obtain h where
    h: "grow_loop (sb_size s) (sb_length s) (sb_growby s) (of_nat (length xs)) (sb_growby s) = Some (Some h)"
       "length xs + unat (sb_length s) \<le> unat (sb_size s + h)"
       "unat (sb_size s + h) = unat (sb_size s) + unat h"
       "unat (sb_size s + h) \<le> 2 ^ 62 + 2 ^ 32"
    by (rule grow_loop_buf)
  have g0: "sb_growby s \<noteq> 0" using s by (auto simp: buf_inv_def)
  show ?thesis
  proof (cases "lc_alloc lc (unat (sb_size s + h))")
    case False
    then have "string_concatb lc s xs = Fault Null_deref"
      using True h(1) g0 by (simp add: string_concatb_def Let_def realloc_zeroed_fails)
    with False show ?thesis by (auto simp: alloc_total_def)
  next
    case alloc: True
    from s alloc h(3,4) obtain b where
      b: "realloc_zeroed lc (sb_s s) (sb_size s) h = Done (Some b)"
         "buf_inv (s\<lparr>sb_size := sb_size s + h, sb_s := Some b\<rparr>)"
         "content (s\<lparr>sb_size := sb_size s + h, sb_s := Some b\<rparr>) = content s"
      by (rule realloc_buf)
    from b(2) obtain b' where
      "store_bytes (Some b) (unat (sb_length s)) xs = Done b'"
      "buf_inv (s\<lparr>sb_size := sb_size s + h, sb_s := b', sb_length := sb_length s + of_nat (length xs)\<rparr>)"
      "content (s\<lparr>sb_size := sb_size s + h, sb_s := b', sb_length := sb_length s + of_nat (length xs)\<rparr>)
         = content s @ xs"
      by (rule copy_buf [where xs = xs]) (use h(2) b(3) in auto)
    with True h(1) g0 b(1) show ?thesis by (simp add: string_concatb_def Let_def)
  qed
qed

abbreviation writes :: "libc \<Rightarrow> (strbuf \<Rightarrow> (bool \<times> strbuf) run) \<Rightarrow> char list \<Rightarrow> bool" where
  "writes lc \<equiv> emits buf_inv content buf_limit (alloc_total lc)"

lemma string_concatb_writes: "writes lc (\<lambda>s. string_concatb lc s xs) xs"
proof (rule emitsI)
  fix s assume s: "buf_inv s" "length (content s) + length xs < buf_limit"
  from string_concatb_core [OF s(1) less_imp_le [OF s(2)], of lc]
  show "(\<exists>s'. string_concatb lc s xs = Done (True, s') \<and> buf_inv s' \<and> content s' = content s @ xs)
      \<or> \<not> alloc_total lc
        \<and> (string_concatb lc s xs = Fault Null_deref \<or> (\<exists>s'. string_concatb lc s xs = Done (False, s')))"
    by blast
qed

lemma string_putc_core:
  assumes s: "buf_inv s" and room: "length (content s) + 1 \<le> buf_limit"
  shows "(\<exists>s'. string_putc lc s c = Done (True, s') \<and> buf_inv s' \<and> content s' = content s @ [c])
     \<or> (\<not> alloc_total lc \<and> (\<exists>s'. string_putc lc s c = Done (False, s')))"
proof -
  have lim: "unat (sb_length s) + 1 \<le> 2 ^ 62"
    using s room by (simp add: buf_inv_length buf_limit_def)
  have le: "unat (sb_length s) \<le> unat (sb_size s)"
    using s by (simp add: buf_ok_length_le)
  show ?thesis
  proof (cases "sb_size s = sb_length s")
    case False
    then have "unat (sb_size s) \<noteq> unat (sb_length s)" by (simp add: word_unat_eq_iff)
    with le have "unat (sb_length s) + length [c] \<le> unat (sb_size s)" by simp
    with s obtain b where "store_bytes (sb_s s) (unat (sb_length s)) [c] = Done b"
      "buf_inv (s\<lparr>sb_s := b, sb_length := sb_length s + of_nat (length [c])\<rparr>)"
      "content (s\<lparr>sb_s := b, sb_length := sb_length s + of_nat (length [c])\<rparr>) = content s @ [c]"
      by (rule copy_buf)
    with False show ?thesis by (simp add: string_putc_def)
  next
    case True
    have g: "0 < unat (sb_growby s)" "unat (sb_growby s) \<le> 2 ^ 32"
      using s by (simp_all add: buf_inv_def)
    have szh: "unat (sb_size s + sb_growby s) = unat (sb_size s) + unat (sb_growby s)"
      using g lim True by (intro unat_plus_size_t) simp
    have bound: "unat (sb_size s + sb_growby s) \<le> 2 ^ 62 + 2 ^ 32"
      using szh g lim True by simp
    show ?thesis
    proof (cases "lc_alloc lc (unat (sb_size s + sb_growby s))")
      case False
      with True show ?thesis
        by (auto simp: string_putc_def realloc_zeroed_fails alloc_total_def)
    next
      case alloc: True
      from s alloc szh bound obtain b where
        b: "realloc_zeroed lc (sb_s s) (sb_size s) (sb_growby s) = Done (Some b)"
           "buf_inv (s\<lparr>sb_size := sb_size s + sb_growby s, sb_s := Some b\<rparr>)"
           "content (s\<lparr>sb_size := sb_size s + sb_growby s, sb_s := Some b\<rparr>) = content s"
        by (rule realloc_buf)
      from b(2) obtain b' where
        "store_bytes (Some b) (unat (sb_length s)) [c] = Done b'"
        "buf_inv (s\<lparr>sb_size := sb_size s + sb_growby s, sb_s := b', sb_length := sb_length s + 1\<rparr>)"
        "content (s\<lparr>sb_size := sb_size s + sb_growby s, sb_s := b', sb_length := sb_length s + 1\<rparr>)
           = content s @ [c]"
        by (rule copy_buf [where xs = "[c]"]) (use szh g True b(3) in auto)
      with True b(1) show ?thesis by (simp add: string_putc_def)
    qed
  qed
qed

lemma string_putc_writes: "writes lc (\<lambda>s. string_putc lc s c) [c]"
proof (rule emitsI)
  fix s assume s: "buf_inv s" "length (content s) + length [c] < buf_limit"
  then have "length (content s) + 1 \<le> buf_limit" by simp
  from string_putc_core [OF s(1) this, of lc c]
  show "(\<exists>s'. string_putc lc s c = Done (True, s') \<and> buf_inv s' \<and> content s' = content s @ [c])
      \<or> \<not> alloc_total lc
        \<and> (string_putc lc s c = Fault Null_deref \<or> (\<exists>s'. string_putc lc s c = Done (False, s')))"
    by blast
qed

text \<open>Taking the last byte off the length again, as \<open>string_concat\<close> does with the zero.\<close>

definition zero_terminated :: "strbuf \<Rightarrow> bool" where
  "zero_terminated s \<longleftrightarrow>
     (case sb_s s of None \<Rightarrow> False
        | Some b \<Rightarrow> unat (sb_length s) < length b \<and> b ! unat (sb_length s) = NUL)"

lemma drop_last_byte:
  assumes s: "buf_inv s" and last: "content s = xs @ [c]"
  shows "buf_inv (s\<lparr>sb_length := sb_length s - 1\<rparr>) \<and> content (s\<lparr>sb_length := sb_length s - 1\<rparr>) = xs"
    and "c = NUL \<Longrightarrow> zero_terminated (s\<lparr>sb_length := sb_length s - 1\<rparr>)"
proof -
  have l: "unat (sb_length s) = Suc (length xs)"
    using s last by (simp add: buf_inv_length)
  have "unat (sb_length s - 1) = length xs"
    using l by (metis One_nat_def add_diff_cancel_left' plus_1_eq_Suc unat_minus_one unat_0 nat.distinct(1))
  with s last l show "buf_inv (s\<lparr>sb_length := sb_length s - 1\<rparr>) \<and> content (s\<lparr>sb_length := sb_length s - 1\<rparr>) = xs"
    by (auto simp: buf_inv_def buf_ok_def content_def word_le_nat_alt take_Suc_conv_app_nth split: option.splits)
  show "zero_terminated (s\<lparr>sb_length := sb_length s - 1\<rparr>)" if "c = NUL"
    using s last l that \<open>unat (sb_length s - 1) = length xs\<close>
    by (auto simp: zero_terminated_def buf_inv_def buf_ok_def content_def word_le_nat_alt
        take_Suc_conv_app_nth split: option.splits)
qed

lemma string_concat_core:
  assumes s: "buf_inv s" and room: "length (content s) + length xs < buf_limit"
  shows "(\<exists>s'. string_concat lc s xs = Done (True, s') \<and> buf_inv s'
            \<and> content s' = content s @ xs \<and> zero_terminated s')
       \<or> (\<not> alloc_total lc \<and> string_concat lc s xs = Fault Null_deref)"
proof -
  have "length (content s) + length (xs @ [NUL]) \<le> buf_limit"
    using room by simp
  with s consider s' where "string_concatb lc s (xs @ [NUL]) = Done (True, s')" "buf_inv s'"
      "content s' = (content s @ xs) @ [NUL]"
    | "\<not> alloc_total lc" "string_concatb lc s (xs @ [NUL]) = Fault Null_deref"
    using string_concatb_core [of s "xs @ [NUL]" lc] by auto
  then show ?thesis
  proof cases
    case 1
    with drop_last_byte [OF 1(2,3)] show ?thesis by (simp add: string_concat_def)
  next
    case 2
    then show ?thesis by (simp add: string_concat_def)
  qed
qed

lemma string_concat_writes: "writes lc (\<lambda>s. string_concat lc s xs) xs"
  by (rule emitsI) (use string_concat_core in blast)

interpretation concatb_sink: byte_sink buf_inv content buf_limit "alloc_total lc" "string_concatb lc" "\<lambda>xs. xs"
  for lc by unfold_locales (rule string_concatb_writes)

interpretation putc_sink: byte_sink buf_inv content buf_limit "alloc_total lc" "string_putc lc" "\<lambda>c. [c]"
  for lc by unfold_locales (rule string_putc_writes)

interpretation concat_sink: byte_sink buf_inv content buf_limit "alloc_total lc" "string_concat lc" "\<lambda>xs. xs"
  for lc by unfold_locales (rule string_concat_writes)

text \<open>Fresh buffers satisfy the invariant.\<close>

lemma string_init_inv:
  assumes "0 < unat g" "unat g \<le> 2 ^ 32" "unat n \<le> 2 ^ 62"
  shows "buf_inv (string_init lc n g)" and "content (string_init lc n g) = []"
  using assms by (simp_all add: string_init_def buf_inv_def buf_ok_def content_def)

lemma string_lazyinit_inv:
  assumes "0 < unat g" "unat g \<le> 2 ^ 32"
  shows "buf_inv (string_lazyinit g)" and "content (string_lazyinit g) = []"
  using assms by (simp_all add: string_lazyinit_def buf_inv_def buf_ok_def content_def)

lemma string_free_ok: "buf_ok s \<Longrightarrow> buf_ok (string_free s)" and content_string_free: "buf_ok s \<Longrightarrow> content (string_free s) = []"
  by (auto simp: string_free_def buf_ok_def content_def split: option.splits)

section \<open>string\_concat\_sprintf\<close>

text \<open>\<^verbatim>\<open>string_putint.c\<close>\<close>

definition string_putint :: "libc \<Rightarrow> strbuf \<Rightarrow> int \<Rightarrow> (bool \<times> strbuf) run" where
  "string_putint lc s i =
     (let buf = int_dec i in if 31 \<le> length buf then Exit 1 else string_concatb lc s buf)"

text \<open>
  \<open>defprintf\<close>: vsnprintf into 4096 bytes, then as many bytes as vsnprintf would have written
  are copied; beyond the array this reads foreign memory.
\<close>

definition defprintf :: "libc \<Rightarrow> strbuf \<Rightarrow> string \<Rightarrow> vararg list \<Rightarrow> (bool \<times> strbuf) run \<times> vararg list" where
  "defprintf lc s fmt args =
     (let (out, args') = lc_vsnprintf lc fmt args
      in (if 4096 < length out then Fault Out_of_bounds
          else string_concatb lc s (if length out = 4096 then take 4095 out @ [NUL] else out), args'))"

definition fmt_flag :: "char \<Rightarrow> bool" where
  "fmt_flag c \<longleftrightarrow> isdigit c \<or> c \<in> set ''.#+-'' \<or> c = CHR '' '' \<or> c = CHR 0x27"

text \<open>
  The loop over the format.  \<open>cfsmaxlen\<close> is 30: the thirtieth flag character ends the program.
  A format that ends inside a conversion with flags makes the loop step over the terminating
  zero of the format.
\<close>

function sprintf_loop :: "libc \<Rightarrow> string \<Rightarrow> vararg list \<Rightarrow> strbuf \<Rightarrow> (bool \<times> strbuf) run" where
  "sprintf_loop lc [] args s = Done (True, s)"
| "sprintf_loop lc (c # msg) args s =
     (if c \<noteq> CHR ''%'' then seq_step (string_putc lc s c) (sprintf_loop lc msg args)
      else case msg of
        [] \<Rightarrow> Done (True, s)
      | d # msg' \<Rightarrow>
          if d = CHR ''s'' then
            (case args of Arg_s a # args' \<Rightarrow> seq_step (string_concat lc s a) (sprintf_loop lc msg' args')
             | _ \<Rightarrow> Fault Bad_vararg)
          else if d = CHR ''S'' then
            (case args of Arg_S a # args' \<Rightarrow> seq_step (string_concatb lc s a) (sprintf_loop lc msg' args')
             | _ \<Rightarrow> Fault Bad_vararg)
          else if d = CHR ''d'' then
            (case args of Arg_d i # args' \<Rightarrow> seq_step (string_putint lc s i) (sprintf_loop lc msg' args')
             | _ \<Rightarrow> Fault Bad_vararg)
          else if fmt_flag d then
            (let flags = takeWhile fmt_flag msg; rest = dropWhile fmt_flag msg
             in if 30 \<le> length flags then Exit 1
                else case rest of
                  [] \<Rightarrow> Fault Out_of_bounds
                | conv # rest' \<Rightarrow>
                    (case defprintf lc s (CHR ''%'' # flags @ [conv]) args of
                       (r, args') \<Rightarrow> seq_step r (sprintf_loop lc rest' args')))
          else (case defprintf lc s [CHR ''%'', d] args of
                  (r, args') \<Rightarrow> seq_step r (sprintf_loop lc msg' args')))"
  by pat_completeness auto

termination
proof (relation "measure (\<lambda>(lc, msg, args, s). length msg)", goal_cases)
  case (6 lc c msg args s d msg' flags rest conv rest' r args')
  then have "length (conv # rest') \<le> length msg"
    using length_dropWhile_le [of fmt_flag msg] by metis
  then show ?case by simp
qed simp_all

definition string_concat_sprintf :: "libc \<Rightarrow> string \<Rightarrow> vararg list \<Rightarrow> strbuf \<Rightarrow> (bool \<times> strbuf) run" where
  "string_concat_sprintf lc msg args s =
     seq_step (sprintf_loop lc msg args s)
       (\<lambda>s'. seq_step (string_putc lc s' NUL) (\<lambda>s''. Done (True, s''\<lparr>sb_length := sb_length s'' - 1\<rparr>)))"

text \<open>Reference: the text a format of plain characters, \<open>%s\<close>, \<open>%S\<close> and \<open>%d\<close> stands for.\<close>

fun format_text :: "string \<Rightarrow> vararg list \<Rightarrow> string option" where
  "format_text [] args = Some []"
| "format_text (c # msg) args =
     (if c \<noteq> CHR ''%'' then map_option (\<lambda>t. c # t) (format_text msg args)
      else case msg of
        [] \<Rightarrow> Some []
      | d # msg' \<Rightarrow>
          (case args of
             Arg_s a # args' \<Rightarrow> if d = CHR ''s'' then map_option (\<lambda>t. a @ t) (format_text msg' args') else None
           | Arg_S a # args' \<Rightarrow> if d = CHR ''S'' then map_option (\<lambda>t. a @ t) (format_text msg' args') else None
           | Arg_d i # args' \<Rightarrow>
               if d = CHR ''d'' \<and> length (int_dec i) < 31
               then map_option (\<lambda>t. int_dec i @ t) (format_text msg' args') else None
           | [] \<Rightarrow> None))"

lemma seq_step_writes:
  assumes e: "writes lc e xs" and k: "writes lc k ys"
  shows "writes lc (\<lambda>s. seq_step (e s) k) (xs @ ys)"
proof -
  have "writes lc (run_seq [e, k]) (xs @ (ys @ []))"
    by (intro emits_seq_Cons e k emits_seq_Nil)
  moreover have "run_seq [e, k] = (\<lambda>s. seq_step (e s) k)"
    by (simp add: fun_eq_iff)
  ultimately show ?thesis by simp
qed


lemma string_putint_writes: "length (int_dec i) < 31 \<Longrightarrow> writes lc (\<lambda>s. string_putint lc s i) (int_dec i)"
  using string_concatb_writes [of lc "int_dec i"] by (simp add: string_putint_def)

lemma sprintf_loop_writes: "format_text msg args = Some t \<Longrightarrow> writes lc (sprintf_loop lc msg args) t"
proof (induction msg args arbitrary: t rule: format_text.induct)
  case (1 args)
  then show ?case by (simp add: emits_def)
next
  case (2 c msg args)
  show ?case
  proof (cases "c = CHR ''%''")
    case False
    with 2 obtain t' where t: "format_text msg args = Some t'" "t = [c] @ t'" by auto
    from False 2 t have "writes lc (\<lambda>s. seq_step (string_putc lc s c) (sprintf_loop lc msg args)) t"
      by (metis seq_step_writes string_putc_writes)
    with False show ?thesis by simp
  next
    case True
    show ?thesis
    proof (cases msg)
      case Nil
      with True 2 show ?thesis by (simp add: emits_def)
    next
      case (Cons d msg')
      with True "2.prems" obtain a args' where args: "args = a # args'"
        by (auto split: list.splits)
      show ?thesis
      proof (cases a)
        case (Arg_s x)
        with True Cons args "2.prems" obtain t' where t: "d = CHR ''s''" "format_text msg' args' = Some t'" "t = x @ t'"
          by (auto split: if_splits)
        have "writes lc (\<lambda>s. seq_step (string_concat lc s x) (sprintf_loop lc msg' args')) (x @ t')"
          by (intro seq_step_writes string_concat_writes "2.IH") (use True Cons args Arg_s t in auto)
        with True Cons args Arg_s t show ?thesis by simp
      next
        case (Arg_S x)
        with True Cons args "2.prems" obtain t' where t: "d = CHR ''S''" "format_text msg' args' = Some t'" "t = x @ t'"
          by (auto split: if_splits)
        have "writes lc (\<lambda>s. seq_step (string_concatb lc s x) (sprintf_loop lc msg' args')) (x @ t')"
          by (intro seq_step_writes string_concatb_writes "2.IH") (use True Cons args Arg_S t in auto)
        with True Cons args Arg_S t show ?thesis by simp
      next
        case (Arg_d i)
        with True Cons args "2.prems" obtain t' where
          t: "d = CHR ''d''" "length (int_dec i) < 31" "format_text msg' args' = Some t'" "t = int_dec i @ t'"
          by (auto split: if_splits)
        have "writes lc (\<lambda>s. seq_step (string_putint lc s i) (sprintf_loop lc msg' args')) (int_dec i @ t')"
          by (intro seq_step_writes string_putint_writes "2.IH") (use True Cons args Arg_d t in auto)
        with True Cons args Arg_d t show ?thesis by simp
      qed
    qed
  qed
qed

lemma sprintf_writes:
  assumes "writes lc (sprintf_loop lc msg args) t"
  shows "writes lc (string_concat_sprintf lc msg args) t"
proof (rule emitsI)
  fix s assume s: "buf_inv s" "length (content s) + length t < buf_limit"
  let ?r = "string_concat_sprintf lc msg args s"
  from assms s
  show "(\<exists>s'. ?r = Done (True, s') \<and> buf_inv s' \<and> content s' = content s @ t)
      \<or> (\<not> alloc_total lc \<and> (?r = Fault Null_deref \<or> (\<exists>s'. ?r = Done (False, s'))))"
  proof (cases rule: emits_cases)
    case (wrote s')
    with s have "length (content s') + 1 \<le> buf_limit" by simp
    with wrote(2) consider s'' where "string_putc lc s' NUL = Done (True, s'')" "buf_inv s''"
        "content s'' = content s' @ [NUL]"
      | s'' where "\<not> alloc_total lc" "string_putc lc s' NUL = Done (False, s'')"
      using string_putc_core by blast
    then show ?thesis
    proof cases
      case 1
      with wrote drop_last_byte [OF 1(2,3)] show ?thesis by (simp add: string_concat_sprintf_def)
    qed (use wrote in \<open>auto simp: string_concat_sprintf_def\<close>)
  qed (auto simp: string_concat_sprintf_def)
qed

lemma string_concat_sprintf_writes: "format_text msg args = Some t \<Longrightarrow> writes lc (string_concat_sprintf lc msg args) t"
  by (intro sprintf_writes sprintf_loop_writes)

text \<open>With memory granted an append is total.\<close>

lemma writes_total:
  assumes "writes lc e xs" and "alloc_total lc" and "buf_inv s" and "length (content s) + length xs < buf_limit"
  obtains s' where "e s = Done (True, s')" "buf_inv s'" "content s' = content s @ xs"
  using assms(1,3,4) by (cases rule: emits_cases) (use assms(2) that in auto)

section \<open>Termination of the stored text, comparison\<close>

text \<open>The C string at the pointer \<open>string_get\<close> returns.\<close>

definition string_cstr :: "strbuf \<Rightarrow> string" where
  "string_cstr s = cstr (case sb_s s of None \<Rightarrow> [] | Some b \<Rightarrow> b)"

lemma string_cstr_zero_terminated:
  assumes "buf_ok s" and "zero_terminated s"
  shows "string_cstr s = cstr (content s)"
proof -
  from assms obtain b where b: "sb_s s = Some b" "unat (sb_length s) < length b"
      "b ! unat (sb_length s) = NUL"
    by (auto simp: zero_terminated_def split: option.splits)
  then have "b = content s @ NUL # drop (Suc (unat (sb_length s))) b"
    using id_take_nth_drop [OF b(2)] by (simp add: content_def)
  moreover have "cstr (xs @ NUL # ys) = cstr xs" for xs ys
    by (induction xs) (auto simp: cstr_def)
  ultimately have "cstr b = cstr (content s)"
    by metis
  with b(1) show ?thesis by (simp add: string_cstr_def)
qed

lemma string_cstr_ends_NUL:
  assumes "buf_ok s" and "content s = xs @ [NUL]"
  shows "string_cstr s = cstr (content s)"
proof -
  from assms obtain b where b: "sb_s s = Some b"
    by (auto simp: content_def split: option.splits)
  then have "b = (xs @ [NUL]) @ drop (unat (sb_length s)) b"
    using assms(2) by (simp add: content_def) (metis append_take_drop_id append.assoc append_Cons append_Nil)
  moreover have "cstr ((xs @ [NUL]) @ ys) = cstr (xs @ [NUL])" for ys
    by (induction xs) (auto simp: cstr_def)
  ultimately have "cstr b = cstr (content s)"
    using assms(2) by metis
  with b show ?thesis by (simp add: string_cstr_def)
qed

lemma string_ensurez_appends:
  assumes s: "buf_inv s" and room: "length (content s) + 1 \<le> buf_limit"
    and "string_ensurez lc s = run_bind (string_putc lc s NUL)
            (\<lambda>(ok, s'). if \<not> ok then Done (False, s')
                        else Done (True, s'\<lparr>sb_length := sb_length s' - 1\<rparr>))"
    and alloc: "alloc_total lc"
  shows "\<exists>s'. string_ensurez lc s = Done (True, s') \<and> buf_inv s' \<and> content s' = content s
           \<and> string_cstr s' = cstr (content s)"
proof -
  from string_putc_core [OF s room, of lc NUL] alloc obtain s' where
    s': "string_putc lc s NUL = Done (True, s')" "buf_inv s'" "content s' = content s @ [NUL]"
    by auto
  note d = drop_last_byte [OF s'(2,3)]
  from d(1) have "string_cstr (s'\<lparr>sb_length := sb_length s' - 1\<rparr>) = cstr (content s)"
    using d(2) string_cstr_zero_terminated buf_inv_ok by metis
  with s' d assms(3) show ?thesis by simp
qed

lemma string_ensurez_total:
  assumes s: "buf_inv s" and room: "length (content s) + 1 \<le> buf_limit" and alloc: "alloc_total lc"
    and nonempty: "content s \<noteq> [] \<or> sb_s s = None"
  shows "\<exists>s'. string_ensurez lc s = Done (True, s') \<and> buf_inv s' \<and> content s' = content s
           \<and> string_cstr s' = cstr (content s)"
proof (cases "sb_s s")
  case None
  show ?thesis
    by (rule string_ensurez_appends [OF s room _ alloc]) (simp add: string_ensurez_def None Let_def)
next
  case (Some b)
  with nonempty have ne: "content s \<noteq> []" by simp
  then obtain xs c where xc: "content s = xs @ [c]" by (metis rev_exhaust)
  have l: "unat (sb_length s) = Suc (length xs)"
    using s xc by (simp add: buf_inv_length)
  then have l0: "sb_length s \<noteq> 0" by (metis nat.distinct(1) unat_0)
  then have l1: "unat (sb_length s - 1) = length xs"
    using l unat_minus_one by fastforce
  have lb: "length xs < length b"
    using s Some l by (auto simp: buf_inv_def buf_ok_def word_le_nat_alt)
  have "b ! length xs = c"
    using xc Some l lb by (auto simp: content_def take_Suc_conv_app_nth)
  then have last: "string_last_byte lc s b = Done c"
    using l0 l1 lb by (simp add: string_last_byte_def)
  show ?thesis
  proof (cases "c = NUL")
    case True
    have "string_ensurez lc s = Done (True, s)"
      using True last by (simp add: string_ensurez_def Some Let_def)
    moreover have "string_cstr s = cstr (content s)"
      using string_cstr_ends_NUL [of s xs] s xc True by simp
    ultimately show ?thesis using s by blast
  next
    case False
    then show ?thesis
      by (intro string_ensurez_appends [OF s room _ alloc]) (simp add: string_ensurez_def Some Let_def last)
  qed
qed

lemma string_equals_content:
  assumes "buf_ok s1" and "buf_ok s2"
  shows "string_equals s1 s2 \<longleftrightarrow> content s1 = content s2 \<and> (sb_s s1 = None \<longleftrightarrow> sb_s s2 = None)"
proof -
  have l: "length (content s1) = unat (sb_length s1)" "length (content s2) = unat (sb_length s2)"
    using assms by (simp_all add: buf_ok_length)
  have "content s1 = content s2 \<Longrightarrow> sb_length s1 = sb_length s2"
    using l by (metis word_unat_eq_iff)
  then show ?thesis
    using l by (auto simp: string_equals_def content_def split: option.splits)
qed

lemma string_initfromstringz_ok:
  assumes alloc: "alloc_total lc" and n: "0 < length str" "length str \<le> 2 ^ 32"
  obtains s where "string_initfromstringz lc str = Done (True, s)" "buf_inv s" "content s = str"
proof -
  have g: "unat (of_nat (length str) :: size_t) = length str"
    using n by (intro unat_of_nat_size_t) simp
  with n have "buf_inv (string_lazyinit (of_nat (length str)))"
    "content (string_lazyinit (of_nat (length str))) = []"
    by (simp_all add: string_lazyinit_inv)
  with n string_concatb_core [of "string_lazyinit (of_nat (length str))" str lc] alloc that
  show ?thesis by (auto simp: string_initfromstringz_def buf_limit_def)
qed

lemma content_mkstatic: "length z < 2 ^ 64 \<Longrightarrow> content (string_mkstatic z) = z"
  by (simp add: content_def string_mkstatic_def unat_of_nat_size_t)

section \<open>What an append that returns has done\<close>

text \<open>
  Facts without a bound on memory: whatever the allocator does, an append that returns has left a buffer whose
  fields fit its block, with the bytes appended when it returned true and nothing changed when not.
\<close>

lemma copy_returns:
  assumes ok: "buf_ok s" and r: "store_bytes (sb_s s) (unat (sb_length s)) xs = Done b"
  shows "buf_ok (s\<lparr>sb_s := b, sb_length := sb_length s + of_nat (length xs)\<rparr>)
    \<and> content (s\<lparr>sb_s := b, sb_length := sb_length s + of_nat (length xs)\<rparr>) = content s @ xs
    \<and> sb_length s + of_nat (length xs) \<ge> sb_length s"
proof -
  have "unat (sb_length s) + length xs \<le> unat (sb_size s)"
  proof (cases "xs = []")
    case True
    with ok show ?thesis by (simp add: buf_ok_length_le)
  next
    case False
    with r obtain b0 where "sb_s s = Some b0" "unat (sb_length s) + length xs \<le> length b0"
      by (auto simp: store_bytes_def split: option.splits if_splits)
    with ok show ?thesis by (simp add: buf_ok_def)
  qed
  from copy_tail [OF ok this] r show ?thesis by (auto simp: word_le_nat_alt)
qed

lemma realloc_returns:
  assumes "buf_ok s" and "realloc_zeroed lc (sb_s s) (sb_size s) g = Done (Some b)"
  shows "buf_ok (s\<lparr>sb_size := sb_size s + g, sb_s := Some b\<rparr>)
    \<and> content (s\<lparr>sb_size := sb_size s + g, sb_s := Some b\<rparr>) = content s"
proof -
  let ?old = "case sb_s s of None \<Rightarrow> [] | Some b \<Rightarrow> b"
  have n: "unat (sb_size s) + unat g \<le> unat (sb_size s + g)"
    and b: "b = take (unat (sb_size s)) ?old @ replicate (unat g) NUL"
    using assms(2) by (auto simp: realloc_zeroed_def Let_def split: if_splits)
  have sum: "unat (sb_size s + g) = unat (sb_size s) + unat g"
    using n unat_plus_size_t [of "sb_size s" g] unat_size_t_less [of "sb_size s + g"] by linarith
  have old: "length ?old = unat (sb_size s)" and l: "unat (sb_length s) \<le> unat (sb_size s)"
    using assms(1) by (auto simp: buf_ok_def word_le_nat_alt split: option.splits)
  have "content (s\<lparr>sb_size := sb_size s + g, sb_s := Some b\<rparr>) = take (unat (sb_length s)) ?old"
    using old l by (simp add: content_def b)
  also have "\<dots> = content s" by (simp add: content_def split: option.splits)
  finally show ?thesis using old l sum b by (simp add: buf_ok_def word_le_nat_alt)
qed

lemma string_concatb_returns:
  assumes s: "buf_ok s" and r: "string_concatb lc s xs = Done (ok, s')"
  shows "buf_ok s' \<and> (ok \<longrightarrow> content s' = content s @ xs) \<and> (\<not> ok \<longrightarrow> s' = s) \<and> sb_growby s' = sb_growby s"
proof -
  have copy: "buf_ok t' \<and> ok \<and> content t' = content t @ xs \<and> sb_growby t' = sb_growby t"
    if t: "buf_ok t" and r: "run_bind (store_bytes (sb_s t) (unat (sb_length t)) xs)
        (\<lambda>b. Done (True, t\<lparr>sb_s := b, sb_length := sb_length t + of_nat (length xs)\<rparr>)) = Done (ok, t')" for t t'
    using r copy_returns [OF t] by (auto simp: run_simps)
  show ?thesis
  proof (cases "sb_size s - sb_length s < of_nat (length xs)")
    case False
    with copy [OF s, of s'] r show ?thesis by (simp add: string_concatb_def Let_def)
  next
    case True
    show ?thesis
    proof (cases "sb_s s' = sb_s s \<and> s' = s \<and> \<not> ok")
      case False
      with True r s obtain g b where
        "realloc_zeroed lc (sb_s s) (sb_size s) g = Done (Some b)"
        and c: "run_bind (store_bytes (Some b) (unat (sb_length s)) xs)
          (\<lambda>b. Done (True, s\<lparr>sb_size := sb_size s + g, sb_s := b, sb_length := sb_length s + of_nat (length xs)\<rparr>))
            = Done (ok, s')"
        by (auto simp: string_concatb_def Let_def run_simps split: if_splits option.splits)
      from realloc_returns [OF s this(1)]
      have t: "buf_ok (s\<lparr>sb_size := sb_size s + g, sb_s := Some b\<rparr>)"
        "content (s\<lparr>sb_size := sb_size s + g, sb_s := Some b\<rparr>) = content s" by simp_all
      from copy [OF t(1), of s'] c t(2) show ?thesis by simp
    qed (use s in simp)
  qed
qed

lemma drop_NUL_returns:
  assumes "buf_ok s" and "content s = xs @ [NUL]"
  shows "buf_ok (s\<lparr>sb_length := sb_length s - 1\<rparr>) \<and> content (s\<lparr>sb_length := sb_length s - 1\<rparr>) = xs"
proof -
  have l: "unat (sb_length s) = Suc (length xs)" using buf_ok_length [OF assms(1)] assms(2) by simp
  then have l0: "sb_length s \<noteq> 0" by (metis nat.distinct(1) unat_0)
  then have l1: "unat (sb_length s - 1) = length xs" using l unat_minus_one by fastforce
  from assms obtain b where b: "sb_s s = Some b" "take (Suc (length xs)) b = xs @ [NUL]"
    using l by (auto simp: content_def split: option.splits)
  then have "take (length xs) b = xs" by (metis append_eq_conv_conj butlast_snoc butlast_take diff_Suc_1 take_take min.absorb1 le_SucI order_refl)
  with assms(1) b l l1 show ?thesis by (auto simp: buf_ok_def content_def word_le_nat_alt)
qed

lemma string_concat_returns:
  assumes "buf_ok s" and "string_concat lc s xs = Done (ok, s')"
  shows "buf_ok s' \<and> (ok \<longrightarrow> content s' = content s @ xs) \<and> (\<not> ok \<longrightarrow> s' = s) \<and> sb_growby s' = sb_growby s"
proof -
  from assms(2) obtain ok1 s1 where r: "string_concatb lc s (xs @ [NUL]) = Done (ok1, s1)"
    "(ok, s') = (if \<not> ok1 then (False, s1) else (True, s1\<lparr>sb_length := sb_length s1 - 1\<rparr>))"
    by (auto simp: string_concat_def run_simps split: if_splits)
  from string_concatb_returns [OF assms(1) r(1)] r(2) drop_NUL_returns [of s1 "content s @ xs"] show ?thesis
    by (auto split: if_splits)
qed

lemma string_putc_returns:
  assumes s: "buf_ok s" and r: "string_putc lc s c = Done (ok, s')"
  shows "buf_ok s' \<and> (ok \<longrightarrow> content s' = content s @ [c]) \<and> (\<not> ok \<longrightarrow> s' = s) \<and> sb_growby s' = sb_growby s"
proof -
  have copy: "buf_ok t' \<and> ok \<and> content t' = content t @ [c] \<and> sb_growby t' = sb_growby t"
    if t: "buf_ok t" and r: "run_bind (store_bytes (sb_s t) (unat (sb_length t)) [c])
        (\<lambda>b. Done (True, t\<lparr>sb_s := b, sb_length := sb_length t + 1\<rparr>)) = Done (ok, t')" for t t'
    using r copy_returns [OF t, of "[c]"] by (auto simp: run_simps)
  show ?thesis
  proof (cases "sb_size s = sb_length s")
    case False
    with copy [OF s, of s'] r show ?thesis by (simp add: string_putc_def)
  next
    case True
    with r obtain buf where b: "realloc_zeroed lc (sb_s s) (sb_size s) (sb_growby s) = Done buf"
      and c: "(case map_option (\<lambda>b. s\<lparr>sb_size := sb_size s + sb_growby s, sb_s := Some b\<rparr>) buf of
          None \<Rightarrow> Done (False, s)
        | Some s' \<Rightarrow> run_bind (store_bytes (sb_s s') (unat (sb_length s')) [c])
            (\<lambda>b. Done (True, s'\<lparr>sb_s := b, sb_length := sb_length s' + 1\<rparr>))) = Done (ok, s')"
      by (auto simp: string_putc_def run_simps)
    show ?thesis
    proof (cases buf)
      case None
      with c s show ?thesis by simp
    next
      case (Some b')
      with realloc_returns [OF s, of lc "sb_growby s" b'] b
      have t: "buf_ok (s\<lparr>sb_size := sb_size s + sb_growby s, sb_s := Some b'\<rparr>)"
        "content (s\<lparr>sb_size := sb_size s + sb_growby s, sb_s := Some b'\<rparr>) = content s" by simp_all
      from copy [OF t(1), of s'] c Some t(2) show ?thesis by simp
    qed
  qed
qed

lemma string_ensurez_returns:
  assumes s: "buf_ok s" and r: "string_ensurez lc s = Done (ok, s')"
  shows "buf_ok s' \<and> content s' = content s \<and> sb_growby s' = sb_growby s"
proof -
  let ?append = "run_bind (string_putc lc s NUL) (\<lambda>(ok, s'). if \<not> ok then Done (False, s')
          else Done (True, s'\<lparr>sb_length := sb_length s' - 1\<rparr>))"
  from r consider "s' = s" | "?append = Done (ok, s')"
  proof (cases "sb_s s")
    case (Some b)
    with r that show ?thesis by (cases "string_last_byte lc s b") (auto simp: string_ensurez_def Let_def split: if_splits)
  qed (simp add: string_ensurez_def Let_def)
  then show ?thesis
  proof cases
    case 2
    then show ?thesis
      using string_putc_returns [OF s, of lc NUL] drop_NUL_returns [of _ "content s"]
      by (auto simp: run_simps split: if_splits)
  qed (use s in simp)
qed

lemmas buf_returns = string_concatb_returns string_concat_returns string_putc_returns string_ensurez_returns

section \<open>Properties\<close>

text \<open>A C library that grants every request, for concrete instances.\<close>

definition plain_libc :: libc where
  "plain_libc = \<lparr>lc_alloc = (\<lambda>_. True), lc_before = NUL, lc_vsnprintf = (\<lambda>_ args. ([], args)),
     lc_getaddrinfo = (\<lambda>_ _. None), lc_inet_ntop = (\<lambda>_ _. None)\<rparr>"

lemma alloc_total_plain [simp]: "alloc_total plain_libc"
  by (simp add: alloc_total_def plain_libc_def)

text \<open>
  C36: \<open>string_concatb\<close> on a buffer that satisfies the invariant, with memory granted and the new
  length at most \<open>2^62\<close>: the call returns true, the invariant holds afterwards, and the stored
  bytes are the old ones followed by the given ones.
\<close>

theorem string_concatb_correct:
  assumes "buf_inv s" and "alloc_total lc" and "length (content s) + length xs \<le> buf_limit"
  shows "\<exists>s'. string_concatb lc s xs = Done (True, s') \<and> buf_inv s' \<and> content s' = content s @ xs"
  using string_concatb_core [OF assms(1,3), of lc] assms(2) by auto

theorem string_concatb_correct_witness:
  "\<exists>s'. string_concatb plain_libc (string_init plain_libc 4 2) ''hello world'' = Done (True, s')
      \<and> buf_inv s' \<and> content s' = ''hello world''"
  using string_concatb_correct [of "string_init plain_libc 4 2" plain_libc "''hello world''"]
  by (simp add: string_init_inv buf_limit_def)

text \<open>
  the growth loop shared by \<open>string_concatb\<close> and \<open>string_read\<close> ends, and it stops at the
  least multiple of the increment that makes room for \<open>need\<close> more bytes, provided no sum on the
  way leaves 64 bits.
\<close>

theorem grow_loop_terminates:
  assumes "0 < unat g" and "unat need + unat len + unat g < 2 ^ 64"
    and "unat len \<le> unat sz" and "unat sz + unat g < 2 ^ 64"
  shows "\<exists>h k. grow_loop sz len g need g = Some (Some h) \<and> unat h = Suc k * unat g
     \<and> unat need \<le> unat sz + unat h - unat len
     \<and> (0 < k \<longrightarrow> unat sz + k * unat g - unat len < unat need)"
proof -
  from grow_loop_total [OF assms] obtain h k where
    h: "grow_loop sz len g need g = Some (Some h)" "unat h = unat g + k * unat g"
      "unat need + unat len \<le> unat sz + unat h"
      "h = g \<or> unat sz + unat h < unat need + unat len + unat g"
    by blast
  have "0 < k \<Longrightarrow> unat sz + k * unat g - unat len < unat need"
  proof -
    assume "0 < k"
    with h(2) assms(1) have "h \<noteq> g" by auto
    with h(2,4) assms(3) show ?thesis by linarith
  qed
  moreover have "unat h = Suc k * unat g" using h(2) by simp
  ultimately show ?thesis using h(1,3) by (metis add_le_imp_le_diff)
qed

theorem grow_loop_terminates_witness:
  "\<exists>h k. grow_loop 8 6 16 100 16 = Some (Some h) \<and> unat h = Suc k * unat (16 :: size_t)
     \<and> unat (100 :: size_t) \<le> unat (8 :: size_t) + unat h - unat (6 :: size_t)
     \<and> (0 < k \<longrightarrow> unat (8 :: size_t) + k * unat (16 :: size_t) - unat (6 :: size_t) < unat (100 :: size_t))"
  using grow_loop_terminates [of 16 100 6 8] by simp

text \<open>
  when the allocator refuses, \<open>string_putc\<close> on a full buffer returns false and leaves the
  buffer alone, but \<open>string_concatb\<close> clears memory at the null pointer before it tests it.
\<close>

theorem string_concatb_null_before_check:
  assumes "buf_inv s" and "sb_size s = sb_length s" and "xs \<noteq> []"
    and "length (content s) + length xs \<le> buf_limit" and "\<forall>n. \<not> lc_alloc lc n"
  shows "string_putc lc s c = Done (False, s) \<and> string_concatb lc s xs = Fault Null_deref"
proof -
  have "unat (of_nat (length xs) :: size_t) = length xs"
    using assms(4) by (intro unat_of_nat_size_t) (simp add: buf_limit_def)
  with assms(3) have "(of_nat (length xs) :: size_t) \<noteq> 0" by auto
  then have full: "sb_size s - sb_length s < of_nat (length xs)"
    using assms(2) by (simp add: word_neq_0_conv)
  have "sb_growby s \<noteq> 0" using assms(1) by (auto simp: buf_inv_def)
  moreover obtain h where
    "grow_loop (sb_size s) (sb_length s) (sb_growby s) (of_nat (length xs)) (sb_growby s) = Some (Some h)"
    using assms(1,4) full by (rule grow_loop_buf)
  ultimately show ?thesis
    using full assms(2,5) by (simp add: string_putc_def string_concatb_def realloc_zeroed_fails Let_def)
qed

theorem string_concatb_null_before_check_witness:
  "string_putc (plain_libc\<lparr>lc_alloc := \<lambda>_. False\<rparr>) (string_lazyinit 16) (CHR ''x'')
     = Done (False, string_lazyinit 16)
   \<and> string_concatb (plain_libc\<lparr>lc_alloc := \<lambda>_. False\<rparr>) (string_lazyinit 16) ''xyz'' = Fault Null_deref"
  by (rule string_concatb_null_before_check)
    (simp_all add: string_lazyinit_inv, simp_all add: string_lazyinit_def content_def buf_limit_def)

text \<open>
  \<open>string_concat_sprintf\<close> with a format of plain characters, \<open>%s\<close>, \<open>%S\<close> and \<open>%d\<close> and
  matching arguments appends exactly the text the format stands for, and keeps the invariant.
\<close>

theorem string_concat_sprintf_correct:
  assumes "format_text msg args = Some t" and "buf_inv s" and "alloc_total lc"
    and "length (content s) + length t < buf_limit"
  shows "\<exists>s'. string_concat_sprintf lc msg args s = Done (True, s') \<and> buf_inv s'
            \<and> content s' = content s @ t"
  using string_concat_sprintf_writes [OF assms(1), of lc] assms(2-4) by (auto simp: emits_def)

theorem string_concat_sprintf_correct_witness:
  "\<exists>s'. string_concat_sprintf plain_libc ''Port=%d for %s'' [Arg_d 665, Arg_s ''node''] (string_init plain_libc 8 8)
        = Done (True, s') \<and> buf_inv s' \<and> content s' = ''Port=665 for node''"
proof -
  have "format_text ''Port=%d for %s'' [Arg_d 665, Arg_s ''node''] = Some ''Port=665 for node''"
    by code_simp
  from string_concat_sprintf_correct [OF this, of "string_init plain_libc 8 8" plain_libc]
  show ?thesis by (simp add: string_init_inv buf_limit_def)
qed

text \<open>
  \<open>string_ensurez\<close> on a buffer with content (or without a block) leaves the content as it is
  and makes the pointer that \<open>string_get\<close> returns a proper C string for that content.
\<close>

theorem string_ensurez_terminates_text:
  assumes "buf_inv s" and "length (content s) < buf_limit" and "alloc_total lc"
    and "content s \<noteq> [] \<or> sb_s s = None"
  shows "\<exists>s'. string_ensurez lc s = Done (True, s') \<and> buf_inv s' \<and> content s' = content s
           \<and> string_cstr s' = cstr (content s)"
  using string_ensurez_total [OF assms(1) _ assms(3,4)] assms(2) by simp

theorem string_ensurez_terminates_text_witness:
  "\<exists>s'. string_ensurez plain_libc (string_lazyinit 16) = Done (True, s') \<and> buf_inv s'
      \<and> content s' = content (string_lazyinit 16) \<and> string_cstr s' = cstr (content (string_lazyinit 16))"
  by (rule string_ensurez_terminates_text)
    (simp_all add: string_lazyinit_inv buf_limit_def, simp add: string_lazyinit_def)

text \<open>
  \<open>string_equals\<close> compares the stored bytes; two buffers of which only one has a block are
  never equal, even when both are empty.
\<close>

theorem string_equals_iff:
  assumes "buf_ok s1" and "buf_ok s2"
  shows "string_equals s1 s2 \<longleftrightarrow> content s1 = content s2 \<and> (sb_s s1 = None \<longleftrightarrow> sb_s s2 = None)"
  using assms by (rule string_equals_content)

theorem string_equals_iff_witness:
  "string_equals (string_lazyinit 4) (string_init plain_libc 4 4)
     \<longleftrightarrow> content (string_lazyinit 4) = content (string_init plain_libc 4 4)
        \<and> (sb_s (string_lazyinit 4) = None \<longleftrightarrow> sb_s (string_init plain_libc 4 4) = None)"
  by (rule string_equals_iff) (simp_all add: string_lazyinit_def string_init_def buf_ok_def)

end
