(* ===== verification/Strnatcmp.thy ===== *)
theory Strnatcmp
  imports Cstr
begin

text \<open>
  \<^verbatim>\<open>src/strnatcmp.c\<close>: comparison in natural order, which the client uses on tinc version
  numbers.  A string is read up to its terminating zero; \<open>cur\<close> is the character at the front.
\<close>

section \<open>Definitions\<close>

definition cur :: "string \<Rightarrow> char" where
  "cur s = (case s of [] \<Rightarrow> NUL | c # _ \<Rightarrow> c)"

definition nat_isdigit :: "char \<Rightarrow> bool" where
  "nat_isdigit a = isdigit a"

definition nat_isspace :: "char \<Rightarrow> bool" where
  "nat_isspace a = isspace a"

definition nat_toupper :: "char \<Rightarrow> char" where
  "nat_toupper a = toupper a"

lemma nat_isdigit_cur: "nat_isdigit (cur s) \<Longrightarrow> \<exists>c cs. s = c # cs \<and> isdigit c"
  by (cases s) (auto simp: cur_def nat_isdigit_def)

lemma nat_isdigit_cur_shorter: "nat_isdigit (cur s) \<Longrightarrow> length s - Suc 0 < length s"
  by (auto dest!: nat_isdigit_cur)

lemma cur_nonempty: "cur s \<noteq> NUL \<Longrightarrow> s \<noteq> []"
  by (auto simp: cur_def)

function compare_right :: "string \<Rightarrow> string \<Rightarrow> int \<Rightarrow> int" where
  "compare_right a b bias =
     (if \<not> nat_isdigit (cur a) \<and> \<not> nat_isdigit (cur b) then bias
      else if \<not> nat_isdigit (cur a) then -1
      else if \<not> nat_isdigit (cur b) then 1
      else if schar (cur a) < schar (cur b) then
        compare_right (tl a) (tl b) (if bias = 0 then -1 else bias)
      else if schar (cur b) < schar (cur a) then
        compare_right (tl a) (tl b) (if bias = 0 then 1 else bias)
      else if cur a = NUL \<and> cur b = NUL then bias
      else compare_right (tl a) (tl b) bias)"
  by pat_completeness auto
termination
  by (relation "measure (\<lambda>(a, b, bias). length a)") (simp_all add: nat_isdigit_cur_shorter)

function compare_left :: "string \<Rightarrow> string \<Rightarrow> int" where
  "compare_left a b =
     (if \<not> nat_isdigit (cur a) \<and> \<not> nat_isdigit (cur b) then 0
      else if \<not> nat_isdigit (cur a) then -1
      else if \<not> nat_isdigit (cur b) then 1
      else if schar (cur a) < schar (cur b) then -1
      else if schar (cur b) < schar (cur a) then 1
      else compare_left (tl a) (tl b))"
  by pat_completeness auto
termination
  by (relation "measure (\<lambda>(a, b). length a)") (simp_all add: nat_isdigit_cur_shorter)

declare compare_right.simps [simp del] compare_left.simps [simp del]

text \<open>The comparison of two runs of digits at the front, 0 when there are not two.\<close>

definition digit_result :: "string \<Rightarrow> string \<Rightarrow> int" where
  "digit_result a b =
     (if nat_isdigit (cur a) \<and> nat_isdigit (cur b)
      then if cur a = CHR ''0'' \<or> cur b = CHR ''0'' then compare_left a b else compare_right a b 0
      else 0)"

lemma code_0_iff: "code c = 0 \<longleftrightarrow> c = NUL"
proof -
  have "c = NUL \<longleftrightarrow> code c = code NUL" by (simp only: of_char_eq_iff)
  then show ?thesis by simp
qed

lemma toupper_NUL [simp]: "toupper c = NUL \<longleftrightarrow> c = NUL"
  using mod_less [of "code c - 32" 256] by (auto simp: code_0_iff [symmetric] toupper_def)

function strnatcmp0 :: "string \<Rightarrow> string \<Rightarrow> bool \<Rightarrow> int" where
  "strnatcmp0 a b fold_case =
     (let a' = dropWhile nat_isspace a; b' = dropWhile nat_isspace b; ca = cur a'; cb = cur b';
          result = digit_result a' b'
      in if result \<noteq> 0 then result
         else if ca = NUL \<and> cb = NUL then 0
         else let fa = (if fold_case then nat_toupper ca else ca);
                  fb = (if fold_case then nat_toupper cb else cb)
              in if schar fa < schar fb then -1
                 else if schar fb < schar fa then 1
                 else strnatcmp0 (tl a') (tl b') fold_case)"
  by pat_completeness auto
termination
proof (relation "measure (\<lambda>(a, b, f). length a)", goal_cases)
  case (2 a b f a' b' ca cb res fa fb)
  then have "fa = fb" by (metis linorder_neqE schar_inject)
  then have "ca = NUL \<longleftrightarrow> cb = NUL"
    using 2 by (auto simp: nat_toupper_def split: if_splits) (metis toupper_NUL)+
  with 2 have "ca \<noteq> NUL" by simp
  then have "a' \<noteq> []" using 2(3) cur_nonempty by blast
  moreover have "length a' \<le> length a" using 2 length_dropWhile_le by blast
  ultimately show ?case by (cases a') (use 2 in auto)
qed simp

declare strnatcmp0.simps [simp del]

definition strnatcmp :: "string \<Rightarrow> string \<Rightarrow> int" where
  "strnatcmp a b = strnatcmp0 a b False"

definition strnatcasecmp :: "string \<Rightarrow> string \<Rightarrow> int" where
  "strnatcasecmp a b = strnatcmp0 a b True"

section \<open>Symmetry\<close>

lemma compare_right_antisym: "compare_right b a (- bias) = - compare_right a b bias"
proof (induction a b bias rule: compare_right.induct)
  case (1 a b bias)
  then show ?case
    by (subst (1 2) compare_right.simps) (auto split: if_splits)
qed

lemma compare_left_antisym: "compare_left b a = - compare_left a b"
proof (induction a b rule: compare_left.induct)
  case (1 a b)
  then show ?case by (subst (1 2) compare_left.simps) auto
qed

lemma digit_result_antisym: "digit_result b a = - digit_result a b"
  using compare_right_antisym [of b a 0] compare_left_antisym [of b a]
  by (auto simp: digit_result_def)

lemma strnatcmp0_antisym: "strnatcmp0 b a f = - strnatcmp0 a b f"
proof (induction a b f rule: strnatcmp0.induct)
  case (1 a b f)
  then show ?case
    by (subst (1 2) strnatcmp0.simps)
      (auto simp: Let_def digit_result_antisym [of "dropWhile nat_isspace b"])
qed

text \<open>A three-way comparison whose sign flips when its arguments are exchanged.\<close>

locale comparison =
  fixes cmp :: "'a \<Rightarrow> 'a \<Rightarrow> int"
  assumes cmp_antisym: "cmp y x = - cmp x y"
begin

lemma cmp_refl: "cmp x x = 0"
  using cmp_antisym [of x x] by simp

lemma cmp_greater_iff: "0 < cmp x y \<longleftrightarrow> cmp y x < 0"
  using cmp_antisym [of x y] by simp

lemma cmp_not_both: "\<not> (0 < cmp x y \<and> 0 < cmp y x)"
  using cmp_antisym [of x y] by simp

end

interpretation natural: comparison strnatcmp
  by unfold_locales (unfold strnatcmp_def, rule strnatcmp0_antisym)

interpretation natural_case: comparison strnatcasecmp
  by unfold_locales (unfold strnatcasecmp_def, rule strnatcmp0_antisym)

section \<open>Numbers\<close>

definition dec_value :: "nat \<Rightarrow> string \<Rightarrow> nat" where
  "dec_value acc ds = fold (\<lambda>c a. a * 10 + digit_val c) ds acc"

lemma schar_digit_less: "isdigit c \<Longrightarrow> isdigit d \<Longrightarrow> schar c < schar d \<longleftrightarrow> digit_val c < digit_val d"
  by (auto simp: isdigit_def schar_def digit_val_def)

lemma digit_val_eq_iff: "isdigit c \<Longrightarrow> isdigit d \<Longrightarrow> digit_val c = digit_val d \<longleftrightarrow> c = d"
  using schar_digit_less [of c d] schar_digit_less [of d c] schar_inject [of c d] by force

lemma sgn_next_digit:
  fixes x y :: nat
  assumes "d < 10" "e < 10" "x \<noteq> y"
  shows "sgn (int (x * 10 + d) - int (y * 10 + e)) = sgn (int x - int y)"
  using assms by (cases "x < y") (auto simp: sgn_if)

lemma compare_right_equal_length:
  assumes "length ds = length es" and "list_all isdigit ds" and "list_all isdigit es"
    and "\<not> isdigit (cur r)" and "\<not> isdigit (cur q)"
  shows "compare_right (ds @ r) (es @ q) (sgn (int x - int y)) = sgn (int (dec_value x ds) - int (dec_value y es))"
  using assms
proof (induction ds es arbitrary: x y rule: list_induct2)
  case Nil
  then show ?case by (subst compare_right.simps) (simp add: nat_isdigit_def dec_value_def)
next
  case (Cons c ds d es)
  have dg: "isdigit c" "isdigit d" using Cons.prems by simp_all
  let ?x = "x * 10 + digit_val c" and ?y = "y * 10 + digit_val d"
  have "(if schar c < schar d then if sgn (int x - int y) = 0 then -1 else sgn (int x - int y)
         else if schar d < schar c then if sgn (int x - int y) = 0 then 1 else sgn (int x - int y)
         else sgn (int x - int y)) = sgn (int ?x - int ?y)"
  proof (cases "x = y")
    case True
    then show ?thesis using dg schar_digit_less by (auto simp: sgn_if)
  next
    case False
    then have "sgn (int ?x - int ?y) = sgn (int x - int y)"
      using dg by (intro sgn_next_digit) simp_all
    moreover have "sgn (int x - int y) \<noteq> 0" using False by (simp add: sgn_if)
    ultimately show ?thesis by simp
  qed
  then have "compare_right ((c # ds) @ r) ((d # es) @ q) (sgn (int x - int y))
      = compare_right (ds @ r) (es @ q) (sgn (int ?x - int ?y))"
    using dg by (subst compare_right.simps) (auto simp: cur_def nat_isdigit_def split: if_splits)
  also have "\<dots> = sgn (int (dec_value ?x ds) - int (dec_value ?y es))"
    using Cons.prems by (intro Cons.IH) simp_all
  finally show ?case by (simp add: dec_value_def)
qed

lemma compare_right_shorter:
  assumes "length ds < length es" and "list_all isdigit ds" and "list_all isdigit es"
    and "\<not> isdigit (cur r)"
  shows "compare_right (ds @ r) (es @ q) bias = -1"
  using assms
proof (induction ds arbitrary: es bias)
  case Nil
  then obtain e es' where "es = e # es'" "isdigit e" by (cases es) auto
  with Nil show ?case by (subst compare_right.simps) (simp add: nat_isdigit_def cur_def)
next
  case (Cons c ds)
  then obtain e es' where es: "es = e # es'" "isdigit e" by (cases es) auto
  with Cons have "compare_right (ds @ r) (es' @ q) b = -1" for b by simp
  with Cons.prems es show ?case
    by (subst compare_right.simps) (auto simp: nat_isdigit_def cur_def)
qed

text \<open>Bounds on the value of a run of digits.\<close>

lemma dec_value_less: "list_all isdigit ds \<Longrightarrow> dec_value x ds < (x + 1) * 10 ^ length ds"
proof (induction ds arbitrary: x)
  case Nil
  then show ?case by (simp add: dec_value_def)
next
  case (Cons c ds)
  then have "digit_val c \<le> 9" by (auto simp: digit_val_def isdigit_def)
  then have "x * 10 + digit_val c + 1 \<le> (x + 1) * 10" by simp
  then have "(x * 10 + digit_val c + 1) * 10 ^ length ds \<le> (x + 1) * 10 * 10 ^ length ds"
    by (rule mult_right_mono) simp
  moreover have "dec_value (x * 10 + digit_val c) ds < (x * 10 + digit_val c + 1) * 10 ^ length ds"
    using Cons by simp
  ultimately have "dec_value (x * 10 + digit_val c) ds < (x + 1) * 10 * 10 ^ length ds" by linarith
  then show ?case by (simp add: dec_value_def algebra_simps)
qed

lemma dec_value_ge: "x * 10 ^ length ds \<le> dec_value x ds"
proof (induction ds arbitrary: x)
  case Nil
  then show ?case by (simp add: dec_value_def)
next
  case (Cons c ds)
  have "x * 10 ^ length (c # ds) \<le> (x * 10 + digit_val c) * 10 ^ length ds"
    by (simp add: algebra_simps)
  also have "\<dots> \<le> dec_value (x * 10 + digit_val c) ds" by (rule Cons.IH)
  finally show ?case by (simp add: dec_value_def)
qed

lemma dec_value_longer:
  assumes "list_all isdigit ds" and "length ds < length es" and "isdigit (hd es)" and "hd es \<noteq> CHR ''0''"
  shows "dec_value 0 ds < dec_value 0 es"
proof -
  from assms(2) obtain e es' where es: "es = e # es'" by (cases es) auto
  have "digit_val e \<noteq> digit_val (CHR ''0'')"
    using assms(3,4) es digit_val_eq_iff [of e "CHR ''0''"] by (simp add: isdigit_def)
  then have e: "1 \<le> digit_val e" by (simp add: digit_val_def isdigit_def)
  have "dec_value 0 ds < 10 ^ length ds"
    using dec_value_less [OF assms(1), of 0] by simp
  also have "\<dots> \<le> 10 ^ length es'"
    using assms(2) es by (intro power_increasing) simp_all
  also have "\<dots> \<le> digit_val e * 10 ^ length es'" using e by simp
  also have "\<dots> \<le> dec_value (digit_val e) es'" by (rule dec_value_ge)
  also have "\<dots> = dec_value 0 es" by (simp add: es dec_value_def)
  finally show ?thesis .
qed

lemma hd_nat_dec_nonzero: "0 < n \<Longrightarrow> hd (nat_dec n) \<noteq> CHR ''0''"
proof (induction n rule: nat_dec.induct)
  case (1 n)
  show ?case
  proof (cases "n < 10")
    case True
    have "digit_char n \<noteq> CHR ''0''"
    proof
      assume "digit_char n = CHR ''0''"
      then have "digit_val (digit_char n) = 0" by (simp add: digit_val_def isdigit_def)
      with True "1.prems" show False by simp
    qed
    with True show ?thesis by (simp add: nat_dec.simps [of n])
  next
    case False
    then have "hd (nat_dec n) = hd (nat_dec (n div 10))"
      by (simp add: nat_dec.simps [of n])
    moreover have "hd (nat_dec (n div 10)) \<noteq> CHR ''0''"
      using False by (intro "1.IH") simp_all
    ultimately show ?thesis by simp
  qed
qed

lemma dec_value_nat_dec: "dec_value 0 (nat_dec n) = n"
  by (simp add: dec_value_def nat_dec_value)

lemma list_all_nat_dec: "list_all isdigit (nat_dec n)"
  by (auto simp: list_all_iff dest: nat_dec_isdigit)


lemma compare_right_nat_dec:
  assumes "0 < n" "0 < m" "\<not> isdigit (cur r)" "\<not> isdigit (cur q)"
  shows "compare_right (nat_dec n @ r) (nat_dec m @ q) 0 = sgn (int n - int m)"
proof -
  have dn: "list_all isdigit (nat_dec n)" "list_all isdigit (nat_dec m)"
    by (rule list_all_nat_dec)+
  have longer: "n' < m'" if "length (nat_dec n') < length (nat_dec m')" "0 < m'" for n' m'
    using dec_value_longer [OF list_all_nat_dec that(1) hd_nat_dec_isdigit hd_nat_dec_nonzero [OF that(2)]]
    by (simp add: dec_value_nat_dec)
  consider "length (nat_dec n) < length (nat_dec m)" | "length (nat_dec m) < length (nat_dec n)"
    | "length (nat_dec n) = length (nat_dec m)" by linarith
  then show ?thesis
  proof cases
    case 1
    with longer [OF 1] assms dn show ?thesis by (simp add: compare_right_shorter sgn_if)
  next
    case 2
    then have "compare_right (nat_dec m @ q) (nat_dec n @ r) 0 = -1"
      using assms dn by (intro compare_right_shorter) simp_all
    with longer [OF 2] assms compare_right_antisym [of "nat_dec n @ r" "nat_dec m @ q" 0]
    show ?thesis by (simp add: sgn_if)
  next
    case 3
    from compare_right_equal_length [OF 3 dn assms(3,4), of 0 0] show ?thesis
      by (simp add: dec_value_nat_dec)
  qed
qed

lemma nat_dec_0: "nat_dec 0 = ''0''"
  by code_simp

lemma cur_nat_dec: "cur (nat_dec n @ r) = hd (nat_dec n)"
  by (cases "nat_dec n") (auto simp: cur_def)

lemma compare_left_zero:
  assumes "0 < m" "\<not> isdigit (cur r)"
  shows "compare_left (nat_dec 0 @ r) (nat_dec m @ q) = -1"
proof -
  have d: "isdigit (hd (nat_dec m))" by (rule hd_nat_dec_isdigit)
  have nz: "hd (nat_dec m) \<noteq> CHR ''0''" using assms(1) by (rule hd_nat_dec_nonzero)
  with d have "schar (CHR ''0'') < schar (hd (nat_dec m))"
    using digit_val_eq_iff [of "hd (nat_dec m)" "CHR ''0''"]
    by (subst schar_digit_less) (auto simp: isdigit_def digit_val_def)
  with d nz show ?thesis
    by (subst compare_left.simps)
      (simp add: cur_nat_dec nat_isdigit_def, simp add: nat_dec_0 isdigit_def)
qed

text \<open>Two numbers in front of text that is no digit are compared by their value.\<close>

lemma digit_result_nat_dec:
  assumes "\<not> isdigit (cur r)" "\<not> isdigit (cur q)"
  shows "digit_result (nat_dec n @ r) (nat_dec m @ q) = sgn (int n - int m)"
proof -
  have d: "nat_isdigit (cur (nat_dec n @ r))" "nat_isdigit (cur (nat_dec m @ q))"
    by (simp_all add: cur_nat_dec nat_isdigit_def hd_nat_dec_isdigit)
  consider "0 < n" "0 < m" | "n = 0" "m = 0" | "n = 0" "0 < m" | "0 < n" "m = 0" by linarith
  then show ?thesis
  proof cases
    case 1
    with d hd_nat_dec_nonzero compare_right_nat_dec [OF 1 assms] show ?thesis
      by (simp add: digit_result_def cur_nat_dec)
  next
    case 2
    have "compare_left (''0'' @ r) (''0'' @ q) = 0"
      using assms by (simp add: compare_left.simps cur_def nat_isdigit_def isdigit_def)
    with 2 d show ?thesis by (simp add: digit_result_def nat_dec_0 cur_def)
  next
    case 3
    with d compare_left_zero [OF 3(2) assms(1)] show ?thesis
      by (simp add: digit_result_def nat_dec_0) (simp add: cur_def)
  next
    case 4
    with d compare_left_zero [OF 4(1) assms(2)] compare_left_antisym [of "nat_dec n @ r" "nat_dec 0 @ q"]
    show ?thesis by (simp add: digit_result_def nat_dec_0) (simp add: cur_def)
  qed
qed

section \<open>Version numbers\<close>

lemma strnatcmp_self: "strnatcmp a a = 0"
  by (rule natural.cmp_refl)

lemma dropWhile_nat_dec: "dropWhile nat_isspace (nat_dec n) = nat_dec n"
proof -
  have "isdigit (hd (nat_dec n))" by (rule hd_nat_dec_isdigit)
  then have "\<not> nat_isspace (hd (nat_dec n))" by (simp add: nat_isspace_def isdigit_not_isspace)
  then show ?thesis by (cases "nat_dec n") auto
qed

lemma strnatcmp_nat_dec: "strnatcmp (nat_dec n) (nat_dec m) = sgn (int n - int m)"
proof (cases "n = m")
  case True
  then show ?thesis by (simp add: strnatcmp_self)
next
  case False
  have "digit_result (nat_dec n) (nat_dec m) = sgn (int n - int m)"
    using digit_result_nat_dec [of "[]" "[]"] by (simp add: cur_def)
  moreover have "sgn (int n - int m) \<noteq> 0" using False by (simp add: sgn_if)
  ultimately show ?thesis
    by (simp add: strnatcmp_def strnatcmp0.simps [of "nat_dec n"] dropWhile_nat_dec Let_def)
qed

lemma strnatcmp_unfold:
  assumes "dropWhile nat_isspace a = a'" "dropWhile nat_isspace b = b'"
  shows "strnatcmp a b =
     (if digit_result a' b' \<noteq> 0 then digit_result a' b'
      else if cur a' = NUL \<and> cur b' = NUL then 0
      else if schar (cur a') < schar (cur b') then -1
      else if schar (cur b') < schar (cur a') then 1
      else strnatcmp (tl a') (tl b'))"
  using assms by (simp add: strnatcmp_def strnatcmp0.simps [of a] Let_def)

lemma strnatcmp_common_front:
  assumes "\<not> isdigit c" "\<not> isspace c" "c \<noteq> NUL"
  shows "strnatcmp (c # a) (c # b) = strnatcmp a b"
  using assms
  by (simp add: strnatcmp_def strnatcmp0.simps [of "c # a"] Let_def cur_def digit_result_def
      nat_isdigit_def nat_isspace_def)

lemma strnatcmp_common_digit:
  assumes "isdigit d" "\<not> isdigit c"
  shows "strnatcmp (d # c # a) (d # c # b) = strnatcmp (c # a) (c # b)"
proof -
  have "d \<noteq> NUL" using assms(1) by auto
  then show ?thesis
    using assms isdigit_not_isspace [OF assms(1)]
    by (simp add: strnatcmp_def strnatcmp0.simps [of "d # c # a"] Let_def digit_result_def
        nat_isdigit_def nat_isspace_def compare_left.simps compare_right.simps cur_def)
qed

text \<open>Equal fronts in front of a suffix that is no digit: the runs of digits compare equal.\<close>

lemma compare_left_suffix:
  "\<not> isdigit (cur s) \<Longrightarrow> compare_left (x @ s) x = 0"
proof (induction x)
  case Nil
  then show ?case by (subst compare_left.simps) (simp add: nat_isdigit_def, simp add: cur_def)
next
  case (Cons c x)
  then show ?case by (subst compare_left.simps) (simp add: nat_isdigit_def cur_def)
qed

lemma compare_right_suffix:
  "\<not> isdigit (cur s) \<Longrightarrow> compare_right (x @ s) x 0 = 0"
proof (induction x)
  case Nil
  then show ?case by (subst compare_right.simps) (simp add: nat_isdigit_def, simp add: cur_def)
next
  case (Cons c x)
  then show ?case by (subst compare_right.simps) (simp add: nat_isdigit_def cur_def)
qed

lemma strnatcmp_suffix:
  assumes c: "\<not> isdigit c" "\<not> isspace c" "0 < schar c"
  shows "NUL \<notin> set v \<Longrightarrow> strnatcmp (v @ c # s) v = 1"
proof (induction v rule: length_induct)
  case (1 v)
  let ?v = "dropWhile nat_isspace v"
  have nul: "c \<noteq> NUL" using c(3) by (auto simp: schar_def)
  have dw: "dropWhile nat_isspace (v @ c # s) = ?v @ c # s"
    using c(2) by (induction v) (auto simp: nat_isspace_def)
  have dr: "digit_result (?v @ c # s) ?v = 0"
    using compare_left_suffix [of "c # s" ?v] compare_right_suffix [of "c # s" ?v] c(1)
    by (simp add: digit_result_def cur_def)
  show ?case
  proof (cases ?v)
    case Nil
    have "schar NUL = 0" by (simp add: schar_def)
    with dr c(3) nul show ?thesis
      unfolding strnatcmp_unfold [OF dw refl] Nil by (simp add: cur_def)
  next
    case (Cons d v')
    have "d \<in> set v" using Cons by (metis list.set_intros(1) set_dropWhileD)
    then have "d \<noteq> NUL" using "1.prems" by auto
    then have step: "strnatcmp (v @ c # s) v = strnatcmp (v' @ c # s) v'"
      using dr unfolding strnatcmp_unfold [OF dw refl] Cons by (simp add: cur_def)
    have "length v' < length v"
      using Cons length_dropWhile_le [of nat_isspace v] by simp
    moreover have "NUL \<notin> set v'"
      using Cons "1.prems" by (metis list.set_intros(2) set_dropWhileD)
    ultimately show ?thesis using "1.IH" step by simp
  qed
qed

section \<open>Properties\<close>

text \<open>
  C37: \<open>strnatcmp\<close> and \<open>strnatcasecmp\<close> are three-way comparisons: exchanging the arguments
  flips the sign, so no two strings are each newer than the other and equal strings compare
  equal.
\<close>

theorem strnatcmp_three_way:
  "strnatcmp b a = - strnatcmp a b \<and> strnatcasecmp b a = - strnatcasecmp a b
   \<and> strnatcmp a a = 0 \<and> \<not> (0 < strnatcmp a b \<and> 0 < strnatcmp b a)"
  using natural.cmp_antisym [of b a] natural_case.cmp_antisym [of b a] natural.cmp_refl natural.cmp_not_both
  by blast

text \<open>
  on the tinc releases 1.0.\<open>n\<close> the comparison is the one of the numbers, so the gates
  \<open>strnatcmp(version, "1.0.12") > 0\<close> and \<open>strnatcmp(version, "1.0.16") > 0\<close> of the generator
  open exactly for the later releases; a single digit is not taken for a larger one.
\<close>

theorem strnatcmp_release:
  "strnatcmp (''1.0.'' @ nat_dec n) (''1.0.'' @ nat_dec m) = sgn (int n - int m)
   \<and> (0 < strnatcmp (''1.0.'' @ nat_dec n) ''1.0.12'' \<longleftrightarrow> 12 < n)
   \<and> (0 < strnatcmp (''1.0.'' @ nat_dec n) ''1.0.16'' \<longleftrightarrow> 16 < n)"
proof -
  have front: "strnatcmp (''1.0.'' @ a) (''1.0.'' @ b) = strnatcmp a b" for a b
  proof -
    have "isdigit (CHR ''1'')" "isdigit (CHR ''0'')" "\<not> isdigit (CHR ''.'')" "\<not> isspace (CHR ''.'')"
      by (simp_all add: isdigit_def isspace_def)
    then show ?thesis by (simp add: strnatcmp_common_digit strnatcmp_common_front)
  qed
  have cmp: "strnatcmp (''1.0.'' @ nat_dec n) (''1.0.'' @ nat_dec k) = sgn (int n - int k)" for k
    by (simp only: front strnatcmp_nat_dec)
  have "''1.0.12'' = ''1.0.'' @ nat_dec 12" "''1.0.16'' = ''1.0.'' @ nat_dec 16" by code_simp+
  with cmp [of 12] cmp [of 16] cmp [of m] show ?thesis by (simp only:) (auto simp: sgn_if)
qed

text \<open>
  a version followed by a suffix that starts with neither a digit nor a space (as in
  \<open>1.0.12+git\<close> or \<open>1.1pre17\<close>) is newer than the bare version.
\<close>

theorem strnatcmp_suffix_newer:
  assumes "NUL \<notin> set v" and "\<not> isdigit c" and "\<not> isspace c" and "0 < schar c"
  shows "strnatcmp (v @ c # s) v = 1 \<and> strnatcmp v (v @ c # s) = -1"
  using strnatcmp_suffix [OF assms(2-4,1)] natural.cmp_antisym [of v "v @ c # s"] by simp

theorem strnatcmp_suffix_newer_witness:
  "strnatcmp (''1.1'' @ CHR ''p'' # ''re17'') ''1.1'' = 1 \<and> strnatcmp ''1.1'' (''1.1'' @ CHR ''p'' # ''re17'') = -1"
  by (rule strnatcmp_suffix_newer) (simp_all add: isdigit_def isspace_def schar_def)

end
