(* ===== verification/Addrmask.thy ===== *)
theory Addrmask
  imports Strbuf Strnatcmp
begin

unbundle bit_operations_syntax

text \<open>
  \<^verbatim>\<open>src/addrmask.c\<close>: addresses with a prefix length, IPv4 and IPv6.  The linked list of
  \<open>struct addr_info\<close> is a HOL list in the order of the \<open>next\<close> pointers.  The numeric address
  reader and printer of the C library are the fields \<open>lc_getaddrinfo\<close> and \<open>lc_inet_ntop\<close>.
\<close>

section \<open>State\<close>

definition ADDR_MAX_BYTES :: nat where
  "ADDR_MAX_BYTES = 16"

record addr_info =
  net_bytes :: "uchar list"
  mask_bytes :: "uchar list"
  addr_family :: family
  addr_byte_count :: uchar
  addr_bit_count :: uchar
  mask_shift :: uchar

definition addr_info_zero :: addr_info where
  "addr_info_zero = \<lparr>net_bytes = replicate ADDR_MAX_BYTES 0, mask_bytes = replicate ADDR_MAX_BYTES 0,
     addr_family = AF_UNSPEC, addr_byte_count = 0, addr_bit_count = 0, mask_shift = 0\<rparr>"

text \<open>The macros \<open>CIDR_MATCH_ADDR_FAMILY\<close>, \<open>\<dots>_BIT_COUNT\<close> and \<open>\<dots>_BYTE_COUNT\<close>.\<close>

definition match_addr_family :: "string \<Rightarrow> family" where
  "match_addr_family a = (if CHR '':'' \<in> set a then AF_INET6 else AF_INET)"

definition match_addr_bit_count :: "family \<Rightarrow> uchar" where
  "match_addr_bit_count f = (if f = AF_INET6 then 128 else if f = AF_INET then 32 else 128)"

definition match_addr_byte_count :: "family \<Rightarrow> uchar" where
  "match_addr_byte_count f = (if f = AF_INET6 then 16 else if f = AF_INET then 4 else 16)"

section \<open>Operations\<close>

function zero_bytes :: "uchar list \<Rightarrow> nat \<Rightarrow> nat \<Rightarrow> uchar list" where
  "zero_bytes bs p n = (if p < n then zero_bytes (bs[p := 0]) (Suc p) n else bs)"
  by pat_completeness auto
termination
  by (relation "measure (\<lambda>(bs, p, n). n - p)") auto

declare zero_bytes.simps [simp del]

definition mask_addr :: "uchar list \<Rightarrow> nat \<Rightarrow> nat \<Rightarrow> uchar list" where
  "mask_addr addr_bytes count network_bits =
     (if count * 8 < network_bits then addr_bytes
      else let p = network_bits div 8; nb = network_bits mod 8
           in if nb \<noteq> 0
              then zero_bytes (addr_bytes[p := addr_bytes ! p AND push_bit (8 - nb) (NOT 0)]) (Suc p) count
              else zero_bytes addr_bytes p count)"

text \<open>
  Taking the pattern apart: brackets first, then the mask behind a slash.  With \<open>[addr]/len\<close>
  the mask is looked for behind the bracket, with \<open>[addr/len]\<close> inside.  \<open>None\<close>: malformed.
\<close>

definition split_pattern :: "string \<Rightarrow> (string \<times> string option) option" where
  "split_pattern pattern =
     (if cur pattern = CHR ''['' then
        (case str_split_at (tl pattern) (CHR '']'') of
           (host, None) \<Rightarrow> None
         | (host, Some mask_search) \<Rightarrow>
             if cur mask_search \<noteq> CHR ''/''
             then if mask_search \<noteq> [] then None else Some (str_split_at host (CHR ''/''))
             else Some (host, snd (str_split_at mask_search (CHR ''/''))))
      else Some (str_split_at pattern (CHR ''/'')))"

text \<open>The loop that clears host bits, once any is found set.\<close>

function clear_host_bits :: "libc \<Rightarrow> addr_info \<Rightarrow> nat \<Rightarrow> nat \<Rightarrow> addr_info option" where
  "clear_host_bits lc ip i n =
     (if i < n
      then if net_bytes ip ! i AND NOT (mask_bytes ip ! i) \<noteq> 0
           then let ip' = ip\<lparr>net_bytes := mask_addr (net_bytes ip) (unat (addr_byte_count ip)) (unat (mask_shift ip))\<rparr>
                in if lc_inet_ntop lc (addr_family ip') (net_bytes ip') = None then None
                   else clear_host_bits lc ip' (Suc i) n
           else clear_host_bits lc ip (Suc i) n
      else Some ip)"
  by pat_completeness auto
termination
  by (relation "measure (\<lambda>(lc, ip, i, n). n - i)") auto

declare clear_host_bits.simps [simp del]

definition memcpy_net :: "uchar list \<Rightarrow> nat \<Rightarrow> uchar list \<Rightarrow> uchar list" where
  "memcpy_net dst n src = take n src @ drop n dst"

text \<open>The structure as it is filled in before the host bits are looked at.\<close>

definition filled_entry :: "family \<Rightarrow> uchar list \<Rightarrow> uchar \<Rightarrow> addr_info" where
  "filled_entry f addrbytes shift =
     (let n = unat (match_addr_byte_count f)
      in addr_info_zero\<lparr>net_bytes := memcpy_net (net_bytes addr_info_zero) n addrbytes,
           mask_bytes := (if 0 < unat shift
                          then mask_addr (memcpy_net (mask_bytes addr_info_zero) n (replicate n (- 1))) n (unat shift)
                          else memcpy_net (mask_bytes addr_info_zero) n (replicate n 0)),
           addr_family := f, addr_byte_count := match_addr_byte_count f,
           addr_bit_count := match_addr_bit_count f, mask_shift := shift\<rparr>)"

definition parse_with_mask :: "libc \<Rightarrow> string \<Rightarrow> string \<Rightarrow> addr_info option" where
  "parse_with_mask lc pattern msk =
     (let f = match_addr_family pattern; shift = (word_of_int (atoi msk) :: uchar)
      in if \<not> str_alldig msk \<or> unat (match_addr_bit_count f) < unat shift then None
         else case lc_getaddrinfo lc f pattern of
           None \<Rightarrow> None
         | Some addrbytes \<Rightarrow>
             clear_host_bits lc (filled_entry f addrbytes shift) 0 (unat (match_addr_byte_count f)))"

definition parse_no_mask :: "libc \<Rightarrow> string \<Rightarrow> addr_info option" where
  "parse_no_mask lc pattern =
     (let f = match_addr_family pattern; bits = match_addr_bit_count f; n = unat (match_addr_byte_count f)
      in case lc_getaddrinfo lc f pattern of
           None \<Rightarrow> None
         | Some addrbytes \<Rightarrow>
             Some (addr_info_zero\<lparr>net_bytes := memcpy_net (net_bytes addr_info_zero) n addrbytes,
                     mask_bytes := memcpy_net (mask_bytes addr_info_zero) n (replicate n (- 1)),
                     addr_family := f, addr_byte_count := match_addr_byte_count f, addr_bit_count := bits,
                     mask_shift := bits\<rparr>))"

definition parse_pattern :: "libc \<Rightarrow> string \<Rightarrow> addr_info option" where
  "parse_pattern lc pattern =
     (case split_pattern pattern of
        None \<Rightarrow> None
      | Some (host, Some msk) \<Rightarrow> parse_with_mask lc host msk
      | Some (host, None) \<Rightarrow> parse_no_mask lc host)"

text \<open>
  \<open>addrmask_parse\<close>: \<open>Some\<close> of the structure filled in when the C function returns true.  The
  pattern is first copied into a buffer of its own.
\<close>

definition addrmask_parse :: "libc \<Rightarrow> string \<Rightarrow> addr_info option run" where
  "addrmask_parse lc addressmask =
     run_bind (string_initfromstringz lc addressmask)
       (\<lambda>(ok, s). if \<not> ok then Done None
                  else run_bind (string_putc lc s NUL)
                    (\<lambda>(ok, s). if \<not> ok then Done None
                               else Done (parse_pattern lc (string_cstr s))))"

text \<open>\<open>sizeof(struct addr_info)\<close> is 48.\<close>

definition addrmask_init :: "libc \<Rightarrow> string \<Rightarrow> addr_info option run" where
  "addrmask_init lc addressmask =
     (if \<not> lc_alloc lc 48 then Done None else addrmask_parse lc addressmask)"

definition entry_matches :: "addr_info \<Rightarrow> addr_info \<Rightarrow> bool" where
  "entry_matches entry info =
     (if unat (mask_shift entry) < unat (addr_bit_count entry)
      then list_all (\<lambda>i. net_bytes info ! i AND mask_bytes entry ! i = net_bytes entry ! i)
             [0..<unat (addr_byte_count entry)]
      else list_all (\<lambda>i. net_bytes info ! i = net_bytes entry ! i) [0..<unat (addr_byte_count entry)])"

fun match_loop :: "addr_info list \<Rightarrow> addr_info \<Rightarrow> addr_info option" where
  "match_loop [] info = None"
| "match_loop (entry # rest) info =
     (if addr_family entry = addr_family info \<and> entry_matches entry info
      then if unat (mask_shift info) < unat (mask_shift entry) then None else Some entry
      else match_loop rest info)"

definition addrmask_match :: "libc \<Rightarrow> addr_info list \<Rightarrow> string option \<Rightarrow> addr_info option run" where
  "addrmask_match lc matches addr =
     (if matches = [] \<or> addr = None then Done None
      else run_bind (addrmask_parse lc (the addr))
             (\<lambda>r. case r of None \<Rightarrow> Done None | Some info \<Rightarrow> Done (match_loop matches info)))"

definition addrmask_to_string :: "libc \<Rightarrow> strbuf \<Rightarrow> addr_info \<Rightarrow> (bool \<times> strbuf) run" where
  "addrmask_to_string lc target addr =
     (case lc_inet_ntop lc (addr_family addr) (net_bytes addr) of
        None \<Rightarrow> Done (False, target)
      | Some buffer \<Rightarrow>
          run_seq [\<lambda>s. string_concat lc s buffer, \<lambda>s. string_putc lc s (CHR ''/''),
                   \<lambda>s. string_putint lc s (int (unat (mask_shift addr)))] target)"

definition family_fits :: "family \<Rightarrow> addr_info \<Rightarrow> bool" where
  "family_fits fam addr =
     (if fam = AF_INET \<and> addr_family addr = AF_INET then True
      else if fam = AF_INET6 \<and> addr_family addr = AF_INET6 then True
      else if fam = AF_UNSPEC then True else False)"

definition addrmask_verify_subnet :: "libc \<Rightarrow> string option \<Rightarrow> family \<Rightarrow> bool run" where
  "addrmask_verify_subnet lc addressmask fam =
     (if str_is_empty addressmask then Done False
      else run_bind (addrmask_init lc (the addressmask))
             (\<lambda>r. case r of None \<Rightarrow> Done False | Some addr \<Rightarrow> Done (family_fits fam addr)))"

definition addrmask_verify_ip :: "libc \<Rightarrow> string option \<Rightarrow> family \<Rightarrow> bool run" where
  "addrmask_verify_ip lc addressmask fam =
     (if str_is_empty addressmask then Done False
      else run_bind (addrmask_init lc (the addressmask))
             (\<lambda>r. case r of
                None \<Rightarrow> Done False
              | Some addr \<Rightarrow>
                  let res = (addr_family addr = AF_INET \<and> mask_shift addr = 32
                             \<or> addr_family addr = AF_INET6 \<and> mask_shift addr = 128)
                  in Done (if res then family_fits fam addr else res)))"

section \<open>Bits of an address\<close>

text \<open>Bit \<open>i\<close> of an address, counted from the most significant bit of the first byte.\<close>

definition addr_bit :: "uchar list \<Rightarrow> nat \<Rightarrow> bool" where
  "addr_bit bs i = bit (bs ! (i div 8)) (7 - i mod 8)"

lemma zero_bytes_nth:
  "length (zero_bytes bs p n) = length bs
   \<and> (\<forall>j < length bs. zero_bytes bs p n ! j = (if p \<le> j \<and> j < n then 0 else bs ! j))"
proof (induction bs p n rule: zero_bytes.induct)
  case (1 bs p n)
  show ?case
  proof (cases "p < n")
    case True
    with "1.IH" show ?thesis
      by (subst (1 2) zero_bytes.simps) (auto simp: nth_list_update le_less)
  next
    case False
    then show ?thesis by (subst (1 2) zero_bytes.simps) auto
  qed
qed

lemma length_mask_addr [simp]: "length (mask_addr bs c n) = length bs"
  using zero_bytes_nth by (simp add: mask_addr_def Let_def)

lemma mask_addr_nth:
  assumes "n \<le> c * 8" and "j < length bs" and "c \<le> length bs"
  shows "mask_addr bs c n ! j =
     (if c \<le> j \<or> j < n div 8 then bs ! j
      else if j = n div 8 \<and> n mod 8 \<noteq> 0 then bs ! j AND push_bit (8 - n mod 8) (NOT 0) else 0)"
proof -
  have "n mod 8 \<noteq> 0 \<Longrightarrow> n div 8 < c"
  proof -
    assume "n mod 8 \<noteq> 0"
    moreover have "n = n div 8 * 8 + n mod 8" by simp
    ultimately show ?thesis using assms(1) by linarith
  qed
  then show ?thesis
    using assms zero_bytes_nth [of bs "n div 8" c]
      zero_bytes_nth [of "bs[n div 8 := bs ! (n div 8) AND push_bit (8 - n mod 8) (NOT 0)]" "Suc (n div 8)" c]
    by (auto simp: mask_addr_def Let_def nth_list_update not_less_eq)
qed

text \<open>Masking keeps the first \<open>n\<close> bits and clears the rest.\<close>

lemma addr_bit_mask_addr:
  assumes "n \<le> c * 8" and "i < c * 8" and "c \<le> length bs"
  shows "addr_bit (mask_addr bs c n) i \<longleftrightarrow> i < n \<and> addr_bit bs i"
proof -
  have j: "i div 8 < c" using assms(2) by linarith
  then have nth: "mask_addr bs c n ! (i div 8) =
     (if i div 8 < n div 8 then bs ! (i div 8)
      else if i div 8 = n div 8 \<and> n mod 8 \<noteq> 0 then bs ! (i div 8) AND push_bit (8 - n mod 8) (NOT 0) else 0)"
    using mask_addr_nth [of n c "i div 8" bs] assms by auto
  consider "i div 8 < n div 8" | "i div 8 = n div 8" | "n div 8 < i div 8" by linarith
  then show ?thesis
  proof cases
    case 1
    then have "i < n" by linarith
    with 1 nth show ?thesis by (simp add: addr_bit_def)
  next
    case 2
    then have "i < n \<longleftrightarrow> i mod 8 < n mod 8"
      by (metis add_less_cancel_left mult_div_mod_eq)
    moreover have "n mod 8 \<noteq> 0 \<Longrightarrow> (8 - n mod 8 \<le> 7 - i mod 8) \<longleftrightarrow> i mod 8 < n mod 8" by linarith
    moreover have "7 - i mod 8 < 8" by simp
    ultimately show ?thesis using 2 nth
      by (auto simp: addr_bit_def bit_and_iff bit_push_bit_iff bit_not_iff bit_mask_iff)
  next
    case 3
    then have "\<not> i < n" by (meson div_le_mono leD less_imp_le)
    with 3 nth show ?thesis by (simp add: addr_bit_def)
  qed
qed

lemma uchar_eq_bits: "(x :: uchar) = y \<longleftrightarrow> (\<forall>k < 8. bit x (7 - k) = bit y (7 - k))"
proof
  assume eq: "\<forall>k < 8. bit x (7 - k) = bit y (7 - k)"
  show "x = y"
  proof (rule bit_word_eqI)
    fix k assume "k < LENGTH(8)"
    then have "7 - k < 8" "7 - (7 - k) = k" by simp_all
    then show "bit x k = bit y k" using eq by metis
  qed
qed simp

text \<open>Comparing bytes one by one is comparing all bits.\<close>

lemma all_bytes_iff_bits:
  "(\<forall>j < c. f (xs ! j) = (ys ! j :: uchar))
   \<longleftrightarrow> (\<forall>i < c * 8. bit (f (xs ! (i div 8))) (7 - i mod 8) = addr_bit ys i)"
proof -
  have "(\<forall>j < c. f (xs ! j) = ys ! j) \<longleftrightarrow> (\<forall>j < c. \<forall>k < 8. bit (f (xs ! j)) (7 - k) = bit (ys ! j) (7 - k))"
    by (simp add: uchar_eq_bits [symmetric])
  also have "\<dots> \<longleftrightarrow> (\<forall>i < c * 8. bit (f (xs ! (i div 8))) (7 - i mod 8) = addr_bit ys i)" (is "?L \<longleftrightarrow> ?R")
  proof
    assume ?L
    then show ?R by (simp add: addr_bit_def less_mult_imp_div_less)
  next
    assume R: ?R
    show ?L
    proof (rule allI, rule impI, rule allI, rule impI)
      fix j k :: nat assume "j < c" "k < 8"
      then have "(j * 8 + k) div 8 = j" "(j * 8 + k) mod 8 = k" "j * 8 + k < c * 8" by simp_all
      then show "bit (f (xs ! j)) (7 - k) = bit (ys ! j) (7 - k)"
        using R unfolding addr_bit_def by metis
    qed
  qed
  finally show ?thesis .
qed


section \<open>The invariant of a parsed entry\<close>

abbreviation shift_of :: "addr_info \<Rightarrow> nat" where "shift_of a \<equiv> unat (mask_shift a)"

abbreviation bits_of :: "addr_info \<Rightarrow> nat" where "bits_of a \<equiv> unat (addr_byte_count a) * 8"

definition addr_ok :: "addr_info \<Rightarrow> bool" where
  "addr_ok a \<longleftrightarrow>
     addr_family a \<noteq> AF_UNSPEC
     \<and> addr_byte_count a = match_addr_byte_count (addr_family a)
     \<and> addr_bit_count a = match_addr_bit_count (addr_family a)
     \<and> length (net_bytes a) = ADDR_MAX_BYTES \<and> length (mask_bytes a) = ADDR_MAX_BYTES
     \<and> drop (unat (addr_byte_count a)) (net_bytes a) = replicate (ADDR_MAX_BYTES - unat (addr_byte_count a)) 0
     \<and> drop (unat (addr_byte_count a)) (mask_bytes a) = replicate (ADDR_MAX_BYTES - unat (addr_byte_count a)) 0
     \<and> shift_of a \<le> unat (addr_bit_count a)
     \<and> list_all (\<lambda>i. addr_bit (mask_bytes a) i = (i < shift_of a)) [0..<bits_of a]
     \<and> list_all (\<lambda>i. addr_bit (net_bytes a) i \<longrightarrow> i < shift_of a) [0..<bits_of a]"

text \<open>What \<open>getaddrinfo\<close> with \<open>AI_NUMERICHOST\<close> returns: an address of the family asked for.\<close>

definition getaddrinfo_sized :: "libc \<Rightarrow> bool" where
  "getaddrinfo_sized lc \<longleftrightarrow>
     (\<forall>f h bs. lc_getaddrinfo lc f h = Some bs \<longrightarrow> length bs = unat (match_addr_byte_count f))"

lemma count_bits:
  "f \<noteq> AF_UNSPEC \<Longrightarrow> unat (match_addr_bit_count f) = unat (match_addr_byte_count f) * 8"
  "unat (match_addr_byte_count f) \<le> ADDR_MAX_BYTES"
  by (cases f; simp add: match_addr_bit_count_def match_addr_byte_count_def ADDR_MAX_BYTES_def)+

lemma match_addr_family_specified [simp]: "match_addr_family h \<noteq> AF_UNSPEC"
  by (simp add: match_addr_family_def)

lemma addr_okD:
  assumes "addr_ok a"
  shows "bits_of a = unat (addr_bit_count a)" "shift_of a \<le> bits_of a"
    "unat (addr_byte_count a) \<le> length (net_bytes a)" "length (net_bytes a) = ADDR_MAX_BYTES"
    "\<And>i. i < bits_of a \<Longrightarrow> addr_bit (mask_bytes a) i \<longleftrightarrow> i < shift_of a"
    "\<And>i. i < bits_of a \<Longrightarrow> addr_bit (net_bytes a) i \<Longrightarrow> i < shift_of a"
    "drop (unat (addr_byte_count a)) (net_bytes a) = replicate (ADDR_MAX_BYTES - unat (addr_byte_count a)) 0"
    "drop (unat (addr_byte_count a)) (mask_bytes a) = replicate (ADDR_MAX_BYTES - unat (addr_byte_count a)) 0"
  using assms count_bits by (auto simp: addr_ok_def list_all_iff)

section \<open>Clearing host bits\<close>

abbreviation masked :: "addr_info \<Rightarrow> addr_info" where
  "masked ip \<equiv> ip\<lparr>net_bytes := mask_addr (net_bytes ip) (unat (addr_byte_count ip)) (shift_of ip)\<rparr>"

lemma mask_addr_idem:
  assumes "n \<le> c * 8" and "c \<le> length bs"
  shows "mask_addr (mask_addr bs c n) c n = mask_addr bs c n"
proof (rule nth_equalityI)
  fix j assume "j < length (mask_addr (mask_addr bs c n) c n)"
  then have "j < length bs" by simp
  then show "mask_addr (mask_addr bs c n) c n ! j = mask_addr bs c n ! j"
    using assms mask_addr_nth [of n c j bs] mask_addr_nth [of n c j "mask_addr bs c n"]
    by (auto simp: and.assoc split: if_splits)
qed simp

lemma drop_mask_addr: "n \<le> c * 8 \<Longrightarrow> c \<le> length bs \<Longrightarrow> drop c (mask_addr bs c n) = drop c bs"
  by (rule nth_equalityI) (simp_all add: mask_addr_nth)

lemma clear_host_bits_result:
  assumes "clear_host_bits lc ip i n = Some ip'"
    and "shift_of ip \<le> bits_of ip" and "unat (addr_byte_count ip) \<le> length (net_bytes ip)"
  shows "ip' = masked ip \<or> ip' = ip \<and> (\<forall>j. i \<le> j \<and> j < n \<longrightarrow> net_bytes ip ! j AND NOT (mask_bytes ip ! j) = 0)"
  using assms
proof (induction lc ip i n rule: clear_host_bits.induct)
  case (1 lc ip i n)
  have idem: "masked (masked ip) = masked ip"
    using "1.prems" by (simp add: mask_addr_idem)
  have skip: "\<forall>j. Suc i \<le> j \<and> j < n \<longrightarrow> P j \<Longrightarrow> P i \<Longrightarrow> \<forall>j. i \<le> j \<and> j < n \<longrightarrow> P j" for P
    by (metis Suc_leI le_neq_implies_less)
  show ?case
  proof (cases "i < n")
    case False
    with "1.prems"(1) show ?thesis by (subst (asm) clear_host_bits.simps) auto
  next
    case True
    show ?thesis
    proof (cases "net_bytes ip ! i AND NOT (mask_bytes ip ! i) \<noteq> 0")
      case hit: True
      with True "1.prems"(1) have "clear_host_bits lc (masked ip) (Suc i) n = Some ip'"
        "lc_inet_ntop lc (addr_family (masked ip)) (net_bytes (masked ip)) \<noteq> None"
        by (subst (asm) clear_host_bits.simps; simp add: Let_def split: if_splits)+
      with "1.IH"(1) [OF True hit refl] "1.prems"(2,3) idem show ?thesis by auto
    next
      case miss: False
      with True "1.prems"(1) have "clear_host_bits lc ip (Suc i) n = Some ip'"
        by (subst (asm) clear_host_bits.simps) simp
      with "1.IH"(2) [OF True miss] "1.prems"(2,3)
        skip [of "\<lambda>j. net_bytes ip ! j AND NOT (mask_bytes ip ! j) = 0"] miss show ?thesis by simp metis
    qed
  qed
qed

lemma clear_host_bits_total:
  "(\<And>f bs. lc_inet_ntop lc f bs \<noteq> None) \<Longrightarrow> \<exists>ip'. clear_host_bits lc ip i n = Some ip'"
proof (induction lc ip i n rule: clear_host_bits.induct)
  case (1 lc ip i n)
  from 1(3) obtain y where "lc_inet_ntop lc (addr_family (masked ip)) (net_bytes (masked ip)) = Some y"
    by blast
  with 1 show ?case
    by (subst clear_host_bits.simps) (simp add: Let_def)
qed

lemma no_host_bits_bit:
  assumes "\<forall>j. j < c \<longrightarrow> bs ! j AND NOT (ms ! j) = (0 :: uchar)" and "i < c * 8" and "addr_bit bs i"
  shows "addr_bit ms i"
proof -
  have "i div 8 < c" using assms(2) by linarith
  with assms(1) have "bs ! (i div 8) AND NOT (ms ! (i div 8)) = 0" by simp
  then have "\<not> bit (bs ! (i div 8) AND NOT (ms ! (i div 8))) (7 - i mod 8)" by simp
  moreover have "7 - i mod 8 < 8" by simp
  ultimately show ?thesis
    using assms(3) by (simp add: addr_bit_def bit_and_iff bit_not_iff)
qed

lemma addr_bit_memcpy_net:
  assumes "n \<le> length src" and "i < n * 8"
  shows "addr_bit (memcpy_net dst n src) i \<longleftrightarrow> addr_bit src i"
proof -
  have "i div 8 < n" using assms(2) by linarith
  with assms(1) show ?thesis by (simp add: addr_bit_def memcpy_net_def nth_append)
qed

lemma addr_bit_ones: "i < n * 8 \<Longrightarrow> addr_bit (replicate n (- 1)) i"
  by (simp add: addr_bit_def less_mult_imp_div_less)

lemma addr_bit_zeros: "i < n * 8 \<Longrightarrow> \<not> addr_bit (replicate n 0) i"
  by (simp add: addr_bit_def less_mult_imp_div_less)

lemma clear_host_bits_masks:
  assumes r: "clear_host_bits lc ip 0 (unat (addr_byte_count ip)) = Some a"
    and le: "shift_of ip \<le> bits_of ip" "unat (addr_byte_count ip) \<le> length (net_bytes ip)"
    and m: "\<And>i. i < bits_of ip \<Longrightarrow> addr_bit (mask_bytes ip) i \<longleftrightarrow> i < shift_of ip"
  shows "\<exists>nb. a = ip\<lparr>net_bytes := nb\<rparr> \<and> length nb = length (net_bytes ip)
     \<and> drop (unat (addr_byte_count ip)) nb = drop (unat (addr_byte_count ip)) (net_bytes ip)
     \<and> (\<forall>i < bits_of ip. addr_bit nb i \<longleftrightarrow> i < shift_of ip \<and> addr_bit (net_bytes ip) i)"
  using clear_host_bits_result [OF r le]
proof
  assume "a = masked ip"
  with le show ?thesis by (auto simp: addr_bit_mask_addr drop_mask_addr)
next
  assume a: "a = ip \<and> (\<forall>j. 0 \<le> j \<and> j < unat (addr_byte_count ip) \<longrightarrow>
      net_bytes ip ! j AND NOT (mask_bytes ip ! j) = 0)"
  then have "\<forall>i < bits_of ip. addr_bit (net_bytes ip) i \<longrightarrow> i < shift_of ip"
    using no_host_bits_bit [of "unat (addr_byte_count ip)" "net_bytes ip" "mask_bytes ip"] m by auto
  with a show ?thesis by (intro exI [of _ "net_bytes ip"]) auto
qed

lemma drop_memcpy_net: "length src = n \<Longrightarrow> drop n (memcpy_net dst n src) = drop n dst"
  by (simp add: memcpy_net_def)

lemma length_memcpy_net: "n \<le> length dst \<Longrightarrow> length src = n \<Longrightarrow> length (memcpy_net dst n src) = length dst"
  by (simp add: memcpy_net_def)

lemma filled_entry_simps [simp]:
  "addr_family (filled_entry f bs k) = f" "mask_shift (filled_entry f bs k) = k"
  "addr_byte_count (filled_entry f bs k) = match_addr_byte_count f"
  "addr_bit_count (filled_entry f bs k) = match_addr_bit_count f"
  "net_bytes (filled_entry f bs k) = memcpy_net (replicate ADDR_MAX_BYTES 0) (unat (match_addr_byte_count f)) bs"
  by (simp_all add: filled_entry_def Let_def addr_info_zero_def)

lemma filled_entry_mask:
  assumes "unat k \<le> unat (match_addr_byte_count f) * 8"
  shows "i < unat (match_addr_byte_count f) * 8 \<Longrightarrow> addr_bit (mask_bytes (filled_entry f bs k)) i \<longleftrightarrow> i < unat k"
    and "length (mask_bytes (filled_entry f bs k)) = ADDR_MAX_BYTES"
    and "drop (unat (match_addr_byte_count f)) (mask_bytes (filled_entry f bs k))
           = replicate (ADDR_MAX_BYTES - unat (match_addr_byte_count f)) 0"
  using assms count_bits(2) [of f] addr_bit_zeros [of i "unat (match_addr_byte_count f)"]
  by (auto simp: filled_entry_def Let_def addr_bit_mask_addr addr_bit_memcpy_net addr_bit_ones length_memcpy_net
      drop_mask_addr drop_memcpy_net addr_info_zero_def)

text \<open>What a successful parse yields, with and without a mask.\<close>

lemma parse_with_mask_ok:
  assumes p: "parse_with_mask lc h m = Some a" and lc: "getaddrinfo_sized lc"
  shows "\<exists>bs. lc_getaddrinfo lc (match_addr_family h) h = Some bs \<and> addr_ok a
     \<and> addr_family a = match_addr_family h \<and> mask_shift a = word_of_int (atoi m) \<and> str_alldig m
     \<and> (\<forall>i < bits_of a. addr_bit (net_bytes a) i \<longleftrightarrow> i < shift_of a \<and> addr_bit bs i)"
proof -
  let ?f = "match_addr_family h"
  let ?n = "unat (match_addr_byte_count ?f)"
  let ?k = "word_of_int (atoi m) :: uchar"
  from p obtain bs where bs: "lc_getaddrinfo lc ?f h = Some bs" "str_alldig m"
      "unat ?k \<le> unat (match_addr_bit_count ?f)"
      and r: "clear_host_bits lc (filled_entry ?f bs ?k) 0 ?n = Some a"
    by (auto simp: parse_with_mask_def Let_def split: if_splits option.splits)
  have n: "?n \<le> ADDR_MAX_BYTES" "length bs = ?n"
    using count_bits(2) lc bs(1) by (auto simp: getaddrinfo_sized_def)
  have k: "unat ?k \<le> ?n * 8" using bs(3) count_bits(1) [of ?f] by simp
  obtain nb where nb: "a = (filled_entry ?f bs ?k)\<lparr>net_bytes := nb\<rparr>"
      "length nb = ADDR_MAX_BYTES" "drop ?n nb = replicate (ADDR_MAX_BYTES - ?n) 0"
      "\<forall>i < ?n * 8. addr_bit nb i \<longleftrightarrow> i < unat ?k \<and> addr_bit bs i"
    using clear_host_bits_masks [of lc "filled_entry ?f bs ?k" a] r k n filled_entry_mask(1) [OF k]
    by (auto simp: drop_memcpy_net length_memcpy_net addr_bit_memcpy_net)
  moreover from this k bs(3) have "addr_ok a"
    by (simp add: addr_ok_def list_all_iff filled_entry_mask [OF k])
  ultimately show ?thesis using bs by simp
qed

lemma parse_no_mask_ok:
  assumes p: "parse_no_mask lc h = Some a" and lc: "getaddrinfo_sized lc"
  shows "\<exists>bs. lc_getaddrinfo lc (match_addr_family h) h = Some bs \<and> addr_ok a
     \<and> addr_family a = match_addr_family h \<and> mask_shift a = match_addr_bit_count (match_addr_family h)
     \<and> (\<forall>i < bits_of a. addr_bit (net_bytes a) i \<longleftrightarrow> addr_bit bs i)"
proof -
  let ?f = "match_addr_family h"
  let ?n = "unat (match_addr_byte_count ?f)"
  from p obtain bs where bs: "lc_getaddrinfo lc ?f h = Some bs"
    and a: "a = addr_info_zero\<lparr>net_bytes := memcpy_net (net_bytes addr_info_zero) ?n bs,
         mask_bytes := memcpy_net (mask_bytes addr_info_zero) ?n (replicate ?n (- 1)),
         addr_family := ?f, addr_byte_count := match_addr_byte_count ?f,
         addr_bit_count := match_addr_bit_count ?f, mask_shift := match_addr_bit_count ?f\<rparr>"
    by (auto simp: parse_no_mask_def Let_def split: option.splits)
  have n: "?n \<le> ADDR_MAX_BYTES" "length bs = ?n" "unat (match_addr_bit_count ?f) = ?n * 8"
    using count_bits lc bs by (auto simp: getaddrinfo_sized_def)
  have "\<forall>i < ?n * 8. addr_bit (net_bytes a) i \<longleftrightarrow> addr_bit bs i"
    "\<forall>i < ?n * 8. addr_bit (mask_bytes a) i"
    using a n by (simp_all add: addr_bit_memcpy_net addr_bit_ones)
  with a n have "addr_ok a"
    by (simp add: addr_ok_def list_all_iff length_memcpy_net drop_memcpy_net addr_info_zero_def)
  with bs a n show ?thesis by (simp add: addr_bit_memcpy_net)
qed

lemma parse_pattern_ok:
  assumes "parse_pattern lc p = Some a" and "getaddrinfo_sized lc"
  shows "addr_ok a"
  using assms parse_with_mask_ok parse_no_mask_ok
  by (fastforce simp: parse_pattern_def split: option.splits)

text \<open>With memory granted, copying a non-empty pattern first changes nothing.\<close>

lemma addrmask_parse_pattern:
  assumes "alloc_total lc" and "p \<noteq> []" and "NUL \<notin> set p" and "length p \<le> 2 ^ 32"
  shows "addrmask_parse lc p = Done (parse_pattern lc p)"
proof -
  obtain s where s: "string_initfromstringz lc p = Done (True, s)" "buf_inv s" "content s = p"
    using assms string_initfromstringz_ok [of lc p] by auto
  have "length (content s) + 1 \<le> buf_limit" using s(3) assms(4) by (simp add: buf_limit_def)
  from string_putc_core [OF s(2) this, of lc NUL] assms(1) obtain s' where
    s': "string_putc lc s NUL = Done (True, s')" "buf_inv s'" "content s' = p @ [NUL]"
    using s(3) by auto
  from string_cstr_ends_NUL [of s' p] s' assms(3) have "string_cstr s' = p"
    by (simp add: cstr_simps)
  with s s' show ?thesis by (simp add: addrmask_parse_def)
qed

section \<open>Subnets\<close>

text \<open>The addresses an entry stands for.\<close>

definition subnet :: "addr_info \<Rightarrow> uchar list set" where
  "subnet a = {bs. length bs = unat (addr_byte_count a)
                   \<and> (\<forall>i < shift_of a. addr_bit bs i = addr_bit (net_bytes a) i)}"

definition network_address :: "addr_info \<Rightarrow> uchar list" where
  "network_address a = take (unat (addr_byte_count a)) (net_bytes a)"

lemma network_address_bit:
  "i < bits_of a \<Longrightarrow> addr_bit (network_address a) i = addr_bit (net_bytes a) i"
  by (simp add: addr_bit_def network_address_def less_mult_imp_div_less)

lemma network_address_in_subnet:
  assumes "addr_ok a" shows "network_address a \<in> subnet a"
  using addr_okD(2,3) [OF assms] network_address_bit [of _ a]
  by (auto simp: subnet_def) (simp add: network_address_def)

lemma entry_matches_iff:
  assumes e: "addr_ok e" and a: "addr_ok a" and fam: "addr_family e = addr_family a"
  shows "entry_matches e a \<longleftrightarrow> network_address a \<in> subnet e"
proof -
  let ?n = "unat (addr_byte_count e)"
  let ?m = "map (\<lambda>j. net_bytes a ! j AND mask_bytes e ! j) [0..<?n]"
  have same: "addr_byte_count a = addr_byte_count e" using e a fam by (simp add: addr_ok_def)
  have len: "length (network_address a) = ?n"
    using addr_okD(3) [OF a] same by (simp add: network_address_def)
  note D = addr_okD [OF e]
  have "entry_matches e a \<longleftrightarrow> (\<forall>i < ?n * 8. (addr_bit (net_bytes a) i \<and> i < shift_of e) = addr_bit (net_bytes e) i)"
  proof (cases "shift_of e < unat (addr_bit_count e)")
    case True
    then have "entry_matches e a \<longleftrightarrow> (\<forall>j < ?n. net_bytes a ! j AND mask_bytes e ! j = net_bytes e ! j)"
      by (auto simp: entry_matches_def list_all_iff)
    also have "\<dots> \<longleftrightarrow> (\<forall>j < ?n. ?m ! j = net_bytes e ! j)" by simp
    also have "\<dots> \<longleftrightarrow> (\<forall>i < ?n * 8. bit (?m ! (i div 8)) (7 - i mod 8) = addr_bit (net_bytes e) i)"
      by (rule all_bytes_iff_bits)
    also have "\<dots> \<longleftrightarrow> (\<forall>i < ?n * 8. bit (net_bytes a ! (i div 8) AND mask_bytes e ! (i div 8)) (7 - i mod 8)
                        = addr_bit (net_bytes e) i)"
      by (simp add: less_mult_imp_div_less cong: all_cong)
    finally show ?thesis using D(5) by (simp add: bit_and_iff addr_bit_def cong: all_cong)
  next
    case False
    then have "shift_of e = ?n * 8" using D(1,2) by simp
    moreover have "entry_matches e a \<longleftrightarrow> (\<forall>j < ?n. net_bytes a ! j = net_bytes e ! j)"
      using False by (auto simp: entry_matches_def list_all_iff)
    ultimately show ?thesis
      using all_bytes_iff_bits [of ?n "\<lambda>x. x" "net_bytes a" "net_bytes e"] by (simp add: addr_bit_def cong: all_cong)
  qed
  also have "\<dots> \<longleftrightarrow> (\<forall>i < shift_of e. addr_bit (network_address a) i = addr_bit (net_bytes e) i)"
    using D(2,6) network_address_bit [of _ a] same by (metis order_less_le_trans)
  finally show ?thesis using len by (simp add: subnet_def)
qed

text \<open>A subnet that starts inside another lies inside it exactly if its prefix is not shorter.\<close>

lemma flip_bit_outside:
  assumes a: "addr_ok a" and k: "shift_of a \<le> k" "k < bits_of a"
  shows "\<exists>bs \<in> subnet a. addr_bit bs k \<noteq> addr_bit (net_bytes a) k"
proof -
  let ?na = "network_address a"
  let ?bs = "?na[k div 8 := flip_bit (7 - k mod 8) (?na ! (k div 8))]"
  have n: "unat (addr_byte_count a) \<le> length (net_bytes a)" by (rule addr_okD(3) [OF a])
  have len: "length ?na = unat (addr_byte_count a)" using n by (simp add: network_address_def)
  have kd: "k div 8 < unat (addr_byte_count a)" using k(2) by (simp add: less_mult_imp_div_less)
  have "addr_bit ?bs i = (addr_bit ?na i \<noteq> (i = k))" if "i < bits_of a" for i
  proof -
    have "i div 8 = k div 8 \<Longrightarrow> (7 - i mod 8 = 7 - k mod 8) \<longleftrightarrow> i = k"
    proof -
      have "i mod 8 < 8" "k mod 8 < 8" "i = i div 8 * 8 + i mod 8" "k = k div 8 * 8 + k mod 8" by simp_all
      then show "i div 8 = k div 8 \<Longrightarrow> ?thesis" by linarith
    qed
    then show ?thesis using kd len
      by (cases "i div 8 = k div 8") (auto simp: addr_bit_def bit_flip_bit_iff)
  qed
  then have "?bs \<in> subnet a" "addr_bit ?bs k \<noteq> addr_bit (net_bytes a) k"
    using k addr_okD(2) [OF a] len network_address_bit [of _ a] by (auto simp: subnet_def)
  then show ?thesis by blast
qed

lemma subnet_subset_iff:
  assumes e: "addr_ok e" and a: "addr_ok a" and fam: "addr_family e = addr_family a"
    and inside: "network_address a \<in> subnet e"
  shows "subnet a \<subseteq> subnet e \<longleftrightarrow> shift_of e \<le> shift_of a"
proof
  have same: "addr_byte_count a = addr_byte_count e" using e a fam by (simp add: addr_ok_def)
  have agree: "\<forall>i < shift_of e. addr_bit (net_bytes a) i = addr_bit (net_bytes e) i"
    using inside addr_okD(2) [OF e] network_address_bit [of _ a] same by (auto simp: subnet_def)
  show "subnet a \<subseteq> subnet e" if "shift_of e \<le> shift_of a"
    using that agree same by (auto simp: subnet_def)
  show "shift_of e \<le> shift_of a" if "subnet a \<subseteq> subnet e"
  proof (rule ccontr)
    assume lt: "\<not> ?thesis"
    then have "shift_of a < bits_of a" using addr_okD(2) [OF e] same by simp
    with flip_bit_outside [OF a order_refl] obtain bs where
      "bs \<in> subnet a" "addr_bit bs (shift_of a) \<noteq> addr_bit (net_bytes a) (shift_of a)"
      by blast
    with that lt agree show False by (auto simp: subnet_def)
  qed
qed

text \<open>
  What matching promises: the first entry of the same family that contains the network address
  decides, and it is the result if it contains the whole subnet asked for.
\<close>

definition match_spec :: "addr_info list \<Rightarrow> addr_info \<Rightarrow> addr_info option" where
  "match_spec es a =
     (case find (\<lambda>e. addr_family e = addr_family a \<and> network_address a \<in> subnet e) es of
        None \<Rightarrow> None
      | Some e \<Rightarrow> if subnet a \<subseteq> subnet e then Some e else None)"

lemma match_loop_refines:
  assumes "list_all addr_ok es" and "addr_ok a"
  shows "match_loop es a = match_spec es a"
  using assms
proof (induction es)
  case (Cons e es)
  then have e: "addr_ok e" by simp
  show ?case
  proof (cases "addr_family e = addr_family a \<and> entry_matches e a")
    case True
    then have "network_address a \<in> subnet e" using entry_matches_iff e Cons.prems(2) by blast
    with True e Cons.prems(2) subnet_subset_iff [of e a] show ?thesis
      by (simp add: match_spec_def not_less)
  next
    case False
    then have "\<not> (addr_family e = addr_family a \<and> network_address a \<in> subnet e)"
      using entry_matches_iff e Cons.prems(2) by blast
    with False Cons show ?thesis by (auto simp: match_spec_def)
  qed
qed (simp add: match_spec_def)

section \<open>Text and back\<close>

lemma take_eq_bits:
  assumes "\<And>i. i < c * 8 \<Longrightarrow> addr_bit xs i = addr_bit ys i" and "c \<le> length xs" "c \<le> length ys"
  shows "take c xs = take c ys"
proof (rule nth_equalityI)
  fix j assume "j < length (take c xs)"
  moreover have "\<forall>j < c. xs ! j = ys ! j"
    using assms(1) all_bytes_iff_bits [of c "\<lambda>x. x" xs ys] by (simp add: addr_bit_def)
  ultimately show "take c xs ! j = take c ys ! j" by simp
qed (use assms in simp)

text \<open>An entry is determined by its family, its prefix length and its network bits.\<close>

lemma addr_ok_unique:
  assumes a: "addr_ok a" and b: "addr_ok b" and fam: "addr_family a = addr_family b"
    and sh: "mask_shift a = mask_shift b"
    and nb: "\<And>i. i < bits_of a \<Longrightarrow> addr_bit (net_bytes a) i = addr_bit (net_bytes b) i"
  shows "a = b"
proof -
  let ?c = "unat (addr_byte_count a)"
  have cnt: "addr_byte_count a = addr_byte_count b" "addr_bit_count a = addr_bit_count b"
    using a b fam by (simp_all add: addr_ok_def)
  have len: "?c \<le> length (net_bytes a)" "?c \<le> length (net_bytes b)"
    "?c \<le> length (mask_bytes a)" "?c \<le> length (mask_bytes b)"
    using addr_okD(3) [OF a] addr_okD(3) [OF b] a b cnt by (simp_all add: addr_ok_def)
  have "take ?c (net_bytes a) = take ?c (net_bytes b)"
    using nb len(1,2) by (rule take_eq_bits)
  moreover have "take ?c (mask_bytes a) = take ?c (mask_bytes b)"
    using addr_okD(5) [OF a] addr_okD(5) [OF b] sh cnt len(3,4) by (intro take_eq_bits) simp_all
  moreover have "drop ?c (net_bytes a) = drop ?c (net_bytes b)" "drop ?c (mask_bytes a) = drop ?c (mask_bytes b)"
    using addr_okD(7,8) [OF a] addr_okD(7,8) [OF b] cnt by simp_all
  ultimately have "net_bytes a = net_bytes b" "mask_bytes a = mask_bytes b"
    by (metis append_take_drop_id)+
  with cnt fam sh show ?thesis by simp
qed

text \<open>
  What the client relies on of the address printer: it prints every address of the two families,
  as a non-empty text free of the delimiters, and the reader reads that text back.
\<close>

definition printer_ok :: "libc \<Rightarrow> addr_info \<Rightarrow> string \<Rightarrow> bool" where
  "printer_ok lc a t \<longleftrightarrow>
     lc_inet_ntop lc (addr_family a) (net_bytes a) = Some t
     \<and> match_addr_family t = addr_family a
     \<and> lc_getaddrinfo lc (addr_family a) t = Some (network_address a)
     \<and> t \<noteq> [] \<and> NUL \<notin> set t \<and> CHR ''/'' \<notin> set t \<and> cur t \<noteq> CHR ''['' \<and> length t < 2 ^ 31"

lemma parse_pattern_slash:
  assumes "CHR ''/'' \<notin> set h" and "cur h \<noteq> CHR ''[''"
  shows "parse_pattern lc (h @ CHR ''/'' # m) = parse_with_mask lc h m"
proof -
  have "cur (h @ CHR ''/'' # m) \<noteq> CHR ''[''" using assms(2) by (cases h) (simp_all add: cur_def)
  then show ?thesis using str_split_at_append [OF assms(1), of m]
    by (simp add: parse_pattern_def split_pattern_def)
qed

lemma no_host_bits_byte:
  assumes "\<And>i. i < c * 8 \<Longrightarrow> addr_bit bs i \<Longrightarrow> addr_bit ms i" and "j < c"
  shows "bs ! j AND NOT (ms ! j) = 0"
proof -
  have "bit (bs ! j) (7 - k) \<Longrightarrow> bit (ms ! j) (7 - k)" if "k < 8" for k
  proof -
    have "(j * 8 + k) div 8 = j" "(j * 8 + k) mod 8 = k" "j * 8 + k < c * 8"
      using that assms(2) by simp_all
    then show "bit (bs ! j) (7 - k) \<Longrightarrow> bit (ms ! j) (7 - k)"
      using assms(1) [of "j * 8 + k"] by (simp add: addr_bit_def)
  qed
  then show ?thesis by (simp add: uchar_eq_bits bit_and_iff bit_not_iff)
qed

lemma clear_host_bits_id:
  "(\<And>j. i \<le> j \<Longrightarrow> j < n \<Longrightarrow> net_bytes ip ! j AND NOT (mask_bytes ip ! j) = 0) \<Longrightarrow>
   clear_host_bits lc ip i n = Some ip"
proof (induction "n - i" arbitrary: i)
  case 0
  then show ?case by (subst clear_host_bits.simps) simp
next
  case (Suc k)
  then show ?case by (subst clear_host_bits.simps) simp
qed

lemma word_of_atoi: "(word_of_int (atoi (nat_dec (unat (k :: uchar)))) :: uchar) = k"
proof -
  have "unat k < 2 ^ 31" using unsigned_less [of k, where 'a = nat] by simp
  then show ?thesis by (simp add: atoi_nat_dec)
qed

lemma parse_printed:
  assumes a: "addr_ok a" and t: "printer_ok lc a t" and lc: "getaddrinfo_sized lc"
  shows "parse_with_mask lc t (nat_dec (shift_of a)) = Some a"
proof -
  let ?c = "unat (addr_byte_count a)"
  let ?ip = "filled_entry (addr_family a) (network_address a) (mask_shift a)"
  note D = addr_okD [OF a]
  have cnt: "match_addr_byte_count (addr_family a) = addr_byte_count a"
    "match_addr_bit_count (addr_family a) = addr_bit_count a" using a by (simp_all add: addr_ok_def)
  have c: "?c \<le> length (network_address a)"
    using D(3,4) by (simp add: network_address_def)
  have msk: "\<And>i. i < ?c * 8 \<Longrightarrow> addr_bit (mask_bytes ?ip) i \<longleftrightarrow> i < shift_of a"
    using filled_entry_mask(1) [of "mask_shift a" "addr_family a"] D(2) cnt by simp
  have net: "\<And>i. i < ?c * 8 \<Longrightarrow> addr_bit (net_bytes ?ip) i \<longleftrightarrow> addr_bit (net_bytes a) i"
    using c cnt by (simp add: addr_bit_memcpy_net network_address_bit)
  have "clear_host_bits lc ?ip 0 ?c = Some ?ip"
  proof (rule clear_host_bits_id)
    fix j assume "j < ?c"
    then show "net_bytes ?ip ! j AND NOT (mask_bytes ?ip ! j) = 0"
      by (rule no_host_bits_byte [rotated]) (use msk net D(6) in blast)
  qed
  then have some: "parse_with_mask lc t (nat_dec (shift_of a)) = Some ?ip"
    using t word_of_atoi [of "mask_shift a"] str_alldig_nat_dec [of "shift_of a"] D(1,2) cnt
    by (simp add: parse_with_mask_def printer_ok_def Let_def)
  from parse_with_mask_ok [OF this lc] have "addr_ok ?ip" by blast
  then have "?ip = a"
    by (rule addr_ok_unique) (use a net cnt in simp_all)
  with some show ?thesis by simp
qed

section \<open>Properties\<close>

text \<open>A C library that reads and prints dotted IPv4 addresses, for concrete instances.\<close>

fun dot_fields :: "string \<Rightarrow> string list" where
  "dot_fields [] = [[]]"
| "dot_fields (c # cs) =
     (if c = CHR ''.'' then [] # dot_fields cs
      else case dot_fields cs of [] \<Rightarrow> [[c]] | f # fs \<Rightarrow> (c # f) # fs)"

definition quad_libc :: libc where
  "quad_libc = plain_libc\<lparr>
     lc_getaddrinfo := (\<lambda>f h.
       let fs = dot_fields h
       in if f = AF_INET \<and> length fs = 4 \<and> list_all (\<lambda>x. str_alldig x \<and> atoi x < 256) fs
          then Some (map (\<lambda>x. word_of_int (atoi x)) fs) else None),
     lc_inet_ntop := (\<lambda>f bs.
       if f = AF_INET
       then Some (nat_dec (unat (bs ! 0)) @ ''.'' @ nat_dec (unat (bs ! 1)) @ ''.''
                  @ nat_dec (unat (bs ! 2)) @ ''.'' @ nat_dec (unat (bs ! 3)))
       else None)\<rparr>"

lemma quad_libc_sized: "getaddrinfo_sized quad_libc"
  by (auto simp: getaddrinfo_sized_def quad_libc_def Let_def match_addr_byte_count_def split: if_splits)

lemma quad_libc_alloc: "alloc_total quad_libc"
  by (simp add: quad_libc_def plain_libc_def alloc_total_def)

definition quad_entry :: "uchar list \<Rightarrow> uchar list \<Rightarrow> uchar \<Rightarrow> addr_info" where
  "quad_entry nb mb k = \<lparr>net_bytes = nb @ replicate 12 0, mask_bytes = mb @ replicate 12 0, addr_family = AF_INET,
      addr_byte_count = 4, addr_bit_count = 32, mask_shift = k\<rparr>"

lemma parse_pattern_given_mask:
  assumes lc: "getaddrinfo_sized lc" "\<And>f bs. lc_inet_ntop lc f bs \<noteq> None"
    and h: "CHR ''/'' \<notin> set h" "cur h \<noteq> CHR ''[''" "lc_getaddrinfo lc (match_addr_family h) h = Some bs"
    and k: "k \<le> unat (match_addr_bit_count (match_addr_family h))"
  shows "\<exists>a. parse_pattern lc (h @ CHR ''/'' # nat_dec k) = Some a \<and> addr_ok a
     \<and> addr_family a = match_addr_family h \<and> shift_of a = k
     \<and> (\<forall>i < bits_of a. addr_bit (net_bytes a) i \<longleftrightarrow> i < k \<and> addr_bit bs i)"
proof -
  have "unat (match_addr_bit_count f) \<le> 128" for f by (simp add: match_addr_bit_count_def)
  with k have "k \<le> 128" using order_trans by blast
  then have n: "atoi (nat_dec k) = int k" "unat (of_nat k :: uchar) = k"
    by (simp_all add: atoi_nat_dec unsigned_of_nat take_bit_nat_eq_self)
  obtain a where a: "parse_with_mask lc h (nat_dec k) = Some a"
    using clear_host_bits_total [OF lc(2)] h(3) k n str_alldig_nat_dec [of k]
    by (fastforce simp: parse_with_mask_def Let_def)
  with parse_with_mask_ok [OF a lc(1)] h n show ?thesis by (simp add: parse_pattern_slash)
qed


text \<open>The dotted reader and printer as a total library: other families print as a fixed text.\<close>

definition total_libc :: libc where
  "total_libc = quad_libc\<lparr>lc_inet_ntop := \<lambda>f bs. case lc_inet_ntop quad_libc f bs of None \<Rightarrow> Some ''::'' | t \<Rightarrow> t\<rparr>"

lemma total_libc_facts:
  "alloc_total total_libc" "getaddrinfo_sized total_libc" "lc_inet_ntop total_libc f bs \<noteq> None"
  using quad_libc_alloc quad_libc_sized
  by (auto simp: total_libc_def alloc_total_def getaddrinfo_sized_def split: option.splits)


text \<open>
  on every non-empty C string \<open>addrmask_parse\<close> returns without a memory fault, and an entry
  it accepts satisfies the invariant: the byte and bit counts belong to the family, the mask is the
  prefix mask of the prefix length, and no network bit lies outside the mask.
\<close>

theorem addrmask_parse_invariant:
  assumes "alloc_total lc" and "getaddrinfo_sized lc" and "p \<noteq> []" and "NUL \<notin> set p" and "length p \<le> 2 ^ 32"
  shows "\<exists>r. addrmask_parse lc p = Done r \<and> (\<forall>a. r = Some a \<longrightarrow> addr_ok a)"
  using addrmask_parse_pattern [OF assms(1,3,4,5)] parse_pattern_ok assms(2) by auto

theorem addrmask_parse_invariant_witness:
  "\<exists>r. addrmask_parse total_libc ''[10.1.0.0]/16'' = Done r \<and> (\<forall>a. r = Some a \<longrightarrow> addr_ok a)"
  by (rule addrmask_parse_invariant [OF total_libc_facts(1,2)]) simp_all

text \<open>
  the empty pattern is the one that \<open>addrmask_parse\<close> cannot take: the private copy is a buffer
  with increment 0, and storing the terminating zero writes behind its empty block.
\<close>

theorem addrmask_parse_empty_overflows:
  assumes "alloc_total lc"
  shows "addrmask_parse lc [] = Fault Out_of_bounds"
  using assms
  by (simp add: addrmask_parse_def string_initfromstringz_def string_concatb_def string_lazyinit_def
      string_putc_def realloc_zeroed_def store_bytes_def alloc_total_def Let_def)

theorem addrmask_parse_empty_overflows_witness: "addrmask_parse plain_libc [] = Fault Out_of_bounds"
  by (rule addrmask_parse_empty_overflows) simp

text \<open>
  C15: \<open>addrmask_match\<close> implements the specification \<open>match_spec\<close>: the first entry of the same
  family whose subnet contains the network address decides, and it is returned exactly if it
  contains the whole subnet that was asked for.
\<close>

theorem addrmask_match_refines:
  assumes "alloc_total lc" and "getaddrinfo_sized lc" and "p \<noteq> []" and "NUL \<notin> set p" and "length p \<le> 2 ^ 32"
    and "es \<noteq> []" and "list_all addr_ok es"
  shows "addrmask_match lc es (Some p) =
     Done (case parse_pattern lc p of None \<Rightarrow> None | Some a \<Rightarrow> match_spec es a)"
  using addrmask_parse_pattern [OF assms(1,3,4,5)] parse_pattern_ok [OF _ assms(2), of p] assms(6,7)
    match_loop_refines [OF assms(7)]
  by (simp add: addrmask_match_def split: option.splits)

abbreviation "net_10_8 \<equiv> quad_entry [10, 0, 0, 0] [255, 0, 0, 0] 8"
abbreviation "net_10_16 \<equiv> quad_entry [10, 0, 0, 0] [255, 255, 0, 0] 16"
abbreviation "net_10_12 \<equiv> quad_entry [10, 0, 0, 0] [255, 240, 0, 0] 12"

lemma quad_entries_ok: "addr_ok net_10_8" "addr_ok net_10_16" "addr_ok net_10_12"
  by code_simp+

theorem addrmask_match_refines_witness:
  "addrmask_match total_libc [net_10_16, net_10_8] (Some ''10.32.1.7/12'') =
     Done (case parse_pattern total_libc ''10.32.1.7/12'' of None \<Rightarrow> None
           | Some a \<Rightarrow> match_spec [net_10_16, net_10_8] a)"
  by (rule addrmask_match_refines [OF total_libc_facts(1,2)]) (simp_all add: quad_entries_ok)

text \<open>
  the answer depends on the order of the list.  When the network address of the subnet asked for
  lies in a smaller subnet that comes first, the search ends there without a match, although a later
  entry contains the whole subnet; with the two entries exchanged that entry is returned.
\<close>

theorem addrmask_match_order:
  assumes "addr_ok small" and "addr_ok big" and "addr_ok a"
    and "addr_family small = addr_family a" and "addr_family big = addr_family a"
    and "network_address a \<in> subnet small" and "\<not> subnet a \<subseteq> subnet small" and "subnet a \<subseteq> subnet big"
  shows "match_loop [small, big] a = None \<and> match_loop [big, small] a = Some big"
proof -
  have "network_address a \<in> subnet big" using network_address_in_subnet [OF assms(3)] assms(8) by blast
  then show ?thesis using assms match_loop_refines [of "[small, big]" a] match_loop_refines [of "[big, small]" a]
    by (simp add: match_spec_def del: match_loop.simps)
qed

lemma quad_entries_nested:
  "network_address net_10_12 \<in> subnet net_10_16" "network_address net_10_12 \<in> subnet net_10_8"
  using entry_matches_iff [of net_10_16 net_10_12] entry_matches_iff [of net_10_8 net_10_12] quad_entries_ok
  by (simp_all add: quad_entry_def entry_matches_def upt_rec)

theorem addrmask_match_order_witness:
  "match_loop [net_10_16, net_10_8] net_10_12 = None \<and> match_loop [net_10_8, net_10_16] net_10_12 = Some net_10_8"
proof (rule addrmask_match_order [OF quad_entries_ok(2,1,3)])
  show "\<not> subnet net_10_12 \<subseteq> subnet net_10_16" "subnet net_10_12 \<subseteq> subnet net_10_8"
    using subnet_subset_iff [OF quad_entries_ok(2,3)] subnet_subset_iff [OF quad_entries_ok(1,3)] quad_entries_nested
    by (simp_all add: quad_entry_def)
qed (simp_all add: quad_entries_nested, simp_all add: quad_entry_def)

text \<open>
  the prefix length is stored in an \<open>unsigned char\<close> before it is compared with the number of
  bits, so a length is taken modulo 256: \<open>host/n\<close> and \<open>host/(n+256)\<close> parse alike.
\<close>

theorem addrmask_parse_mask_wraps:
  assumes "CHR ''/'' \<notin> set h" and "cur h \<noteq> CHR ''[''" and "n + 256 < 2 ^ 31"
  shows "parse_pattern lc (h @ CHR ''/'' # nat_dec (n + 256)) = parse_pattern lc (h @ CHR ''/'' # nat_dec n)"
proof -
  have "(word_of_int (int (n + 256)) :: uchar) = word_of_int (int n)" by simp
  moreover have "atoi (nat_dec (n + 256)) = int (n + 256)" "atoi (nat_dec n) = int n"
    using assms(3) by (simp_all add: atoi_nat_dec del: of_nat_add)
  ultimately show ?thesis
    by (simp add: parse_pattern_slash assms(1,2) parse_with_mask_def str_alldig_nat_dec Let_def del: of_nat_add)
qed

theorem addrmask_parse_mask_wraps_witness:
  "parse_pattern total_libc (''10.0.0.0'' @ CHR ''/'' # nat_dec (0 + 256))
     = parse_pattern total_libc (''10.0.0.0'' @ CHR ''/'' # nat_dec 0)
   \<and> parse_pattern total_libc (''10.0.0.0'' @ CHR ''/'' # nat_dec 0) \<noteq> None"
proof
  show "parse_pattern total_libc (''10.0.0.0'' @ CHR ''/'' # nat_dec (0 + 256))
     = parse_pattern total_libc (''10.0.0.0'' @ CHR ''/'' # nat_dec 0)"
    by (rule addrmask_parse_mask_wraps) (simp_all add: cur_def)
qed code_simp

text \<open>
  \<open>addrmask_to_string\<close> appends the text of the entry, and \<open>addrmask_parse\<close> reads that text back
  to the same entry, byte for byte.
\<close>

theorem addrmask_roundtrip:
  assumes "addr_ok a" and "printer_ok lc a t" and "getaddrinfo_sized lc" and "alloc_total lc"
    and "buf_inv s" and "length (content s) + length t + 200 < buf_limit"
  shows "\<exists>s'. addrmask_to_string lc s a = Done (True, s') \<and> buf_inv s'
     \<and> content s' = content s @ t @ CHR ''/'' # nat_dec (shift_of a)
     \<and> addrmask_parse lc (t @ CHR ''/'' # nat_dec (shift_of a)) = Done (Some a)"
proof -
  let ?d = "nat_dec (shift_of a)"
  have ld: "length ?d \<le> 3"
    using addr_okD(1,2) [OF assms(1)] assms(1)
    by (intro nat_dec_length) (simp_all add: addr_ok_def match_addr_bit_count_def split: if_splits)
  have int: "int_dec (int (shift_of a)) = ?d" by (simp add: int_dec_def)
  have num: "writes lc (\<lambda>s. string_putint lc s (int (shift_of a))) ?d"
    using string_putint_writes [of "int (shift_of a)" lc] ld int by simp
  let ?e = "run_seq [\<lambda>s. string_concat lc s t, \<lambda>s. string_putc lc s (CHR ''/''),
                   \<lambda>s. string_putint lc s (int (shift_of a))]"
  have "writes lc ?e (t @ ''/'' @ ?d @ [])"
    by (intro emits_seq_Cons emits_seq_Nil string_concat_writes string_putc_writes num)
  moreover have "addrmask_to_string lc s a = ?e s"
    using assms(2) by (simp add: addrmask_to_string_def printer_ok_def)
  ultimately obtain s' where s': "addrmask_to_string lc s a = Done (True, s')" "buf_inv s'"
      "content s' = content s @ t @ ''/'' @ ?d"
    using emits_total [of buf_inv content buf_limit ?e "t @ ''/'' @ ?d @ []" s] assms(4-6) ld by auto
  have "NUL \<notin> set ?d" using nat_dec_isdigit isdigit_NUL by blast
  then have "addrmask_parse lc (t @ CHR ''/'' # ?d) = Done (parse_pattern lc (t @ CHR ''/'' # ?d))"
    using assms(2,4) ld by (intro addrmask_parse_pattern) (simp_all add: printer_ok_def)
  also have "\<dots> = Done (Some a)"
    using parse_printed [OF assms(1-3)] assms(2) by (simp add: parse_pattern_slash printer_ok_def)
  finally show ?thesis using s' by simp
qed

theorem addrmask_roundtrip_witness:
  "\<exists>s'. addrmask_to_string total_libc (string_init total_libc 32 32) net_10_12 = Done (True, s') \<and> buf_inv s'
     \<and> content s' = content (string_init total_libc 32 32) @ ''10.0.0.0'' @ CHR ''/'' # nat_dec (shift_of net_10_12)
     \<and> addrmask_parse total_libc (''10.0.0.0'' @ CHR ''/'' # nat_dec (shift_of net_10_12)) = Done (Some net_10_12)"
proof (rule addrmask_roundtrip [OF quad_entries_ok(3) _ total_libc_facts(2,1)])
  have "lc_inet_ntop total_libc AF_INET (net_bytes net_10_12) = Some ''10.0.0.0''"
    "lc_getaddrinfo total_libc AF_INET ''10.0.0.0'' = Some (network_address net_10_12)" by code_simp+
  then show "printer_ok total_libc net_10_12 ''10.0.0.0''"
    by (simp add: printer_ok_def match_addr_family_def cur_def) (simp add: quad_entry_def)
  show "buf_inv (string_init total_libc 32 32)"
    "length (content (string_init total_libc 32 32)) + length ''10.0.0.0'' + 200 < buf_limit"
    using total_libc_facts(1) by (simp_all add: string_init_inv alloc_total_def buf_limit_def)
qed

text \<open>
  \<open>addrmask_verify_ip\<close> accepts exactly the texts that parse to a single address, a prefix of all
  the bits of the family, of the family asked for; \<open>addrmask_verify_subnet\<close> accepts every
  prefix length.
\<close>

theorem addrmask_verify_correct:
  assumes "alloc_total lc" and "getaddrinfo_sized lc" and "p \<noteq> []" and "NUL \<notin> set p" and "length p \<le> 2 ^ 32"
  shows "addrmask_verify_subnet lc (Some p) fam =
       Done (\<exists>a. parse_pattern lc p = Some a \<and> (fam = AF_UNSPEC \<or> fam = addr_family a))
     \<and> addrmask_verify_ip lc (Some p) fam =
       Done (\<exists>a. parse_pattern lc p = Some a \<and> (fam = AF_UNSPEC \<or> fam = addr_family a) \<and> shift_of a = bits_of a)"
proof (cases "parse_pattern lc p")
  case None
  with addrmask_parse_pattern [OF assms(1,3,4,5)] assms(1,3) show ?thesis
    by (simp add: addrmask_verify_subnet_def addrmask_verify_ip_def addrmask_init_def alloc_total_def)
next
  case (Some a)
  from Some assms(2) have a: "addr_ok a" by (rule parse_pattern_ok)
  have fits: "family_fits fam a \<longleftrightarrow> fam = AF_UNSPEC \<or> fam = addr_family a"
    using a by (cases fam; cases "addr_family a") (simp_all add: family_fits_def addr_ok_def)
  have full: "(addr_family a = AF_INET \<and> mask_shift a = 32 \<or> addr_family a = AF_INET6 \<and> mask_shift a = 128)
      \<longleftrightarrow> shift_of a = bits_of a"
    using a by (cases "addr_family a") (auto simp: addr_ok_def match_addr_byte_count_def word_unat_eq_iff)
  from Some addrmask_parse_pattern [OF assms(1,3,4,5)] assms(1,3) fits full show ?thesis
    by (simp add: addrmask_verify_subnet_def addrmask_verify_ip_def addrmask_init_def alloc_total_def Let_def)
qed

theorem addrmask_verify_correct_witness:
  "addrmask_verify_subnet total_libc (Some ''10.0.0.0/8'') AF_INET =
       Done (\<exists>a. parse_pattern total_libc ''10.0.0.0/8'' = Some a \<and> (AF_INET = AF_UNSPEC \<or> AF_INET = addr_family a))
     \<and> addrmask_verify_ip total_libc (Some ''10.0.0.0/8'') AF_INET =
       Done (\<exists>a. parse_pattern total_libc ''10.0.0.0/8'' = Some a \<and> (AF_INET = AF_UNSPEC \<or> AF_INET = addr_family a)
                \<and> shift_of a = bits_of a)"
  by (rule addrmask_verify_correct [OF total_libc_facts(1,2)]) simp_all

end
