(* ===== verification/Peerparser.thy ===== *)
theory Peerparser
  imports Addrmask
begin

text \<open>
  \<^verbatim>\<open>src/parser.c\<close>: reading the peer configuration that the master server sends.  The static
  variables \<open>my_config\<close>, \<open>parse_key_mode\<close> and \<open>done_unknown_warnings\<close> and the list being built are
  the fields of \<open>pstate\<close>; \<open>my_config\<close> is null or points to the last element of the list.  An
  element \<open>None\<close> stands for a list node whose \<open>peer_config\<close> is null or has been freed.  The failure
  branches of malloc, calloc and realloc that the code has are kept; \<open>strdup\<close> of an item is taken to
  succeed.
\<close>

section \<open>Data\<close>

record peer_config =
  pc_name :: string
  pc_gatewayhost :: string
  pc_owner :: string
  pc_network :: "string list"
  pc_network6 :: "string list"
  pc_route_network :: "string list"
  pc_route_network6 :: "string list"
  pc_hidden :: bool
  pc_silent :: bool
  pc_port :: "16 word"
  pc_key :: string
  pc_ed25519publickey :: string
  pc_cipher :: string
  pc_compression :: string
  pc_digest :: string
  pc_primary :: bool
  pc_use_tcp_only :: bool
  pc_indirectdata :: bool

record pstate =
  ps_list :: "peer_config option list"
  ps_my_config :: bool
  ps_key_mode :: bool
  ps_warned :: "string list"
  ps_output :: "string list"

definition TINC_DEFAULT_PORT :: "16 word" where
  "TINC_DEFAULT_PORT = 665"

text \<open>\<open>sizeof\<close> of the structures that are allocated.\<close>

definition sizeof_string_list :: nat where "sizeof_string_list = 24"
definition sizeof_peer_config :: nat where "sizeof_peer_config = 144"
definition sizeof_peer_config_list :: nat where "sizeof_peer_config_list = 24"

section \<open>Operations\<close>

definition parser_check_configitem :: "string \<Rightarrow> string \<Rightarrow> string option" where
  "parser_check_configitem line config =
     (if strncaseeq (length config) line config then Some (drop (length config) line) else None)"

definition parser_stringlist :: "libc \<Rightarrow> string \<Rightarrow> string option" where
  "parser_stringlist lc item = (if lc_alloc lc sizeof_string_list then Some item else None)"

text \<open>An assignment through \<open>my_config\<close>.\<close>

definition set_my_config :: "(peer_config \<Rightarrow> peer_config) \<Rightarrow> pstate \<Rightarrow> pstate" where
  "set_my_config f st = st\<lparr>ps_list := butlast (ps_list st) @ [map_option f (last (ps_list st))]\<rparr>"

definition my_config :: "pstate \<Rightarrow> peer_config" where
  "my_config st = the (last (ps_list st))"

definition parser_extend_key :: "libc \<Rightarrow> string \<Rightarrow> pstate \<Rightarrow> pstate run" where
  "parser_extend_key lc line st =
     (if \<not> lc_alloc lc (length (pc_key (my_config st)) + length line + 2) then Exit 1
      else Done (set_my_config (\<lambda>p. p\<lparr>pc_key := pc_key p @ line @ [CHR 0x0A]\<rparr>) st))"

definition parser_new_config :: "string \<Rightarrow> peer_config" where
  "parser_new_config name =
     \<lparr>pc_name = name, pc_gatewayhost = [], pc_owner = [], pc_network = [], pc_network6 = [], pc_route_network = [],
      pc_route_network6 = [], pc_hidden = False, pc_silent = False, pc_port = TINC_DEFAULT_PORT, pc_key = [],
      pc_ed25519publickey = [], pc_cipher = [], pc_compression = [], pc_digest = [], pc_primary = False,
      pc_use_tcp_only = False, pc_indirectdata = False\<rparr>"

text \<open>
  \<open>parser_create_config\<close>; its result is not looked at, and the list node gets \<open>my_config\<close> either
  way.
\<close>

definition parser_create_config :: "libc \<Rightarrow> string \<Rightarrow> peer_config option" where
  "parser_create_config lc name =
     (if \<not> lc_alloc lc sizeof_peer_config then None else Some (parser_new_config name))"

text \<open>An unknown line is reported once per label; the report shows the line up to the label's \<open>=\<close>.\<close>

definition parser_warn_unknown :: "libc \<Rightarrow> string \<Rightarrow> pstate \<Rightarrow> pstate run" where
  "parser_warn_unknown lc line st =
     (case strtok_r ''='' line of
        None \<Rightarrow> Done (st\<lparr>ps_output := ps_output st @ [line]\<rparr>)
      | Some (label, _) \<Rightarrow>
          if list_ex (\<lambda>si. strcaseeq label si) (ps_warned st) then Done st
          else (case parser_stringlist lc label of
             None \<Rightarrow> Fault Null_deref
           | Some t \<Rightarrow> Done (st\<lparr>ps_warned := ps_warned st @ [t],
                 ps_output := ps_output st @ [takeWhile (\<lambda>c. c = CHR ''='') line @ label]\<rparr>)))"

text \<open>A line \<open>network=\<close> and its three siblings.\<close>

definition parse_subnet ::
  "libc \<Rightarrow> family \<Rightarrow> (string \<Rightarrow> peer_config \<Rightarrow> peer_config) \<Rightarrow> string \<Rightarrow> pstate \<Rightarrow> pstate run" where
  "parse_subnet lc fam add item st =
     run_bind (addrmask_verify_subnet lc (Some item) fam)
       (\<lambda>valid. if valid
          then (case parser_stringlist lc item of None \<Rightarrow> Fault Null_deref | Some t \<Rightarrow> Done (set_my_config (add t) st))
          else Done st)"

definition parse_port :: "string \<Rightarrow> pstate \<Rightarrow> pstate run" where
  "parse_port item st =
     (let longport = strtoul0 item
      in if longport \<noteq> 2 ^ 64 - 1 then Done (set_my_config (\<lambda>p. p\<lparr>pc_port := of_nat longport\<rparr>) st) else Done st)"

definition parse_key_begin :: "libc \<Rightarrow> string \<Rightarrow> pstate \<Rightarrow> pstate run" where
  "parse_key_begin lc line st =
     (if \<not> lc_alloc lc (length line + 2) then Fault Null_deref
      else Done ((set_my_config (\<lambda>p. p\<lparr>pc_key := line @ [CHR 0x0A]\<rparr>) st)\<lparr>ps_key_mode := True\<rparr>))"

definition parse_key_end :: "libc \<Rightarrow> string \<Rightarrow> pstate \<Rightarrow> pstate run" where
  "parse_key_end lc line st =
     run_bind (parser_extend_key lc line st) (\<lambda>st. Done (st\<lparr>ps_key_mode := False\<rparr>))"

text \<open>
  The chain of \<open>else if\<close> branches, in order: the prefix a line is compared with, and what is done
  with the rest of the line.
\<close>

definition item_table :: "libc \<Rightarrow> string \<Rightarrow> (string \<times> (string \<Rightarrow> pstate \<Rightarrow> pstate run)) list" where
  "item_table lc line =
     (let put = (\<lambda>f item st. Done (set_my_config (f item) st)) in
      [(''gatewayhost='', put (\<lambda>v p. p\<lparr>pc_gatewayhost := v\<rparr>)),
       (''owner='', put (\<lambda>v p. p\<lparr>pc_owner := v\<rparr>)),
       (''use-tcp-only='', put (\<lambda>v p. p\<lparr>pc_use_tcp_only := str_is_true (Some v) False\<rparr>)),
       (''network='', parse_subnet lc AF_INET (\<lambda>v p. p\<lparr>pc_network := pc_network p @ [v]\<rparr>)),
       (''network6='', parse_subnet lc AF_INET6 (\<lambda>v p. p\<lparr>pc_network6 := pc_network6 p @ [v]\<rparr>)),
       (''route_network='', parse_subnet lc AF_INET (\<lambda>v p. p\<lparr>pc_route_network := pc_route_network p @ [v]\<rparr>)),
       (''route_network6='', parse_subnet lc AF_INET6 (\<lambda>v p. p\<lparr>pc_route_network6 := pc_route_network6 p @ [v]\<rparr>)),
       (''hidden='', put (\<lambda>v p. p\<lparr>pc_hidden := str_is_true (Some v) False\<rparr>)),
       (''silent='', put (\<lambda>v p. p\<lparr>pc_silent := str_is_true (Some v) False\<rparr>)),
       (''port='', parse_port),
       (''indirectdata='', put (\<lambda>v p. p\<lparr>pc_indirectdata := str_is_true (Some v) False\<rparr>)),
       (''cipher='', put (\<lambda>v p. p\<lparr>pc_cipher := v\<rparr>)),
       (''compression='', put (\<lambda>v p. p\<lparr>pc_compression := v\<rparr>)),
       (''digest='', put (\<lambda>v p. p\<lparr>pc_digest := v\<rparr>)),
       (''primary='', put (\<lambda>v p. p\<lparr>pc_primary := str_is_true (Some v) False\<rparr>)),
       (''ed25519publickey='', put (\<lambda>v p. p\<lparr>pc_ed25519publickey := v\<rparr>)),
       (''pingtest='', \<lambda>_ st. Done st),
       (''-----BEGIN RSA PUBLIC KEY-----'', \<lambda>_. parse_key_begin lc line),
       (''-----END RSA PUBLIC KEY-----'', \<lambda>_. parse_key_end lc line)])"

fun parse_item :: "libc \<Rightarrow> (string \<times> (string \<Rightarrow> pstate \<Rightarrow> pstate run)) list \<Rightarrow> string \<Rightarrow> pstate \<Rightarrow> pstate run" where
  "parse_item lc [] line st = (if ps_key_mode st then parser_extend_key lc line st else parser_warn_unknown lc line st)"
| "parse_item lc ((config, act) # table) line st =
     (case parser_check_configitem line config of
        Some item \<Rightarrow> act item st
      | None \<Rightarrow> parse_item lc table line st)"

text \<open>Freeing \<open>my_config\<close> on the error paths leaves its list node with a dangling pointer.\<close>

definition drop_my_config :: "pstate \<Rightarrow> pstate" where
  "drop_my_config st =
     (if ps_my_config st then st\<lparr>ps_list := butlast (ps_list st) @ [None], ps_my_config := False\<rparr> else st)"

definition parse_section :: "libc \<Rightarrow> string \<Rightarrow> pstate \<Rightarrow> bool \<times> pstate" where
  "parse_section lc line st0 =
     (let st = st0\<lparr>ps_key_mode := False\<rparr>; item = butlast (tl line) in
      if \<not> lc_alloc lc (length line - 1) then (False, drop_my_config st)
      else if \<not> lc_alloc lc sizeof_peer_config_list then (False, drop_my_config st)
      else let cfg = parser_create_config lc item
           in (True, st\<lparr>ps_list := ps_list st @ [cfg], ps_my_config := (cfg \<noteq> None)\<rparr>))"

definition parser_parse_line :: "libc \<Rightarrow> string \<Rightarrow> pstate \<Rightarrow> (bool \<times> pstate) run" where
  "parser_parse_line lc token st =
     (let line = str_trim token in
      if line \<noteq> [] \<and> hd line = CHR ''['' \<and> last line = CHR '']'' then Done (parse_section lc line st)
      else if \<not> ps_my_config st then Done (True, st)
      else run_bind (parse_item lc (item_table lc line) line st) (\<lambda>st. Done (True, st)))"

function parse_tokens :: "libc \<Rightarrow> string \<Rightarrow> pstate \<Rightarrow> (bool \<times> pstate) run" where
  "parse_tokens lc data st =
     (case strtok_r [CHR 0x0A] data of
        None \<Rightarrow> Done (True, st)
      | Some (token, rest) \<Rightarrow>
          if hd token \<noteq> CHR ''#''
          then run_bind (parser_parse_line lc token st)
                 (\<lambda>(ok, st). if \<not> ok then Done (False, st) else parse_tokens lc rest st)
          else parse_tokens lc rest st)"
  by pat_completeness auto
termination
  by (relation "measure (\<lambda>(lc, data, st). length data)") (auto intro: strtok_r_shorter)

declare parse_tokens.simps [simp del]

definition parser_parse_config :: "libc \<Rightarrow> string \<Rightarrow> peer_config option list \<Rightarrow> (bool \<times> pstate) run" where
  "parser_parse_config lc data config_list =
     (if \<not> lc_alloc lc (length data + 1) then Fault Null_deref
      else parse_tokens lc data
        \<lparr>ps_list = config_list, ps_my_config = False, ps_key_mode = False, ps_warned = [], ps_output = []\<rparr>)"

text \<open>
  Freeing a list: each section with its strings and then its node; a node without a section is dereferenced.  The
  result is the list that is left.
\<close>

fun parser_free_config :: "peer_config option list \<Rightarrow> peer_config option list run" where
  "parser_free_config [] = Done []"
| "parser_free_config (None # configlist) = Fault Null_deref"
| "parser_free_config (Some config # configlist) = parser_free_config configlist"

lemma parser_free_config_all: "None \<notin> set ps \<Longrightarrow> parser_free_config ps = Done []"
  by (induction ps rule: parser_free_config.induct) auto

section \<open>What holds of every configuration that is built\<close>

definition valid_subnets :: "libc \<Rightarrow> family \<Rightarrow> string list \<Rightarrow> bool" where
  "valid_subnets lc fam ns \<longleftrightarrow> list_all (\<lambda>n. addrmask_verify_subnet lc (Some n) fam = Done True) ns"

definition peer_valid :: "libc \<Rightarrow> peer_config \<Rightarrow> bool" where
  "peer_valid lc p \<longleftrightarrow>
     valid_subnets lc AF_INET (pc_network p) \<and> valid_subnets lc AF_INET6 (pc_network6 p)
     \<and> valid_subnets lc AF_INET (pc_route_network p) \<and> valid_subnets lc AF_INET6 (pc_route_network6 p)"

definition ps_inv :: "libc \<Rightarrow> pstate \<Rightarrow> bool" where
  "ps_inv lc st \<longleftrightarrow>
     list_all (\<lambda>c. case c of None \<Rightarrow> False | Some p \<Rightarrow> peer_valid lc p) (ps_list st)
     \<and> (ps_my_config st \<longrightarrow> ps_list st \<noteq> [])"

text \<open>A step that returns and keeps the invariant, with a section open.\<close>

definition keeps :: "libc \<Rightarrow> (pstate \<Rightarrow> pstate run) \<Rightarrow> bool" where
  "keeps lc f \<longleftrightarrow>
     (\<forall>st. ps_inv lc st \<and> ps_my_config st \<longrightarrow> (\<exists>st'. f st = Done st' \<and> ps_inv lc st' \<and> ps_my_config st'))"

lemma keeps_set_my_config:
  assumes "\<And>p. peer_valid lc p \<Longrightarrow> peer_valid lc (f p)"
  shows "keeps lc (\<lambda>st. Done (set_my_config f st))"
  unfolding keeps_def
proof (intro allI impI)
  fix st assume st: "ps_inv lc st \<and> ps_my_config st"
  then obtain cs c where cs: "ps_list st = cs @ [c]"
    by (cases "ps_list st" rule: rev_cases) (auto simp: ps_inv_def)
  with st assms show "\<exists>st'. Done (set_my_config f st) = Done st' \<and> ps_inv lc st' \<and> ps_my_config st'"
    by (auto simp: ps_inv_def set_my_config_def split: option.splits)
qed

lemma keeps_id: "keeps lc Done"
  by (simp add: keeps_def)

lemma keeps_then:
  assumes "keeps lc f" and "\<And>st. ps_inv lc (g st) = ps_inv lc st" and "\<And>st. ps_my_config (g st) = ps_my_config st"
  shows "keeps lc (\<lambda>st. run_bind (f st) (\<lambda>st. Done (g st)))"
  unfolding keeps_def
proof (intro allI impI)
  fix st assume "ps_inv lc st \<and> ps_my_config st"
  with assms(1) obtain st' where "f st = Done st'" "ps_inv lc st'" "ps_my_config st'" by (auto simp: keeps_def)
  then show "\<exists>st'. run_bind (f st) (\<lambda>st. Done (g st)) = Done st' \<and> ps_inv lc st' \<and> ps_my_config st'"
    by (simp add: assms(2,3))
qed

definition c_text :: "string \<Rightarrow> bool" where
  "c_text s \<longleftrightarrow> NUL \<notin> set s \<and> length s \<le> 2 ^ 32"

lemma verify_subnet_total:
  assumes "alloc_total lc" and "getaddrinfo_sized lc" and "c_text item"
  shows "\<exists>b. addrmask_verify_subnet lc (Some item) fam = Done b"
proof (cases "item = []")
  case False
  with assms addrmask_parse_pattern [of lc item] show ?thesis
    by (cases "parse_pattern lc item")
      (auto simp: addrmask_verify_subnet_def addrmask_init_def alloc_total_def c_text_def)
qed (auto simp: addrmask_verify_subnet_def)

lemma keeps_parse_subnet:
  assumes "alloc_total lc" and "getaddrinfo_sized lc" and "c_text item"
    and "\<And>p. peer_valid lc p \<Longrightarrow> addrmask_verify_subnet lc (Some item) fam = Done True \<Longrightarrow> peer_valid lc (add item p)"
  shows "keeps lc (parse_subnet lc fam add item)"
proof -
  obtain b where b: "addrmask_verify_subnet lc (Some item) fam = Done b"
    using verify_subnet_total [OF assms(1-3)] by blast
  show ?thesis
  proof (cases b)
    case True
    then have "parse_subnet lc fam add item = (\<lambda>st. Done (set_my_config (add item) st))"
      using b assms(1) by (simp add: parse_subnet_def parser_stringlist_def alloc_total_def fun_eq_iff)
    then show ?thesis using keeps_set_my_config [of lc "add item"] assms(4) b True by simp
  next
    case False
    then have "parse_subnet lc fam add item = Done" using b by (simp add: parse_subnet_def fun_eq_iff)
    then show ?thesis by (simp add: keeps_id)
  qed
qed

lemma peer_valid_fields:
  "peer_valid lc (p\<lparr>pc_gatewayhost := v\<rparr>) = peer_valid lc p" "peer_valid lc (p\<lparr>pc_owner := v\<rparr>) = peer_valid lc p"
  "peer_valid lc (p\<lparr>pc_use_tcp_only := b\<rparr>) = peer_valid lc p" "peer_valid lc (p\<lparr>pc_hidden := b\<rparr>) = peer_valid lc p"
  "peer_valid lc (p\<lparr>pc_silent := b\<rparr>) = peer_valid lc p" "peer_valid lc (p\<lparr>pc_port := w\<rparr>) = peer_valid lc p"
  "peer_valid lc (p\<lparr>pc_indirectdata := b\<rparr>) = peer_valid lc p" "peer_valid lc (p\<lparr>pc_cipher := v\<rparr>) = peer_valid lc p"
  "peer_valid lc (p\<lparr>pc_compression := v\<rparr>) = peer_valid lc p" "peer_valid lc (p\<lparr>pc_digest := v\<rparr>) = peer_valid lc p"
  "peer_valid lc (p\<lparr>pc_primary := b\<rparr>) = peer_valid lc p" "peer_valid lc (p\<lparr>pc_ed25519publickey := v\<rparr>) = peer_valid lc p"
  "peer_valid lc (p\<lparr>pc_key := v\<rparr>) = peer_valid lc p"
  by (simp_all add: peer_valid_def)

lemma keeps_extend_key: "alloc_total lc \<Longrightarrow> keeps lc (parser_extend_key lc line)"
  using keeps_set_my_config [of lc "\<lambda>p. p\<lparr>pc_key := pc_key p @ line @ [CHR 0x0A]\<rparr>"]
  by (simp add: parser_extend_key_def [abs_def] alloc_total_def peer_valid_fields)

lemma keeps_warn_unknown: "alloc_total lc \<Longrightarrow> keeps lc (parser_warn_unknown lc line)"
  by (auto simp: keeps_def parser_warn_unknown_def parser_stringlist_def alloc_total_def ps_inv_def
      split: option.splits prod.splits)

lemma keeps_item_table:
  assumes lc: "alloc_total lc" "getaddrinfo_sized lc" and item: "c_text item"
    and act: "(config, act) \<in> set (item_table lc line)"
  shows "keeps lc (act item)"
proof -
  note put = keeps_set_my_config [where lc = lc]
  have port: "keeps lc (parse_port item)"
    using put [of "\<lambda>p. p\<lparr>pc_port := of_nat (strtoul0 item)\<rparr>"] keeps_id [of lc]
    by (cases "strtoul0 item = 2 ^ 64 - 1") (simp_all add: parse_port_def [abs_def] Let_def peer_valid_fields)
  have kb: "keeps lc (parse_key_begin lc line)"
    using keeps_then [OF put [of "\<lambda>p. p\<lparr>pc_key := line @ [CHR 0x0A]\<rparr>"], of "\<lambda>st. st\<lparr>ps_key_mode := True\<rparr>"] lc(1)
    by (simp add: parse_key_begin_def [abs_def] alloc_total_def peer_valid_fields ps_inv_def)
  have ke: "keeps lc (parse_key_end lc line)"
    using keeps_then [OF keeps_extend_key [OF lc(1)], of "\<lambda>st. st\<lparr>ps_key_mode := False\<rparr>" line]
    by (simp add: parse_key_end_def [abs_def] ps_inv_def)
  note sub = keeps_parse_subnet [OF lc item]
  have nets: "keeps lc (parse_subnet lc AF_INET (\<lambda>v p. p\<lparr>pc_network := pc_network p @ [v]\<rparr>) item)"
    "keeps lc (parse_subnet lc AF_INET6 (\<lambda>v p. p\<lparr>pc_network6 := pc_network6 p @ [v]\<rparr>) item)"
    "keeps lc (parse_subnet lc AF_INET (\<lambda>v p. p\<lparr>pc_route_network := pc_route_network p @ [v]\<rparr>) item)"
    "keeps lc (parse_subnet lc AF_INET6 (\<lambda>v p. p\<lparr>pc_route_network6 := pc_route_network6 p @ [v]\<rparr>) item)"
    by (rule sub; simp add: peer_valid_def valid_subnets_def)+
  from act show ?thesis
    by (auto simp: item_table_def Let_def put peer_valid_fields port kb ke keeps_id nets)
qed

lemma c_text_drop: "c_text s \<Longrightarrow> c_text (drop n s)"
  by (auto simp: c_text_def dest: in_set_dropD)

lemma keeps_parse_item:
  assumes lc: "alloc_total lc" "getaddrinfo_sized lc" and line: "c_text line"
    and "set table \<subseteq> set (item_table lc line)"
  shows "keeps lc (parse_item lc table line)"
  using assms(4)
proof (induction table)
  case Nil
  then show ?case using keeps_extend_key [OF lc(1)] keeps_warn_unknown [OF lc(1)]
    by (auto simp: keeps_def)
next
  case (Cons ca table)
  obtain config act where ca: "ca = (config, act)" by (cases ca)
  show ?case
  proof (cases "parser_check_configitem line config")
    case None
    with Cons ca show ?thesis by (simp add: keeps_def)
  next
    case (Some item)
    then have "c_text item" using c_text_drop [OF line] by (auto simp: parser_check_configitem_def split: if_splits)
    then have "keeps lc (act item)" using keeps_item_table [OF lc] Cons.prems ca by auto
    with Some ca show ?thesis by (simp add: keeps_def)
  qed
qed

lemma parse_line_inv:
  assumes lc: "alloc_total lc" "getaddrinfo_sized lc" and tok: "c_text token" and st: "ps_inv lc st"
  shows "\<exists>st'. parser_parse_line lc token st = Done (True, st') \<and> ps_inv lc st'"
proof -
  obtain p q where "token = p @ str_trim token @ q" by (rule str_trim_decomp)
  with tok have line: "c_text (str_trim token)" unfolding c_text_def by (metis Un_iff add_leD1 add_leD2 length_append set_append)
  have new: "peer_valid lc (parser_new_config n)" for n
    by (simp add: peer_valid_def parser_new_config_def valid_subnets_def)
  have sec: "parse_section lc l st = (True, snd (parse_section lc l st)) \<and> ps_inv lc (snd (parse_section lc l st))" for l
    using lc(1) st new
    by (simp add: parse_section_def Let_def alloc_total_def parser_create_config_def ps_inv_def)
  show ?thesis
    using sec [of "str_trim token"] st keeps_parse_item [OF lc line order_refl]
    unfolding parser_parse_line_def Let_def keeps_def
    by (cases "parse_section lc (str_trim token) st") fastforce
qed

lemma strtok_r_c_text:
  assumes "strtok_r d s = Some (t, r)" and "c_text s"
  shows "c_text t \<and> c_text r \<and> t \<noteq> []"
proof -
  let ?s = "dropWhile (\<lambda>c. c \<in> set d) s"
  have t: "?s \<noteq> []" "t = takeWhile (\<lambda>c. c \<notin> set d) ?s" "r = tl (dropWhile (\<lambda>c. c \<notin> set d) ?s)"
    using assms(1) by (auto simp: strtok_r_def Let_def split: if_splits)
  have "hd ?s \<notin> set d" using t(1) hd_dropWhile by blast
  then have "t \<noteq> []" using t(1,2) by (cases ?s) simp_all
  moreover have "set t \<subseteq> set s" "set r \<subseteq> set s"
    using t(2,3) by (auto dest: set_takeWhileD set_dropWhileD list.set_sel(2))
      (metis list.sel(2) list.set_sel(2) set_dropWhileD)+
  moreover have "length t \<le> length s" "length r \<le> length s"
    using t(2,3) length_takeWhile_le [of "\<lambda>c. c \<notin> set d" ?s] length_dropWhile_le [of "\<lambda>c. c \<notin> set d" ?s]
      length_dropWhile_le [of "\<lambda>c. c \<in> set d" s] by simp_all
  ultimately show ?thesis using assms(2) by (auto simp: c_text_def)
qed

lemma parse_tokens_inv:
  assumes "alloc_total lc" and "getaddrinfo_sized lc" and "c_text data" and "ps_inv lc st"
  shows "\<exists>st'. parse_tokens lc data st = Done (True, st') \<and> ps_inv lc st'"
  using assms
proof (induction lc data st rule: parse_tokens.induct)
  case (1 lc data st)
  show ?case
  proof (cases "strtok_r [CHR 0x0A] data")
    case None
    with "1.prems" show ?thesis by (subst parse_tokens.simps) simp
  next
    case (Some tr)
    obtain token rest where tr: "tr = (token, rest)" by (cases tr)
    with Some "1.prems"(3) have c: "c_text token" "c_text rest" using strtok_r_c_text by blast+
    obtain st1 where st1: "parser_parse_line lc token st = Done (True, st1)" "ps_inv lc st1"
      using parse_line_inv [OF "1.prems"(1,2) c(1) "1.prems"(4)] by blast
    show ?thesis
      using "1.IH" "1.prems" Some tr c st1 by (subst parse_tokens.simps) auto
  qed
qed

section \<open>Which branch a line takes\<close>

definition item_names :: "string list" where
  "item_names =
     [''gatewayhost='', ''owner='', ''use-tcp-only='', ''network='', ''network6='', ''route_network='',
      ''route_network6='', ''hidden='', ''silent='', ''port='', ''indirectdata='', ''cipher='', ''compression='',
      ''digest='', ''primary='', ''ed25519publickey='', ''pingtest='', ''-----BEGIN RSA PUBLIC KEY-----'',
      ''-----END RSA PUBLIC KEY-----'']"

lemma item_table_names: "map fst (item_table lc line) = item_names"
  by (simp add: item_names_def item_table_def Let_def)

lemma item_names_distinct: "distinct item_names"
  by code_simp

lemma item_names_lower:
  "map (\<lambda>p. (p, map tolower p)) item_names =
     [(''gatewayhost='', ''gatewayhost=''), (''owner='', ''owner=''), (''use-tcp-only='', ''use-tcp-only=''),
      (''network='', ''network=''), (''network6='', ''network6=''), (''route_network='', ''route_network=''),
      (''route_network6='', ''route_network6=''), (''hidden='', ''hidden=''), (''silent='', ''silent=''),
      (''port='', ''port=''), (''indirectdata='', ''indirectdata=''), (''cipher='', ''cipher=''),
      (''compression='', ''compression=''), (''digest='', ''digest=''), (''primary='', ''primary=''),
      (''ed25519publickey='', ''ed25519publickey=''), (''pingtest='', ''pingtest=''),
      (''-----BEGIN RSA PUBLIC KEY-----'', ''-----begin rsa public key-----''),
      (''-----END RSA PUBLIC KEY-----'', ''-----end rsa public key-----'')]"
  by (simp add: item_names_def tolower_def char_of_def bit_0)

lemma item_names_prefix_free:
  "list_all (\<lambda>(p, p'). list_all (\<lambda>(q, q').
      p = q \<or> take (min (length p) (length q)) p' \<noteq> take (min (length p) (length q)) q')
        (map (\<lambda>p. (p, map tolower p)) item_names)) (map (\<lambda>p. (p, map tolower p)) item_names)"
  unfolding item_names_lower by code_simp

lemma item_names_differ:
  assumes "p \<in> set item_names" and "q \<in> set item_names" and "p \<noteq> q"
  shows "\<not> strncaseeq (min (length p) (length q)) p q"
  using item_names_prefix_free assms by (auto simp: list_all_iff strncaseeq_def take_map)

lemma item_names_shape:
  "list_all (\<lambda>p. p \<noteq> [] \<and> \<not> isspace (hd p) \<and> hd p \<noteq> CHR ''['' \<and> hd p \<noteq> CHR ''#'' \<and> \<not> isspace (last p)
      \<and> CHR 0x0A \<notin> set p) item_names"
  by code_simp

lemma check_own: "parser_check_configitem (p @ v) p = Some v"
  by (simp add: parser_check_configitem_def strncaseeq_def)

lemma check_other:
  assumes "\<not> strncaseeq (min (length p) (length q)) p q"
  shows "parser_check_configitem (p @ v) q = None"
proof (rule ccontr)
  let ?m = "min (length p) (length q)"
  assume "parser_check_configitem (p @ v) q \<noteq> None"
  then have "map tolower (take (length q) (p @ v)) = map tolower q"
    by (auto simp: parser_check_configitem_def strncaseeq_def split: if_splits)
  then have "take ?m (map tolower (take (length q) (p @ v))) = take ?m (map tolower q)" by simp
  then have "map tolower (take ?m p) = map tolower (take ?m q)" by (simp add: take_map min_def split: if_splits)
  with assms show False by (simp add: strncaseeq_def)
qed

lemma parse_item_dispatch:
  assumes "(p, act) \<in> set table" and "distinct (map fst table)"
    and "\<And>q. q \<in> set (map fst table) \<Longrightarrow> q \<noteq> p \<Longrightarrow> parser_check_configitem (p @ v) q = None"
  shows "parse_item lc table (p @ v) st = act v st"
  using assms
proof (induction table)
  case (Cons ca table)
  obtain q a where ca: "ca = (q, a)" by (cases ca)
  show ?case
  proof (cases "q = p")
    case True
    with Cons.prems(1,2) ca have "a = act" by (force simp: in_set_conv_decomp)
    with True ca show ?thesis by (simp add: check_own)
  next
    case False
    with Cons ca show ?thesis by simp
  qed
qed simp

text \<open>A text without blanks at the end and without line breaks.\<close>

definition value_ok :: "string \<Rightarrow> bool" where
  "value_ok v \<longleftrightarrow> (v = [] \<or> \<not> isspace (last v)) \<and> CHR 0x0A \<notin> set v"

lemma parse_line_item:
  assumes act: "(p, act) \<in> set (item_table lc (p @ v))" and v: "value_ok v" and st: "ps_my_config st"
  shows "parser_parse_line lc (p @ v) st = run_bind (act v st) (\<lambda>st. Done (True, st))"
proof -
  have p: "p \<in> set item_names" using act item_table_names [of lc "p @ v"] by (metis fst_conv image_eqI list.set_map)
  then have shape: "p \<noteq> []" "\<not> isspace (hd p)" "hd p \<noteq> CHR ''[''" "\<not> isspace (last p)"
    using item_names_shape by (auto simp: list_all_iff)
  then have trim: "str_trim (p @ v) = p @ v"
    using v by (intro str_trim_id) (auto simp: value_ok_def hd_append last_append)
  have "q \<in> set item_names \<Longrightarrow> q \<noteq> p \<Longrightarrow> parser_check_configitem (p @ v) q = None" for q
    using item_names_differ p by (intro check_other) auto
  then have "parse_item lc (item_table lc (p @ v)) (p @ v) st = act v st"
    using act item_names_distinct item_table_names [of lc "p @ v"] by (intro parse_item_dispatch) simp_all
  with trim shape st show ?thesis by (simp add: parser_parse_line_def Let_def)
qed

section \<open>A configuration as text\<close>

lemma tolower_digit: "isdigit c \<Longrightarrow> tolower c = c"
  by (simp add: tolower_def isdigit_def)

lemma no_hex_prefix:
  assumes "\<And>x. x \<in> set s \<Longrightarrow> isdigit x"
  shows "(case s of a # b # x # _ \<Rightarrow> a = CHR ''0'' \<and> tolower b = CHR ''x'' \<and> digit_val x < 16 | _ \<Rightarrow> False) = False"
proof -
  have "\<not> isdigit (CHR ''x'')" by (simp add: isdigit_def)
  then have b: "isdigit b \<Longrightarrow> tolower b \<noteq> CHR ''x''" for b using tolower_digit [of b] by metis
  show ?thesis
  proof (cases s)
    case (Cons a t)
    show ?thesis
    proof (cases t)
      case (Cons b u)
      with \<open>s = a # t\<close> assms b have "tolower b \<noteq> CHR ''x''" by simp
      with Cons \<open>s = a # t\<close> show ?thesis by (cases u) simp_all
    qed (simp add: Cons)
  qed simp
qed

lemma strtoul0_nat_dec: "n < 2 ^ 64 \<Longrightarrow> strtoul0 (nat_dec n) = n"
proof -
  assume n: "n < 2 ^ 64"
  obtain c cs where c: "nat_dec n = c # cs" by (cases "nat_dec n") auto
  have d: "\<And>x. x \<in> set (c # cs) \<Longrightarrow> isdigit x" using nat_dec_isdigit c by metis
  have sign: "read_sign (dropWhile isspace (nat_dec n)) = (False, c # cs)"
    using d isdigit_first [of c cs] c by simp
  show ?thesis
  proof (cases "c = CHR ''0''")
    case True
    with c have "n = 0" using hd_nat_dec_nonzero [of n] by (cases n) simp_all
    moreover have "nat_dec 0 = ''0''" by code_simp
    moreover have "strtoul0 ''0'' = 0"
      by (simp add: strtoul0_def read_sign_def isspace_def digit_val_def isdigit_def Let_def)
    ultimately show ?thesis by simp
  next
    case False
    have "read_digits 10 0 (c # cs) = (n, [])" using read_digits_nat_dec [of n] c by simp
    then show ?thesis
      unfolding strtoul0_def sign prod.case Let_def no_hex_prefix [OF d]
      using n False by (simp split: list.split)
  qed
qed

text \<open>The lines of one section, and the lines of the key block.\<close>

definition bool_text :: "bool \<Rightarrow> string" where
  "bool_text b = (if b then ''1'' else ''0'')"

definition begin_key :: string where "begin_key = ''-----BEGIN RSA PUBLIC KEY-----''"
definition end_key :: string where "end_key = ''-----END RSA PUBLIC KEY-----''"

definition key_lines :: "string list option \<Rightarrow> string list" where
  "key_lines body = (case body of None \<Rightarrow> [] | Some ls \<Rightarrow> begin_key # ls @ [end_key])"

definition peer_lines :: "peer_config \<Rightarrow> string list option \<Rightarrow> string list" where
  "peer_lines p body =
     [''['' @ pc_name p @ '']'', ''gatewayhost='' @ pc_gatewayhost p, ''owner='' @ pc_owner p,
      ''use-tcp-only='' @ bool_text (pc_use_tcp_only p), ''hidden='' @ bool_text (pc_hidden p),
      ''silent='' @ bool_text (pc_silent p), ''port='' @ nat_dec (unat (pc_port p)),
      ''indirectdata='' @ bool_text (pc_indirectdata p), ''cipher='' @ pc_cipher p,
      ''compression='' @ pc_compression p, ''digest='' @ pc_digest p, ''primary='' @ bool_text (pc_primary p),
      ''ed25519publickey='' @ pc_ed25519publickey p]
     @ map (\<lambda>n. ''network='' @ n) (pc_network p) @ map (\<lambda>n. ''network6='' @ n) (pc_network6 p)
     @ map (\<lambda>n. ''route_network='' @ n) (pc_route_network p) @ map (\<lambda>n. ''route_network6='' @ n) (pc_route_network6 p)
     @ key_lines body"

definition lines_text :: "string list \<Rightarrow> string" where
  "lines_text ls = concat (map (\<lambda>l. l @ [CHR 0x0A]) ls)"

definition key_line_ok :: "string \<Rightarrow> bool" where
  "key_line_ok l \<longleftrightarrow> l \<noteq> [] \<and> \<not> isspace (hd l) \<and> \<not> isspace (last l) \<and> CHR 0x0A \<notin> set l
     \<and> hd l \<noteq> CHR ''#'' \<and> hd l \<noteq> CHR ''['' \<and> list_all (\<lambda>q. parser_check_configitem l q = None) item_names"

definition peer_text_ok :: "libc \<Rightarrow> peer_config \<Rightarrow> string list option \<Rightarrow> bool" where
  "peer_text_ok lc p body \<longleftrightarrow>
     CHR 0x0A \<notin> set (pc_name p) \<and> value_ok (pc_gatewayhost p) \<and> value_ok (pc_owner p) \<and> value_ok (pc_cipher p)
     \<and> value_ok (pc_compression p) \<and> value_ok (pc_digest p) \<and> value_ok (pc_ed25519publickey p)
     \<and> list_all value_ok (pc_network p @ pc_network6 p @ pc_route_network p @ pc_route_network6 p)
     \<and> peer_valid lc p
     \<and> (case body of None \<Rightarrow> True | Some ls \<Rightarrow> list_all key_line_ok ls)
     \<and> pc_key p = lines_text (key_lines body)"

section \<open>The effect of single lines\<close>

text \<open>The state while a section is being read.\<close>

definition in_section :: "peer_config option list \<Rightarrow> peer_config \<Rightarrow> bool \<Rightarrow> pstate" where
  "in_section xs p km = \<lparr>ps_list = xs @ [Some p], ps_my_config = True, ps_key_mode = km, ps_warned = [], ps_output = []\<rparr>"

lemma in_section_simps [simp]:
  "ps_my_config (in_section xs p km)" "ps_key_mode (in_section xs p km) = km"
  "my_config (in_section xs p km) = p" "set_my_config f (in_section xs p km) = in_section xs (f p) km"
  "(in_section xs p km)\<lparr>ps_key_mode := b\<rparr> = in_section xs p b"
  by (simp_all add: in_section_def my_config_def set_my_config_def)

lemma value_ok_bool [simp]: "value_ok (bool_text b)"
  by (simp add: value_ok_def bool_text_def isspace_def)

lemma value_ok_nat_dec [simp]: "value_ok (nat_dec n)"
  using nat_dec_isdigit [of "last (nat_dec n)" n] nat_dec_isdigit [of "CHR 0x0A" n] isdigit_not_isspace
  by (auto simp: value_ok_def isdigit_def)

lemma str_is_true_bool [simp]: "str_is_true (Some (bool_text b)) False = b"
  by (cases b) (simp_all add: bool_text_def str_is_true_def strcaseeq_def)

lemma line_put:
  assumes "value_ok v" and "(p, \<lambda>item st. Done (set_my_config (f item) st)) \<in> set (item_table lc (p @ v))"
  shows "parser_parse_line lc (p @ v) (in_section xs q km) = Done (True, in_section xs (f v q) km)"
  using parse_line_item [OF assms(2,1), of "in_section xs q km"] by simp

lemma item_put_in_table:
  "(''gatewayhost='', \<lambda>v st. Done (set_my_config (\<lambda>p. p\<lparr>pc_gatewayhost := v\<rparr>) st)) \<in> set (item_table lc line)"
  "(''owner='', \<lambda>v st. Done (set_my_config (\<lambda>p. p\<lparr>pc_owner := v\<rparr>) st)) \<in> set (item_table lc line)"
  "(''cipher='', \<lambda>v st. Done (set_my_config (\<lambda>p. p\<lparr>pc_cipher := v\<rparr>) st)) \<in> set (item_table lc line)"
  "(''compression='', \<lambda>v st. Done (set_my_config (\<lambda>p. p\<lparr>pc_compression := v\<rparr>) st)) \<in> set (item_table lc line)"
  "(''digest='', \<lambda>v st. Done (set_my_config (\<lambda>p. p\<lparr>pc_digest := v\<rparr>) st)) \<in> set (item_table lc line)"
  "(''ed25519publickey='', \<lambda>v st. Done (set_my_config (\<lambda>p. p\<lparr>pc_ed25519publickey := v\<rparr>) st)) \<in> set (item_table lc line)"
  "(''use-tcp-only='', \<lambda>v st. Done (set_my_config (\<lambda>p. p\<lparr>pc_use_tcp_only := str_is_true (Some v) False\<rparr>) st)) \<in> set (item_table lc line)"
  "(''hidden='', \<lambda>v st. Done (set_my_config (\<lambda>p. p\<lparr>pc_hidden := str_is_true (Some v) False\<rparr>) st)) \<in> set (item_table lc line)"
  "(''silent='', \<lambda>v st. Done (set_my_config (\<lambda>p. p\<lparr>pc_silent := str_is_true (Some v) False\<rparr>) st)) \<in> set (item_table lc line)"
  "(''indirectdata='', \<lambda>v st. Done (set_my_config (\<lambda>p. p\<lparr>pc_indirectdata := str_is_true (Some v) False\<rparr>) st)) \<in> set (item_table lc line)"
  "(''primary='', \<lambda>v st. Done (set_my_config (\<lambda>p. p\<lparr>pc_primary := str_is_true (Some v) False\<rparr>) st)) \<in> set (item_table lc line)"
  by (simp_all add: item_table_def Let_def)

lemma item_other_in_table:
  "(''port='', parse_port) \<in> set (item_table lc line)"
  "(''network='', parse_subnet lc AF_INET (\<lambda>v p. p\<lparr>pc_network := pc_network p @ [v]\<rparr>)) \<in> set (item_table lc line)"
  "(''network6='', parse_subnet lc AF_INET6 (\<lambda>v p. p\<lparr>pc_network6 := pc_network6 p @ [v]\<rparr>)) \<in> set (item_table lc line)"
  "(''route_network='', parse_subnet lc AF_INET (\<lambda>v p. p\<lparr>pc_route_network := pc_route_network p @ [v]\<rparr>)) \<in> set (item_table lc line)"
  "(''route_network6='', parse_subnet lc AF_INET6 (\<lambda>v p. p\<lparr>pc_route_network6 := pc_route_network6 p @ [v]\<rparr>)) \<in> set (item_table lc line)"
  "(begin_key, \<lambda>_. parse_key_begin lc line) \<in> set (item_table lc line)"
  "(end_key, \<lambda>_. parse_key_end lc line) \<in> set (item_table lc line)"
  by (simp_all add: item_table_def Let_def begin_key_def end_key_def)

text \<open>Lines in sequence.\<close>

fun parse_lines :: "libc \<Rightarrow> string list \<Rightarrow> pstate \<Rightarrow> (bool \<times> pstate) run" where
  "parse_lines lc [] st = Done (True, st)"
| "parse_lines lc (l # ls) st = run_bind (parser_parse_line lc l st)
     (\<lambda>(ok, st). if \<not> ok then Done (False, st) else parse_lines lc ls st)"

lemma parse_lines_append:
  "parse_lines lc (ls @ ms) st = run_bind (parse_lines lc ls st)
     (\<lambda>(ok, st). if \<not> ok then Done (False, st) else parse_lines lc ms st)"
proof (induction ls arbitrary: st)
  case (Cons l ls)
  then show ?case by (cases "parser_parse_line lc l st") auto
qed simp

definition line_ok :: "string \<Rightarrow> bool" where
  "line_ok l \<longleftrightarrow> l \<noteq> [] \<and> CHR 0x0A \<notin> set l \<and> hd l \<noteq> CHR ''#''"

lemma parse_tokens_lines:
  "list_all line_ok ls \<Longrightarrow> parse_tokens lc (lines_text ls) st = parse_lines lc ls st"
proof (induction ls arbitrary: st)
  case Nil
  then show ?case by (subst parse_tokens.simps) (simp add: lines_text_def strtok_r_def)
next
  case (Cons l ls)
  then have "strtok_r [CHR 0x0A] (lines_text (l # ls)) = Some (l, lines_text ls)"
    by (simp add: lines_text_def line_ok_def strtok_r_line)
  with Cons show ?case
    by (subst parse_tokens.simps) (simp add: line_ok_def cong: if_cong)
qed

section \<open>The effect of a whole section\<close>

lemma line_header:
  assumes "alloc_total lc"
  shows "parser_parse_line lc (''['' @ n @ '']'') \<lparr>ps_list = xs, ps_my_config = b, ps_key_mode = km, ps_warned = [], ps_output = []\<rparr>
     = Done (True, in_section xs (parser_new_config n) False)"
proof -
  have "str_trim (''['' @ n @ '']'') = ''['' @ n @ '']''" by (intro str_trim_id) (simp_all add: isspace_def)
  then show ?thesis using assms
    by (simp add: parser_parse_line_def Let_def parse_section_def alloc_total_def parser_create_config_def in_section_def)
qed

lemma lines_subnet:
  assumes lc: "alloc_total lc" and tab: "\<And>line. (p, parse_subnet lc fam add) \<in> set (item_table lc line)"
    and vs: "list_all value_ok vs" "valid_subnets lc fam vs"
  shows "parse_lines lc (map (\<lambda>n. p @ n) vs) (in_section xs q km) = Done (True, in_section xs (fold add vs q) km)"
  using vs
proof (induction vs arbitrary: q)
  case (Cons v vs)
  have "parse_subnet lc fam add v (in_section xs q km) = Done (in_section xs (add v q) km)"
    using Cons.prems(2) lc
    by (simp add: parse_subnet_def valid_subnets_def parser_stringlist_def alloc_total_def)
  with parse_line_item [OF tab, of v "in_section xs q km"] Cons show ?case
    by (simp add: valid_subnets_def)
qed simp

lemma fold_add_subnets:
  "fold (\<lambda>v p. p\<lparr>pc_network := pc_network p @ [v]\<rparr>) vs q = q\<lparr>pc_network := pc_network q @ vs\<rparr>"
  "fold (\<lambda>v p. p\<lparr>pc_network6 := pc_network6 p @ [v]\<rparr>) vs q = q\<lparr>pc_network6 := pc_network6 q @ vs\<rparr>"
  "fold (\<lambda>v p. p\<lparr>pc_route_network := pc_route_network p @ [v]\<rparr>) vs q = q\<lparr>pc_route_network := pc_route_network q @ vs\<rparr>"
  "fold (\<lambda>v p. p\<lparr>pc_route_network6 := pc_route_network6 p @ [v]\<rparr>) vs q = q\<lparr>pc_route_network6 := pc_route_network6 q @ vs\<rparr>"
  by (induction vs arbitrary: q) simp_all

lemma line_port:
  "parser_parse_line lc (''port='' @ nat_dec (unat w)) (in_section xs q km) = Done (True, in_section xs (q\<lparr>pc_port := w\<rparr>) km)"
proof -
  have w: "unat w < 2 ^ 16" using unsigned_less [of w, where 'a = nat] by simp
  then have "strtoul0 (nat_dec (unat w)) = unat w" by (intro strtoul0_nat_dec) simp
  then have "parse_port (nat_dec (unat w)) (in_section xs q km) = Done (in_section xs (q\<lparr>pc_port := w\<rparr>) km)"
    using w by (simp add: parse_port_def Let_def)
  with parse_line_item [OF item_other_in_table(1), of "nat_dec (unat w)" "in_section xs q km"] show ?thesis by simp
qed

lemma line_key_body:
  assumes lc: "alloc_total lc" and l: "key_line_ok l"
  shows "parser_parse_line lc l (in_section xs q True) = Done (True, in_section xs (q\<lparr>pc_key := pc_key q @ l @ [CHR 0x0A]\<rparr>) True)"
proof -
  have trim: "str_trim l = l" using l by (intro str_trim_id) (simp_all add: key_line_ok_def)
  have "parse_item lc table l (in_section xs q True) = parser_extend_key lc l (in_section xs q True)"
    if "set (map fst table) \<subseteq> set item_names" for table
    using that l by (induction table) (auto simp: key_line_ok_def list_all_iff)
  from this [of "item_table lc l"]
  have "parse_item lc (item_table lc l) l (in_section xs q True) = parser_extend_key lc l (in_section xs q True)"
    by (simp only: item_table_names order_refl simp_thms)
  with trim l lc show ?thesis
    by (simp add: parser_parse_line_def Let_def key_line_ok_def parser_extend_key_def alloc_total_def)
qed

lemma lines_key_body:
  assumes "alloc_total lc" and "list_all key_line_ok ls"
  shows "parse_lines lc ls (in_section xs q True) = Done (True, in_section xs (q\<lparr>pc_key := pc_key q @ lines_text ls\<rparr>) True)"
  using assms(2)
proof (induction ls arbitrary: q)
  case (Cons l ls)
  then show ?case using line_key_body [OF assms(1), of l] by (simp add: lines_text_def)
qed (simp add: lines_text_def)

lemma lines_key:
  assumes lc: "alloc_total lc" and body: "case body of None \<Rightarrow> True | Some ls \<Rightarrow> list_all key_line_ok ls"
    and "pc_key q = []"
  shows "parse_lines lc (key_lines body) (in_section xs q False)
     = Done (True, in_section xs (q\<lparr>pc_key := lines_text (key_lines body)\<rparr>) False)"
proof (cases body)
  case None
  moreover have "q\<lparr>pc_key := []\<rparr> = q" using assms(3) by (cases q) simp
  ultimately show ?thesis by (simp add: key_lines_def lines_text_def)
next
  case (Some ls)
  have vn: "value_ok []" by (simp add: value_ok_def)
  have b: "parser_parse_line lc begin_key (in_section xs q False)
      = Done (True, in_section xs (q\<lparr>pc_key := begin_key @ [CHR 0x0A]\<rparr>) True)"
    using parse_line_item [OF item_other_in_table(6) vn, of "in_section xs q False" lc] lc
    by (simp add: parse_key_begin_def alloc_total_def)
  have e: "parser_parse_line lc end_key (in_section xs r True)
      = Done (True, in_section xs (r\<lparr>pc_key := pc_key r @ end_key @ [CHR 0x0A]\<rparr>) False)" for r
    using parse_line_item [OF item_other_in_table(7) vn, of "in_section xs r True" lc] lc
    by (simp add: parse_key_end_def parser_extend_key_def alloc_total_def)
  show ?thesis using Some b e lines_key_body [OF lc, of ls] body
    by (simp add: key_lines_def parse_lines_append lines_text_def)
qed

lemma lines_fields:
  assumes lc: "alloc_total lc"
    and ok: "value_ok gh" "value_ok ow" "value_ok ci" "value_ok co" "value_ok di" "value_ok ed"
  shows "parse_lines lc
     [''['' @ n @ '']'', ''gatewayhost='' @ gh, ''owner='' @ ow, ''use-tcp-only='' @ bool_text tcp, ''hidden='' @ bool_text hid,
      ''silent='' @ bool_text sil, ''port='' @ nat_dec (unat w), ''indirectdata='' @ bool_text ind, ''cipher='' @ ci,
      ''compression='' @ co, ''digest='' @ di, ''primary='' @ bool_text pri, ''ed25519publickey='' @ ed]
     \<lparr>ps_list = xs, ps_my_config = b, ps_key_mode = km, ps_warned = [], ps_output = []\<rparr>
     = Done (True, in_section xs \<lparr>pc_name = n, pc_gatewayhost = gh, pc_owner = ow, pc_network = [], pc_network6 = [],
         pc_route_network = [], pc_route_network6 = [], pc_hidden = hid, pc_silent = sil, pc_port = w, pc_key = [],
         pc_ed25519publickey = ed, pc_cipher = ci, pc_compression = co, pc_digest = di, pc_primary = pri,
         pc_use_tcp_only = tcp, pc_indirectdata = ind\<rparr> False)"
proof -
  note puts = item_put_in_table [THEN line_put [rotated]]
  show ?thesis
    by (simp only: parse_lines.simps line_header [OF lc] puts line_port ok value_ok_bool str_is_true_bool run_bind.simps
        prod.case simp_thms if_False) (simp add: parser_new_config_def)
qed

lemma lines_peer:
  assumes lc: "alloc_total lc" and p: "peer_text_ok lc p body"
  shows "parse_lines lc (peer_lines p body) \<lparr>ps_list = xs, ps_my_config = b, ps_key_mode = False, ps_warned = [], ps_output = []\<rparr>
     = Done (True, in_section xs p False)"
proof -
  note nets = lines_subnet [OF lc item_other_in_table(2)] lines_subnet [OF lc item_other_in_table(3)]
    lines_subnet [OF lc item_other_in_table(4)] lines_subnet [OF lc item_other_in_table(5)]
  have v: "value_ok (pc_gatewayhost p)" "value_ok (pc_owner p)" "value_ok (pc_cipher p)" "value_ok (pc_compression p)"
    "value_ok (pc_digest p)" "value_ok (pc_ed25519publickey p)" "list_all value_ok (pc_network p)"
    "list_all value_ok (pc_network6 p)" "list_all value_ok (pc_route_network p)" "list_all value_ok (pc_route_network6 p)"
    "valid_subnets lc AF_INET (pc_network p)" "valid_subnets lc AF_INET6 (pc_network6 p)"
    "valid_subnets lc AF_INET (pc_route_network p)" "valid_subnets lc AF_INET6 (pc_route_network6 p)"
    "case body of None \<Rightarrow> True | Some ls \<Rightarrow> list_all key_line_ok ls" "pc_key p = lines_text (key_lines body)"
    using p by (simp_all add: peer_text_ok_def peer_valid_def)
  have "parse_lines lc (peer_lines p body) \<lparr>ps_list = xs, ps_my_config = b, ps_key_mode = False, ps_warned = [], ps_output = []\<rparr>
     = parse_lines lc (key_lines body) (in_section xs (p\<lparr>pc_key := []\<rparr>) False)"
    unfolding peer_lines_def
    by (simp only: parse_lines_append lines_fields [OF lc] v nets run_bind.simps prod.case simp_thms if_False fold_add_subnets)
      (cases p; simp)
  also have "\<dots> = Done (True, in_section xs p False)"
    using lines_key [OF lc v(15), of "p\<lparr>pc_key := []\<rparr>" xs] v(16) by (cases p) simp
  finally show ?thesis .
qed

lemma peer_lines_ok:
  assumes "peer_text_ok lc p body"
  shows "list_all line_ok (peer_lines p body)"
proof -
  have b: "CHR 0x0A \<notin> set (bool_text x)" for x by (simp add: bool_text_def)
  have n: "CHR 0x0A \<notin> set (nat_dec k)" for k using nat_dec_isdigit [of "CHR 0x0A" k] by (auto simp: isdigit_def)
  have k: "list_all line_ok (key_lines body)"
    using assms by (auto simp: key_lines_def peer_text_ok_def line_ok_def begin_key_def end_key_def key_line_ok_def
        list_all_iff split: option.splits)
  have v: "list_all line_ok (map (\<lambda>n. q @ n) vs)"
    if "list_all value_ok vs" "q \<noteq> []" "hd q \<noteq> CHR ''#''" "CHR 0x0A \<notin> set q" for q vs
    using that by (auto simp: list_all_iff line_ok_def value_ok_def)
  show ?thesis using assms k b n unfolding peer_lines_def
    by (simp add: v peer_text_ok_def) (simp add: line_ok_def value_ok_def)
qed

definition config_text :: "(peer_config \<times> string list option) list \<Rightarrow> string" where
  "config_text ps = lines_text (concat (map (\<lambda>(p, body). peer_lines p body) ps))"

lemma lines_config:
  assumes "alloc_total lc" and "list_all (\<lambda>(p, body). peer_text_ok lc p body) ps"
  shows "parse_lines lc (concat (map (\<lambda>(p, body). peer_lines p body) ps))
       \<lparr>ps_list = xs, ps_my_config = b, ps_key_mode = False, ps_warned = [], ps_output = []\<rparr>
     = Done (True, \<lparr>ps_list = xs @ map (\<lambda>(p, _). Some p) ps, ps_my_config = (b \<or> ps \<noteq> []), ps_key_mode = False,
         ps_warned = [], ps_output = []\<rparr>)"
  using assms(2)
proof (induction ps arbitrary: xs b)
  case (Cons pb ps)
  obtain p body where pb: "pb = (p, body)" by (cases pb)
  with Cons.prems have p: "peer_text_ok lc p body" "list_all (\<lambda>(p, body). peer_text_ok lc p body) ps" by simp_all
  show ?case
    using lines_peer [OF assms(1) p(1), of xs b] Cons.IH [OF p(2), of "xs @ [Some p]" True] pb
    by (simp add: parse_lines_append in_section_def)
qed simp

section \<open>Properties\<close>

text \<open>
  C26: the peer configuration survives being written out and read back: from the text of a list of
  sections, each with its addresses, networks, flags, port, and the lines of its public key,
  \<open>parser_parse_config\<close> rebuilds exactly these peers in this order, with nothing left over and no
  line reported as unknown.
\<close>

theorem parser_roundtrip:
  assumes "alloc_total lc" and "list_all (\<lambda>(p, body). peer_text_ok lc p body) ps"
  shows "parser_parse_config lc (config_text ps) [] =
     Done (True, \<lparr>ps_list = map (\<lambda>(p, _). Some p) ps, ps_my_config = (ps \<noteq> []), ps_key_mode = False,
         ps_warned = [], ps_output = []\<rparr>)"
proof -
  have "list_all line_ok (concat (map (\<lambda>(p, body). peer_lines p body) ps))"
    using assms(2) peer_lines_ok by (induction ps) auto
  then show ?thesis
    using lines_config [OF assms, of "[]" False] parse_tokens_lines assms(1)
    by (simp add: parser_parse_config_def config_text_def alloc_total_def)
qed

definition sample_peer :: peer_config where
  "sample_peer = (parser_new_config ''host1'')\<lparr>pc_gatewayhost := ''vpn.example.org'', pc_network := [''10.4.0.0/16''],
     pc_port := 4712, pc_hidden := True, pc_primary := True, pc_key := lines_text (key_lines (Some [''MIIBCgKCAQEA'']))\<rparr>"

theorem parser_roundtrip_witness:
  "parser_parse_config total_libc (config_text [(sample_peer, Some [''MIIBCgKCAQEA''])]) [] =
     Done (True, \<lparr>ps_list = map (\<lambda>(p, _). Some p) [(sample_peer, Some [''MIIBCgKCAQEA''])],
         ps_my_config = ([(sample_peer, Some [''MIIBCgKCAQEA''])] \<noteq> []), ps_key_mode = False, ps_warned = [], ps_output = []\<rparr>)"
proof (rule parser_roundtrip [OF total_libc_facts(1)])
  have "parse_pattern total_libc ''10.4.0.0/16'' = Some (quad_entry [10, 4, 0, 0] [255, 255, 0, 0] 16)" by code_simp
  then have "addrmask_verify_subnet total_libc (Some ''10.4.0.0/16'') AF_INET = Done True"
    using addrmask_parse_pattern [OF total_libc_facts(1), of "''10.4.0.0/16''"] total_libc_facts(1)
    by (simp add: addrmask_verify_subnet_def addrmask_init_def alloc_total_def family_fits_def quad_entry_def)
  then show "list_all (\<lambda>(p, body). peer_text_ok total_libc p body) [(sample_peer, Some [''MIIBCgKCAQEA''])]"
    by (simp add: peer_text_ok_def sample_peer_def parser_new_config_def value_ok_def peer_valid_def valid_subnets_def isspace_def
        key_line_ok_def item_names_def parser_check_configitem_def strncaseeq_def tolower_def)
qed

text \<open>
  C27: on any text at all, with memory granted, \<open>parser_parse_config\<close> ends without a memory fault and
  returns true; every list element has its configuration, and every network and route network of
  every peer is one that \<open>addrmask_verify_subnet\<close> accepts for its address family.
\<close>

theorem parser_parse_config_safe:
  assumes "alloc_total lc" and "getaddrinfo_sized lc" and "NUL \<notin> set data" and "length data \<le> 2 ^ 32"
  shows "\<exists>st. parser_parse_config lc data [] = Done (True, st)
     \<and> list_all (\<lambda>c. case c of None \<Rightarrow> False | Some p \<Rightarrow> peer_valid lc p) (ps_list st)"
proof -
  have "c_text data" using assms(3,4) by (simp add: c_text_def)
  from parse_tokens_inv [OF assms(1,2) this] obtain st where
    "parse_tokens lc data \<lparr>ps_list = [], ps_my_config = False, ps_key_mode = False, ps_warned = [], ps_output = []\<rparr>
       = Done (True, st)" "ps_inv lc st"
    by (force simp: ps_inv_def)
  then show ?thesis using assms(1) by (auto simp: parser_parse_config_def ps_inv_def alloc_total_def)
qed

theorem parser_parse_config_safe_witness:
  "\<exists>st. parser_parse_config total_libc (''[a]'' @ CHR 0x0A # ''network=bogus'') [] = Done (True, st)
     \<and> list_all (\<lambda>c. case c of None \<Rightarrow> False | Some p \<Rightarrow> peer_valid total_libc p) (ps_list st)"
  by (rule parser_parse_config_safe [OF total_libc_facts(1,2)]) simp_all

text \<open>
  the port is cut down to 16 bits without a check: a section line \<open>port=n\<close> sets the port to
  \<open>n\<close> modulo 65536 for every \<open>n\<close> below the largest 64-bit number.
\<close>

theorem parser_port_wraps:
  assumes "n < 2 ^ 64 - 1"
  shows "parser_parse_line lc (''port='' @ nat_dec n) (in_section xs p km)
     = Done (True, in_section xs (p\<lparr>pc_port := of_nat (n mod 65536)\<rparr>) km)"
proof -
  have "strtoul0 (nat_dec n) = n" using assms by (intro strtoul0_nat_dec) simp
  moreover have "(of_nat (n mod 65536) :: 16 word) = of_nat n" by (simp add: word_unat_eq_iff unsigned_of_nat take_bit_eq_mod)
  ultimately have "parse_port (nat_dec n) (in_section xs p km) = Done (in_section xs (p\<lparr>pc_port := of_nat (n mod 65536)\<rparr>) km)"
    using assms by (simp add: parse_port_def Let_def)
  with parse_line_item [OF item_other_in_table(1), of "nat_dec n" "in_section xs p km"] show ?thesis by simp
qed

theorem parser_port_wraps_witness:
  "parser_parse_line plain_libc (''port='' @ nat_dec 65537) (in_section [] sample_peer False)
     = Done (True, in_section [] (sample_peer\<lparr>pc_port := of_nat (65537 mod 65536)\<rparr>) False)"
  by (rule parser_port_wraps) simp

end
