(* ===== verification/Fs.thy ===== *)
theory Fs
  imports Strbuf
begin

text \<open>
  \<^verbatim>\<open>src/fs.c\<close>: files and directories.  The state of the file system is \<open>files\<close>, the content and
  mode of each regular file by path.  What the operating system decides is the parameter \<open>sysenv\<close>.
\<close>

section \<open>Environment\<close>

text \<open>A path names the same file when slashes in it are doubled; \<open>canon\<close> is its name with single ones.\<close>

fun canon :: "string \<Rightarrow> string" where
  "canon (a # b # cs) = (if a = CHR ''/'' \<and> b = CHR ''/'' then canon (b # cs) else a # canon (b # cs))"
| "canon cs = cs"

lemma canon_double: "canon (a @ CHR ''/'' # CHR ''/'' # b) = canon (a @ CHR ''/'' # b)"
proof (induction a)
  case (Cons x xs)
  then show ?case by (cases xs) auto
qed simp

type_synonym files = "string \<Rightarrow> (char list \<times> nat) option"

text \<open>
  \<^item> \<open>se_open_w fn\<close>: whether \<open>open\<close> for writing succeeds;
  \<^item> \<open>se_write fn n\<close>: how many of \<open>n\<close> bytes one call of \<open>write\<close> takes;
  \<^item> \<open>se_read_error fn\<close>: whether reading ends with \<open>ferror\<close>;
  \<^item> \<open>se_popen cmd\<close>: what a command prints, \<open>None\<close> when no pipe can be made;
  \<^item> \<open>se_system cmd\<close>: the status of \<open>system\<close>;
  \<^item> \<open>se_access_x fn\<close>: whether a file may be executed;
  \<^item> \<open>se_symlink target fn\<close>: whether making a symbolic link succeeds;
  \<^item> \<open>se_stat fn\<close>: the mode bits of a file that exists;
  \<^item> \<open>se_getpwnam name\<close>: user and group id of a user that exists.
\<close>

record sysenv =
  se_open_w :: "string \<Rightarrow> bool"
  se_write :: "string \<Rightarrow> nat \<Rightarrow> nat"
  se_read_error :: "string \<Rightarrow> bool"
  se_popen :: "string \<Rightarrow> char list option"
  se_system :: "string \<Rightarrow> int"
  se_access_x :: "string \<Rightarrow> bool"
  se_symlink :: "string \<Rightarrow> string \<Rightarrow> bool"
  se_stat :: "string \<Rightarrow> nat option"
  se_getpwnam :: "string \<Rightarrow> (nat \<times> nat) option"

section \<open>Directories\<close>

text \<open>The outcome of one \<open>mkdir\<close>: success, \<open>ENOENT\<close>, or another error.\<close>

datatype mkdir_result = MK_OK | MK_ENOENT | MK_ERR

text \<open>The scan for the last slash; 0 when there is none (or only one at the very front).\<close>

definition last_slash :: "string \<Rightarrow> nat" where
  "last_slash path = fold (\<lambda>i pos. if path ! i = CHR ''/'' then i else pos) [0..<length path] 0"

lemma last_slash_scan:
  "fold (\<lambda>i pos. if path ! i = CHR ''/'' then i else pos) [0..<n] 0 < n
   \<or> fold (\<lambda>i pos. if path ! i = CHR ''/'' then i else pos) [0..<n] 0 = (0 :: nat)"
  by (induction n) auto

lemma last_slash_less: "0 < last_slash path \<Longrightarrow> last_slash path < length path"
  using last_slash_scan [of path "length path"] by (auto simp: last_slash_def)

text \<open>\<open>fs_mkdir_p\<close>; the result 0 is \<open>True\<close>.\<close>

function fs_mkdir_p :: "(string \<Rightarrow> 's \<Rightarrow> mkdir_result \<times> 's) \<Rightarrow> string \<Rightarrow> 's \<Rightarrow> bool \<times> 's" where
  "fs_mkdir_p mkdir path s =
     (case mkdir path s of
        (MK_OK, s1) \<Rightarrow> (True, s1)
      | (MK_ERR, s1) \<Rightarrow> (False, s1)
      | (MK_ENOENT, s1) \<Rightarrow>
          let pos = last_slash path in
          if pos = 0 then (False, s1)
          else (case fs_mkdir_p mkdir (take pos path) s1 of
              (ok, s2) \<Rightarrow> if \<not> ok then (False, s2)
                          else (case mkdir path s2 of (r, s3) \<Rightarrow> (r = MK_OK, s3))))"
  by pat_completeness auto
termination
  by (relation "measure (\<lambda>(mkdir, path, s). length path)") (auto simp: min_def dest: last_slash_less)

declare fs_mkdir_p.simps [simp del]

definition fs_ensure_suffix :: "libc \<Rightarrow> strbuf \<Rightarrow> (bool \<times> strbuf) run" where
  "fs_ensure_suffix lc s =
     (case content s of
        [] \<Rightarrow> Fault Out_of_bounds
      | c # cs \<Rightarrow> if last (c # cs) = CHR ''/'' then Done (True, s)
                 else run_seq [\<lambda>s. string_putc lc s (CHR ''/''), string_ensurez lc] s)"

section \<open>Writing\<close>

definition fs_writecontents :: "sysenv \<Rightarrow> string \<Rightarrow> char list \<Rightarrow> nat \<Rightarrow> files \<Rightarrow> bool \<times> files" where
  "fs_writecontents se fn cnt mode files =
     (if \<not> se_open_w se fn then (False, files)
      else let bw = min (length cnt) (se_write se fn (length cnt));
               mode' = (case files (canon fn) of None \<Rightarrow> mode | Some (_, old) \<Rightarrow> old)
           in (length cnt = bw, files(canon fn \<mapsto> (take bw cnt, mode'))))"

text \<open>
  \<open>fs_writecontents_safe\<close> writes into a directory under a name whose slashes are replaced.  When
  malloc fails it returns 1, which the callers take for true.
\<close>

definition safe_name :: "string \<Rightarrow> string" where
  "safe_name fn = map (\<lambda>c. if c = CHR ''/'' then CHR ''_'' else c) fn"

definition fs_writecontents_safe ::
  "libc \<Rightarrow> sysenv \<Rightarrow> string \<Rightarrow> string \<Rightarrow> char list \<Rightarrow> nat \<Rightarrow> files \<Rightarrow> bool \<times> files" where
  "fs_writecontents_safe lc se dir fn cnt mode files =
     (let dlen = length dir + 1; reqlen = dlen + length fn + 1 in
      if \<not> lc_alloc lc reqlen then (True, files)
      else fs_writecontents se (dir @ ''/'' @ safe_name fn) cnt mode files)"

section \<open>Reading\<close>

text \<open>The loop \<open>while ((read_size = fread(chunk, 1, 4096, fp)) > 0)\<close> over the bytes of a stream.\<close>

function read_chunks :: "libc \<Rightarrow> char list \<Rightarrow> strbuf \<Rightarrow> (bool \<times> strbuf) run" where
  "read_chunks lc data buffer =
     (if data = [] then Done (True, buffer)
      else run_bind (string_concatb lc buffer (take 4096 data))
             (\<lambda>(ok, b). if \<not> ok then Done (False, b) else read_chunks lc (drop 4096 data) b))"
  by pat_completeness auto
termination
  by (relation "measure (\<lambda>(lc, data, b). length data)") auto

declare read_chunks.simps [simp del]

definition fs_read_file :: "libc \<Rightarrow> sysenv \<Rightarrow> files \<Rightarrow> strbuf \<Rightarrow> string \<Rightarrow> (bool \<times> strbuf) run" where
  "fs_read_file lc se files buffer fname =
     (case files (canon fname) of
        None \<Rightarrow> Done (False, buffer)
      | Some (data, _) \<Rightarrow> run_bind (read_chunks lc data buffer)
          (\<lambda>(ok, b). if \<not> ok then Done (False, b) else Done (\<not> se_read_error se fname, b)))"

definition fs_read_fd :: "libc \<Rightarrow> strbuf \<Rightarrow> char list \<Rightarrow> (bool \<times> strbuf) run" where
  "fs_read_fd lc buffer data = read_chunks lc data buffer"

definition fs_backticks_exec :: "libc \<Rightarrow> sysenv \<Rightarrow> string \<Rightarrow> strbuf \<Rightarrow> (bool \<times> strbuf) run" where
  "fs_backticks_exec lc se cmd outputbuffer =
     (case se_popen se cmd of
        None \<Rightarrow> Done (False, outputbuffer)
      | Some out \<Rightarrow> fs_read_fd lc outputbuffer out)"

section \<open>Facts\<close>

lemma read_chunks_writes: "writes lc (read_chunks lc data) data"
proof (induction "length data" arbitrary: data rule: less_induct)
  case less
  show ?case
  proof (cases "data = []")
    case True
    then have "read_chunks lc data = (\<lambda>b. Done (True, b))" by (simp add: fun_eq_iff read_chunks.simps)
    with True emits_seq_Nil show ?thesis by simp
  next
    case False
    then have "read_chunks lc data = (\<lambda>b. seq_step (string_concatb lc b (take 4096 data)) (read_chunks lc (drop 4096 data)))"
      by (simp add: fun_eq_iff read_chunks.simps [of lc data] seq_step_def)
    moreover have "writes lc (read_chunks lc (drop 4096 data)) (drop 4096 data)" using False by (intro less) simp
    ultimately show ?thesis using seq_step_writes [OF string_concatb_writes] by (metis append_take_drop_id)
  qed
qed

lemma safe_name_no_slash: "CHR ''/'' \<notin> set (safe_name fn)"
  by (auto simp: safe_name_def)

lemma safe_name_id: "CHR ''/'' \<notin> set fn \<Longrightarrow> safe_name fn = fn"
  by (induction fn) (auto simp: safe_name_def)

section \<open>Directory trees\<close>

text \<open>The documented behaviour of \<open>mkdir\<close> on a tree of directories, without symbolic links.\<close>

definition tree_mkdir :: "string \<Rightarrow> string set \<Rightarrow> mkdir_result \<times> string set" where
  "tree_mkdir path dirs =
     (if path \<in> dirs then (MK_ERR, dirs)
      else if last_slash path = 0 \<or> take (last_slash path) path \<in> dirs then (MK_OK, insert path dirs)
      else (MK_ENOENT, dirs))"

text \<open>The directories a path needs: itself and what stands before its last slash, and so on.\<close>

function ancestors :: "string \<Rightarrow> string list" where
  "ancestors path = path # (if last_slash path = 0 then [] else ancestors (take (last_slash path) path))"
  by pat_completeness auto
termination
  by (relation "measure length") (auto simp: min_def dest: last_slash_less)

declare ancestors.simps [simp del]

lemma ancestors_length: "d \<in> set (ancestors path) \<Longrightarrow> length d \<le> length path"
proof (induction path rule: ancestors.induct)
  case (1 path)
  then show ?case by (subst (asm) (2) ancestors.simps) (auto simp: min_def split: if_splits)
qed

definition tree_ok :: "string set \<Rightarrow> bool" where
  "tree_ok dirs \<longleftrightarrow> (\<forall>d \<in> dirs. set (ancestors d) \<subseteq> dirs)"

lemma mkdir_p_tree:
  assumes "tree_ok dirs"
  shows "\<exists>dirs'. fs_mkdir_p tree_mkdir path dirs = (path \<notin> dirs, dirs') \<and> dirs' = dirs \<union> set (ancestors path)"
  using assms
proof (induction "length path" arbitrary: path dirs rule: less_induct)
  case less
  let ?parent = "take (last_slash path) path"
  show ?case
  proof (cases "path \<in> dirs")
    case True
    then have "set (ancestors path) \<subseteq> dirs" using less.prems by (simp add: tree_ok_def)
    with True show ?thesis by (subst fs_mkdir_p.simps) (auto simp: tree_mkdir_def)
  next
    case new: False
    show ?thesis
    proof (cases "last_slash path = 0 \<or> ?parent \<in> dirs")
      case True
      then have "set (ancestors path) \<subseteq> insert path dirs"
        using less.prems by (subst ancestors.simps) (auto simp: tree_ok_def)
      moreover have "path \<in> set (ancestors path)" by (subst ancestors.simps) simp
      moreover have "fs_mkdir_p tree_mkdir path dirs = (True, insert path dirs)"
        using new True by (subst fs_mkdir_p.simps) (auto simp: tree_mkdir_def)
      ultimately show ?thesis using new by auto
    next
      case False
      then have "length ?parent < length path" using last_slash_less [of path] by simp
      from less.hyps [OF this less.prems] False obtain dirs' where
        d: "fs_mkdir_p tree_mkdir ?parent dirs = (True, dirs')" "dirs' = dirs \<union> set (ancestors ?parent)" by auto
      have anc: "ancestors path = path # ancestors ?parent" using False by (subst ancestors.simps) simp
      have "?parent \<in> dirs'" using d(2) by (subst (asm) ancestors.simps) simp
      moreover have "path \<notin> set (ancestors ?parent)"
        using ancestors_length [of path ?parent] \<open>length ?parent < length path\<close> by auto
      ultimately show ?thesis using d new False anc
        by (subst fs_mkdir_p.simps) (auto simp: tree_mkdir_def Let_def)
    qed
  qed
qed

section \<open>Properties\<close>

text \<open>
  \<open>fs_mkdir_p\<close> on a directory tree ends, and afterwards exactly the path and everything above it
  have been added; it reports success exactly when the path itself was missing before.
\<close>

theorem fs_mkdir_p_creates:
  assumes "tree_ok dirs"
  shows "fs_mkdir_p tree_mkdir path dirs = (path \<notin> dirs, dirs \<union> set (ancestors path))"
  using mkdir_p_tree [OF assms, of path] by auto

theorem fs_mkdir_p_creates_witness:
  "fs_mkdir_p tree_mkdir ''/etc/tinc/chaos/hosts'' {''/etc''}
     = (''/etc/tinc/chaos/hosts'' \<notin> {''/etc''}, {''/etc''} \<union> set (ancestors ''/etc/tinc/chaos/hosts''))"
proof (rule fs_mkdir_p_creates)
  have "ancestors ''/etc'' = [''/etc'']" by code_simp
  then show "tree_ok {''/etc''}" by (simp add: tree_ok_def)
qed

text \<open>
  whatever name a peer has, \<open>fs_writecontents_safe\<close> touches one file only, which lies directly in
  the given directory; if it reports success and memory was granted, that file now holds exactly
  the given bytes.
\<close>

theorem fs_writecontents_safe_confined:
  assumes "fs_writecontents_safe lc se dir fn cnt mode files = (ok, files')"
  shows "\<exists>name. CHR ''/'' \<notin> set name \<and> (\<forall>path. path \<noteq> canon (dir @ ''/'' @ name) \<longrightarrow> files' path = files path)
     \<and> (ok \<and> alloc_total lc \<longrightarrow> map_option fst (files' (canon (dir @ ''/'' @ name))) = Some cnt)"
proof (intro exI [of _ "safe_name fn"] conjI)
  show "CHR ''/'' \<notin> set (safe_name fn)" by (rule safe_name_no_slash)
  show "\<forall>path. path \<noteq> canon (dir @ ''/'' @ safe_name fn) \<longrightarrow> files' path = files path"
    "ok \<and> alloc_total lc \<longrightarrow> map_option fst (files' (canon (dir @ ''/'' @ safe_name fn))) = Some cnt"
    using assms
    by (auto simp: fs_writecontents_safe_def fs_writecontents_def Let_def alloc_total_def split: if_splits)
qed

definition plain_env :: sysenv where
  "plain_env = \<lparr>se_open_w = \<lambda>_. True, se_write = \<lambda>_ n. n, se_read_error = \<lambda>_. False, se_popen = \<lambda>_. None, se_system = \<lambda>_. 0,
     se_access_x = \<lambda>_. False, se_symlink = \<lambda>_ _. True, se_stat = \<lambda>_. None, se_getpwnam = \<lambda>_. Some (1000, 1000)\<rparr>"

theorem fs_writecontents_safe_confined_witness:
  "\<exists>name. CHR ''/'' \<notin> set name
     \<and> (\<forall>path. path \<noteq> canon (''hosts'' @ ''/'' @ name) \<longrightarrow>
          snd (fs_writecontents_safe plain_libc plain_env ''hosts'' ''../../passwd'' ''x'' 384 (\<lambda>_. None)) path = None)
     \<and> (fst (fs_writecontents_safe plain_libc plain_env ''hosts'' ''../../passwd'' ''x'' 384 (\<lambda>_. None)) \<and> alloc_total plain_libc \<longrightarrow>
          map_option fst (snd (fs_writecontents_safe plain_libc plain_env ''hosts'' ''../../passwd'' ''x'' 384 (\<lambda>_. None))
             (canon (''hosts'' @ ''/'' @ name))) = Some ''x'')"
  by (rule fs_writecontents_safe_confined) (rule prod.collapse [symmetric])

end
