(* ===== verification/Chaosconfig.thy ===== *)
theory Chaosconfig
  imports Peerparser Fs
begin

text \<open>
  \<^verbatim>\<open>src/chaosvpn.h\<close>: the configuration structure that all parts of the client share.  A
  \<open>char *\<close> is a \<open>string option\<close>, a linked list is a HOL list (see \<open>Klist\<close>).
\<close>

text \<open>
  The pointer to the section of this node, and the sections of all nodes.  An element \<open>None\<close> of the list is a node
  whose section could not be allocated or has been freed.
\<close>

datatype my_peer = No_peer | My_peer peer_config | Freed_peer

datatype settings_list_entry = LIST_STRING string | LIST_INTEGER int | LIST_LIST

text \<open>The strings of a list of settings; the code skips every other kind of entry.\<close>

fun string_entries :: "settings_list_entry list \<Rightarrow> string list" where
  "string_entries [] = []"
| "string_entries (LIST_STRING v # es) = v # string_entries es"
| "string_entries (e # es) = string_entries es"

text \<open>
  The C string at \<open>string_get\<close> of a buffer that nobody has terminated: without a zero byte in the
  block the reader runs over its end.
\<close>

definition buf_cstr :: "strbuf \<Rightarrow> string option run" where
  "buf_cstr s =
     (case sb_s s of
        None \<Rightarrow> Done None
      | Some b \<Rightarrow> if NUL \<in> set b then Done (Some (cstr b)) else Fault Out_of_bounds)"

lemma buf_cstr_Done: "buf_cstr s = Done r \<Longrightarrow> r = (if sb_s s = None then None else Some (string_cstr s))"
  by (auto simp: buf_cstr_def string_cstr_def split: option.splits if_splits)

record config =
  cf_pidfile :: "string option"
  cf_peerid :: "string option"
  cf_vpn_ip :: "string option"
  cf_vpn_ip6 :: "string option"
  cf_networkname :: "string option"
  cf_my_ip :: "string option"
  cf_my_addressfamily :: "string option"
  cf_tincd_bin :: "string option"
  cf_tincd_version :: "string option"
  cf_tincctl_bin :: "string option"
  cf_tincd_debuglevel :: "32 word"
  cf_tincd_restart_delay :: "32 word"
  cf_routemetric :: "string option"
  cf_routeadd :: "string option"
  cf_routeadd6 :: "string option"
  cf_routedel :: "string option"
  cf_routedel6 :: "string option"
  cf_postup :: "string option"
  cf_ifconfig :: "string option"
  cf_ifconfig6 :: "string option"
  cf_master_url :: "string option"
  cf_base_path :: "string option"
  cf_tincd_pidfile :: "string option"
  cf_masterdata_signkey :: "string option"
  cf_tincd_graphdumpfile :: "string option"
  cf_tmpconffile :: "string option"
  cf_tincd_device :: "string option"
  cf_tincd_interface :: "string option"
  cf_tincd_user :: "string option"
  cf_tincd_raw_config :: "string option"
  cf_privkey :: strbuf
  cf_ed25519publickey :: strbuf
  cf_exclude :: "settings_list_entry list option"
  cf_my_peer :: my_peer
  cf_peer_config :: "peer_config option list"
  cf_ifmodifiedsince :: int
  cf_update_interval :: "32 word"
  cf_use_dynamic_routes :: bool
  cf_connect_only_to_primary_nodes :: bool
  cf_run_ifdown :: bool
  cf_localdiscovery :: bool
  cf_mergeroutes_supernet_raw :: "settings_list_entry list option"
  cf_mergeroutes_supernet :: "addr_info list"
  cf_ignore_subnets_raw :: "settings_list_entry list option"
  cf_ignore_subnets :: "addr_info list"
  cf_whitelist_subnets_raw :: "settings_list_entry list option"
  cf_whitelist_subnets :: "addr_info list"
  cf_password :: "string option"
  cf_vpn_netmask :: "string option"
  cf_configfile :: "string option"
  cf_daemonmode :: bool
  cf_oneshot :: bool
  cf_tincd_uid :: nat
  cf_tincd_gid :: nat

text \<open>
  \<open>config_alloc\<close> of \<^verbatim>\<open>src/config.c\<close>, with memory granted; \<open>tincdir\<close> is the directory fixed when
  the client is built.
\<close>

definition config_alloc :: "string \<Rightarrow> config" where
  "config_alloc tincdir =
     \<lparr>cf_pidfile = None, cf_peerid = None, cf_vpn_ip = None, cf_vpn_ip6 = None, cf_networkname = None, cf_my_ip = None,
      cf_my_addressfamily = None, cf_tincd_bin = Some ''tincd'', cf_tincd_version = None, cf_tincctl_bin = None,
      cf_tincd_debuglevel = 3, cf_tincd_restart_delay = 20, cf_routemetric = Some ''0'', cf_routeadd = None,
      cf_routeadd6 = None, cf_routedel = None, cf_routedel6 = None, cf_postup = None, cf_ifconfig = None,
      cf_ifconfig6 = None, cf_master_url = Some ''https://www.vpn.hamburg.ccc.de/tinc-chaosvpn.txt'',
      cf_base_path = None, cf_tincd_pidfile = None, cf_masterdata_signkey = None, cf_tincd_graphdumpfile = None,
      cf_tmpconffile = None, cf_tincd_device = None, cf_tincd_interface = None, cf_tincd_user = None,
      cf_tincd_raw_config = None, cf_privkey = string_lazyinit 2048,
      cf_ed25519publickey = string_lazyinit 1024, cf_exclude = None,
      cf_my_peer = No_peer, cf_peer_config = [], cf_ifmodifiedsince = 0, cf_update_interval = 0,
      cf_use_dynamic_routes = False, cf_connect_only_to_primary_nodes = True, cf_run_ifdown = False,
      cf_localdiscovery = True, cf_mergeroutes_supernet_raw = None, cf_mergeroutes_supernet = [],
      cf_ignore_subnets_raw = None, cf_ignore_subnets = [], cf_whitelist_subnets_raw = None,
      cf_whitelist_subnets = [], cf_password = None, cf_vpn_netmask = None,
      cf_configfile = Some (tincdir @ ''/chaosvpn.conf''), cf_daemonmode = False, cf_oneshot = False,
      cf_tincd_uid = 0, cf_tincd_gid = 0\<rparr>"

text \<open>The sections, when all of them are there.\<close>

abbreviation peers_of :: "config \<Rightarrow> peer_config list" where
  "peers_of cfg \<equiv> map the (cf_peer_config cfg)"

lemma all_peers: "None \<notin> set ps \<Longrightarrow> map Some (map the ps) = ps"
  by (induction ps) auto

definition on_peer :: "(peer_config \<Rightarrow> 's \<Rightarrow> 'r run) \<Rightarrow> peer_config option \<Rightarrow> 's \<Rightarrow> 'r run" where
  "on_peer f p s = (case p of None \<Rightarrow> Fault Null_deref | Some peer \<Rightarrow> f peer s)"

lemma map_on_peer: "None \<notin> set ps \<Longrightarrow> map (on_peer f) ps = map f (map the ps)"
  by (induction ps) (auto simp: on_peer_def fun_eq_iff split: option.splits)

end
