(* ===== verification/Tinc.thy ===== *)
theory Tinc
  imports Chaosconfig
begin

text \<open>
  \<^verbatim>\<open>src/tinc.c\<close>: the files written for tincd.  A generator is a sequence of appends to a buffer,
  each of which ends the function when it fails (\<open>run_seq\<close>); the macros of the C file keep their
  names.  A null \<open>char *\<close> that is appended is a fault.
\<close>

section \<open>The macros\<close>

definition CONCAT :: "libc \<Rightarrow> string option \<Rightarrow> strbuf \<Rightarrow> (bool \<times> strbuf) run" where
  "CONCAT lc v s = (case v of None \<Rightarrow> Fault Null_deref | Some t \<Rightarrow> string_concat lc s t)"

definition CONCAT_F :: "libc \<Rightarrow> string option \<Rightarrow> string option \<Rightarrow> strbuf \<Rightarrow> (bool \<times> strbuf) run" where
  "CONCAT_F lc format v s =
     (case format of None \<Rightarrow> Fault Null_deref
      | Some f \<Rightarrow> (case v of None \<Rightarrow> Fault Null_deref | Some t \<Rightarrow> string_concat_sprintf lc f [Arg_s t] s))"

text \<open>\<open>CONCAT_F\<close> with a number.\<close>

definition CONCAT_FD :: "libc \<Rightarrow> string \<Rightarrow> int \<Rightarrow> strbuf \<Rightarrow> (bool \<times> strbuf) run" where
  "CONCAT_FD lc format v s = string_concat_sprintf lc format [Arg_d v] s"

definition CONCAT_DF :: "libc \<Rightarrow> string \<Rightarrow> string option \<Rightarrow> string \<Rightarrow> strbuf \<Rightarrow> (bool \<times> strbuf) run" where
  "CONCAT_DF lc format v default_value s =
     string_concat_sprintf lc format [Arg_s (if str_is_nonempty v then the v else default_value)] s"

definition CONCAT_YN :: "libc \<Rightarrow> string \<Rightarrow> bool \<Rightarrow> strbuf \<Rightarrow> (bool \<times> strbuf) run" where
  "CONCAT_YN lc format v s = string_concat_sprintf lc format [Arg_s (if v then ''yes'' else ''no'')] s"

definition TINC_DEFAULT_CIPHER :: string where "TINC_DEFAULT_CIPHER = ''blowfish''"
definition TINC_DEFAULT_COMPRESSION :: string where "TINC_DEFAULT_COMPRESSION = ''0''"
definition TINC_DEFAULT_DIGEST :: string where "TINC_DEFAULT_DIGEST = ''sha1''"

section \<open>Host files\<close>

definition tinc_check_if_excluded :: "config \<Rightarrow> string \<Rightarrow> bool" where
  "tinc_check_if_excluded cfg peername =
     (case cf_exclude cfg of
        None \<Rightarrow> False
      | Some es \<Rightarrow> list_ex (\<lambda>e. case e of LIST_STRING s \<Rightarrow> strcaseeq s peername | _ \<Rightarrow> False) es)"

definition tinc_add_subnet :: "libc \<Rightarrow> string list \<Rightarrow> strbuf \<Rightarrow> (bool \<times> strbuf) run" where
  "tinc_add_subnet lc network = run_seq (map (\<lambda>t. CONCAT_F lc (Some ''Subnet=%s\<newline>'') (Some t)) network)"

text \<open>
  The comparison of the version at the end has no guard: without a version it fails the assertion
  of \<open>strnatcmp0\<close>.
\<close>

definition peer_config_key :: "libc \<Rightarrow> config \<Rightarrow> peer_config \<Rightarrow> strbuf \<Rightarrow> (bool \<times> strbuf) run" where
  "peer_config_key lc cfg peer s =
     (case cf_tincd_version cfg of
        None \<Rightarrow> Fault Assert_failed
      | Some version \<Rightarrow>
          if 0 < strnatcmp version ''1.1''
          then (case cf_peerid cfg of
              None \<Rightarrow> Fault Null_deref
            | Some peerid \<Rightarrow>
                if pc_name peer = peerid
                then run_bind (buf_cstr (cf_ed25519publickey cfg)) (\<lambda>key.
                       run_when (str_is_nonempty key)
                         (run_seq [CONCAT lc key, CONCAT lc (Some ''\<newline>'')]) s)
                else run_when (str_is_nonempty (Some (pc_ed25519publickey peer)))
                       (CONCAT_F lc (Some ''Ed25519PublicKey=%s\<newline>'') (Some (pc_ed25519publickey peer))) s)
          else Done (True, s))"

definition tinc_generate_peer_config :: "libc \<Rightarrow> config \<Rightarrow> peer_config \<Rightarrow> strbuf \<Rightarrow> (bool \<times> strbuf) run" where
  "tinc_generate_peer_config lc cfg peer =
     run_seq
      [CONCAT lc (Some ''# this is an autogenerated file - do not edit!\<newline>\<newline>''),
       run_when (str_is_nonempty (Some (pc_gatewayhost peer)) \<and> \<not> pc_hidden peer)
         (CONCAT_F lc (Some ''Address=%s\<newline>'') (Some (pc_gatewayhost peer))),
       CONCAT_DF lc ''Cipher=%s\<newline>'' (Some (pc_cipher peer)) TINC_DEFAULT_CIPHER,
       CONCAT_DF lc ''Compression=%s\<newline>'' (Some (pc_compression peer)) TINC_DEFAULT_COMPRESSION,
       CONCAT_DF lc ''Digest=%s\<newline>'' (Some (pc_digest peer)) TINC_DEFAULT_DIGEST,
       CONCAT_YN lc ''IndirectData=%s\<newline>'' (pc_indirectdata peer),
       CONCAT_FD lc ''Port=%d\<newline>'' (int (unat (pc_port peer))),
       tinc_add_subnet lc (pc_network peer),
       tinc_add_subnet lc (pc_network6 peer),
       CONCAT_YN lc ''TCPonly=%s\<newline>'' (pc_use_tcp_only peer),
       CONCAT_F lc (Some ''%s\<newline>\<newline>'') (Some (pc_key peer)),
       peer_config_key lc cfg peer]"

text \<open>A path below the base directory, as it is put together before each use.\<close>

definition base_file :: "libc \<Rightarrow> config \<Rightarrow> string \<Rightarrow> string run" where
  "base_file lc cfg suffix =
     (case cf_base_path cfg of
        None \<Rightarrow> Fault Null_deref
      | Some base \<Rightarrow>
          run_bind (string_concat lc (string_init lc 512 512) base)
            (\<lambda>(_, s). run_bind (string_concat lc s suffix)
              (\<lambda>(_, s). run_bind (string_ensurez lc s) (\<lambda>(_, s). Done (string_cstr s)))))"

fun write_hosts_loop ::
  "libc \<Rightarrow> sysenv \<Rightarrow> config \<Rightarrow> string \<Rightarrow> peer_config option list \<Rightarrow> files \<Rightarrow> (bool \<times> files) run" where
  "write_hosts_loop lc se cfg hostfilepath [] files = Done (True, files)"
| "write_hosts_loop lc se cfg hostfilepath (p # peers) files =
     (if sb_s (string_init lc 2048 512) = None then Done (False, files)
      else (case p of
         None \<Rightarrow> Fault Null_deref
       | Some peer \<Rightarrow>
           run_bind (tinc_generate_peer_config lc cfg peer (string_init lc 2048 512)) (\<lambda>(ok, buffer).
             if \<not> ok then Done (False, files)
             else (case fs_writecontents_safe lc se hostfilepath (pc_name peer) (content buffer) 384 files of
                 (ok, files) \<Rightarrow> if \<not> ok then Done (False, files)
                               else write_hosts_loop lc se cfg hostfilepath peers files))))"

definition tinc_write_hosts ::
  "libc \<Rightarrow> sysenv \<Rightarrow> (string \<Rightarrow> 's \<Rightarrow> mkdir_result \<times> 's) \<Rightarrow> config \<Rightarrow> 's \<Rightarrow> files \<Rightarrow> (bool \<times> 's \<times> files) run" where
  "tinc_write_hosts lc se mkdir cfg dirs files =
     run_bind (base_file lc cfg ''/hosts/'') (\<lambda>hostfilepath.
       let dirs' = snd (fs_mkdir_p mkdir hostfilepath dirs) in
       run_bind (write_hosts_loop lc se cfg hostfilepath (cf_peer_config cfg) files)
         (\<lambda>(ok, files'). Done (ok, dirs', files')))"

section \<open>What the appends write\<close>

named_theorems gen_writes \<open>what each append of a generator writes\<close>

lemma CONCAT_writes [gen_writes]: "writes lc (CONCAT lc (Some t)) t"
  using string_concat_writes [of lc t] by (simp add: CONCAT_def [abs_def])

lemma CONCAT_F_writes [gen_writes]:
  "format_text f [Arg_s v] = Some t \<Longrightarrow> writes lc (CONCAT_F lc (Some f) (Some v)) t"
  using string_concat_sprintf_writes [of f "[Arg_s v]" t lc] by (simp add: CONCAT_F_def [abs_def])

lemma CONCAT_FD_writes [gen_writes]:
  "format_text f [Arg_d v] = Some t \<Longrightarrow> writes lc (CONCAT_FD lc f v) t"
  using string_concat_sprintf_writes [of f "[Arg_d v]" t lc] by (simp add: CONCAT_FD_def [abs_def])

lemma CONCAT_DF_writes [gen_writes]:
  "format_text f [Arg_s (if str_is_nonempty v then the v else d)] = Some t \<Longrightarrow> writes lc (CONCAT_DF lc f v d) t"
  using string_concat_sprintf_writes [of f _ t lc] by (simp add: CONCAT_DF_def [abs_def])

lemma CONCAT_YN_writes [gen_writes]:
  "format_text f [Arg_s (if v then ''yes'' else ''no'')] = Some t \<Longrightarrow> writes lc (CONCAT_YN lc f v) t"
  using string_concat_sprintf_writes [of f _ t lc] by (simp add: CONCAT_YN_def [abs_def])

lemma skip_writes: "writes lc (\<lambda>s. Done (True, s)) []"
  using emits_seq_Nil by simp

lemma when_writes [gen_writes]:
  "(c \<Longrightarrow> writes lc e xs) \<Longrightarrow> writes lc (run_when c e) (if c then xs else [])"
  by (rule emits_when)

lemma seq_writes:
  "list_all2 (emits buf_inv content buf_limit (alloc_total lc)) es xss \<Longrightarrow> writes lc (run_seq es) (concat xss)"
  by (rule emits_seq_list)

lemmas list_all2_steps = list.rel_inject list.rel_intros(1) simp_thms

definition subnet_lines :: "string list \<Rightarrow> string" where
  "subnet_lines ns = concat (map (\<lambda>n. ''Subnet='' @ n @ ''\<newline>'') ns)"

lemma tinc_add_subnet_writes [gen_writes]: "writes lc (tinc_add_subnet lc ns) (subnet_lines ns)"
  unfolding tinc_add_subnet_def subnet_lines_def
  by (rule emits_seq_map) (rule CONCAT_F_writes, simp)

text \<open>The host file of a peer.\<close>

definition or_default :: "string \<Rightarrow> string \<Rightarrow> string" where
  "or_default v d = (if v = [] then d else v)"

definition yes_no :: "bool \<Rightarrow> string" where
  "yes_no b = (if b then ''yes'' else ''no'')"

definition ed25519_text :: "config \<Rightarrow> string \<Rightarrow> string \<Rightarrow> peer_config \<Rightarrow> string" where
  "ed25519_text cfg version peerid peer =
     (if strnatcmp version ''1.1'' \<le> 0 then []
      else if pc_name peer = peerid
      then (let k = string_cstr (cf_ed25519publickey cfg) in if k = [] then [] else k @ ''\<newline>'')
      else if pc_ed25519publickey peer = [] then []
      else ''Ed25519PublicKey='' @ pc_ed25519publickey peer @ ''\<newline>'')"

definition host_file_text :: "config \<Rightarrow> string \<Rightarrow> string \<Rightarrow> peer_config \<Rightarrow> string" where
  "host_file_text cfg version peerid peer =
     concat [''# this is an autogenerated file - do not edit!\<newline>\<newline>'',
       if pc_gatewayhost peer \<noteq> [] \<and> \<not> pc_hidden peer then ''Address='' @ pc_gatewayhost peer @ ''\<newline>'' else [],
       ''Cipher='' @ or_default (pc_cipher peer) TINC_DEFAULT_CIPHER @ ''\<newline>'',
       ''Compression='' @ or_default (pc_compression peer) TINC_DEFAULT_COMPRESSION @ ''\<newline>'',
       ''Digest='' @ or_default (pc_digest peer) TINC_DEFAULT_DIGEST @ ''\<newline>'',
       ''IndirectData='' @ yes_no (pc_indirectdata peer) @ ''\<newline>'',
       ''Port='' @ nat_dec (unat (pc_port peer)) @ ''\<newline>'',
       subnet_lines (pc_network peer), subnet_lines (pc_network6 peer),
       ''TCPonly='' @ yes_no (pc_use_tcp_only peer) @ ''\<newline>'',
       pc_key peer @ ''\<newline>\<newline>'',
       ed25519_text cfg version peerid peer]"

lemma peer_config_key_writes:
  assumes "cf_tincd_version cfg = Some version" and "cf_peerid cfg = Some peerid"
    and key: "buf_cstr (cf_ed25519publickey cfg) = Done key"
  shows "writes lc (peer_config_key lc cfg peer) (ed25519_text cfg version peerid peer)"
proof -
  have own: "writes lc (run_seq [CONCAT lc (Some k), CONCAT lc (Some ''\<newline>'')]) (concat [k, ''\<newline>''])" for k
    by (rule seq_writes) (simp only: list_all2_steps, intro conjI gen_writes)
  have other: "writes lc (CONCAT_F lc (Some ''Ed25519PublicKey=%s\<newline>'') (Some k)) (''Ed25519PublicKey='' @ k @ ''\<newline>'')" for k
    by (rule CONCAT_F_writes) simp
  show ?thesis
    using own other assms skip_writes buf_cstr_Done [OF key]
    by (cases "sb_s (cf_ed25519publickey cfg)")
      (simp_all add: peer_config_key_def [abs_def] ed25519_text_def run_when_def not_less str_is_empty_def string_cstr_def cstr_simps)
qed

lemma port_text: "length (nat_dec (unat (w :: 16 word))) \<le> 5"
proof -
  have "unat w < 2 ^ 16" using unsigned_less [of w, where 'a = nat] by simp
  then have "unat w < 10 ^ 5" by simp
  then show ?thesis by (rule nat_dec_length) simp
qed

lemma generate_peer_config_writes:
  assumes "cf_tincd_version cfg = Some version" and "cf_peerid cfg = Some peerid"
    and "buf_cstr (cf_ed25519publickey cfg) = Done key"
  shows "writes lc (tinc_generate_peer_config lc cfg peer) (host_file_text cfg version peerid peer)"
proof -
  have port: "format_text ''Port=%d\<newline>'' [Arg_d (int (unat (pc_port peer)))]
      = Some (''Port='' @ nat_dec (unat (pc_port peer)) @ ''\<newline>'')"
    using port_text [of "pc_port peer"] by (simp add: int_dec_def)
  have addr: "writes lc (run_when (str_is_nonempty (Some (pc_gatewayhost peer)) \<and> \<not> pc_hidden peer)
         (CONCAT_F lc (Some ''Address=%s\<newline>'') (Some (pc_gatewayhost peer))))
      (if pc_gatewayhost peer \<noteq> [] \<and> \<not> pc_hidden peer then ''Address='' @ pc_gatewayhost peer @ ''\<newline>'' else [])"
    using when_writes [of "pc_gatewayhost peer \<noteq> [] \<and> \<not> pc_hidden peer" lc, OF CONCAT_F_writes
        [of "''Address=%s\<newline>''" "pc_gatewayhost peer" "''Address='' @ pc_gatewayhost peer @ ''\<newline>''"]]
    by simp
  show ?thesis
    unfolding tinc_generate_peer_config_def host_file_text_def
    by (rule seq_writes) (simp only: list_all2_steps, intro conjI addr gen_writes port peer_config_key_writes [OF assms];
        simp add: or_default_def yes_no_def)
qed

section \<open>Writing the host files\<close>

definition env_grants :: "sysenv \<Rightarrow> bool" where
  "env_grants se \<longleftrightarrow> (\<forall>fn n. se_open_w se fn \<and> n \<le> se_write se fn n)"

lemma base_file_path:
  assumes lc: "alloc_total lc" and base: "cf_base_path cfg = Some base" "NUL \<notin> set base" "length base < 2 ^ 31"
    and suffix: "suffix \<noteq> []" "NUL \<notin> set suffix" "length suffix < 2 ^ 31"
  shows "base_file lc cfg suffix = Done (base @ suffix)"
proof -
  have init: "buf_inv (string_init lc 512 512)" "content (string_init lc 512 512) = []"
    using lc by (simp_all add: string_init_inv alloc_total_def)
  obtain s1 where s1: "string_concat lc (string_init lc 512 512) base = Done (True, s1)" "buf_inv s1" "content s1 = base"
    using writes_total [OF string_concat_writes lc init(1), of base] init(2) base(3) by (auto simp: buf_limit_def)
  obtain s2 where s2: "string_concat lc s1 suffix = Done (True, s2)" "buf_inv s2" "content s2 = base @ suffix"
    using writes_total [OF string_concat_writes lc s1(2), of suffix] s1(3) base(3) suffix(3) by (auto simp: buf_limit_def)
  have "length (content s2) + 1 \<le> buf_limit" using s2(3) base(3) suffix(3) by (simp add: buf_limit_def)
  from string_ensurez_total [OF s2(2) this lc] s2(3) suffix(1) obtain s3 where
    "string_ensurez lc s2 = Done (True, s3)" "string_cstr s3 = cstr (base @ suffix)" by auto
  then show ?thesis using base suffix s1(1) s2(1) by (simp add: base_file_def cstr_simps)
qed

definition host_path :: "string \<Rightarrow> peer_config \<Rightarrow> string" where
  "host_path dir peer = canon (dir @ ''/'' @ safe_name (pc_name peer))"

lemma fs_writecontents_safe_grants:
  "alloc_total lc \<Longrightarrow> env_grants se \<Longrightarrow>
   \<exists>m. fs_writecontents_safe lc se dir fn cnt mode files = (True, files(canon (dir @ ''/'' @ safe_name fn) \<mapsto> (cnt, m)))"
  by (auto simp: fs_writecontents_safe_def fs_writecontents_def env_grants_def alloc_total_def Let_def)

lemma write_hosts_loop_grants:
  assumes lc: "alloc_total lc" and se: "env_grants se"
    and cfg: "cf_tincd_version cfg = Some version" "cf_peerid cfg = Some peerid"
      "buf_cstr (cf_ed25519publickey cfg) = Done key"
    and len: "list_all (\<lambda>p. length (host_file_text cfg version peerid p) < 2 ^ 61) peers"
    and dist: "distinct (map (host_path dir) peers)"
  shows "\<exists>files'. write_hosts_loop lc se cfg dir (map Some peers) files = Done (True, files')
     \<and> (\<forall>p \<in> set peers. map_option fst (files' (host_path dir p)) = Some (host_file_text cfg version peerid p))
     \<and> (\<forall>path. path \<notin> set (map (host_path dir) peers) \<longrightarrow> files' path = files path)"
  using len dist
proof (induction peers arbitrary: files)
  case (Cons p peers)
  have "lc_alloc lc 2048" using lc by (simp add: alloc_total_def)
  then have init: "buf_inv (string_init lc 2048 512)" "content (string_init lc 2048 512) = []"
    "sb_s (string_init lc 2048 512) \<noteq> None"
    by (simp_all add: string_init_inv) (simp add: string_init_def)
  obtain b where b: "tinc_generate_peer_config lc cfg p (string_init lc 2048 512) = Done (True, b)"
      "content b = host_file_text cfg version peerid p"
    using writes_total [OF generate_peer_config_writes [OF cfg] lc init(1), of p] init(2) Cons.prems(1)
    by (auto simp: buf_limit_def)
  obtain m where w: "fs_writecontents_safe lc se dir (pc_name p) (content b) 384 files
      = (True, files(host_path dir p \<mapsto> (content b, m)))"
    using fs_writecontents_safe_grants [OF lc se] unfolding host_path_def by blast
  let ?files = "files(host_path dir p \<mapsto> (content b, m))"
  have "list_all (\<lambda>p. length (host_file_text cfg version peerid p) < 2 ^ 61) peers" "distinct (map (host_path dir) peers)"
    using Cons.prems by simp_all
  from Cons.IH [OF this, of ?files] obtain files' where f: "write_hosts_loop lc se cfg dir (map Some peers) ?files = Done (True, files')"
      "\<forall>q \<in> set peers. map_option fst (files' (host_path dir q)) = Some (host_file_text cfg version peerid q)"
      "\<forall>path. path \<notin> set (map (host_path dir) peers) \<longrightarrow> files' path = ?files path"
    by blast
  have "write_hosts_loop lc se cfg dir (map Some (p # peers)) files = Done (True, files')"
    using init(3) b(1) w f(1) by simp
  moreover have "files' (host_path dir p) = Some (content b, m)" using f(3) Cons.prems(2) by auto
  ultimately show ?case using f(2,3) b(2) by auto
qed simp

section \<open>tinc.conf\<close>

definition version_newer :: "config \<Rightarrow> string \<Rightarrow> bool" where
  "version_newer cfg v = (case cf_tincd_version cfg of None \<Rightarrow> False | Some t \<Rightarrow> 0 < strnatcmp t v)"

definition connects_to :: "config \<Rightarrow> string \<Rightarrow> peer_config \<Rightarrow> bool" where
  "connects_to cfg peerid peer =
     (if pc_name peer = peerid then False
      else if tinc_check_if_excluded cfg (pc_name peer) then False
      else if cf_connect_only_to_primary_nodes cfg \<and> version_newer cfg ''1.0.12'' \<and> \<not> pc_primary peer then False
      else str_is_nonempty (Some (pc_gatewayhost peer)) \<and> \<not> pc_hidden peer)"

definition connect_lines :: "libc \<Rightarrow> config \<Rightarrow> strbuf \<Rightarrow> (bool \<times> strbuf) run" where
  "connect_lines lc cfg s =
     (case cf_my_peer cfg of
        No_peer \<Rightarrow> Fault Null_deref
      | Freed_peer \<Rightarrow> Fault Use_after_free
      | My_peer me \<Rightarrow>
          if pc_silent me \<or> cf_peer_config cfg = [] then Done (True, s)
          else (case cf_peerid cfg of
             None \<Rightarrow> Fault Null_deref
           | Some peerid \<Rightarrow>
               run_seq (map (on_peer (\<lambda>peer. run_when (connects_to cfg peerid peer)
                                (CONCAT_F lc (Some ''ConnectTo=%s\<newline>'') (Some (pc_name peer)))))
                          (cf_peer_config cfg)) s))"

definition tinc_conf_options :: "libc \<Rightarrow> config \<Rightarrow> strbuf \<Rightarrow> (bool \<times> strbuf) run" where
  "tinc_conf_options lc cfg =
     run_seq
      [CONCAT lc (Some ''# this is an autogenerated file - do not edit!\<newline>\<newline>''),
       run_when (str_is_nonempty (cf_my_addressfamily cfg))
         (CONCAT_F lc (Some ''AddressFamily=%s\<newline>'') (cf_my_addressfamily cfg)),
       run_when (cf_my_ip cfg \<noteq> None \<and> str_is_nonempty (cf_my_ip cfg)
           \<and> cf_my_ip cfg \<noteq> Some ''127.0.0.1'' \<and> cf_my_ip cfg \<noteq> Some ''0.0.0.0'')
         (CONCAT_F lc (Some ''BindToAddress=%s\<newline>'') (cf_my_ip cfg)),
       run_when (str_is_nonempty (cf_tincd_interface cfg))
         (CONCAT_F lc (Some ''Interface=%s\<newline>'') (cf_tincd_interface cfg)),
       run_when (str_is_nonempty (cf_tincd_device cfg))
         (CONCAT_F lc (Some ''Device=%s\<newline>'') (cf_tincd_device cfg)),
       CONCAT lc (Some ''Mode=router\<newline>''),
       CONCAT_F lc (Some ''Name=%s\<newline>'') (cf_peerid cfg),
       CONCAT lc (Some ''Hostnames=no\<newline>''),
       CONCAT lc (Some ''PingTimeout=60\<newline>''),
       CONCAT lc (Some (if version_newer cfg ''1.0.12'' then ''StrictSubnets=yes\<newline>'' else ''TunnelServer=yes\<newline>'')),
       run_when (version_newer cfg ''1.0.16'')
         (CONCAT_F lc (Some ''LocalDiscovery=%s\<newline>'') (Some (if cf_localdiscovery cfg then ''yes'' else ''no''))),
       run_when (version_newer cfg ''1.0.16'') (CONCAT lc (Some ''Broadcast=no\<newline>'')),
       run_when (str_is_nonempty (cf_tincd_graphdumpfile cfg))
         (CONCAT_F lc (Some ''GraphDumpFile=%s\<newline>'') (cf_tincd_graphdumpfile cfg)),
       run_when (str_is_nonempty (cf_tincd_raw_config cfg))
         (CONCAT_F lc (Some ''%s\<newline>'') (cf_tincd_raw_config cfg))]"

definition generate_tinc_conf :: "libc \<Rightarrow> config \<Rightarrow> strbuf \<Rightarrow> (bool \<times> strbuf) run" where
  "generate_tinc_conf lc cfg = run_seq [tinc_conf_options lc cfg, connect_lines lc cfg]"

definition write_base_file ::
  "libc \<Rightarrow> sysenv \<Rightarrow> config \<Rightarrow> string \<Rightarrow> nat \<Rightarrow> strbuf \<Rightarrow> files \<Rightarrow> (bool \<times> files) run" where
  "write_base_file lc se cfg suffix mode buffer files =
     run_bind (base_file lc cfg suffix) (\<lambda>path. Done (fs_writecontents se path (content buffer) mode files))"

definition tinc_write_config :: "libc \<Rightarrow> sysenv \<Rightarrow> config \<Rightarrow> files \<Rightarrow> (bool \<times> files) run" where
  "tinc_write_config lc se cfg files =
     run_bind (generate_tinc_conf lc cfg (string_init lc 8192 2048))
       (\<lambda>(ok, buffer). if \<not> ok then Done (False, files)
                       else write_base_file lc se cfg ''/tinc.conf'' 384 buffer files)"

text \<open>The text of \<open>tinc.conf\<close>.\<close>

definition opt_line :: "string \<Rightarrow> string option \<Rightarrow> string" where
  "opt_line key v = (case v of None \<Rightarrow> [] | Some t \<Rightarrow> if t = [] then [] else key @ t @ ''\<newline>'')"

definition connect_text :: "config \<Rightarrow> string \<Rightarrow> string" where
  "connect_text cfg peerid =
     concat (map (\<lambda>p. ''ConnectTo='' @ pc_name p @ ''\<newline>'') (filter (connects_to cfg peerid) (peers_of cfg)))"

definition options_text :: "config \<Rightarrow> string \<Rightarrow> string" where
  "options_text cfg peerid =
     concat [''# this is an autogenerated file - do not edit!\<newline>\<newline>'',
       opt_line ''AddressFamily='' (cf_my_addressfamily cfg),
       if cf_my_ip cfg \<in> {Some ''127.0.0.1'', Some ''0.0.0.0''} then [] else opt_line ''BindToAddress='' (cf_my_ip cfg),
       opt_line ''Interface='' (cf_tincd_interface cfg), opt_line ''Device='' (cf_tincd_device cfg),
       ''Mode=router\<newline>'', ''Name='' @ peerid @ ''\<newline>'', ''Hostnames=no\<newline>'', ''PingTimeout=60\<newline>'',
       if version_newer cfg ''1.0.12'' then ''StrictSubnets=yes\<newline>'' else ''TunnelServer=yes\<newline>'',
       if version_newer cfg ''1.0.16'' then ''LocalDiscovery='' @ yes_no (cf_localdiscovery cfg) @ ''\<newline>'' else [],
       if version_newer cfg ''1.0.16'' then ''Broadcast=no\<newline>'' else [],
       opt_line ''GraphDumpFile='' (cf_tincd_graphdumpfile cfg), opt_line [] (cf_tincd_raw_config cfg)]"

definition tinc_conf_text :: "config \<Rightarrow> peer_config \<Rightarrow> string \<Rightarrow> string" where
  "tinc_conf_text cfg me peerid = options_text cfg peerid @ (if pc_silent me then [] else connect_text cfg peerid)"

lemma opt_line_writes:
  assumes "\<And>t. format_text f [Arg_s t] = Some (key @ t @ ''\<newline>'')"
  shows "writes lc (run_when (str_is_nonempty v) (CONCAT_F lc (Some f) v)) (opt_line key v)"
proof (cases v)
  case (Some t)
  have "writes lc (CONCAT_F lc (Some f) (Some t)) (key @ t @ ''\<newline>'')" by (rule CONCAT_F_writes) (rule assms)
  with Some skip_writes show ?thesis by (simp add: opt_line_def run_when_def)
qed (simp add: opt_line_def run_when_def skip_writes [unfolded fun_eq_iff])

lemma connect_lines_writes:
  assumes "cf_my_peer cfg = My_peer me" and "cf_peerid cfg = Some peerid" and all: "None \<notin> set (cf_peer_config cfg)"
  shows "writes lc (connect_lines lc cfg) (if pc_silent me then [] else connect_text cfg peerid)"
proof -
  have eq: "concat (map (\<lambda>p. ''ConnectTo='' @ pc_name p @ ''\<newline>'') (filter c ps))
      = concat (map (\<lambda>p. if c p then ''ConnectTo='' @ pc_name p @ ''\<newline>'' else []) ps)" for c ps
    by (induction ps) auto
  have w: "writes lc (run_seq (map (on_peer (\<lambda>peer. run_when (connects_to cfg peerid peer)
      (CONCAT_F lc (Some ''ConnectTo=%s\<newline>'') (Some (pc_name peer))))) (cf_peer_config cfg))) (connect_text cfg peerid)"
    unfolding connect_text_def eq map_on_peer [OF all] by (intro emits_seq_map gen_writes; simp)
  show ?thesis
  proof (cases "pc_silent me \<or> cf_peer_config cfg = []")
    case True
    then have "(if pc_silent me then [] else connect_text cfg peerid) = []" by (auto simp: connect_text_def)
    with True assms skip_writes show ?thesis by (simp add: connect_lines_def [abs_def])
  qed (use assms w in \<open>simp add: connect_lines_def [abs_def]\<close>)
qed

lemma tinc_conf_options_writes:
  assumes id: "cf_peerid cfg = Some peerid"
  shows "writes lc (tinc_conf_options lc cfg) (options_text cfg peerid)"
proof -
  have ip: "writes lc (run_when (cf_my_ip cfg \<noteq> None \<and> str_is_nonempty (cf_my_ip cfg)
        \<and> cf_my_ip cfg \<noteq> Some ''127.0.0.1'' \<and> cf_my_ip cfg \<noteq> Some ''0.0.0.0'')
         (CONCAT_F lc (Some ''BindToAddress=%s\<newline>'') (cf_my_ip cfg)))
     (if cf_my_ip cfg \<in> {Some ''127.0.0.1'', Some ''0.0.0.0''} then [] else opt_line ''BindToAddress='' (cf_my_ip cfg))"
    using opt_line_writes [of "''BindToAddress=%s\<newline>''" "''BindToAddress=''" lc "cf_my_ip cfg"] skip_writes
    by (cases "cf_my_ip cfg") (auto simp: run_when_def)
  show ?thesis
    unfolding tinc_conf_options_def options_text_def id
    by (rule seq_writes) (simp only: list_all2_steps, intro conjI ip opt_line_writes gen_writes; simp add: yes_no_def)
qed

lemma generate_tinc_conf_writes:
  assumes "cf_my_peer cfg = My_peer me" and "cf_peerid cfg = Some peerid" and "None \<notin> set (cf_peer_config cfg)"
  shows "writes lc (generate_tinc_conf lc cfg) (tinc_conf_text cfg me peerid)"
proof -
  have "writes lc (generate_tinc_conf lc cfg) (concat [options_text cfg peerid, if pc_silent me then [] else connect_text cfg peerid])"
    unfolding generate_tinc_conf_def
    by (rule seq_writes)
      (simp only: list_all2_steps, intro conjI tinc_conf_options_writes [OF assms(2)] connect_lines_writes [OF assms])
  then show ?thesis by (simp add: tinc_conf_text_def)
qed

text \<open>Without a section for this node the options are written to the buffer, and then \<open>my_peer\<close> is dereferenced.\<close>

lemma generate_tinc_conf_freed:
  assumes "alloc_total lc" and "cf_peerid cfg = Some peerid" and "length (options_text cfg peerid) < 2 ^ 61"
    and "cf_my_peer cfg = Freed_peer"
  shows "generate_tinc_conf lc cfg (string_init lc 8192 2048) = Fault Use_after_free"
proof -
  have "buf_inv (string_init lc 8192 2048)" "content (string_init lc 8192 2048) = []"
    using assms(1) by (simp_all add: string_init_inv alloc_total_def)
  with writes_total [OF tinc_conf_options_writes [OF assms(2)] assms(1), of "string_init lc 8192 2048"] assms(3)
  obtain b where "tinc_conf_options lc cfg (string_init lc 8192 2048) = Done (True, b)" by (auto simp: buf_limit_def)
  with assms(4) show ?thesis by (simp add: generate_tinc_conf_def seq_step_def connect_lines_def)
qed

section \<open>tinc-up and tinc-down\<close>

text \<open>What is done with the route of one subnet.\<close>

datatype route_class = Route_merged | Route_ignored | Route_not_whitelisted | Route_active

definition classify_route ::
  "libc \<Rightarrow> config \<Rightarrow> string \<Rightarrow> route_class run" where
  "classify_route lc cfg dest =
     run_bind (addrmask_match lc (cf_mergeroutes_supernet cfg) (Some dest)) (\<lambda>merge_found.
     run_bind (addrmask_match lc (cf_ignore_subnets cfg) (Some dest)) (\<lambda>ignore_found.
     run_bind (addrmask_match lc (cf_whitelist_subnets cfg) (Some dest)) (\<lambda>whitelist_found.
       Done (if merge_found \<noteq> None then Route_merged
             else if ignore_found \<noteq> None then Route_ignored
             else if cf_whitelist_subnets cfg \<noteq> [] \<and> whitelist_found = None then Route_not_whitelisted
             else Route_active))))"

definition class_comment :: "route_class \<Rightarrow> string" where
  "class_comment c =
     (case c of Route_merged \<Rightarrow> ''# *merged* '' | Route_ignored \<Rightarrow> ''# *ignored* ''
      | Route_not_whitelisted \<Rightarrow> ''# *not whitelisted, ignored* '' | Route_active \<Rightarrow> [])"

text \<open>The part of a network in front of a weight.\<close>

definition strip_weight :: "string \<Rightarrow> string" where
  "strip_weight text = takeWhile (\<lambda>c. c \<noteq> CHR ''#'') text"

definition route_line :: "libc \<Rightarrow> config \<Rightarrow> string option \<Rightarrow> string \<Rightarrow> strbuf \<Rightarrow> (bool \<times> strbuf) run" where
  "route_line lc cfg routecmd text s =
     (let dest = strip_weight text in
      run_bind (classify_route lc cfg dest) (\<lambda>c.
        run_seq [run_when (c \<noteq> Route_active) (CONCAT lc (Some (class_comment c))),
                 CONCAT_F lc routecmd (Some dest), CONCAT lc (Some ''\<newline>'')] s))"

definition routecmd_of :: "config \<Rightarrow> family \<Rightarrow> bool \<Rightarrow> string option" where
  "routecmd_of cfg f up =
     (if f = AF_INET then if up then cf_routeadd cfg else cf_routedel cfg
      else if up then cf_routeadd6 cfg else cf_routedel6 cfg)"

definition node_routes :: "libc \<Rightarrow> config \<Rightarrow> bool \<Rightarrow> string \<Rightarrow> peer_config \<Rightarrow> strbuf \<Rightarrow> (bool \<times> strbuf) run" where
  "node_routes lc cfg up peerid peer =
     run_when (pc_name peer \<noteq> peerid)
       (if tinc_check_if_excluded cfg (pc_name peer)
        then CONCAT_F lc (Some ''# excluded node: %s\<newline>'') (Some (pc_name peer))
        else run_seq
          [CONCAT_F lc (Some ''# node: %s\<newline>'') (Some (pc_name peer)),
           run_when (str_is_nonempty (cf_vpn_ip cfg) \<and> str_is_nonempty (routecmd_of cfg AF_INET up))
             (run_seq (map (route_line lc cfg (routecmd_of cfg AF_INET up)) (pc_network peer))),
           run_when (str_is_nonempty (cf_vpn_ip6 cfg) \<and> str_is_nonempty (routecmd_of cfg AF_INET6 up))
             (run_seq (map (route_line lc cfg (routecmd_of cfg AF_INET6 up)) (pc_network6 peer)))])"

text \<open>The routes of the merged supernets.\<close>

definition supernet_line :: "libc \<Rightarrow> config \<Rightarrow> bool \<Rightarrow> addr_info \<Rightarrow> strbuf \<Rightarrow> (bool \<times> strbuf) run" where
  "supernet_line lc cfg up net s =
     (let vpnip = (if addr_family net = AF_INET then cf_vpn_ip cfg else cf_vpn_ip6 cfg);
          routecmd = routecmd_of cfg (if addr_family net = AF_INET then AF_INET else AF_INET6) up in
      if str_is_nonempty vpnip \<and> str_is_nonempty routecmd
      then run_bind (addrmask_to_string lc (string_init lc 128 128) net) (\<lambda>(ok, outputaddr).
             if \<not> ok then Done (True, s)
             else run_bind (string_ensurez lc outputaddr) (\<lambda>(_, outputaddr).
               run_seq [CONCAT_F lc routecmd (Some (string_cstr outputaddr)), CONCAT lc (Some ''\<newline>'')] s))
      else Done (True, s))"

definition generate_updown :: "libc \<Rightarrow> config \<Rightarrow> bool \<Rightarrow> strbuf \<Rightarrow> (bool \<times> strbuf) run" where
  "generate_updown lc cfg up =
     run_seq
      [CONCAT lc (Some ''#!/bin/sh\<newline>''),
       CONCAT lc (Some ''# this is an autogenerated file - do not edit!\<newline>\<newline>''),
       run_when up (run_seq
         [run_when (str_is_nonempty (cf_ifconfig cfg) \<and> str_is_nonempty (cf_vpn_ip cfg))
            (CONCAT_F lc (Some ''%s\<newline>'') (cf_ifconfig cfg)),
          run_when (str_is_nonempty (cf_ifconfig6 cfg) \<and> str_is_nonempty (cf_vpn_ip6 cfg))
            (CONCAT_F lc (Some ''%s\<newline>'') (cf_ifconfig6 cfg)),
          CONCAT lc (Some ''\<newline>'')]),
       run_when (cf_mergeroutes_supernet cfg \<noteq> []) (run_seq
         [CONCAT lc (Some ''# Mergeroute Supernets\<newline>''),
          run_seq (map (supernet_line lc cfg up) (cf_mergeroutes_supernet cfg)),
          CONCAT lc (Some ''\<newline>'')]),
       run_when (\<not> cf_use_dynamic_routes cfg \<and> cf_peer_config cfg \<noteq> [])
         (case cf_peerid cfg of
            None \<Rightarrow> (\<lambda>s. Fault Null_deref)
          | Some peerid \<Rightarrow> run_seq (map (on_peer (node_routes lc cfg up peerid)) (cf_peer_config cfg))),
       CONCAT lc (Some ''\<newline>''),
       CONCAT lc (Some ''[ -x \"$0.local\" ] && \"$0.local\" \"$@\"\<newline>''),
       CONCAT lc (Some ''\<newline>''),
       run_when (up \<and> str_is_nonempty (cf_postup cfg))
         (run_seq [CONCAT lc (cf_postup cfg), CONCAT lc (Some ''\<newline>'')]),
       CONCAT lc (Some ''\<newline>exit 0\<newline>\<newline>'')]"

definition tinc_write_updown :: "libc \<Rightarrow> sysenv \<Rightarrow> config \<Rightarrow> bool \<Rightarrow> files \<Rightarrow> (bool \<times> files) run" where
  "tinc_write_updown lc se cfg up files =
     run_bind (generate_updown lc cfg up (string_init lc 8192 2048))
       (\<lambda>(ok, buffer). if \<not> ok then Done (False, files)
                       else write_base_file lc se cfg (if up then ''/tinc-up'' else ''/tinc-down'') 448 buffer files)"

section \<open>The text of tinc-up and tinc-down\<close>

text \<open>The policy for the route of one destination, on the level of subnets.\<close>

definition route_policy :: "libc \<Rightarrow> config \<Rightarrow> string \<Rightarrow> route_class" where
  "route_policy lc cfg dest =
     (let found = (\<lambda>es. case parse_pattern lc dest of None \<Rightarrow> False | Some a \<Rightarrow> match_spec es a \<noteq> None)
      in if found (cf_mergeroutes_supernet cfg) then Route_merged
         else if found (cf_ignore_subnets cfg) then Route_ignored
         else if cf_whitelist_subnets cfg \<noteq> [] \<and> \<not> found (cf_whitelist_subnets cfg) then Route_not_whitelisted
         else Route_active)"

definition config_nets_ok :: "config \<Rightarrow> bool" where
  "config_nets_ok cfg \<longleftrightarrow>
     list_all addr_ok (cf_mergeroutes_supernet cfg @ cf_ignore_subnets cfg @ cf_whitelist_subnets cfg)"

definition dest_ok :: "string \<Rightarrow> bool" where
  "dest_ok text \<longleftrightarrow> strip_weight text \<noteq> [] \<and> c_text text"

lemma strip_weight_c_text: "c_text text \<Longrightarrow> c_text (strip_weight text)"
  using length_takeWhile_le [of "\<lambda>c. c \<noteq> CHR ''#''" "text"]
  by (auto simp: c_text_def strip_weight_def dest: set_takeWhileD)

lemma match_found:
  assumes "alloc_total lc" and "getaddrinfo_sized lc" and "dest \<noteq> []" and "c_text dest" and "list_all addr_ok es"
  shows "addrmask_match lc es (Some dest) = Done (case parse_pattern lc dest of None \<Rightarrow> None | Some a \<Rightarrow> match_spec es a)"
proof (cases "es = []")
  case True
  then show ?thesis by (simp add: addrmask_match_def match_spec_def split: option.splits)
next
  case False
  then show ?thesis
    using addrmask_parse_pattern [OF assms(1,3)] parse_pattern_ok [OF _ assms(2), of dest] assms(4)
      match_loop_refines [OF assms(5)]
    by (simp add: addrmask_match_def c_text_def split: option.splits)
qed

lemma route_class_policy:
  assumes "alloc_total lc" and "getaddrinfo_sized lc" and "dest_ok text" and "config_nets_ok cfg"
  shows "classify_route lc cfg (strip_weight text) = Done (route_policy lc cfg (strip_weight text))"
proof -
  have d: "strip_weight text \<noteq> []" "c_text (strip_weight text)"
    using assms(3) strip_weight_c_text by (simp_all add: dest_ok_def)
  note m = match_found [OF assms(1,2) d]
  have e: "list_all addr_ok (cf_mergeroutes_supernet cfg)" "list_all addr_ok (cf_ignore_subnets cfg)"
    "list_all addr_ok (cf_whitelist_subnets cfg)" using assms(4) by (simp_all add: config_nets_ok_def)
  show ?thesis unfolding classify_route_def m [OF e(1)] m [OF e(2)] m [OF e(3)]
    by (simp add: route_policy_def Let_def split: option.split)
qed

text \<open>A route command is a format with one \<open>%s\<close>.\<close>

definition cmd_ok :: "string option \<Rightarrow> bool" where
  "cmd_ok cmd \<longleftrightarrow> (case cmd of None \<Rightarrow> True | Some f \<Rightarrow> f = [] \<or> (\<forall>d. format_text f [Arg_s d] \<noteq> None))"

definition route_fmt :: "string option \<Rightarrow> string \<Rightarrow> string" where
  "route_fmt cmd dest = (case cmd of None \<Rightarrow> [] | Some f \<Rightarrow> (case format_text f [Arg_s dest] of None \<Rightarrow> [] | Some t \<Rightarrow> t))"

lemma route_fmt_writes:
  assumes "cmd_ok cmd" and "str_is_nonempty cmd"
  shows "writes lc (CONCAT_F lc cmd (Some d)) (route_fmt cmd d)"
proof -
  from assms obtain f t where "cmd = Some f" "format_text f [Arg_s d] = Some t"
    by (cases cmd) (auto simp: cmd_ok_def, metis)
  then show ?thesis using CONCAT_F_writes [of f d t lc] by (simp add: route_fmt_def)
qed

definition route_text :: "libc \<Rightarrow> config \<Rightarrow> string option \<Rightarrow> string \<Rightarrow> string" where
  "route_text lc cfg cmd text =
     class_comment (route_policy lc cfg (strip_weight text)) @ route_fmt cmd (strip_weight text) @ ''\<newline>''"

lemma route_line_writes:
  assumes "alloc_total lc" and "getaddrinfo_sized lc" and "dest_ok text" and "config_nets_ok cfg"
    and "cmd_ok cmd" and "str_is_nonempty cmd"
  shows "writes lc (route_line lc cfg cmd text) (route_text lc cfg cmd text)"
proof -
  let ?d = "strip_weight text"
  let ?c = "route_policy lc cfg ?d"
  have "writes lc (run_seq [run_when (?c \<noteq> Route_active) (CONCAT lc (Some (class_comment ?c))),
                 CONCAT_F lc cmd (Some ?d), CONCAT lc (Some ''\<newline>'')])
     (concat [if ?c \<noteq> Route_active then class_comment ?c else [], route_fmt cmd ?d, ''\<newline>''])"
    by (rule seq_writes) (simp only: list_all2_steps, intro conjI gen_writes route_fmt_writes assms)
  then show ?thesis using route_class_policy [OF assms(1-4)]
    by (cases ?c) (simp_all add: route_line_def [abs_def] route_text_def Let_def class_comment_def del: run_seq.simps)
qed

definition node_text :: "libc \<Rightarrow> config \<Rightarrow> bool \<Rightarrow> string \<Rightarrow> peer_config \<Rightarrow> string" where
  "node_text lc cfg up peerid peer =
     (if pc_name peer = peerid then []
      else if tinc_check_if_excluded cfg (pc_name peer) then ''# excluded node: '' @ pc_name peer @ ''\<newline>''
      else concat [''# node: '' @ pc_name peer @ ''\<newline>'',
        if str_is_nonempty (cf_vpn_ip cfg) \<and> str_is_nonempty (routecmd_of cfg AF_INET up)
        then concat (map (route_text lc cfg (routecmd_of cfg AF_INET up)) (pc_network peer)) else [],
        if str_is_nonempty (cf_vpn_ip6 cfg) \<and> str_is_nonempty (routecmd_of cfg AF_INET6 up)
        then concat (map (route_text lc cfg (routecmd_of cfg AF_INET6 up)) (pc_network6 peer)) else []])"

lemma node_routes_writes:
  assumes lc: "alloc_total lc" "getaddrinfo_sized lc" and cfg: "config_nets_ok cfg"
    and cmd: "cmd_ok (routecmd_of cfg AF_INET up)" "cmd_ok (routecmd_of cfg AF_INET6 up)"
    and nets: "list_all dest_ok (pc_network peer @ pc_network6 peer)"
  shows "writes lc (node_routes lc cfg up peerid peer) (node_text lc cfg up peerid peer)"
proof -
  have routes: "writes lc (run_seq (map (route_line lc cfg cmd) ns)) (concat (map (route_text lc cfg cmd) ns))"
    if "cmd_ok cmd" "str_is_nonempty cmd" "list_all dest_ok ns" for cmd ns
    by (rule emits_seq_map) (use that in \<open>auto simp: list_all_iff intro!: route_line_writes lc cfg\<close>)
  have "writes lc (run_seq
          [CONCAT_F lc (Some ''# node: %s\<newline>'') (Some (pc_name peer)),
           run_when (str_is_nonempty (cf_vpn_ip cfg) \<and> str_is_nonempty (routecmd_of cfg AF_INET up))
             (run_seq (map (route_line lc cfg (routecmd_of cfg AF_INET up)) (pc_network peer))),
           run_when (str_is_nonempty (cf_vpn_ip6 cfg) \<and> str_is_nonempty (routecmd_of cfg AF_INET6 up))
             (run_seq (map (route_line lc cfg (routecmd_of cfg AF_INET6 up)) (pc_network6 peer)))])
     (concat [''# node: '' @ pc_name peer @ ''\<newline>'',
        if str_is_nonempty (cf_vpn_ip cfg) \<and> str_is_nonempty (routecmd_of cfg AF_INET up)
        then concat (map (route_text lc cfg (routecmd_of cfg AF_INET up)) (pc_network peer)) else [],
        if str_is_nonempty (cf_vpn_ip6 cfg) \<and> str_is_nonempty (routecmd_of cfg AF_INET6 up)
        then concat (map (route_text lc cfg (routecmd_of cfg AF_INET6 up)) (pc_network6 peer)) else []])"
    by (rule seq_writes) (simp only: list_all2_steps, intro conjI gen_writes routes cmd; use nets in simp)
  moreover have "writes lc (CONCAT_F lc (Some ''# excluded node: %s\<newline>'') (Some (pc_name peer)))
      (''# excluded node: '' @ pc_name peer @ ''\<newline>'')"
    by (rule CONCAT_F_writes) simp
  ultimately show ?thesis using skip_writes
    by (simp add: node_routes_def node_text_def run_when_def [where c = "pc_name peer \<noteq> peerid"] del: concat.simps)
qed

text \<open>The text of an entry; the printer of addresses gives plain text.\<close>

definition ntop_text :: "libc \<Rightarrow> bool" where
  "ntop_text lc \<longleftrightarrow> (\<forall>f bs t. lc_inet_ntop lc f bs = Some t \<longrightarrow> NUL \<notin> set t \<and> length t < 2 ^ 20)"

definition entry_text :: "libc \<Rightarrow> addr_info \<Rightarrow> string option" where
  "entry_text lc a = map_option (\<lambda>t. t @ CHR ''/'' # nat_dec (shift_of a)) (lc_inet_ntop lc (addr_family a) (net_bytes a))"

lemma shift_digits: "length (nat_dec (shift_of a)) \<le> 3"
proof -
  have "shift_of a < 2 ^ 8" using unsigned_less [of "mask_shift a", where 'a = nat] by simp
  then have "shift_of a < 10 ^ 3" by simp
  then show ?thesis by (rule nat_dec_length) simp
qed

lemma to_string_writes:
  assumes "lc_inet_ntop lc (addr_family a) (net_bytes a) = Some t"
  shows "writes lc (\<lambda>s. addrmask_to_string lc s a) (t @ CHR ''/'' # nat_dec (shift_of a))"
proof -
  have num: "writes lc (\<lambda>s. string_putint lc s (int (shift_of a))) (nat_dec (shift_of a))"
    using string_putint_writes [of "int (shift_of a)" lc] shift_digits [of a] by (simp add: int_dec_def)
  have "writes lc (run_seq [\<lambda>s. string_concat lc s t, \<lambda>s. string_putc lc s (CHR ''/''),
      \<lambda>s. string_putint lc s (int (shift_of a))]) (concat [t, ''/'', nat_dec (shift_of a)])"
    by (rule seq_writes) (simp only: list_all2_steps, intro conjI string_concat_writes string_putc_writes num)
  then show ?thesis using assms by (simp add: addrmask_to_string_def del: run_seq.simps)
qed

definition supernet_text :: "libc \<Rightarrow> config \<Rightarrow> bool \<Rightarrow> addr_info \<Rightarrow> string" where
  "supernet_text lc cfg up net =
     (let f = (if addr_family net = AF_INET then AF_INET else AF_INET6);
          vpnip = (if addr_family net = AF_INET then cf_vpn_ip cfg else cf_vpn_ip6 cfg) in
      if str_is_nonempty vpnip \<and> str_is_nonempty (routecmd_of cfg f up)
      then (case entry_text lc net of None \<Rightarrow> [] | Some d \<Rightarrow> route_fmt (routecmd_of cfg f up) d @ ''\<newline>'')
      else [])"

lemma entry_cstr:
  assumes lc: "alloc_total lc" "ntop_text lc" and e: "entry_text lc net = Some d"
  shows "\<exists>o1 o2. addrmask_to_string lc (string_init lc 128 128) net = Done (True, o1)
     \<and> string_ensurez lc o1 = Done (True, o2) \<and> string_cstr o2 = d"
proof -
  from e obtain t where t: "lc_inet_ntop lc (addr_family net) (net_bytes net) = Some t"
      "d = t @ CHR ''/'' # nat_dec (shift_of net)" by (auto simp: entry_text_def)
  have len: "NUL \<notin> set t" "length t < 2 ^ 20" using lc(2) t(1) by (auto simp: ntop_text_def)
  have init: "buf_inv (string_init lc 128 128)" "content (string_init lc 128 128) = []"
    using lc(1) by (simp_all add: string_init_inv alloc_total_def)
  have "length (content (string_init lc 128 128)) + length (t @ CHR ''/'' # nat_dec (shift_of net)) < buf_limit"
    using init(2) len(2) shift_digits [of net] by (simp add: buf_limit_def)
  from writes_total [OF to_string_writes [OF t(1)] lc(1) init(1) this] obtain o1 where
    o1: "addrmask_to_string lc (string_init lc 128 128) net = Done (True, o1)" "buf_inv o1" "content o1 = d"
    using init(2) t(2) by auto
  have "length (content o1) + 1 \<le> buf_limit" using o1(3) t(2) len(2) shift_digits [of net] by (simp add: buf_limit_def)
  from string_ensurez_total [OF o1(2) this lc(1)] o1(3) t(2) obtain o2 where
    "string_ensurez lc o1 = Done (True, o2)" "string_cstr o2 = cstr d" by auto
  moreover have "NUL \<notin> set d"
    using len(1) nat_dec_isdigit [of NUL "shift_of net"] t(2) by auto
  ultimately show ?thesis using o1(1) by (auto simp: cstr_simps)
qed

lemma supernet_line_writes:
  assumes lc: "alloc_total lc" "ntop_text lc"
    and cmd: "cmd_ok (routecmd_of cfg AF_INET up)" "cmd_ok (routecmd_of cfg AF_INET6 up)"
  shows "writes lc (supernet_line lc cfg up net) (supernet_text lc cfg up net)"
proof -
  let ?f = "if addr_family net = AF_INET then AF_INET else AF_INET6"
  let ?cmd = "routecmd_of cfg ?f up"
  let ?ip = "if addr_family net = AF_INET then cf_vpn_ip cfg else cf_vpn_ip6 cfg"
  show ?thesis
  proof (cases "str_is_nonempty ?ip \<and> str_is_nonempty ?cmd")
    case False
    then have "supernet_line lc cfg up net = (\<lambda>s. Done (True, s))" "supernet_text lc cfg up net = []"
      by (simp_all only: supernet_line_def supernet_text_def Let_def if_False fun_eq_iff simp_thms)
    then show ?thesis using skip_writes by simp
  next
    case True
    show ?thesis
    proof (cases "entry_text lc net")
      case None
      then have "addrmask_to_string lc (string_init lc 128 128) net = Done (False, string_init lc 128 128)"
        by (simp add: entry_text_def addrmask_to_string_def)
      then have "supernet_line lc cfg up net = (\<lambda>s. Done (True, s))" "supernet_text lc cfg up net = []"
        using True None by (simp_all add: supernet_line_def supernet_text_def Let_def fun_eq_iff)
      then show ?thesis using skip_writes by simp
    next
      case (Some d)
      from entry_cstr [OF lc Some] obtain o1 o2 where
        o: "addrmask_to_string lc (string_init lc 128 128) net = Done (True, o1)"
          "string_ensurez lc o1 = Done (True, o2)" "string_cstr o2 = d" by blast
      have "cmd_ok ?cmd" using cmd by simp
      then have "writes lc (run_seq [CONCAT_F lc ?cmd (Some d), CONCAT lc (Some ''\<newline>'')])
          (concat [route_fmt ?cmd d, ''\<newline>''])"
        using True by (intro seq_writes) (simp only: list_all2_steps, intro conjI gen_writes route_fmt_writes, simp_all)
      moreover have "supernet_line lc cfg up net = run_seq [CONCAT_F lc ?cmd (Some d), CONCAT lc (Some ''\<newline>'')]"
        using True o by (simp only: supernet_line_def Let_def if_True simp_thms run_bind.simps prod.case fun_eq_iff not_True_eq_False if_False)
      moreover have "supernet_text lc cfg up net = concat [route_fmt ?cmd d, ''\<newline>'']"
        using True Some by (simp only: supernet_text_def Let_def if_True simp_thms option.case concat.simps append_Nil2)
      ultimately show ?thesis by simp
    qed
  qed
qed

definition updown_text :: "libc \<Rightarrow> config \<Rightarrow> bool \<Rightarrow> string \<Rightarrow> string" where
  "updown_text lc cfg up peerid =
     concat [''#!/bin/sh\<newline>'', ''# this is an autogenerated file - do not edit!\<newline>\<newline>'',
       if up then concat [
         if str_is_empty (cf_vpn_ip cfg) then [] else opt_line [] (cf_ifconfig cfg),
         if str_is_empty (cf_vpn_ip6 cfg) then [] else opt_line [] (cf_ifconfig6 cfg), ''\<newline>''] else [],
       if cf_mergeroutes_supernet cfg \<noteq> [] then concat [''# Mergeroute Supernets\<newline>'',
         concat (map (supernet_text lc cfg up) (cf_mergeroutes_supernet cfg)), ''\<newline>''] else [],
       if \<not> cf_use_dynamic_routes cfg \<and> cf_peer_config cfg \<noteq> []
       then concat (map (node_text lc cfg up peerid) (peers_of cfg)) else [],
       ''\<newline>'', ''[ -x \"$0.local\" ] && \"$0.local\" \"$@\"\<newline>'', ''\<newline>'',
       if up \<and> str_is_nonempty (cf_postup cfg) then concat [the (cf_postup cfg), ''\<newline>''] else [],
       ''\<newline>exit 0\<newline>\<newline>'']"

definition updown_ready :: "libc \<Rightarrow> config \<Rightarrow> bool \<Rightarrow> bool" where
  "updown_ready lc cfg up \<longleftrightarrow>
     config_nets_ok cfg \<and> cmd_ok (routecmd_of cfg AF_INET up) \<and> cmd_ok (routecmd_of cfg AF_INET6 up)
     \<and> None \<notin> set (cf_peer_config cfg) \<and> list_all (\<lambda>p. list_all dest_ok (pc_network p @ pc_network6 p)) (peers_of cfg)"

lemma ifconfig_writes:
  "writes lc (run_when (str_is_nonempty v \<and> str_is_nonempty ip) (CONCAT_F lc (Some ''%s\<newline>'') v))
     (if str_is_empty ip then [] else opt_line [] v)"
  using opt_line_writes [of "''%s\<newline>''" "[]" lc v] skip_writes
  by (cases "str_is_empty ip") (simp_all add: run_when_def)

lemma generate_updown_writes:
  assumes lc: "alloc_total lc" "getaddrinfo_sized lc" "ntop_text lc" and id: "cf_peerid cfg = Some peerid"
    and ready: "updown_ready lc cfg up"
  shows "writes lc (generate_updown lc cfg up) (updown_text lc cfg up peerid)"
proof -
  have r: "config_nets_ok cfg" "cmd_ok (routecmd_of cfg AF_INET up)" "cmd_ok (routecmd_of cfg AF_INET6 up)"
    using ready by (simp_all add: updown_ready_def)
  have all: "None \<notin> set (cf_peer_config cfg)" using ready by (simp add: updown_ready_def)
  have nodes: "writes lc (run_seq (map (on_peer (node_routes lc cfg up peerid)) (cf_peer_config cfg)))
      (concat (map (node_text lc cfg up peerid) (peers_of cfg)))"
    unfolding map_on_peer [OF all]
    by (rule emits_seq_map) (use ready in \<open>auto simp: updown_ready_def list_all_iff intro!: node_routes_writes lc\<close>)
  have nets: "writes lc (run_seq (map (supernet_line lc cfg up) (cf_mergeroutes_supernet cfg)))
      (concat (map (supernet_text lc cfg up) (cf_mergeroutes_supernet cfg)))"
    by (rule emits_seq_map) (intro supernet_line_writes lc r)
  have postup: "writes lc (run_seq [CONCAT lc (cf_postup cfg), CONCAT lc (Some ''\<newline>'')]) (concat [the (cf_postup cfg), ''\<newline>''])"
    if "str_is_nonempty (cf_postup cfg)"
  proof -
    from that obtain t where "cf_postup cfg = Some t" by (cases "cf_postup cfg") auto
    then show ?thesis
      by (intro seq_writes) (simp only: list_all2_steps option.sel, intro conjI gen_writes)
  qed
  show ?thesis
    unfolding generate_updown_def updown_text_def id option.case
    by (intro seq_writes, simp only: list_all2_steps,
        intro conjI when_writes seq_writes ifconfig_writes nodes nets postup CONCAT_writes;
        (simp only: list_all2_steps, intro conjI ifconfig_writes nets gen_writes postup)?; simp)
qed

section \<open>Properties\<close>

lemma write_base_file_grants:
  assumes "alloc_total lc" and "env_grants se" and "cf_base_path cfg = Some base" and "NUL \<notin> set base"
    and "length base < 2 ^ 31" and "suffix \<noteq> []" and "NUL \<notin> set suffix" and "length suffix < 2 ^ 31"
  shows "\<exists>m. write_base_file lc se cfg suffix mode buffer files = Done (True, files(canon (base @ suffix) \<mapsto> (content buffer, m)))"
  using base_file_path [OF assms(1,3-8)] assms(2)
  by (auto simp: write_base_file_def fs_writecontents_def env_grants_def Let_def)

lemma fresh_buffer_writes:
  assumes "writes lc e t" and "alloc_total lc" and "length t < 2 ^ 61"
  obtains b where "e (string_init lc 8192 2048) = Done (True, b)" "content b = t"
proof -
  have "buf_inv (string_init lc 8192 2048)" "content (string_init lc 8192 2048) = []"
    using assms(2) by (simp_all add: string_init_inv alloc_total_def)
  with writes_total [OF assms(1,2), of "string_init lc 8192 2048"] assms(3) that show ?thesis
    by (auto simp: buf_limit_def)
qed

lemma write_hosts_spec:
  assumes "alloc_total lc" and "env_grants se" and "cf_base_path cfg = Some base" and "c_text base" and "length base < 2 ^ 31"
    and "cf_tincd_version cfg = Some version" and "cf_peerid cfg = Some peerid"
    and "buf_cstr (cf_ed25519publickey cfg) = Done key"
    and "list_all (\<lambda>p. length (host_file_text cfg version peerid p) < 2 ^ 61) (peers_of cfg)"
    and "distinct (map (host_path (base @ ''/hosts/'')) (peers_of cfg))" and "None \<notin> set (cf_peer_config cfg)"
  shows "\<exists>dirs' files'. tinc_write_hosts lc se mkdir cfg dirs files = Done (True, dirs', files')
     \<and> (\<forall>p \<in> set (peers_of cfg). map_option fst (files' (canon (base @ ''/hosts/'' @ safe_name (pc_name p))))
            = Some (host_file_text cfg version peerid p))
     \<and> (\<forall>path. (\<forall>p \<in> set (peers_of cfg). path \<noteq> canon (base @ ''/hosts/'' @ safe_name (pc_name p)))
            \<longrightarrow> files' path = files path)"
proof -
  have "base_file lc cfg ''/hosts/'' = Done (base @ ''/hosts/'')"
    using assms(1,3-5) by (intro base_file_path) (simp_all add: c_text_def)
  moreover from write_hosts_loop_grants [OF assms(1,2,6-10), of files] obtain files' where
    "write_hosts_loop lc se cfg (base @ ''/hosts/'') (cf_peer_config cfg) files = Done (True, files')"
    "\<forall>p \<in> set (peers_of cfg). map_option fst (files' (host_path (base @ ''/hosts/'') p)) = Some (host_file_text cfg version peerid p)"
    "\<forall>path. path \<notin> set (map (host_path (base @ ''/hosts/'')) (peers_of cfg)) \<longrightarrow> files' path = files path"
    unfolding all_peers [OF assms(11)] by blast
  moreover have "host_path (base @ ''/hosts/'') p = canon (base @ ''/hosts/'' @ safe_name (pc_name p))" for p
    using canon_double [of "base @ ''/hosts''"] by (simp add: host_path_def)
  ultimately show ?thesis
    by (auto simp: tinc_write_hosts_def Let_def intro!: exI [of _ files'])
qed

text \<open>
  with memory and disk granted, \<open>tinc_write_hosts\<close> returns true and afterwards the host file of every
  peer holds exactly the text for that peer (address unless hidden, defaults filled in, subnets in
  order, key, Ed25519 key for tinc 1.1), and no other file has changed.
\<close>

theorem tinc_write_hosts_correct:
  assumes "alloc_total lc" and "env_grants se" and "cf_base_path cfg = Some base" and "c_text base" and "length base < 2 ^ 31"
    and "cf_tincd_version cfg = Some version" and "cf_peerid cfg = Some peerid"
    and "buf_cstr (cf_ed25519publickey cfg) = Done key"
    and "list_all (\<lambda>p. length (host_file_text cfg version peerid p) < 2 ^ 61) (peers_of cfg)"
    and "distinct (map (host_path (base @ ''/hosts/'')) (peers_of cfg))" and "None \<notin> set (cf_peer_config cfg)"
  shows "\<exists>dirs' files'. tinc_write_hosts lc se mkdir cfg dirs files = Done (True, dirs', files')
     \<and> (\<forall>p \<in> set (peers_of cfg). map_option fst (files' (canon (base @ ''/hosts/'' @ safe_name (pc_name p))))
            = Some (host_file_text cfg version peerid p))
     \<and> (\<forall>path. (\<forall>p \<in> set (peers_of cfg). path \<noteq> canon (base @ ''/hosts/'' @ safe_name (pc_name p)))
            \<longrightarrow> files' path = files path)"
  using assms by (rule write_hosts_spec)

text \<open>A configuration with one peer, for concrete instances.\<close>

definition sample_config :: config where
  "sample_config = (config_alloc ''/etc/tinc'')\<lparr>cf_base_path := Some ''/etc/tinc/chaos'', cf_peerid := Some ''me'',
     cf_tincd_version := Some ''1.0.19'', cf_my_peer := My_peer (parser_new_config ''me''),
     cf_peer_config := [Some (parser_new_config ''me''), Some sample_peer], cf_vpn_ip := Some ''172.31.0.5'',
     cf_routeadd := Some ''route add %s'', cf_ifconfig := Some ''ifconfig up'',
     cf_ignore_subnets := [net_10_8]\<rparr>"

lemma env_grants_plain: "env_grants plain_env"
  by (simp add: env_grants_def plain_env_def)

lemma sample_config_fields:
  "cf_base_path sample_config = Some ''/etc/tinc/chaos''" "cf_peerid sample_config = Some ''me''"
  "cf_tincd_version sample_config = Some ''1.0.19''" "cf_my_peer sample_config = My_peer (parser_new_config ''me'')"
  "cf_peer_config sample_config = [Some (parser_new_config ''me''), Some sample_peer]"
  "buf_cstr (cf_ed25519publickey sample_config) = Done None"
  by (simp_all add: sample_config_def config_alloc_def buf_cstr_def string_lazyinit_def)

theorem tinc_write_hosts_correct_witness:
  "\<exists>dirs' files'. tinc_write_hosts plain_libc plain_env tree_mkdir sample_config {''/etc''} (\<lambda>_. None) = Done (True, dirs', files')
     \<and> (\<forall>p \<in> set (peers_of sample_config). map_option fst (files' (canon (''/etc/tinc/chaos'' @ ''/hosts/'' @ safe_name (pc_name p))))
            = Some (host_file_text sample_config ''1.0.19'' ''me'' p))
     \<and> (\<forall>path. (\<forall>p \<in> set (peers_of sample_config). path \<noteq> canon (''/etc/tinc/chaos'' @ ''/hosts/'' @ safe_name (pc_name p)))
            \<longrightarrow> files' path = None)"
proof (rule tinc_write_hosts_correct [OF alloc_total_plain env_grants_plain sample_config_fields(1)])
  have old: "strnatcmp ''1.0.19'' ''1.1'' \<le> 0" by code_simp
  show "list_all (\<lambda>p. length (host_file_text sample_config ''1.0.19'' ''me'' p) < 2 ^ 61) (peers_of sample_config)"
    using port_text [of TINC_DEFAULT_PORT] port_text [of 4712] old
    by (simp add: sample_config_fields host_file_text_def ed25519_text_def parser_new_config_def sample_peer_def subnet_lines_def
        or_default_def yes_no_def TINC_DEFAULT_CIPHER_def TINC_DEFAULT_COMPRESSION_def TINC_DEFAULT_DIGEST_def
        key_lines_def lines_text_def begin_key_def end_key_def)
  show "distinct (map (host_path (''/etc/tinc/chaos'' @ ''/hosts/'')) (peers_of sample_config))"
    by (simp add: sample_config_fields host_path_def safe_name_def parser_new_config_def sample_peer_def)
qed (simp_all add: sample_config_fields c_text_def)

lemma write_config_spec:
  assumes "alloc_total lc" and "env_grants se" and "cf_base_path cfg = Some base" and "c_text base" and "length base < 2 ^ 31"
    and "cf_my_peer cfg = My_peer me" and "cf_peerid cfg = Some peerid" and "None \<notin> set (cf_peer_config cfg)"
    and "length (tinc_conf_text cfg me peerid) < 2 ^ 61"
  shows "\<exists>m. tinc_write_config lc se cfg files
     = Done (True, files(canon (base @ ''/tinc.conf'') \<mapsto> (tinc_conf_text cfg me peerid, m)))"
proof -
  obtain b where "generate_tinc_conf lc cfg (string_init lc 8192 2048) = Done (True, b)" "content b = tinc_conf_text cfg me peerid"
    using fresh_buffer_writes [OF generate_tinc_conf_writes [OF assms(6-8)] assms(1,9)] by blast
  moreover have "\<exists>m. write_base_file lc se cfg ''/tinc.conf'' 384 b files = Done (True, files(canon (base @ ''/tinc.conf'') \<mapsto> (content b, m)))"
    using assms(1-5) by (intro write_base_file_grants) (simp_all add: c_text_def)
  ultimately show ?thesis by (simp add: tinc_write_config_def)
qed

text \<open>
  with memory and disk granted, \<open>tinc_write_config\<close> returns true and changes one file,
  \<open>tinc.conf\<close> in the base directory, to exactly the options the configuration asks for; its ConnectTo lines
  name, in order, the peers that are neither this node, nor excluded, nor hidden, nor without an
  address, nor secondary when only primary nodes may be connected to; a silent node has none.
\<close>

theorem tinc_write_config_correct:
  assumes "alloc_total lc" and "env_grants se" and "cf_base_path cfg = Some base" and "c_text base" and "length base < 2 ^ 31"
    and "cf_my_peer cfg = My_peer me" and "cf_peerid cfg = Some peerid" and "None \<notin> set (cf_peer_config cfg)"
    and "length (tinc_conf_text cfg me peerid) < 2 ^ 61"
  shows "\<exists>m. tinc_write_config lc se cfg files
     = Done (True, files(canon (base @ ''/tinc.conf'') \<mapsto> (tinc_conf_text cfg me peerid, m)))"
  using assms by (rule write_config_spec)

theorem tinc_write_config_correct_witness:
  "\<exists>m. tinc_write_config plain_libc plain_env sample_config (\<lambda>_. None)
     = Done (True, (\<lambda>_. None)(canon (''/etc/tinc/chaos'' @ ''/tinc.conf'') \<mapsto> (tinc_conf_text sample_config (parser_new_config ''me'') ''me'', m)))"
proof (rule tinc_write_config_correct [OF alloc_total_plain env_grants_plain sample_config_fields(1)])
  have "length (tinc_conf_text sample_config (parser_new_config ''me'') ''me'') < 1000" by code_simp
  then show "length (tinc_conf_text sample_config (parser_new_config ''me'') ''me'') < 2 ^ 61" by simp
qed (simp_all add: sample_config_fields c_text_def)

lemma write_updown_spec:
  assumes "alloc_total lc" and "env_grants se" and "getaddrinfo_sized lc" and "ntop_text lc"
    and "cf_base_path cfg = Some base" and "c_text base" and "length base < 2 ^ 31"
    and "cf_peerid cfg = Some peerid" and "updown_ready lc cfg up" and "length (updown_text lc cfg up peerid) < 2 ^ 61"
  shows "\<exists>m. tinc_write_updown lc se cfg up files
     = Done (True, files(canon (base @ (if up then ''/tinc-up'' else ''/tinc-down'')) \<mapsto> (updown_text lc cfg up peerid, m)))"
proof -
  obtain b where "generate_updown lc cfg up (string_init lc 8192 2048) = Done (True, b)" "content b = updown_text lc cfg up peerid"
    using fresh_buffer_writes [OF generate_updown_writes [OF assms(1,3,4,8,9)] assms(1,10)] by blast
  moreover have "\<exists>m. write_base_file lc se cfg (if up then ''/tinc-up'' else ''/tinc-down'') 448 b files
      = Done (True, files(canon (base @ (if up then ''/tinc-up'' else ''/tinc-down'')) \<mapsto> (content b, m)))"
    using assms(1,2,5-7) by (intro write_base_file_grants) (simp_all add: c_text_def)
  ultimately show ?thesis by (simp add: tinc_write_updown_def)
qed

text \<open>
  C39: with memory and disk granted, \<open>tinc_write_updown\<close> returns true and changes one file, \<open>tinc-up\<close> or
  \<open>tinc-down\<close> in the base directory, to exactly the script of the specification: interface commands,
  then for each merged supernet and each subnet of each peer its route command, where a subnet that is
  covered by a merged supernet, is to be ignored or is not on the whitelist is commented out.
\<close>

theorem tinc_write_updown_correct:
  assumes "alloc_total lc" and "env_grants se" and "getaddrinfo_sized lc" and "ntop_text lc"
    and "cf_base_path cfg = Some base" and "c_text base" and "length base < 2 ^ 31"
    and "cf_peerid cfg = Some peerid" and "updown_ready lc cfg up" and "length (updown_text lc cfg up peerid) < 2 ^ 61"
  shows "\<exists>m. tinc_write_updown lc se cfg up files
     = Done (True, files(canon (base @ (if up then ''/tinc-up'' else ''/tinc-down'')) \<mapsto> (updown_text lc cfg up peerid, m)))"
  using assms by (rule write_updown_spec)

lemma ntop_text_total: "ntop_text total_libc"
proof -
  have d: "length (nat_dec (unat w)) \<le> 3" for w :: uchar
  proof -
    have "unat w < 2 ^ 8" using unsigned_less [of w, where 'a = nat] by simp
    then have "unat w < 10 ^ 3" by simp
    then show ?thesis by (rule nat_dec_length) simp
  qed
  have n: "NUL \<notin> set (nat_dec k)" for k using nat_dec_isdigit isdigit_NUL by blast
  have "NUL \<notin> set t \<and> length t < 2 ^ 20" if t: "lc_inet_ntop total_libc f bs = Some t" for f bs t
  proof (cases "f = AF_INET")
    case True
    then have "t = nat_dec (unat (bs ! 0)) @ ''.'' @ nat_dec (unat (bs ! 1)) @ ''.''
                  @ nat_dec (unat (bs ! 2)) @ ''.'' @ nat_dec (unat (bs ! 3))"
      using t by (simp add: total_libc_def quad_libc_def)
    moreover have "length (nat_dec (unat (bs ! 0))) + length (nat_dec (unat (bs ! 1)))
        + length (nat_dec (unat (bs ! 2))) + length (nat_dec (unat (bs ! 3))) \<le> 12"
      using d [of "bs ! 0"] d [of "bs ! 1"] d [of "bs ! 2"] d [of "bs ! 3"] by linarith
    ultimately show ?thesis using n by simp
  next
    case False
    then have "t = ''::''" using t by (simp add: total_libc_def quad_libc_def)
    then show ?thesis by simp
  qed
  then show ?thesis by (simp add: ntop_text_def)
qed

lemma class_comment_short: "length (class_comment c) < 30"
  by (cases c) (simp_all add: class_comment_def)

theorem tinc_write_updown_correct_witness:
  "\<exists>m. tinc_write_updown total_libc plain_env sample_config True (\<lambda>_. None)
     = Done (True, (\<lambda>_. None)(canon (''/etc/tinc/chaos'' @ (if True then ''/tinc-up'' else ''/tinc-down''))
         \<mapsto> (updown_text total_libc sample_config True ''me'', m)))"
proof (rule tinc_write_updown_correct [OF total_libc_facts(1) env_grants_plain total_libc_facts(2) ntop_text_total sample_config_fields(1)])
  show "length (updown_text total_libc sample_config True ''me'') < 2 ^ 61"
    using class_comment_short [of "route_policy total_libc sample_config ''10.4.0.0/16''"]
    by (simp add: updown_text_def node_text_def route_text_def routecmd_of_def sample_config_def config_alloc_def opt_line_def
        sample_peer_def parser_new_config_def strip_weight_def tinc_check_if_excluded_def route_fmt_def)
  have "addr_ok net_10_8" by code_simp
  then show "updown_ready total_libc sample_config True"
    by (simp add: updown_ready_def config_nets_ok_def cmd_ok_def routecmd_of_def dest_ok_def sample_config_def config_alloc_def
        sample_peer_def parser_new_config_def strip_weight_def c_text_def)
qed (simp_all add: sample_config_fields c_text_def)

end
