(* ===== verification/Tincctl.thy ===== *)
theory Tincctl
  imports Tinc
begin

section \<open>subnet-up and subnet-down\<close>

text \<open>The message a script sends to the system log, with two \<open>%s\<close>.\<close>

definition subnet_logger :: "bool \<Rightarrow> string" where
  "subnet_logger up =
     (let name = (if up then ''subnet-up'' else ''subnet-down'') in
      ''logger -t \"tinc.$NETNAME.'' @ name @ ''\" -p daemon.debug \"'' @ name
        @ '' from $NODE for %s $SUBNET ($REMOTEADDRESS:$REMOTEPORT)%s\" 2>/dev/null\<newline>'')"

definition TAB :: string where "TAB = [CHR 0x09]"

definition subnet_test4 :: string where
  "subnet_test4 =
     ''if echo \"$SUBNET\" | grep -q -E '' @ [CHR 0x27] @ ''^((25[0-5]|(2[0-4]|1{0,1}[0-9]){0,1}[0-9])'' @ [CHR 0x5C]
       @ ''.){3,3}(25[0-5]|(2[0-4]|1{0,1}[0-9]){0,1}[0-9])(/([0-9]|[12][0-9]|3[012]))?$'' @ [CHR 0x27] @ '' ; then\<newline>''"

definition subnet_test6 :: string where
  "subnet_test6 =
     ''if echo \"$SUBNET\" | grep -q -E '' @ [CHR 0x27]
       @ ''^(([0-9a-fA-F]{1,4}:){7,7}[0-9a-fA-F]{1,4}|([0-9a-fA-F]{1,4}:){1,7}:|([0-9a-fA-F]{1,4}:){1,6}:[0-9a-fA-F]{1,4}''
       @ ''|([0-9a-fA-F]{1,4}:){1,5}(:[0-9a-fA-F]{1,4}){1,2}|([0-9a-fA-F]{1,4}:){1,4}(:[0-9a-fA-F]{1,4}){1,3}''
       @ ''|([0-9a-fA-F]{1,4}:){1,3}(:[0-9a-fA-F]{1,4}){1,4}|([0-9a-fA-F]{1,4}:){1,2}(:[0-9a-fA-F]{1,4}){1,5}''
       @ ''|[0-9a-fA-F]{1,4}:((:[0-9a-fA-F]{1,4}){1,6})|:((:[0-9a-fA-F]{1,4}){1,7}|:))/([0-9]{1,2}|1[01][0-9]|12[0-8])$''
       @ [CHR 0x27] @ '' ; then\<newline>''"

definition run_local :: string where
  "run_local = ''[ -x \"$0.local\" ] && \"$0.local\" \"$@\"\<newline>''"

definition CONCAT_LOG :: "libc \<Rightarrow> bool \<Rightarrow> string \<Rightarrow> string \<Rightarrow> strbuf \<Rightarrow> (bool \<times> strbuf) run" where
  "CONCAT_LOG lc up a b = string_concat_sprintf lc (subnet_logger up) [Arg_s a, Arg_s b]"

text \<open>The excluded nodes: a flag remembers whether the prefix has been written.\<close>

definition exclude_item :: "libc \<Rightarrow> bool \<Rightarrow> string \<Rightarrow> strbuf \<Rightarrow> (bool \<times> strbuf) run" where
  "exclude_item lc haveexcludes v =
     run_seq
       [run_when (\<not> haveexcludes)
          (run_seq [CONCAT lc (Some ''\<newline>''), CONCAT lc (Some ''excluded=\"\"\<newline>'')]),
        CONCAT_F lc (Some (''[ \"$NODE\" = '' @ [CHR 0x27] @ ''%s'' @ [CHR 0x27] @ '' ] && excluded=1\<newline>'')) (Some v)]"

fun exclude_loop :: "libc \<Rightarrow> settings_list_entry list \<Rightarrow> bool \<Rightarrow> strbuf \<Rightarrow> (bool \<times> bool \<times> strbuf) run" where
  "exclude_loop lc [] haveexcludes s = Done (True, haveexcludes, s)"
| "exclude_loop lc (LIST_STRING v # es) haveexcludes s =
     run_bind (exclude_item lc haveexcludes v s)
       (\<lambda>(ok, s'). if \<not> ok then Done (False, True, s') else exclude_loop lc es True s')"
| "exclude_loop lc (LIST_INTEGER v # es) haveexcludes s = exclude_loop lc es haveexcludes s"
| "exclude_loop lc (LIST_LIST # es) haveexcludes s = exclude_loop lc es haveexcludes s"

definition subnet_excludes :: "libc \<Rightarrow> config \<Rightarrow> bool \<Rightarrow> strbuf \<Rightarrow> (bool \<times> strbuf) run" where
  "subnet_excludes lc cfg up s =
     (case cf_exclude cfg of
        None \<Rightarrow> Done (True, s)
      | Some es \<Rightarrow> run_bind (exclude_loop lc es False s)
          (\<lambda>(ok, haveexcludes, s).
             if \<not> ok then Done (False, s)
             else run_when haveexcludes (run_seq
               [CONCAT lc (Some ''if [ -n \"$excluded\" ] ; then\<newline>''), CONCAT lc (Some TAB),
                CONCAT_LOG lc up ''ignore'' '' (excluded)'', CONCAT lc (Some (TAB @ run_local)),
                CONCAT lc (Some (TAB @ ''exit 0\<newline>'')), CONCAT lc (Some ''fi\<newline>\<newline>'')]) s))"

text \<open>One address family, with its test, its name in the log and its route command.\<close>

definition subnet_family ::
  "libc \<Rightarrow> bool \<Rightarrow> string \<Rightarrow> string \<Rightarrow> string option \<Rightarrow> string option \<Rightarrow> strbuf \<Rightarrow> (bool \<times> strbuf) run" where
  "subnet_family lc up test name vpnip routecmd =
     (if str_is_nonempty vpnip \<and> str_is_nonempty routecmd
      then run_seq
        [CONCAT lc (Some test), CONCAT lc (Some TAB), CONCAT_LOG lc up name [],
         CONCAT lc (Some TAB), CONCAT_F lc routecmd (Some ''$SUBNET''), CONCAT lc (Some ''\<newline>''),
         CONCAT lc (Some (TAB @ run_local)), CONCAT lc (Some (TAB @ ''exit 0\<newline>'')), CONCAT lc (Some ''fi\<newline>'')]
      else run_seq
        [CONCAT lc (Some test), CONCAT lc (Some TAB), CONCAT_LOG lc up name '' (disabled)'',
         CONCAT lc (Some (TAB @ run_local)), CONCAT lc (Some (TAB @ ''exit 0\<newline>'')), CONCAT lc (Some ''fi\<newline>'')])"

text \<open>The branch of the generator without dynamic routes is reached on Windows only.\<close>

definition generate_subnetupdown :: "libc \<Rightarrow> config \<Rightarrow> bool \<Rightarrow> strbuf \<Rightarrow> (bool \<times> strbuf) run" where
  "generate_subnetupdown lc cfg up =
     run_seq
      [CONCAT lc (Some ''#!/bin/sh\<newline>''),
       CONCAT lc (Some ''# this is an autogenerated file - do not edit!\<newline>\<newline>''),
       CONCAT_F lc (Some (''[ \"$NODE\" = '' @ [CHR 0x27] @ ''%s'' @ [CHR 0x27] @ '' ] && exit 0\<newline>\<newline>'')) (cf_peerid cfg),
       subnet_excludes lc cfg up,
       subnet_family lc up subnet_test4 ''ipv4'' (cf_vpn_ip cfg) (routecmd_of cfg AF_INET up),
       subnet_family lc up subnet_test6 ''ipv6'' (cf_vpn_ip6 cfg) (routecmd_of cfg AF_INET6 up),
       CONCAT_LOG lc up ''unknown'' '' (ignored)'',
       CONCAT lc (Some run_local),
       CONCAT lc (Some ''exit 0\<newline>\<newline>'')]"

text \<open>The symbolic links by path; unlinking a name removes it whatever it was.\<close>

type_synonym links = "string \<Rightarrow> string option"

definition unlink :: "string \<Rightarrow> files \<times> links \<Rightarrow> files \<times> links" where
  "unlink path fs = ((fst fs)(canon path := None), (snd fs)(canon path := None))"

definition tinc_write_subnetupdown ::
  "libc \<Rightarrow> sysenv \<Rightarrow> config \<Rightarrow> bool \<Rightarrow> files \<times> links \<Rightarrow> (bool \<times> files \<times> links) run" where
  "tinc_write_subnetupdown lc se cfg up fs =
     run_bind (base_file lc cfg (if up then ''/subnet-up'' else ''/subnet-down'')) (\<lambda>filepath.
       if \<not> cf_use_dynamic_routes cfg
       then (let fs' = unlink filepath fs in
             run_bind (string_concat_sprintf lc ''%s.local'' [Arg_s filepath] (string_init lc 512 512))
              (\<lambda>(_, localpath). run_bind (string_ensurez lc localpath) (\<lambda>(_, localpath).
                 let target = string_cstr localpath in
                 Done (True,
                   if se_access_x se target \<and> se_symlink se target filepath
                   then (fst fs', (snd fs')(canon filepath \<mapsto> target)) else fs'))))
       else run_bind (generate_subnetupdown lc cfg up (string_init lc 8192 2048))
              (\<lambda>(ok, buffer).
                 if \<not> ok then Done (False, fs)
                 else let fs' = unlink filepath fs in
                      case fs_writecontents se filepath (content buffer) 448 (fst fs') of
                        (ok, files) \<Rightarrow> Done (ok, files, snd fs')))"

section \<open>Asking and stopping tincd\<close>

text \<open>\<open>snprintf\<close> into an array of 1024 bytes.\<close>

definition snprintf1024 :: "string \<Rightarrow> string" where
  "snprintf1024 cmd = take 1023 cmd"

definition tinc_get_version :: "libc \<Rightarrow> sysenv \<Rightarrow> config \<Rightarrow> string option run" where
  "tinc_get_version lc se cfg =
     (case cf_tincd_bin cfg of
        None \<Rightarrow> Fault Null_deref
      | Some tincd_bin \<Rightarrow>
          run_bind (fs_backticks_exec lc se (snprintf1024 (tincd_bin @ '' --version'')) (string_init lc 1024 512))
            (\<lambda>(_, tincd_output). run_bind (string_ensurez lc tincd_output) (\<lambda>(_, tincd_output).
               let out = string_cstr tincd_output in
               if take 13 out \<noteq> ''tinc version '' then Done None
               else Done (Some (takeWhile (\<lambda>c. c \<noteq> CHR '' '') (drop 13 out))))))"

text \<open>
  \<open>tinc_get_pid\<close> keeps the result of \<open>strtol\<close> in a \<open>bool\<close>, which is what it returns as the process id.
\<close>

definition pid_of_text :: "libc \<Rightarrow> strbuf \<Rightarrow> int run" where
  "pid_of_text lc pid_text =
     run_bind (string_ensurez lc pid_text) (\<lambda>(_, pid_text).
       let out = string_cstr pid_text in
       if out = [] then Done 0
       else let res = (fst (strtol10 out) \<noteq> 0) in Done (if res then 1 else 0))"

definition tinc_get_pid :: "libc \<Rightarrow> sysenv \<Rightarrow> config \<Rightarrow> files \<Rightarrow> int run" where
  "tinc_get_pid lc se cfg files =
     (if version_newer cfg ''1.1''
      then (if str_is_empty (cf_tincctl_bin cfg) then Done 0
            else case cf_networkname cfg of
                None \<Rightarrow> Fault Null_deref
              | Some networkname \<Rightarrow>
                  run_bind (fs_backticks_exec lc se
                     (snprintf1024 (the (cf_tincctl_bin cfg) @ '' --net='' @ networkname @ '' pid 2>/dev/null''))
                     (string_init lc 256 128)) (\<lambda>(_, pid_text). pid_of_text lc pid_text))
      else (if str_is_empty (cf_tincd_pidfile cfg) then Done 0
            else run_bind (fs_read_file lc se files (string_init lc 256 128) (the (cf_tincd_pidfile cfg)))
                   (\<lambda>(ok, pid_text). if \<not> ok then Done 0 else pid_of_text lc pid_text)))"

definition tinc_invoke_ifdown :: "libc \<Rightarrow> sysenv \<Rightarrow> config \<Rightarrow> bool run" where
  "tinc_invoke_ifdown lc se cfg =
     (if \<not> cf_run_ifdown cfg then Done True
      else run_bind (base_file lc cfg ''/tinc-down'') (\<lambda>filepath.
             let status = se_system se filepath in
             if status = - 1 then Done False
             else if status \<noteq> 0 then Done False
             else Done True))"

section \<open>What the scripts contain\<close>

definition log_text :: "bool \<Rightarrow> string \<Rightarrow> string \<Rightarrow> string" where
  "log_text up a b =
     (let name = (if up then ''subnet-up'' else ''subnet-down'') in
      ''logger -t \"tinc.$NETNAME.'' @ name @ ''\" -p daemon.debug \"'' @ name
        @ '' from $NODE for '' @ a @ '' $SUBNET ($REMOTEADDRESS:$REMOTEPORT)'' @ b @ ''\" 2>/dev/null\<newline>'')"

lemma CONCAT_LOG_writes [gen_writes]: "writes lc (CONCAT_LOG lc up a b) (log_text up a b)"
  unfolding CONCAT_LOG_def [abs_def]
  by (rule string_concat_sprintf_writes) (cases up; simp add: subnet_logger_def log_text_def Let_def)

definition quoted :: "string \<Rightarrow> string" where
  "quoted v = CHR 0x27 # v @ [CHR 0x27]"

definition exclude_line :: "string \<Rightarrow> string" where
  "exclude_line v = ''[ \"$NODE\" = '' @ quoted v @ '' ] && excluded=1\<newline>''"

definition exclude_lines :: "bool \<Rightarrow> string list \<Rightarrow> string" where
  "exclude_lines have vs =
     (if have \<or> vs = [] then [] else ''\<newline>'' @ ''excluded=\"\"\<newline>'') @ concat (map exclude_line vs)"

lemma quoted_line_writes:
  assumes "format_text (pre @ CHR 0x27 # ''%s'' @ CHR 0x27 # post) [Arg_s v] = Some (pre @ quoted v @ post)"
  shows "writes lc (CONCAT_F lc (Some (pre @ [CHR 0x27] @ ''%s'' @ [CHR 0x27] @ post)) (Some v)) (pre @ quoted v @ post)"
  by (rule CONCAT_F_writes) (use assms in simp)

lemma exclude_line_writes:
  "writes lc (CONCAT_F lc (Some (''[ \"$NODE\" = '' @ [CHR 0x27] @ ''%s'' @ [CHR 0x27] @ '' ] && excluded=1\<newline>'')) (Some v))
     (exclude_line v)"
  unfolding exclude_line_def by (rule quoted_line_writes) (simp add: quoted_def)

lemma own_line_writes:
  "writes lc (CONCAT_F lc (Some (''[ \"$NODE\" = '' @ [CHR 0x27] @ ''%s'' @ [CHR 0x27] @ '' ] && exit 0\<newline>\<newline>'')) (Some v))
     (''[ \"$NODE\" = '' @ quoted v @ '' ] && exit 0\<newline>\<newline>'')"
  by (rule quoted_line_writes) (simp add: quoted_def)

lemma exclude_item_writes:
  "writes lc (exclude_item lc h v) ((if h then [] else ''\<newline>'' @ ''excluded=\"\"\<newline>'') @ exclude_line v)"
proof -
  have pre: "writes lc (run_seq [CONCAT lc (Some ''\<newline>''), CONCAT lc (Some ''excluded=\"\"\<newline>'')])
      (concat [''\<newline>'', ''excluded=\"\"\<newline>''])"
    by (intro seq_writes) (simp only: list_all2_steps, intro conjI gen_writes)
  have "writes lc (exclude_item lc h v) (concat [if \<not> h then concat [''\<newline>'', ''excluded=\"\"\<newline>''] else [], exclude_line v])"
    unfolding exclude_item_def
    by (rule seq_writes) (simp only: list_all2_steps, intro conjI when_writes pre exclude_line_writes)
  then show ?thesis by (cases h) simp_all
qed

lemma exclude_loop_text:
  assumes "alloc_total lc" and "buf_inv s"
    and "length (content s) + length (exclude_lines h (string_entries es)) < buf_limit"
  shows "\<exists>s'. exclude_loop lc es h s = Done (True, h \<or> string_entries es \<noteq> [], s') \<and> buf_inv s'
     \<and> content s' = content s @ exclude_lines h (string_entries es)"
  using assms(2,3)
proof (induction es arbitrary: h s)
  case Nil
  then show ?case by (simp add: exclude_lines_def)
next
  case (Cons e es)
  show ?case
  proof (cases e)
    case (LIST_STRING v)
    let ?t = "(if h then [] else ''\<newline>'' @ ''excluded=\"\"\<newline>'') @ exclude_line v"
    have split: "exclude_lines h (v # string_entries es) = ?t @ exclude_lines True (string_entries es)"
      by (simp add: exclude_lines_def)
    have room: "length (content s) + length ?t + length (exclude_lines True (string_entries es)) < buf_limit"
      using Cons.prems(2) split LIST_STRING by (simp del: length_append add: length_append [symmetric])
    then have "length (content s) + length ?t < buf_limit" by linarith
    from writes_total [OF exclude_item_writes assms(1) Cons.prems(1) this] obtain s1 where
      s1: "exclude_item lc h v s = Done (True, s1)" "buf_inv s1" "content s1 = content s @ ?t" .
    have "length (content s1) + length (exclude_lines True (string_entries es)) < buf_limit"
      using room s1(3) by simp
    from Cons.IH [OF s1(2) this] s1 show ?thesis by (auto simp: LIST_STRING split)
  qed (use Cons in auto)
qed

definition excludes_text :: "bool \<Rightarrow> string list \<Rightarrow> string" where
  "excludes_text up vs =
     (if vs = [] then []
      else exclude_lines False vs @ concat [''if [ -n \"$excluded\" ] ; then\<newline>'', TAB,
        log_text up ''ignore'' '' (excluded)'', TAB @ run_local, TAB @ ''exit 0\<newline>'', ''fi\<newline>\<newline>''])"

lemma subnet_excludes_writes:
  assumes "alloc_total lc" and "cf_exclude cfg = Some es"
  shows "writes lc (subnet_excludes lc cfg up) (excludes_text up (string_entries es))"
proof (rule emitsI, rule disjI1)
  fix s assume s: "buf_inv s" "length (content s) + length (excludes_text up (string_entries es)) < buf_limit"
  let ?vs = "string_entries es"
  let ?parts = "[''if [ -n \"$excluded\" ] ; then\<newline>'', TAB, log_text up ''ignore'' '' (excluded)'', TAB @ run_local,
      TAB @ ''exit 0\<newline>'', ''fi\<newline>\<newline>'']"
  let ?foot = "run_when (?vs \<noteq> []) (run_seq
               [CONCAT lc (Some ''if [ -n \"$excluded\" ] ; then\<newline>''), CONCAT lc (Some TAB),
                CONCAT_LOG lc up ''ignore'' '' (excluded)'', CONCAT lc (Some (TAB @ run_local)),
                CONCAT lc (Some (TAB @ ''exit 0\<newline>'')), CONCAT lc (Some ''fi\<newline>\<newline>'')])"
  have "exclude_lines False [] = []" by (simp add: exclude_lines_def)
  then have split: "excludes_text up ?vs = exclude_lines False ?vs @ (if ?vs \<noteq> [] then concat ?parts else [])"
    by (simp add: excludes_text_def del: concat.simps)
  have "length (content s) + length (exclude_lines False ?vs) < buf_limit" using s(2) unfolding split length_append by linarith
  from exclude_loop_text [OF assms(1) s(1) this] obtain s1 where
    s1: "exclude_loop lc es False s = Done (True, ?vs \<noteq> [], s1)" "buf_inv s1" "content s1 = content s @ exclude_lines False ?vs"
    by auto
  have "writes lc ?foot (if ?vs \<noteq> [] then concat ?parts else [])"
    by (intro when_writes seq_writes) (simp only: list_all2_steps, intro conjI gen_writes)
  moreover have "length (content s1) + length (if ?vs \<noteq> [] then concat ?parts else []) < buf_limit"
    using s(2) unfolding split length_append s1(3) by linarith
  ultimately obtain s2 where
    s2: "?foot s1 = Done (True, s2)" "buf_inv s2" "content s2 = content s1 @ (if ?vs \<noteq> [] then concat ?parts else [])"
    using writes_total [OF _ assms(1) s1(2)] by blast
  have "subnet_excludes lc cfg up s = Done (True, s2)"
    using s1(1) s2(1) assms(2) by (simp add: subnet_excludes_def del: run_seq.simps)
  then show "\<exists>s'. subnet_excludes lc cfg up s = Done (True, s') \<and> buf_inv s' \<and> content s' = content s @ excludes_text up ?vs"
    using s2(2,3) s1(3) unfolding split by simp
qed

definition names_of :: "settings_list_entry list option \<Rightarrow> string list" where
  "names_of v = (case v of None \<Rightarrow> [] | Some es \<Rightarrow> string_entries es)"

lemma excludes_writes:
  "alloc_total lc \<Longrightarrow> writes lc (subnet_excludes lc cfg up) (excludes_text up (names_of (cf_exclude cfg)))"
proof (cases "cf_exclude cfg")
  case None
  then have "subnet_excludes lc cfg up = (\<lambda>s. Done (True, s))" by (simp add: subnet_excludes_def fun_eq_iff)
  with None skip_writes show ?thesis by (simp add: names_of_def excludes_text_def)
next
  case (Some es)
  then show "alloc_total lc \<Longrightarrow> writes lc (subnet_excludes lc cfg up) (excludes_text up (names_of (cf_exclude cfg)))"
    using subnet_excludes_writes [of lc cfg es up] by (simp only: names_of_def option.case)
qed

definition family_text :: "bool \<Rightarrow> string \<Rightarrow> string \<Rightarrow> string option \<Rightarrow> string option \<Rightarrow> string" where
  "family_text up test name vpnip routecmd =
     (if str_is_nonempty vpnip \<and> str_is_nonempty routecmd
      then concat [test, TAB, log_text up name [], TAB, route_fmt routecmd ''$SUBNET'', ''\<newline>'',
        TAB @ run_local, TAB @ ''exit 0\<newline>'', ''fi\<newline>'']
      else concat [test, TAB, log_text up name '' (disabled)'', TAB @ run_local, TAB @ ''exit 0\<newline>'', ''fi\<newline>''])"

lemma subnet_family_writes:
  assumes "cmd_ok routecmd"
  shows "writes lc (subnet_family lc up test name vpnip routecmd) (family_text up test name vpnip routecmd)"
proof (cases "str_is_nonempty vpnip \<and> str_is_nonempty routecmd")
  case True
  then have "str_is_nonempty routecmd" by simp
  then show ?thesis
    unfolding subnet_family_def family_text_def if_P [OF True]
    by (intro seq_writes) (simp only: list_all2_steps, intro conjI gen_writes route_fmt_writes assms)
next
  case False
  show ?thesis
    unfolding subnet_family_def family_text_def if_not_P [OF False]
    by (intro seq_writes) (simp only: list_all2_steps, intro conjI gen_writes)
qed

text \<open>The script for a node that uses dynamic routes.\<close>

definition subnetupdown_text :: "config \<Rightarrow> bool \<Rightarrow> string \<Rightarrow> string" where
  "subnetupdown_text cfg up peerid =
     concat [''#!/bin/sh\<newline>'', ''# this is an autogenerated file - do not edit!\<newline>\<newline>'',
       ''[ \"$NODE\" = '' @ quoted peerid @ '' ] && exit 0\<newline>\<newline>'',
       excludes_text up (names_of (cf_exclude cfg)),
       family_text up subnet_test4 ''ipv4'' (cf_vpn_ip cfg) (routecmd_of cfg AF_INET up),
       family_text up subnet_test6 ''ipv6'' (cf_vpn_ip6 cfg) (routecmd_of cfg AF_INET6 up),
       log_text up ''unknown'' '' (ignored)'', run_local, ''exit 0\<newline>\<newline>'']"

lemma generate_subnetupdown_writes:
  assumes "alloc_total lc" and "cf_peerid cfg = Some peerid"
    and "cmd_ok (routecmd_of cfg AF_INET up)" and "cmd_ok (routecmd_of cfg AF_INET6 up)"
  shows "writes lc (generate_subnetupdown lc cfg up) (subnetupdown_text cfg up peerid)"
  unfolding generate_subnetupdown_def subnetupdown_text_def assms(2)
  by (rule seq_writes)
    (simp only: list_all2_steps, intro conjI gen_writes own_line_writes excludes_writes subnet_family_writes assms)

section \<open>Properties\<close>

lemma fresh_cstr:
  assumes "writes lc e t" and "alloc_total lc" and "buf_inv s" and "content s = []" and "t \<noteq> []" and "NUL \<notin> set t"
    and "length t < 2 ^ 61"
  obtains s1 s2 where "e s = Done (True, s1)" "string_ensurez lc s1 = Done (True, s2)" "string_cstr s2 = t"
proof -
  have "length (content s) + length t < buf_limit" using assms(4,7) by (simp add: buf_limit_def)
  from writes_total [OF assms(1-3) this] obtain s1 where
    s1: "e s = Done (True, s1)" "buf_inv s1" "content s1 = t" using assms(4) by auto
  have "length (content s1) + 1 \<le> buf_limit" using s1(3) assms(7) by (simp add: buf_limit_def)
  from string_ensurez_total [OF s1(2) this assms(2)] s1(3) assms(5) obtain s2 where
    "string_ensurez lc s1 = Done (True, s2)" "string_cstr s2 = cstr t" by auto
  with s1(1) assms(6) that show ?thesis by (simp add: cstr_simps)
qed

lemma init_buffer: "alloc_total lc \<Longrightarrow> buf_inv (string_init lc 512 512) \<and> content (string_init lc 512 512) = []"
  "alloc_total lc \<Longrightarrow> buf_inv (string_init lc 1024 512) \<and> content (string_init lc 1024 512) = []"
  "alloc_total lc \<Longrightarrow> buf_inv (string_init lc 256 128) \<and> content (string_init lc 256 128) = []"
  by (simp_all add: string_init_inv alloc_total_def)

lemma write_subnetupdown_static_spec:
  assumes "alloc_total lc" and "cf_base_path cfg = Some base" and "c_text base" and "length base < 2 ^ 31"
    and "\<not> cf_use_dynamic_routes cfg"
  shows "tinc_write_subnetupdown lc se cfg up (files, links) =
     (let script = base @ (if up then ''/subnet-up'' else ''/subnet-down''); local = script @ ''.local'' in
      Done (True, files(canon script := None),
        links(canon script := (if se_access_x se local \<and> se_symlink se local script then Some local else None))))"
proof -
  define script where "script = base @ (if up then ''/subnet-up'' else ''/subnet-down'')"
  have path: "base_file lc cfg (if up then ''/subnet-up'' else ''/subnet-down'') = Done script"
    unfolding script_def using assms(1-4) by (intro base_file_path) (simp_all add: c_text_def)
  have "script @ ''.local'' \<noteq> []" "NUL \<notin> set (script @ ''.local'')" "length (script @ ''.local'') < 2 ^ 61"
    using assms(3,4) by (simp_all add: script_def c_text_def)
  moreover have local_writes: "writes lc (string_concat_sprintf lc ''%s.local'' [Arg_s script]) (script @ ''.local'')"
    by (rule string_concat_sprintf_writes) simp
  ultimately obtain s1 s2 where s: "string_concat_sprintf lc ''%s.local'' [Arg_s script] (string_init lc 512 512) = Done (True, s1)"
      "string_ensurez lc s1 = Done (True, s2)" "string_cstr s2 = script @ ''.local''"
    using fresh_cstr [OF local_writes assms(1), of "string_init lc 512 512"] init_buffer(1) [OF assms(1)] by blast
  have "tinc_write_subnetupdown lc se cfg up (files, links) = Done (True, files(canon script := None),
      links(canon script := (if se_access_x se (script @ ''.local'') \<and> se_symlink se (script @ ''.local'') script
        then Some (script @ ''.local'') else None)))"
    unfolding tinc_write_subnetupdown_def path run_bind.simps s prod.case using assms(5) by (simp add: unlink_def Let_def s(3))
  then show ?thesis unfolding script_def by (simp only: Let_def)
qed

text \<open>
  without dynamic routes \<open>tinc_write_subnetupdown\<close> removes the script, whatever it was, and
  leaves in its place a link to the administrator's \<open>.local\<close> script exactly when that one may be
  executed and the link can be made; nothing else changes.
\<close>

theorem tinc_write_subnetupdown_static:
  assumes "alloc_total lc" and "cf_base_path cfg = Some base" and "c_text base" and "length base < 2 ^ 31"
    and "\<not> cf_use_dynamic_routes cfg"
  shows "tinc_write_subnetupdown lc se cfg up (files, links) =
     (let script = base @ (if up then ''/subnet-up'' else ''/subnet-down''); local = script @ ''.local'' in
      Done (True, files(canon script := None),
        links(canon script := (if se_access_x se local \<and> se_symlink se local script then Some local else None))))"
  using assms by (rule write_subnetupdown_static_spec)

lemma write_subnetupdown_dynamic_spec:
  assumes "alloc_total lc" and "env_grants se" and "cf_base_path cfg = Some base" and "c_text base" and "length base < 2 ^ 31"
    and "cf_use_dynamic_routes cfg" and "cf_peerid cfg = Some peerid"
    and "cmd_ok (routecmd_of cfg AF_INET up)" and "cmd_ok (routecmd_of cfg AF_INET6 up)"
    and "length (subnetupdown_text cfg up peerid) < 2 ^ 61"
  shows "let script = base @ (if up then ''/subnet-up'' else ''/subnet-down'') in
     tinc_write_subnetupdown lc se cfg up (files, links) =
       Done (True, files(canon script \<mapsto> (subnetupdown_text cfg up peerid, 448)), links(canon script := None))"
proof -
  define script where "script = base @ (if up then ''/subnet-up'' else ''/subnet-down'')"
  have path: "base_file lc cfg (if up then ''/subnet-up'' else ''/subnet-down'') = Done script"
    unfolding script_def using assms(1,3-5) by (intro base_file_path) (simp_all add: c_text_def)
  obtain b where b: "generate_subnetupdown lc cfg up (string_init lc 8192 2048) = Done (True, b)"
      "content b = subnetupdown_text cfg up peerid"
    using fresh_buffer_writes [OF generate_subnetupdown_writes [OF assms(1,7-9)] assms(1,10)] by blast
  have "tinc_write_subnetupdown lc se cfg up (files, links) =
       Done (True, files(canon script \<mapsto> (subnetupdown_text cfg up peerid, 448)), links(canon script := None))"
    unfolding tinc_write_subnetupdown_def path run_bind.simps b(1) prod.case using assms(2,6)
    by (simp add: unlink_def fs_writecontents_def env_grants_def Let_def b(2))
  then show ?thesis unfolding script_def by (simp only: Let_def)
qed

text \<open>
  with dynamic routes, memory and disk granted, the script in the base directory is replaced by a
  plain file (never written through a link) that holds exactly the script of the specification: it ends at
  once for this node's own subnets, then for excluded nodes, then adds or removes the IPv4 or IPv6
  route of the subnet it is called for.
\<close>

theorem tinc_write_subnetupdown_dynamic:
  assumes "alloc_total lc" and "env_grants se" and "cf_base_path cfg = Some base" and "c_text base" and "length base < 2 ^ 31"
    and "cf_use_dynamic_routes cfg" and "cf_peerid cfg = Some peerid"
    and "cmd_ok (routecmd_of cfg AF_INET up)" and "cmd_ok (routecmd_of cfg AF_INET6 up)"
    and "length (subnetupdown_text cfg up peerid) < 2 ^ 61"
  shows "let script = base @ (if up then ''/subnet-up'' else ''/subnet-down'') in
     tinc_write_subnetupdown lc se cfg up (files, links) =
       Done (True, files(canon script \<mapsto> (subnetupdown_text cfg up peerid, 448)), links(canon script := None))"
  using assms by (rule write_subnetupdown_dynamic_spec)

definition sample_dynamic :: config where
  "sample_dynamic = sample_config\<lparr>cf_use_dynamic_routes := True, cf_exclude := Some [LIST_INTEGER 3, LIST_STRING ''host1'']\<rparr>"

theorem tinc_write_subnetupdown_static_witness:
  "tinc_write_subnetupdown plain_libc plain_env sample_config True (\<lambda>_. None, \<lambda>_. None) =
     (let script = ''/etc/tinc/chaos'' @ (if True then ''/subnet-up'' else ''/subnet-down''); local = script @ ''.local'' in
      Done (True, (\<lambda>_. None)(canon script := None),
        (\<lambda>_. None)(canon script := (if se_access_x plain_env local \<and> se_symlink plain_env local script then Some local else None))))"
  by (rule tinc_write_subnetupdown_static [OF alloc_total_plain sample_config_fields(1)])
    (simp_all add: c_text_def sample_config_def config_alloc_def)

theorem tinc_write_subnetupdown_dynamic_witness:
  "let script = ''/etc/tinc/chaos'' @ (if True then ''/subnet-up'' else ''/subnet-down'') in
     tinc_write_subnetupdown plain_libc plain_env sample_dynamic True (\<lambda>_. None, \<lambda>_. None) =
       Done (True, (\<lambda>_. None)(canon script \<mapsto> (subnetupdown_text sample_dynamic True ''me'', 448)), (\<lambda>_. None)(canon script := None))"
proof (rule tinc_write_subnetupdown_dynamic [OF alloc_total_plain env_grants_plain])
  have "length (subnetupdown_text sample_dynamic True ''me'') < 10000" by code_simp
  then show "length (subnetupdown_text sample_dynamic True ''me'') < 2 ^ 61" by simp
qed (simp_all add: c_text_def sample_dynamic_def sample_config_def config_alloc_def cmd_ok_def routecmd_of_def)

lemma take_prefix: "length p = n \<Longrightarrow> take n xs = p \<longleftrightarrow> (\<exists>rest. xs = p @ rest)"
  by (metis append_take_drop_id append_eq_conv_conj)

lemma tinc_get_version_eval:
  assumes "alloc_total lc" and "cf_tincd_bin cfg = Some bin"
    and "se_popen se (snprintf1024 (bin @ '' --version'')) = Some out" and "out \<noteq> []" and "NUL \<notin> set out" and "length out < 2 ^ 61"
  shows "tinc_get_version lc se cfg =
     Done (if \<exists>rest. out = ''tinc version '' @ rest then Some (takeWhile (\<lambda>c. c \<noteq> CHR '' '') (drop 13 out)) else None)"
proof -
  obtain s1 s2 where "read_chunks lc out (string_init lc 1024 512) = Done (True, s1)"
      "string_ensurez lc s1 = Done (True, s2)" "string_cstr s2 = out"
    using fresh_cstr [OF read_chunks_writes assms(1) _ _ assms(4-6)] init_buffer(2) [OF assms(1)] by metis
  moreover have "take 13 out = ''tinc version '' \<longleftrightarrow> (\<exists>rest. out = ''tinc version '' @ rest)"
    by (rule take_prefix) simp
  ultimately show ?thesis
    unfolding tinc_get_version_def fs_backticks_exec_def fs_read_fd_def assms(2,3) option.case Let_def
    by (simp del: append_take_drop_id)
qed

text \<open>
  when \<open>tincd --version\<close> prints a line that starts with \<open>tinc version\<close>, \<open>tinc_get_version\<close>
  returns the word behind it, and for any other non-empty output it returns no version.
\<close>

theorem tinc_get_version_correct:
  assumes "alloc_total lc" and "cf_tincd_bin cfg = Some bin"
    and "se_popen se (snprintf1024 (bin @ '' --version'')) = Some out" and "out \<noteq> []" and "NUL \<notin> set out" and "length out < 2 ^ 61"
  shows "tinc_get_version lc se cfg =
     Done (if \<exists>rest. out = ''tinc version '' @ rest then Some (takeWhile (\<lambda>c. c \<noteq> CHR '' '') (drop 13 out)) else None)"
  using assms by (rule tinc_get_version_eval)

definition version_env :: sysenv where
  "version_env = plain_env\<lparr>se_popen := \<lambda>_. Some ''tinc version 1.0.19 (built Apr 22 2013)''\<rparr>"

theorem tinc_get_version_correct_witness:
  "tinc_get_version plain_libc version_env sample_config =
     Done (if \<exists>rest. ''tinc version 1.0.19 (built Apr 22 2013)'' = ''tinc version '' @ rest
           then Some (takeWhile (\<lambda>c. c \<noteq> CHR '' '') (drop 13 ''tinc version 1.0.19 (built Apr 22 2013)'')) else None)"
  by (rule tinc_get_version_correct [OF alloc_total_plain])
    (simp_all add: sample_config_def config_alloc_def version_env_def)

lemma strtol10_line:
  assumes "n < 2 ^ 63"
  shows "strtol10 (nat_dec n @ ''\<newline>'') = (int n, ''\<newline>'')"
proof -
  obtain c cs where c: "nat_dec n = c # cs" by (cases "nat_dec n") auto
  have nl: "\<not> digit_val (CHR ''\<newline>'') < 10" by (simp add: digit_val_def isdigit_def)
  have "read_digits 10 0 (nat_dec n @ ''\<newline>'') = read_digits 10 (fold (\<lambda>c a. a * 10 + digit_val c) (nat_dec n) 0) ''\<newline>''"
    by (rule read_digits_append) (simp add: nat_dec_isdigit)
  then have "read_digits 10 0 (nat_dec n @ ''\<newline>'') = (n, ''\<newline>'')"
    by (simp only: nat_dec_value read_digits.simps nl if_False)
  then have "read_digits 10 0 (c # cs @ ''\<newline>'') = (n, ''\<newline>'')" by (simp only: c append.simps)
  moreover have "isdigit c" using hd_nat_dec_isdigit [of n] c by simp
  ultimately show ?thesis using isdigit_first [of c "cs @ ''\<newline>''"] c assms by (simp add: strtol10_def)
qed

lemma get_pid_flag:
  assumes "alloc_total lc" and "\<not> version_newer cfg ''1.1''" and "cf_tincd_pidfile cfg = Some path" and "path \<noteq> []"
    and "files (canon path) = Some (nat_dec pid @ ''\<newline>'', mode)" and "\<not> se_read_error se path" and "0 < pid" and "pid < 2 ^ 31"
  shows "tinc_get_pid lc se cfg files = Done 1"
proof -
  let ?out = "nat_dec pid @ ''\<newline>''"
  have n: "NUL \<notin> set ?out" using nat_dec_isdigit [of NUL pid] by auto
  have "pid < 10 ^ 10" using assms(8) by simp
  then have "length (nat_dec pid) \<le> 10" by (rule nat_dec_length) simp
  then have "length ?out < 2 ^ 61" by simp
  from fresh_cstr [OF read_chunks_writes assms(1) _ _ _ n this] init_buffer(3) [OF assms(1)]
  obtain s1 s2 where s: "read_chunks lc ?out (string_init lc 256 128) = Done (True, s1)"
      "string_ensurez lc s1 = Done (True, s2)" "string_cstr s2 = ?out"
    by blast
  have "fst (strtol10 ?out) = int pid" using strtol10_line [of pid] assms(8) by simp
  then show ?thesis
    unfolding tinc_get_pid_def fs_read_file_def pid_of_text_def assms(3) option.sel assms(5)
    using assms(2,4,6,7) s by (simp add: Let_def)
qed

text \<open>
  whatever process id above zero the pid file holds, \<open>tinc_get_pid\<close> returns 1: the result of
  \<open>strtol\<close> goes through a \<open>bool\<close>.
\<close>

theorem tinc_get_pid_is_flag:
  assumes "alloc_total lc" and "\<not> version_newer cfg ''1.1''" and "cf_tincd_pidfile cfg = Some path" and "path \<noteq> []"
    and "files (canon path) = Some (nat_dec pid @ ''\<newline>'', mode)" and "\<not> se_read_error se path" and "0 < pid" and "pid < 2 ^ 31"
  shows "tinc_get_pid lc se cfg files = Done 1"
  using assms by (rule get_pid_flag)

definition pid_config :: config where
  "pid_config = sample_config\<lparr>cf_tincd_pidfile := Some ''/var/run/tinc.pid''\<rparr>"

theorem tinc_get_pid_is_flag_witness:
  "tinc_get_pid plain_libc plain_env pid_config ((\<lambda>_. None)(''/var/run/tinc.pid'' \<mapsto> (nat_dec 4711 @ ''\<newline>'', 420))) = Done 1"
proof (rule tinc_get_pid_is_flag [OF alloc_total_plain, where path = "''/var/run/tinc.pid''" and pid = 4711 and mode = 420])
  have "\<not> 0 < strnatcmp ''1.0.19'' ''1.1''" by code_simp
  then show "\<not> version_newer pid_config ''1.1''"
    by (simp add: version_newer_def pid_config_def sample_config_def)
qed (simp_all add: pid_config_def plain_env_def)

end
