(* ===== verification/Daemon.thy ===== *)
theory Daemon
  imports Tincctl
begin

text \<open>
  \<^verbatim>\<open>src/daemon.c\<close>: the description of a process to supervise, and starting and stopping it.  The kernel is the
  set of the children that have not been waited for and the open descriptors.
\<close>

section \<open>The description of a process\<close>

text \<open>
  The argument vector is a block of pointers; \<open>realloc\<close> frees the old block, so a description can be left with a
  pointer to freed memory.
\<close>

datatype argv = No_argv | Argv "string option list" | Freed_argv

record daemon_info =
  di_path :: "string option"
  di_numarguments :: int
  di_arguments :: argv
  di_stderr_fd :: "int \<times> int"
  di_stderr :: "int option"
  di_pid :: int

text \<open>A static \<open>struct daemon_info\<close> before it is initialised.\<close>

definition daemon_zero :: daemon_info where
  "daemon_zero = \<lparr>di_path = None, di_numarguments = 0, di_arguments = No_argv, di_stderr_fd = (0, 0), di_stderr = None, di_pid = 0\<rparr>"

definition strdup :: "libc \<Rightarrow> string \<Rightarrow> string option" where
  "strdup lc s = (if lc_alloc lc (length s + 1) then Some s else None)"

text \<open>The arguments up to the null pointer that ends the call are copied into a vector with one more null.\<close>

definition daemon_init :: "libc \<Rightarrow> string \<Rightarrow> string list \<Rightarrow> daemon_info \<Rightarrow> bool \<times> daemon_info" where
  "daemon_init lc path args di =
     (let di = di\<lparr>di_stderr_fd := (- 1, - 1), di_stderr := None, di_pid := - 1, di_path := strdup lc path\<rparr>;
          numargs = length args + 1 in
      if \<not> lc_alloc lc (8 * numargs) then (False, di\<lparr>di_arguments := No_argv, di_path := None\<rparr>)
      else let di = di\<lparr>di_numarguments := int numargs\<rparr> in
           if \<exists>a \<in> set args. strdup lc a = None then (False, di\<lparr>di_arguments := No_argv, di_path := None\<rparr>)
           else (True, di\<lparr>di_arguments := Argv (map (strdup lc) args @ [None])\<rparr>))"

definition daemon_addparam :: "libc \<Rightarrow> string \<Rightarrow> daemon_info \<Rightarrow> (bool \<times> daemon_info) run" where
  "daemon_addparam lc param di =
     (let numargs = di_numarguments di + 1 in
      if di_arguments di = Freed_argv then Fault Use_after_free
      else if \<not> lc_alloc lc (8 * nat numargs) then Done (False, di)
      else case strdup lc param of
             None \<Rightarrow> Done (False, di\<lparr>di_arguments := Freed_argv\<rparr>)
           | Some dparam \<Rightarrow>
               let old = (case di_arguments di of Argv xs \<Rightarrow> xs | _ \<Rightarrow> []);
                   tmp = old @ replicate (nat numargs - length old) None in
               if numargs < 2 then Fault Out_of_bounds
               else Done (True, di\<lparr>di_numarguments := numargs,
                      di_arguments := Argv (tmp[nat (numargs - 2) := Some dparam, nat (numargs - 1) := None])\<rparr>))"

section \<open>Processes\<close>

text \<open>A child runs a program, or has ended with a wait status and not been waited for.\<close>

datatype proc = Running "string option" argv | Zombie int

definition running :: "proc option \<Rightarrow> bool" where
  "running p = (case p of Some (Running _ _) \<Rightarrow> True | _ \<Rightarrow> False)"

type_synonym procs = "int \<rightharpoonup> proc"

text \<open>
  What the kernel answers to a start: the two ends of the pipe, whether \<open>fdopen\<close> has a stream, and the process id
  of the child.
\<close>

record start_answer =
  sa_pipe :: "(int \<times> int) option"
  sa_fdopen :: bool
  sa_fork :: "int option"

definition close :: "int \<Rightarrow> int set \<Rightarrow> int set" where
  "close fd fds = (if fd = - 1 then fds else fds - {fd})"

text \<open>The descriptors of the last start are closed, the stream of it is forgotten.\<close>

definition daemon_start ::
  "start_answer \<Rightarrow> daemon_info \<times> int set \<times> procs \<Rightarrow> bool \<times> daemon_info \<times> int set \<times> procs" where
  "daemon_start sa st =
     (case st of (di, fds, procs) \<Rightarrow>
      let fds = close (snd (di_stderr_fd di)) (close (fst (di_stderr_fd di)) fds) in
      case sa_pipe sa of
        None \<Rightarrow> (False, di, fds, procs)
      | Some (r, w) \<Rightarrow>
          let di = di\<lparr>di_stderr_fd := (r, w), di_stderr := if sa_fdopen sa then Some r else None\<rparr>;
              fds = insert r (insert w fds) in
          case sa_fork sa of
            None \<Rightarrow> (False, di, fds, procs)
          | Some pid \<Rightarrow> (True, di\<lparr>di_stderr_fd := (r, - 1), di_pid := pid\<rparr>, close w fds,
                          procs(pid \<mapsto> Running (di_path di) (di_arguments di))))"

text \<open>
  \<open>kill\<close>: another error than a missing process is a parameter.  A process that has ended keeps its entry until it
  is waited for, and is still found.
\<close>

datatype kill_result = Kill_ok | Kill_esrch | Kill_other

definition kill_result :: "(int \<Rightarrow> bool) \<Rightarrow> procs \<Rightarrow> int \<Rightarrow> kill_result" where
  "kill_result denied procs pid = (if denied pid then Kill_other else if procs pid = None then Kill_esrch else Kill_ok)"

text \<open>\<open>daemon_stop\<close> up to its sleep: the process that gets \<open>SIGTERM\<close>, and whether it sleeps and goes on to \<open>SIGKILL\<close>.\<close>

definition daemon_stop_term :: "(int \<Rightarrow> bool) \<Rightarrow> nat \<Rightarrow> daemon_info \<Rightarrow> procs \<Rightarrow> int option \<times> bool" where
  "daemon_stop_term denied sleepdelay di procs =
     (let pgid = di_pid di in
      if pgid = - 1 then (None, False)
      else if kill_result denied procs pgid = Kill_other then (Some pgid, False)
      else if sleepdelay = 0 then (Some pgid, False)
      else (Some pgid, True))"

definition daemon_free :: "daemon_info \<Rightarrow> int set \<Rightarrow> (daemon_info \<times> int set) run" where
  "daemon_free di fds =
     (case di_arguments di of
        No_argv \<Rightarrow> Fault Null_deref
      | Freed_argv \<Rightarrow> Fault Use_after_free
      | Argv _ \<Rightarrow>
          Done (di\<lparr>di_path := None, di_arguments := No_argv, di_pid := - 1, di_stderr_fd := (- 1, - 1), di_stderr := None\<rparr>,
                close (snd (di_stderr_fd di)) (close (fst (di_stderr_fd di)) fds)))"

section \<open>The command line of tincd\<close>

text \<open>The part of \<open>fire_up_tincd_handler\<close> that builds it; the results of \<open>daemon_addparam\<close> are not looked at.\<close>

definition addparam_ignored :: "libc \<Rightarrow> string \<Rightarrow> daemon_info \<Rightarrow> daemon_info run" where
  "addparam_ignored lc param di = run_bind (daemon_addparam lc param di) (\<lambda>(_, di). Done di)"

definition tincd_command :: "libc \<Rightarrow> config \<Rightarrow> daemon_info \<Rightarrow> daemon_info run" where
  "tincd_command lc cfg di =
     (case (cf_tincd_bin cfg, cf_networkname cfg) of
        (Some bin, Some networkname) \<Rightarrow>
          let tincd_debugparam = take 31 (''--debug='' @ nat_dec (unat (cf_tincd_debuglevel cfg)));
              di = snd (daemon_init lc bin [bin, ''-n'', networkname, tincd_debugparam] di) in
          run_bind (if \<not> cf_oneshot cfg then addparam_ignored lc ''-D'' di else Done di) (\<lambda>di.
          case cf_tincd_user cfg of
            None \<Rightarrow> Done di
          | Some user \<Rightarrow> run_bind (addparam_ignored lc ''--user'' di) (addparam_ignored lc user))
      | _ \<Rightarrow> Fault Null_deref)"

text \<open>The command line it is meant to build.\<close>

definition tincd_args :: "config \<Rightarrow> string \<Rightarrow> string \<Rightarrow> string list" where
  "tincd_args cfg bin networkname =
     [bin, ''-n'', networkname, ''--debug='' @ nat_dec (unat (cf_tincd_debuglevel cfg))]
     @ (if cf_oneshot cfg then [] else [''-D''])
     @ (case cf_tincd_user cfg of None \<Rightarrow> [] | Some user \<Rightarrow> [''--user'', user])"

definition holds_args :: "daemon_info \<Rightarrow> string list \<Rightarrow> bool" where
  "holds_args di args \<longleftrightarrow> di_numarguments di = int (length args) + 1 \<and> di_arguments di = Argv (map Some args @ [None])"

lemma addparam_appends:
  assumes "alloc_total lc" and "holds_args di args"
  shows "\<exists>di'. addparam_ignored lc a di = Done di' \<and> holds_args di' (args @ [a]) \<and> di_path di' = di_path di
     \<and> di_pid di' = di_pid di \<and> di_stderr_fd di' = di_stderr_fd di"
proof -
  have "nat (di_numarguments di) = length args + 1" "di_numarguments di = int (length args) + 1"
    using assms(2) by (simp_all add: holds_args_def)
  then have "addparam_ignored lc a di = Done (di\<lparr>di_numarguments := int (length args) + 2,
      di_arguments := Argv (map Some (args @ [a]) @ [None])\<rparr>)"
    using assms by (simp add: addparam_ignored_def daemon_addparam_def strdup_def alloc_total_def holds_args_def Let_def
        nat_add_distrib list_update_append)
  then show ?thesis by (simp add: holds_args_def)
qed

lemma tincd_command_builds:
  assumes "alloc_total lc" and "cf_tincd_bin cfg = Some bin" and "cf_networkname cfg = Some networkname"
  shows "\<exists>di'. tincd_command lc cfg di = Done di' \<and> holds_args di' (tincd_args cfg bin networkname)
     \<and> di_path di' = Some bin \<and> di_pid di' = - 1 \<and> di_stderr_fd di' = (- 1, - 1)"
proof -
  let ?d = "''--debug='' @ nat_dec (unat (cf_tincd_debuglevel cfg))"
  have "unat (cf_tincd_debuglevel cfg) < 2 ^ 32" using unsigned_less [of "cf_tincd_debuglevel cfg"] by simp
  then have "length (nat_dec (unat (cf_tincd_debuglevel cfg))) \<le> 10" by (intro nat_dec_length) simp_all
  then have d: "take 31 ?d = ?d" by simp
  define di0 where "di0 = snd (daemon_init lc bin [bin, ''-n'', networkname, ?d] di)"
  have i: "holds_args di0 [bin, ''-n'', networkname, ?d]" "di_path di0 = Some bin" "di_pid di0 = - 1" "di_stderr_fd di0 = (- 1, - 1)"
    using assms(1) by (simp_all add: di0_def daemon_init_def holds_args_def strdup_def alloc_total_def Let_def)
  obtain di1 where d1: "(if \<not> cf_oneshot cfg then addparam_ignored lc ''-D'' di0 else Done di0) = Done di1"
    "holds_args di1 ([bin, ''-n'', networkname, ?d] @ (if cf_oneshot cfg then [] else [''-D'']))" "di_path di1 = Some bin" "di_pid di1 = - 1"
    "di_stderr_fd di1 = (- 1, - 1)"
    using addparam_appends [OF assms(1) i(1), of "''-D''"] i by (cases "cf_oneshot cfg") fastforce+
  have cmd: "tincd_command lc cfg di = run_bind (if \<not> cf_oneshot cfg then addparam_ignored lc ''-D'' di0 else Done di0)
      (\<lambda>di. case cf_tincd_user cfg of None \<Rightarrow> Done di
         | Some user \<Rightarrow> run_bind (addparam_ignored lc ''--user'' di) (addparam_ignored lc user))"
    unfolding tincd_command_def assms(2,3) prod.case option.case Let_def d di0_def [symmetric] ..
  show ?thesis
  proof (cases "cf_tincd_user cfg")
    case None
    with d1 show ?thesis unfolding cmd d1(1) by (simp add: tincd_args_def)
  next
    case (Some user)
    obtain di2 where d2: "addparam_ignored lc ''--user'' di1 = Done di2" "di_path di2 = Some bin" "di_pid di2 = - 1" "di_stderr_fd di2 = (- 1, - 1)"
      "holds_args di2 (([bin, ''-n'', networkname, ?d] @ (if cf_oneshot cfg then [] else [''-D''])) @ [''--user''])"
      using addparam_appends [OF assms(1) d1(2), of "''--user''"] d1(3-5) by auto
    obtain di3 where d3: "addparam_ignored lc user di2 = Done di3" "di_path di3 = Some bin" "di_pid di3 = - 1" "di_stderr_fd di3 = (- 1, - 1)"
      "holds_args di3 ((([bin, ''-n'', networkname, ?d] @ (if cf_oneshot cfg then [] else [''-D''])) @ [''--user'']) @ [user])"
      using addparam_appends [OF assms(1) d2(5), of user] d2(2-4) by auto
    show ?thesis unfolding cmd d1(1) using d2(1) d3 Some by (simp add: tincd_args_def)
  qed
qed

section \<open>What a start does\<close>

lemma daemon_start_success:
  assumes "sa_pipe sa = Some (r, w)" and "sa_fork sa = Some pid" and "r \<noteq> w" and "w \<notin> fds" and "w \<noteq> - 1"
  shows "daemon_start sa (di, fds, procs) =
     (True, di\<lparr>di_stderr_fd := (r, - 1), di_stderr := if sa_fdopen sa then Some r else None, di_pid := pid\<rparr>,
      insert r (close (snd (di_stderr_fd di)) (close (fst (di_stderr_fd di)) fds)),
      procs(pid \<mapsto> Running (di_path di) (di_arguments di)))"
  using assms by (auto simp: daemon_start_def Let_def close_def)

text \<open>
  the worker starts tincd with the command line the configuration asks for: the network, the debug level, no
  daemon mode of its own unless the client runs once, and the user to change to.  A successful start adds exactly
  one child, which runs that command line and whose process id is the one kept, and leaves one new descriptor
  open, the reading end of its error output, in place of the descriptors of the start before.
\<close>

theorem tincd_command_started:
  assumes "alloc_total lc" and "cf_tincd_bin cfg = Some bin" and "cf_networkname cfg = Some networkname"
    and "sa_pipe sa = Some (r, w)" and "sa_fork sa = Some pid" and "r \<noteq> w" and "w \<notin> fds" and "w \<noteq> - 1"
  shows "\<exists>di di'. tincd_command lc cfg daemon_zero = Done di \<and> di_pid di = - 1
     \<and> daemon_start sa (di, fds, procs) = (True, di', insert r fds, procs(pid \<mapsto> Running (Some bin)
          (Argv (map Some (tincd_args cfg bin networkname) @ [None]))))
     \<and> di_pid di' = pid \<and> di_stderr_fd di' = (r, - 1)"
proof -
  obtain di where di: "tincd_command lc cfg daemon_zero = Done di" "holds_args di (tincd_args cfg bin networkname)"
    "di_path di = Some bin" "di_pid di = - 1" "di_stderr_fd di = (- 1, - 1)"
    using tincd_command_builds [OF assms(1-3), of daemon_zero] by blast
  with daemon_start_success [OF assms(4-8), of di procs] show ?thesis by (simp add: holds_args_def close_def)
qed

definition daemon_config :: config where
  "daemon_config = sample_config\<lparr>cf_networkname := Some ''chaos'', cf_tincd_user := Some ''tinc''\<rparr>"

theorem tincd_command_started_witness:
  "\<exists>di di'. tincd_command plain_libc daemon_config daemon_zero = Done di \<and> di_pid di = - 1
     \<and> daemon_start \<lparr>sa_pipe = Some (3, 4), sa_fdopen = True, sa_fork = Some 4711\<rparr> (di, {0, 1, 2}, Map.empty)
         = (True, di', {3, 0, 1, 2}, [4711 \<mapsto> Running (Some ''tincd'')
              (Argv (map Some [''tincd'', ''-n'', ''chaos'', ''--debug=3'', ''-D'', ''--user'', ''tinc''] @ [None]))])
     \<and> di_pid di' = 4711 \<and> di_stderr_fd di' = (3, - 1)"
proof -
  have nat_dec_3: "nat_dec 3 = ''3''" by code_simp
  have c: "cf_tincd_bin daemon_config = Some ''tincd''" "cf_networkname daemon_config = Some ''chaos''"
    by (simp_all add: daemon_config_def sample_config_def config_alloc_def)
  have "tincd_args daemon_config ''tincd'' ''chaos'' = [''tincd'', ''-n'', ''chaos'', ''--debug=3'', ''-D'', ''--user'', ''tinc'']"
    using nat_dec_3 by (simp add: tincd_args_def daemon_config_def sample_config_def config_alloc_def)
  with tincd_command_started [OF alloc_total_plain c, where sa = "\<lparr>sa_pipe = Some (3, 4), sa_fdopen = True, sa_fork = Some 4711\<rparr>"
      and r = 3 and w = 4 and pid = 4711 and fds = "{0, 1, 2}" and procs = Map.empty]
  show ?thesis by simp
qed

end
