(* ===== verification/Fsdir.thy ===== *)
theory Fsdir
  imports Fs
begin

text \<open>
  \<^verbatim>\<open>src/fs.c\<close>: the operations on whole directories, the recursive copy and the removal of the regular files.
  Times of files are not modelled, so \<open>utimes\<close> is left out.
\<close>

section \<open>A file system\<close>

text \<open>
  Regular files, symbolic links and directories by absolute path without a slash at the end, and the current
  directory.  Permissions and the order of a directory are the parameter \<open>direnv\<close>:
  \<^item> \<open>de_list fs d\<close>: the names \<open>readdir\<close> gives for a directory, \<open>None\<close> when it cannot be opened;
  \<^item> \<open>de_chdir d\<close>, \<open>de_open_r p\<close>, \<open>de_unlink p\<close>: whether the caller may enter, read or remove;
  \<^item> \<open>de_getcwd\<close>: whether the current directory has a name.
\<close>

record fsys =
  fy_files :: files
  fy_links :: "string \<Rightarrow> string option"
  fy_dirs :: "string set"
  fy_cwd :: string

record direnv =
  de_list :: "fsys \<Rightarrow> string \<Rightarrow> string list option"
  de_chdir :: "string \<Rightarrow> bool"
  de_open_r :: "string \<Rightarrow> bool"
  de_unlink :: "string \<Rightarrow> bool"
  de_getcwd :: bool

definition ends_slash :: "string \<Rightarrow> bool" where
  "ends_slash p \<longleftrightarrow> p \<noteq> [] \<and> last p = CHR ''/''"

definition slashed :: "string \<Rightarrow> string" where
  "slashed p = (if ends_slash p then p else p @ ''/'')"

definition strip_slash :: "string \<Rightarrow> string" where
  "strip_slash p = (if ends_slash p \<and> 1 < length p then butlast p else p)"

definition abs_path :: "fsys \<Rightarrow> string \<Rightarrow> string" where
  "abs_path fs p =
     strip_slash (canon (case p of [] \<Rightarrow> [] | c # _ \<Rightarrow> if c = CHR ''/'' then p else slashed (fy_cwd fs) @ p))"

text \<open>Links are followed; a link here leads to a file or directory, not to another link.\<close>

definition resolve :: "fsys \<Rightarrow> string \<Rightarrow> string" where
  "resolve fs p = (case fy_links fs (abs_path fs p) of None \<Rightarrow> abs_path fs p | Some target \<Rightarrow> strip_slash (canon target))"

text \<open>What \<open>stat\<close> reports: a directory, or a regular file with its mode and size.\<close>

datatype stat_info = S_DIR | S_REG nat nat

definition os_stat :: "fsys \<Rightarrow> string \<Rightarrow> stat_info option" where
  "os_stat fs p =
     (if resolve fs p \<in> fy_dirs fs then Some S_DIR
      else map_option (\<lambda>(data, mode). S_REG mode (length data)) (fy_files fs (resolve fs p)))"

definition os_mkdir :: "string \<Rightarrow> fsys \<Rightarrow> mkdir_result \<times> fsys" where
  "os_mkdir p fs =
     (let q = abs_path fs p in
      if fy_files fs q \<noteq> None \<or> fy_links fs q \<noteq> None then (MK_ERR, fs)
      else case tree_mkdir q (fy_dirs fs) of (r, dirs) \<Rightarrow> (r, fs\<lparr>fy_dirs := dirs\<rparr>))"

definition os_chdir :: "direnv \<Rightarrow> string \<Rightarrow> fsys \<Rightarrow> bool \<times> fsys" where
  "os_chdir de p fs =
     (if resolve fs p \<in> fy_dirs fs \<and> de_chdir de (resolve fs p) then (True, fs\<lparr>fy_cwd := resolve fs p\<rparr>)
      else (False, fs))"

definition os_unlink :: "direnv \<Rightarrow> string \<Rightarrow> fsys \<Rightarrow> fsys" where
  "os_unlink de p fs =
     (let q = abs_path fs p in
      if de_unlink de q then fs\<lparr>fy_files := (fy_files fs)(q := None), fy_links := (fy_links fs)(q := None)\<rparr> else fs)"

definition dot_name :: "string \<Rightarrow> bool" where
  "dot_name n \<longleftrightarrow> n = ''.'' \<or> n = ''..''"

section \<open>The current directory\<close>

text \<open>The slash behind the name that has just been appended.\<close>

definition close_path :: "libc \<Rightarrow> strbuf \<Rightarrow> (bool \<times> strbuf) run" where
  "close_path lc s =
     (if content s = [] then Fault Out_of_bounds
      else if last (content s) = CHR ''/'' then Done (True, s) else string_putc lc s (CHR ''/''))"

text \<open>The loop over bigger and bigger blocks; when even the last is too small it reports true.\<close>

function alloc_cwd :: "libc \<Rightarrow> string \<Rightarrow> nat \<Rightarrow> strbuf \<Rightarrow> (bool \<times> strbuf) run" where
  "alloc_cwd lc cwd bta s =
     (if 65536 \<le> bta then Done (True, s)
      else if \<not> lc_alloc lc bta then Done (False, s)
      else if length cwd < bta then run_seq [\<lambda>s. string_concat lc s cwd, close_path lc] s
      else alloc_cwd lc cwd (bta + 4096) s)"
  by pat_completeness auto
termination
  by (relation "measure (\<lambda>(lc, cwd, bta, s). 65536 - bta)") auto

declare alloc_cwd.simps [simp del]

definition fs_get_cwd :: "libc \<Rightarrow> direnv \<Rightarrow> fsys \<Rightarrow> strbuf \<Rightarrow> (bool \<times> strbuf) run" where
  "fs_get_cwd lc de fs s =
     (if \<not> de_getcwd de then Done (False, s)
      else if length (fy_cwd fs) < 256 then run_seq [\<lambda>s. string_concat lc s (fy_cwd fs), close_path lc] s
      else alloc_cwd lc (fy_cwd fs) 4096 s)"

section \<open>Copying one file\<close>

text \<open>
  The loop of \<open>fs_cp_file\<close>: the bytes still to be read and the bytes written so far.  The descriptor is opened
  without \<open>O_TRUNC\<close>, so what an old file holds behind the bytes written stays.
\<close>

function copy_loop :: "sysenv \<Rightarrow> string \<Rightarrow> char list \<Rightarrow> char list \<Rightarrow> bool \<times> char list" where
  "copy_loop se dst data written =
     (if data = [] then (True, written)
      else let buf = take 65536 data;
               writtenbytes = min (length buf) (se_write se dst (length buf)) in
        if writtenbytes \<noteq> length buf then (False, written @ take writtenbytes buf)
        else copy_loop se dst (drop 65536 data) (written @ buf))"
  by pat_completeness auto
termination
  by (relation "measure (\<lambda>(se, dst, data, written). length data)") auto

declare copy_loop.simps [simp del]

text \<open>
  \<open>read\<close> on a directory fails with -1; writing -1 bytes fails with -1 too, which the loop takes for progress.
\<close>

definition fs_cp_file :: "sysenv \<Rightarrow> direnv \<Rightarrow> string \<Rightarrow> string \<Rightarrow> fsys \<Rightarrow> (bool \<times> fsys) run" where
  "fs_cp_file se de src dst fs =
     (case os_stat fs src of
        None \<Rightarrow> Done (False, fs)
      | Some st \<Rightarrow>
          let s = resolve fs src; d = resolve fs dst in
          if \<not> de_open_r de s then Done (False, fs)
          else if d \<in> fy_dirs fs \<or> \<not> se_open_w se d then Done (False, fs)
          else (case st of
              S_DIR \<Rightarrow> Diverge
            | S_REG mode _ \<Rightarrow>
                let data = fst (the (fy_files fs s)) in
                (case copy_loop se d data [] of
                   (ok, written) \<Rightarrow>
                     let file = (case fy_files fs d of
                           None \<Rightarrow> (written, mode)
                         | Some (old, oldmode) \<Rightarrow> (written @ drop (length written) old, oldmode))
                     in Done (ok, fs\<lparr>fy_files := (fy_files fs)(d \<mapsto> file)\<rparr>))))"

section \<open>Copying a directory\<close>

text \<open>The buffers of the two paths and the file system.\<close>

type_synonym cpstate = "strbuf \<times> strbuf \<times> fsys"

definition on_src :: "(strbuf \<Rightarrow> (bool \<times> strbuf) run) \<Rightarrow> cpstate \<Rightarrow> (bool \<times> cpstate) run" where
  "on_src f st = (case st of (src, dst, fs) \<Rightarrow> run_bind (f src) (\<lambda>(ok, src). Done (ok, src, dst, fs)))"

definition on_dst :: "(strbuf \<Rightarrow> (bool \<times> strbuf) run) \<Rightarrow> cpstate \<Rightarrow> (bool \<times> cpstate) run" where
  "on_dst f st = (case st of (src, dst, fs) \<Rightarrow> run_bind (f dst) (\<lambda>(ok, dst). Done (ok, src, dst, fs)))"

definition on_fs :: "(strbuf \<Rightarrow> strbuf \<Rightarrow> fsys \<Rightarrow> (bool \<times> fsys) run) \<Rightarrow> cpstate \<Rightarrow> (bool \<times> cpstate) run" where
  "on_fs f st = (case st of (src, dst, fs) \<Rightarrow> run_bind (f src dst fs) (\<lambda>(ok, fs). Done (ok, src, dst, fs)))"

definition ignore_result :: "('s \<Rightarrow> (bool \<times> 's) run) \<Rightarrow> 's \<Rightarrow> (bool \<times> 's) run" where
  "ignore_result f s = run_bind (f s) (\<lambda>(_, s). Done (True, s))"

text \<open>What happens before the entries of a directory are read.\<close>

definition enter_dir :: "libc \<Rightarrow> direnv \<Rightarrow> cpstate \<Rightarrow> (bool \<times> cpstate) run" where
  "enter_dir lc de =
     run_seq
       [on_src (string_ensurez lc), on_dst (string_ensurez lc),
        on_fs (\<lambda>src dst fs. Done (os_stat fs (string_cstr src) \<noteq> None, fs)),
        on_fs (\<lambda>src dst fs. Done (True, snd (os_mkdir (string_cstr dst) fs))),
        on_fs (\<lambda>src dst fs. Done (os_chdir de (string_cstr src) fs))]"

text \<open>The two names made longer for a directory inside, and cut back afterwards.\<close>

definition descend :: "libc \<Rightarrow> string \<Rightarrow> cpstate \<Rightarrow> (bool \<times> cpstate) run" where
  "descend lc n =
     run_seq
       [on_src (\<lambda>s. string_concat lc s n), on_src (fs_ensure_suffix lc),
        on_dst (\<lambda>s. string_concat lc s n), on_dst (fs_ensure_suffix lc)]"

definition ascend :: "libc \<Rightarrow> direnv \<Rightarrow> size_t \<Rightarrow> size_t \<Rightarrow> cpstate \<Rightarrow> (bool \<times> cpstate) run" where
  "ascend lc de srcdirlen dstdirlen =
     run_seq
       [on_src (\<lambda>s. Done (True, s\<lparr>sb_length := srcdirlen\<rparr>)), on_dst (\<lambda>s. Done (True, s\<lparr>sb_length := dstdirlen\<rparr>)),
        ignore_result (on_src (string_ensurez lc)), ignore_result (on_dst (string_ensurez lc)),
        on_fs (\<lambda>src dst fs. Done (os_chdir de (string_cstr src) fs))]"

definition copy_entry :: "libc \<Rightarrow> sysenv \<Rightarrow> direnv \<Rightarrow> string \<Rightarrow> size_t \<Rightarrow> cpstate \<Rightarrow> (bool \<times> cpstate) run" where
  "copy_entry lc se de n dstdirlen =
     run_seq
       [on_dst (\<lambda>s. string_concat lc s n), on_dst (string_ensurez lc),
        on_fs (\<lambda>src dst fs. fs_cp_file se de n (string_cstr dst) fs),
        on_dst (\<lambda>s. Done (True, s\<lparr>sb_length := dstdirlen\<rparr>))]"

text \<open>
  \<open>handledir\<close> and its loop over the entries.  The first argument bounds the nesting; paths have a maximal
  length, so no run goes deeper than that.
\<close>

fun handledir :: "nat \<Rightarrow> libc \<Rightarrow> sysenv \<Rightarrow> direnv \<Rightarrow> cpstate \<Rightarrow> (bool \<times> cpstate) run"
  and dir_entries :: "nat \<Rightarrow> libc \<Rightarrow> sysenv \<Rightarrow> direnv \<Rightarrow> string list \<Rightarrow> cpstate \<Rightarrow> (bool \<times> cpstate) run" where
  "handledir 0 lc se de st = Diverge"
| "handledir (Suc depth) lc se de st =
     seq_step (enter_dir lc de st) (\<lambda>(src, dst, fs).
       case de_list de fs (resolve fs (string_cstr src)) of
         None \<Rightarrow> Done (False, src, dst, fs)
       | Some names \<Rightarrow> dir_entries depth lc se de names (src, dst, fs))"
| "dir_entries depth lc se de [] st = Done (True, st)"
| "dir_entries depth lc se de (n # ns) (src, dst, fs) =
     (case os_stat fs n of
        None \<Rightarrow> dir_entries depth lc se de ns (src, dst, fs)
      | Some st \<Rightarrow>
          if dot_name n then dir_entries depth lc se de ns (src, dst, fs)
          else (case st of
              S_DIR \<Rightarrow>
                seq_step (descend lc n (src, dst, fs)) (\<lambda>st.
                seq_step (handledir depth lc se de st) (\<lambda>st.
                seq_step (ascend lc de (sb_length src) (sb_length dst) st) (\<lambda>st.
                  dir_entries depth lc se de ns st)))
            | S_REG _ _ \<Rightarrow>
                seq_step (copy_entry lc se de n (sb_length dst) (src, dst, fs)) (\<lambda>st.
                  dir_entries depth lc se de ns st)))"

text \<open>The absolute form of an argument, in a new buffer.\<close>

definition start_path :: "libc \<Rightarrow> direnv \<Rightarrow> fsys \<Rightarrow> string \<Rightarrow> (bool \<times> strbuf) run" where
  "start_path lc de fs p =
     run_seq [run_when (p = [] \<or> hd p \<noteq> CHR ''/'') (fs_get_cwd lc de fs), \<lambda>s. string_concat lc s p]
       (string_init lc 512 512)"

text \<open>Both operations go back to the directory they were called in, whatever happened.\<close>

definition keeping_cwd :: "libc \<Rightarrow> direnv \<Rightarrow> (fsys \<Rightarrow> (bool \<times> fsys) run) \<Rightarrow> fsys \<Rightarrow> (bool \<times> fsys) run" where
  "keeping_cwd lc de body fs =
     run_bind (fs_get_cwd lc de fs (string_init lc 512 512)) (\<lambda>(ok, curwd).
       if \<not> ok then Done (False, fs)
       else run_bind (body fs) (\<lambda>(retval, fs).
         run_bind (string_ensurez lc curwd) (\<lambda>(ok, curwd).
           if \<not> ok then Done (retval, fs)
           else Done (retval, snd (os_chdir de (string_cstr curwd) fs)))))"

definition fs_cp_r ::
  "nat \<Rightarrow> libc \<Rightarrow> sysenv \<Rightarrow> direnv \<Rightarrow> string \<Rightarrow> string \<Rightarrow> fsys \<Rightarrow> (bool \<times> fsys) run" where
  "fs_cp_r depth lc se de src dest =
     keeping_cwd lc de (\<lambda>fs.
       run_bind (seq_step (start_path lc de fs src) (fs_ensure_suffix lc)) (\<lambda>(ok, source).
         if \<not> ok then Done (False, fs)
         else run_bind (seq_step (start_path lc de fs dest) (fs_ensure_suffix lc)) (\<lambda>(ok, destination).
           if \<not> ok then Done (False, fs)
           else run_bind (handledir depth lc se de (source, destination, fs)) (\<lambda>(ok, _, _, fs). Done (ok, fs)))))"

section \<open>Removing the files of a directory\<close>

text \<open>One entry: its path is built behind the directory, and the length set back.\<close>

definition empty_entry :: "libc \<Rightarrow> direnv \<Rightarrow> string \<Rightarrow> strbuf \<times> fsys \<Rightarrow> (bool \<times> strbuf \<times> fsys) run" where
  "empty_entry lc de n st =
     (case st of (dst, fs) \<Rightarrow>
       (case os_stat fs n of
          None \<Rightarrow> Done (True, dst, fs)
        | Some info \<Rightarrow>
            if dot_name n then Done (True, dst, fs)
            else (case info of
                S_DIR \<Rightarrow> Done (True, dst, fs)
              | S_REG _ _ \<Rightarrow> run_bind (string_concat lc dst n) (\<lambda>(ok, dst').
                  if \<not> ok then Done (False, dst', fs)
                  else Done (True, dst'\<lparr>sb_length := sb_length dst\<rparr>, os_unlink de (string_cstr dst') fs)))))"

definition fs_empty_dir :: "libc \<Rightarrow> direnv \<Rightarrow> string \<Rightarrow> fsys \<Rightarrow> (bool \<times> fsys) run" where
  "fs_empty_dir lc de dest =
     keeping_cwd lc de (\<lambda>fs.
       run_bind (seq_step (start_path lc de fs dest) (string_ensurez lc)) (\<lambda>(ok, dst).
         if \<not> ok then Done (False, fs)
         else (case os_stat fs (string_cstr dst) of
             None \<Rightarrow> Done (True, fs)
           | Some (S_REG _ _) \<Rightarrow> Done (False, fs)
           | Some S_DIR \<Rightarrow> run_bind (fs_ensure_suffix lc dst) (\<lambda>(ok, dst).
               if \<not> ok then Done (False, fs)
               else (case os_chdir de (string_cstr dst) fs of (ok, fs) \<Rightarrow>
                 if \<not> ok then Done (False, fs)
                 else (case de_list de fs (resolve fs (string_cstr dst)) of
                     None \<Rightarrow> Done (False, fs)
                   | Some names \<Rightarrow>
                       run_bind (run_seq (map (empty_entry lc de) names) (dst, fs)) (\<lambda>(ok, _, fs). Done (ok, fs))))))))"

section \<open>Paths\<close>

text \<open>An absolute name of a directory other than the root, with single slashes and none at the end.\<close>

definition path_ok :: "string \<Rightarrow> bool" where
  "path_ok p \<longleftrightarrow> p \<noteq> [] \<and> hd p = CHR ''/'' \<and> last p \<noteq> CHR ''/'' \<and> canon p = p \<and> NUL \<notin> set p"

definition name_ok :: "string \<Rightarrow> bool" where
  "name_ok n \<longleftrightarrow> n \<noteq> [] \<and> CHR ''/'' \<notin> set n \<and> NUL \<notin> set n"

lemma canon_name: "CHR ''/'' \<notin> set n \<Longrightarrow> canon n = n"
  by (induction n rule: canon.induct) auto

lemma canon_slash_name: "CHR ''/'' \<notin> set n \<Longrightarrow> canon (CHR ''/'' # n) = CHR ''/'' # n"
  by (cases n) (auto simp: canon_name)

lemma canon_Cons: "canon (c # cs) = (if c = CHR ''/'' \<and> cs \<noteq> [] \<and> hd cs = CHR ''/'' then canon cs else c # canon cs)"
  by (cases cs) auto

lemma length_canon: "length (canon p) \<le> length p"
  by (induction p rule: canon.induct) auto

lemma canon_fixed_tail: "canon (c # cs) = c # cs \<Longrightarrow> canon cs = cs"
  using length_canon [of cs] by (auto simp: canon_Cons split: if_splits)

lemma canon_snoc:
  assumes "canon p = p" and "p \<noteq> []" and "last p \<noteq> CHR ''/''" and "CHR ''/'' \<notin> set n"
  shows "canon (p @ CHR ''/'' # n) = p @ CHR ''/'' # n"
  using assms
proof (induction p)
  case (Cons c cs)
  show ?case
  proof (cases "cs = []")
    case True
    with Cons.prems(3) show ?thesis by (simp add: canon_Cons [of c] canon_slash_name [OF Cons.prems(4)])
  next
    case False
    have t: "canon cs = cs" using Cons.prems(1) by (rule canon_fixed_tail)
    with Cons False have "canon (cs @ CHR ''/'' # n) = cs @ CHR ''/'' # n" by simp
    moreover have "\<not> (c = CHR ''/'' \<and> hd cs = CHR ''/'')"
      using Cons.prems(1) t False length_canon [of cs] by (auto simp: canon_Cons [of c] split: if_splits)
    ultimately show ?thesis using False by (simp add: canon_Cons [of c])
  qed
qed simp

lemma abs_path_dir:
  assumes "path_ok p"
  shows "abs_path fs p = p" "abs_path fs (p @ ''/'') = p"
proof -
  obtain c cs where p: "p = c # cs" "c = CHR ''/''" using assms by (cases p) (auto simp: path_ok_def)
  have "canon (p @ ''/'') = p @ ''/''" using canon_snoc [of p "[]"] assms by (simp add: path_ok_def)
  with assms p show "abs_path fs p = p" "abs_path fs (p @ ''/'') = p"
    by (auto simp: abs_path_def strip_slash_def ends_slash_def path_ok_def)
qed

lemma last_entry: "name_ok n \<Longrightarrow> last (p @ CHR ''/'' # n) \<noteq> CHR ''/''"
  by (auto simp: name_ok_def) (metis last_in_set)

lemma abs_path_entry:
  assumes "path_ok p" and "name_ok n"
  shows "abs_path fs (p @ CHR ''/'' # n) = p @ CHR ''/'' # n" "fy_cwd fs = p \<Longrightarrow> abs_path fs n = p @ CHR ''/'' # n"
proof -
  have c: "canon (p @ CHR ''/'' # n) = p @ CHR ''/'' # n" using assms by (intro canon_snoc) (auto simp: path_ok_def name_ok_def)
  obtain d ds where p: "p = d # ds" "d = CHR ''/''" using assms(1) by (cases p) (auto simp: path_ok_def)
  obtain e es where n: "n = e # es" "e \<noteq> CHR ''/''" using assms(2) by (cases n) (auto simp: name_ok_def)
  have s: "strip_slash (p @ CHR ''/'' # n) = p @ CHR ''/'' # n"
    using last_entry [OF assms(2), of p] by (simp add: strip_slash_def ends_slash_def)
  show "abs_path fs (p @ CHR ''/'' # n) = p @ CHR ''/'' # n" using c s p by (simp add: abs_path_def)
  show "abs_path fs n = p @ CHR ''/'' # n" if "fy_cwd fs = p"
    using that c s n assms(1) by (simp add: abs_path_def slashed_def ends_slash_def path_ok_def)
qed

section \<open>Buffers that hold a path\<close>

text \<open>A buffer with a path below a length limit, and enough room for another part.\<close>

definition holds :: "strbuf \<Rightarrow> string \<Rightarrow> bool" where
  "holds s p \<longleftrightarrow> buf_inv s \<and> content s = p \<and> length p < 2 ^ 32"

lemma holds_concat:
  assumes "holds s p" and "alloc_total lc" and "length (p @ x) < 2 ^ 32"
  obtains s' where "string_concat lc s x = Done (True, s')" "holds s' (p @ x)" "string_cstr s' = cstr (p @ x)"
    "sb_length s' = sb_length s + of_nat (length x)" "holds (s'\<lparr>sb_length := sb_length s\<rparr>) p"
proof -
  have "length (content s) + length x < buf_limit" using assms by (simp add: holds_def buf_limit_def)
  from string_concat_core [OF _ this, of lc] assms(1,2) obtain s' where
    s': "string_concat lc s x = Done (True, s')" "buf_inv s'" "content s' = p @ x" "zero_terminated s'"
    by (auto simp: holds_def)
  have l: "unat (sb_length s) = length p" "unat (sb_length s') = length p + length x"
    using assms(1) s'(2,3) buf_inv_length [of s] buf_inv_length [of s'] by (auto simp: holds_def)
  have "sb_length s' = sb_length s + of_nat (length x)"
  proof -
    have "unat (of_nat (length x) :: size_t) = length x" using assms(3) by (intro unat_of_nat_size_t) simp
    then have "unat (sb_length s + of_nat (length x)) = length p + length x"
      using l(1) assms(3) by (simp add: unat_plus_size_t)
    with l(2) show ?thesis by (simp add: word_unat_eq_iff)
  qed
  moreover have "holds (s'\<lparr>sb_length := sb_length s\<rparr>) p"
  proof -
    from s'(2) obtain b where b: "sb_s s' = Some b" "length b = unat (sb_size s')" "sb_length s' \<le> sb_size s'"
      using s'(4) by (auto simp: buf_inv_def buf_ok_def zero_terminated_def split: option.splits)
    have "take (length p + length x) b = p @ x" using s'(3) b(1) l(2) by (simp add: content_def)
    then have "take (length p) b = p" by (metis append_eq_conv_conj le_add1 min.absorb1 take_take)
    with s'(2) b l assms(1) show ?thesis
      by (auto simp: holds_def buf_inv_def buf_ok_def content_def word_le_nat_alt)
  qed
  ultimately show ?thesis
    using that s' assms(3) string_cstr_zero_terminated [of s'] by (simp add: holds_def)
qed

lemma holds_init: "alloc_total lc \<Longrightarrow> holds (string_init lc 512 512) []"
  by (simp add: holds_def string_init_inv alloc_total_def)

lemma holds_putc:
  assumes "holds s p" and "alloc_total lc" and "Suc (length p) < 2 ^ 32"
  obtains s' where "string_putc lc s c = Done (True, s')" "holds s' (p @ [c])"
proof -
  have "length (content s) + 1 \<le> buf_limit" using assms by (simp add: holds_def buf_limit_def)
  from string_putc_core [OF _ this, of lc c] assms that show ?thesis by (auto simp: holds_def)
qed

lemma holds_ensurez:
  assumes "holds s p" and "alloc_total lc" and "p \<noteq> []"
  obtains s' where "string_ensurez lc s = Done (True, s')" "holds s' p" "string_cstr s' = cstr p"
proof -
  have "length (content s) + 1 \<le> buf_limit" using assms by (simp add: holds_def buf_limit_def)
  from string_ensurez_total [OF _ this assms(2)] assms that show ?thesis by (auto simp: holds_def)
qed

lemma holds_suffix:
  assumes "holds s p" and "alloc_total lc" and "Suc (length p) < 2 ^ 32" and "p \<noteq> []" and "last p \<noteq> CHR ''/''"
  obtains s' where "fs_ensure_suffix lc s = Done (True, s')" "holds s' (p @ ''/'')" "string_cstr s' = cstr (p @ ''/'')"
proof -
  obtain c cs where p: "p = c # cs" using assms(4) by (cases p) auto
  obtain s1 where s1: "string_putc lc s (CHR ''/'') = Done (True, s1)" "holds s1 (p @ ''/'')"
    by (rule holds_putc [OF assms(1-3)])
  obtain s2 where s2: "string_ensurez lc s1 = Done (True, s2)" "holds s2 (p @ ''/'')" "string_cstr s2 = cstr (p @ ''/'')"
    by (rule holds_ensurez [OF s1(2) assms(2)]) simp
  have "fs_ensure_suffix lc s = Done (True, s2)"
    using assms(1,5) s1(1) s2(1) p by (simp add: fs_ensure_suffix_def holds_def)
  with s2 that show ?thesis by blast
qed

text \<open>The current directory: known, entered, and short enough for the array on the stack.\<close>

definition cwd_ok :: "direnv \<Rightarrow> fsys \<Rightarrow> bool" where
  "cwd_ok de fs \<longleftrightarrow> de_getcwd de \<and> path_ok (fy_cwd fs) \<and> length (fy_cwd fs) < 256 \<and> fy_cwd fs \<in> fy_dirs fs
     \<and> fy_links fs (fy_cwd fs) = None \<and> de_chdir de (fy_cwd fs)"

lemma get_cwd_holds:
  assumes "alloc_total lc" and "cwd_ok de fs"
  obtains s where "fs_get_cwd lc de fs (string_init lc 512 512) = Done (True, s)" "holds s (fy_cwd fs @ ''/'')"
proof -
  have len: "length ([] @ fy_cwd fs) < 2 ^ 32" using assms(2) by (simp add: cwd_ok_def)
  obtain s1 where s1: "string_concat lc (string_init lc 512 512) (fy_cwd fs) = Done (True, s1)" "holds s1 (fy_cwd fs)"
    by (rule holds_concat [OF holds_init [OF assms(1)] assms(1) len]) simp
  have "Suc (length (fy_cwd fs)) < 2 ^ 32" using assms(2) by (simp add: cwd_ok_def)
  from holds_putc [OF s1(2) assms(1) this, of "CHR ''/''"] obtain s2 where
    s2: "string_putc lc s1 (CHR ''/'') = Done (True, s2)" "holds s2 (fy_cwd fs @ ''/'')" by blast
  have "fs_get_cwd lc de fs (string_init lc 512 512) = Done (True, s2)"
    using assms(2) s1 s2(1) by (simp add: fs_get_cwd_def cwd_ok_def path_ok_def close_path_def holds_def)
  with s2(2) that show ?thesis by blast
qed

lemma start_path_holds:
  assumes "alloc_total lc" and "path_ok p" and "length p < 2 ^ 31"
  obtains s where "start_path lc de fs p = Done (True, s)" "holds s p" "string_cstr s = p"
proof -
  have len: "length ([] @ p) < 2 ^ 32" using assms(3) by simp
  have c: "cstr p = p" using assms(2) by (simp add: path_ok_def cstr_simps)
  obtain s1 where s1: "string_concat lc (string_init lc 512 512) p = Done (True, s1)" "holds s1 p" "string_cstr s1 = p"
    by (rule holds_concat [OF holds_init [OF assms(1)] assms(1) len]) (simp add: c)
  have "start_path lc de fs p = Done (True, s1)"
    using assms(2) s1(1) by (simp add: start_path_def run_when_def path_ok_def)
  with s1 that show ?thesis by blast
qed

text \<open>A body that leaves the directories and the link of the current directory alone is followed by the way back.\<close>

lemma keeping_cwd_returns:
  assumes lc: "alloc_total lc" and cwd: "cwd_ok de fs" and body: "body fs = Done (r, fs')"
    and same: "fy_dirs fs \<subseteq> fy_dirs fs'" "fy_links fs' (fy_cwd fs) = None"
  shows "keeping_cwd lc de body fs = Done (r, fs'\<lparr>fy_cwd := fy_cwd fs\<rparr>)"
proof -
  obtain s where s: "fs_get_cwd lc de fs (string_init lc 512 512) = Done (True, s)" "holds s (fy_cwd fs @ ''/'')"
    by (rule get_cwd_holds [OF lc cwd])
  have c: "cstr (fy_cwd fs @ ''/'') = fy_cwd fs @ ''/''" using cwd by (simp add: cwd_ok_def path_ok_def cstr_simps)
  obtain s' where s': "string_ensurez lc s = Done (True, s')" "string_cstr s' = fy_cwd fs @ ''/''"
    by (rule holds_ensurez [OF s(2) lc]) (simp_all add: c)
  have "resolve fs' (fy_cwd fs @ ''/'') = fy_cwd fs"
    using abs_path_dir(2) [of "fy_cwd fs" fs'] cwd same(2) by (simp add: resolve_def cwd_ok_def)
  then have "snd (os_chdir de (fy_cwd fs @ ''/'') fs') = fs'\<lparr>fy_cwd := fy_cwd fs\<rparr>"
    using cwd same(1) by (auto simp: os_chdir_def cwd_ok_def)
  with s(1) s' body show ?thesis by (simp add: keeping_cwd_def)
qed

section \<open>Emptying a directory\<close>

text \<open>What is left when the regular files among some names have been removed.\<close>

definition without :: "fsys \<Rightarrow> string \<Rightarrow> string list \<Rightarrow> files" where
  "without fs dir names =
     (\<lambda>p. if p \<notin> fy_dirs fs \<and> (\<exists>n \<in> set names. \<not> dot_name n \<and> p = dir @ CHR ''/'' # n) then None else fy_files fs p)"

lemma empty_entry_removes:
  assumes lc: "alloc_total lc" and dir: "path_ok dir" "fy_cwd fs = dir" and n: "name_ok n" "length n < 256"
    and link: "fy_links fs (dir @ CHR ''/'' # n) = None" and may: "\<And>p. de_unlink de p"
    and dst: "holds dst (dir @ ''/'')" "length dir < 2 ^ 31"
  obtains dst' where "empty_entry lc de n (dst, fs) = Done (True, dst', fs\<lparr>fy_files := without fs dir [n]\<rparr>)" "holds dst' (dir @ ''/'')"
proof -
  let ?p = "dir @ CHR ''/'' # n"
  have r: "resolve fs n = ?p" using abs_path_entry(2) [OF dir(1) n(1) dir(2)] link by (simp add: resolve_def)
  have keep: "fs\<lparr>fy_files := without fs dir [n]\<rparr> = fs" if "dot_name n \<or> ?p \<in> fy_dirs fs \<or> fy_files fs ?p = None"
  proof -
    have "without fs dir [n] = fy_files fs" using that by (auto simp: without_def fun_eq_iff)
    then show ?thesis by simp
  qed
  show ?thesis
  proof (cases "dot_name n \<or> ?p \<in> fy_dirs fs \<or> fy_files fs ?p = None")
    case True
    then have "empty_entry lc de n (dst, fs) = Done (True, dst, fs)"
      using r by (auto simp: empty_entry_def os_stat_def split: option.splits)
    with that dst(1) keep [OF True] show ?thesis by metis
  next
    case False
    then obtain data mode where f: "fy_files fs ?p = Some (data, mode)" by auto
    have c: "cstr (dir @ ''/'' @ n) = ?p" using dir(1) n(1) by (simp add: path_ok_def name_ok_def cstr_simps)
    have "length ((dir @ ''/'') @ n) < 2 ^ 32" using dst(2) n(2) by simp
    from holds_concat [OF dst(1) lc this] obtain dst' where
      d: "string_concat lc dst n = Done (True, dst')" "string_cstr dst' = ?p" "holds (dst'\<lparr>sb_length := sb_length dst\<rparr>) (dir @ ''/'')"
      using c by auto
    have "(fy_links fs)(?p := None) = fy_links fs" using link by auto
    then have "os_unlink de ?p fs = fs\<lparr>fy_files := (fy_files fs)(?p := None)\<rparr>"
      using abs_path_entry(1) [OF dir(1) n(1), of fs] may by (simp add: os_unlink_def Let_def)
    moreover have "without fs dir [n] = (fy_files fs)(?p := None)" using False by (auto simp: without_def fun_eq_iff)
    ultimately have "empty_entry lc de n (dst, fs) =
        Done (True, dst'\<lparr>sb_length := sb_length dst\<rparr>, fs\<lparr>fy_files := without fs dir [n]\<rparr>)"
      using False r f d(1,2) by (simp add: empty_entry_def os_stat_def)
    with d(3) that show ?thesis by blast
  qed
qed

lemma empty_entries_remove:
  assumes lc: "alloc_total lc" and dir: "path_ok dir" "length dir < 2 ^ 31" and may: "\<And>p. de_unlink de p"
    and "list_all (\<lambda>n. name_ok n \<and> length n < 256 \<and> fy_links fs (dir @ CHR ''/'' # n) = None) names"
    and "fy_cwd fs = dir" and "holds dst (dir @ ''/'')"
  shows "\<exists>dst'. run_seq (map (empty_entry lc de) names) (dst, fs) = Done (True, dst', fs\<lparr>fy_files := without fs dir names\<rparr>)"
  using assms(5-)
proof (induction names arbitrary: dst fs)
  case Nil
  have "without fs dir [] = fy_files fs" by (auto simp: without_def fun_eq_iff)
  then show ?case by simp
next
  case (Cons n names)
  from Cons.prems(1) have n: "name_ok n" "length n < 256" "fy_links fs (dir @ CHR ''/'' # n) = None"
    "list_all (\<lambda>n. name_ok n \<and> length n < 256 \<and> fy_links fs (dir @ CHR ''/'' # n) = None) names" by simp_all
  obtain dst1 where s: "empty_entry lc de n (dst, fs) = Done (True, dst1, fs\<lparr>fy_files := without fs dir [n]\<rparr>)" "holds dst1 (dir @ ''/'')"
    by (rule empty_entry_removes [OF lc dir(1) Cons.prems(2) n(1-3) may Cons.prems(3) dir(2)])
  have "without (fs\<lparr>fy_files := without fs dir [n]\<rparr>) dir names = without fs dir (n # names)"
    by (auto simp: without_def fun_eq_iff)
  with Cons.IH [of "fs\<lparr>fy_files := without fs dir [n]\<rparr>" dst1] n(4) Cons.prems(2) s show ?case by simp
qed

lemma empty_dir_removes:
  assumes lc: "alloc_total lc" and cwd: "cwd_ok de fs" and dir: "path_ok dir" "length dir < 2 ^ 31"
    and d: "dir \<in> fy_dirs fs" "fy_links fs dir = None" "de_chdir de dir" and may: "\<And>p. de_unlink de p"
    and l: "de_list de (fs\<lparr>fy_cwd := dir\<rparr>) dir = Some names"
    and names: "list_all (\<lambda>n. name_ok n \<and> length n < 256 \<and> fy_links fs (dir @ CHR ''/'' # n) = None) names"
  shows "fs_empty_dir lc de dir fs = Done (True, fs\<lparr>fy_files := without fs dir names\<rparr>)"
proof -
  let ?fs = "fs\<lparr>fy_cwd := dir\<rparr>"
  have ne: "dir \<noteq> []" "last dir \<noteq> CHR ''/''" "cstr dir = dir" "cstr (dir @ ''/'') = dir @ ''/''"
    using dir(1) by (simp_all add: path_ok_def cstr_simps)
  obtain s1 where s1: "start_path lc de fs dir = Done (True, s1)" "holds s1 dir" by (rule start_path_holds [OF lc dir])
  obtain s2 where s2: "string_ensurez lc s1 = Done (True, s2)" "holds s2 dir" "string_cstr s2 = dir"
    by (rule holds_ensurez [OF s1(2) lc ne(1)]) (simp add: ne(3))
  have "Suc (length dir) < 2 ^ 32" using dir(2) by simp
  from holds_suffix [OF s2(2) lc this ne(1,2)] obtain s3 where
    s3: "fs_ensure_suffix lc s2 = Done (True, s3)" "holds s3 (dir @ ''/'')" "string_cstr s3 = dir @ ''/''" using ne(4) by metis
  have r: "resolve fs dir = dir" "resolve fs (dir @ ''/'') = dir" "resolve ?fs (dir @ ''/'') = dir"
    using abs_path_dir [OF dir(1)] d(2) by (simp_all add: resolve_def)
  have "list_all (\<lambda>n. name_ok n \<and> length n < 256 \<and> fy_links ?fs (dir @ CHR ''/'' # n) = None) names" "fy_cwd ?fs = dir"
    using names by simp_all
  from empty_entries_remove [OF lc dir may this s3(2)] obtain dst where
    e: "run_seq (map (empty_entry lc de) names) (s3, ?fs) = Done (True, dst, ?fs\<lparr>fy_files := without ?fs dir names\<rparr>)" by blast
  have w: "without ?fs dir names = without fs dir names" by (auto simp: without_def fun_eq_iff)
  show ?thesis
    using keeping_cwd_returns [OF lc cwd, of _ True "?fs\<lparr>fy_files := without fs dir names\<rparr>"] s1(1) s2 s3 r d e l cwd w
    by (simp add: fs_empty_dir_def os_stat_def os_chdir_def cwd_ok_def del: run_seq.simps)
qed

section \<open>Properties\<close>

text \<open>
  \<open>fs_empty_dir\<close> on a directory without links removes exactly the regular files the directory lists, leaves
  directories inside, everything elsewhere and the current directory as they were, and reports true.
\<close>

theorem fs_empty_dir_correct:
  assumes "alloc_total lc" and "cwd_ok de fs" and "path_ok dir" and "length dir < 2 ^ 31"
    and "dir \<in> fy_dirs fs" and "fy_links fs dir = None" and "de_chdir de dir" and "\<And>p. de_unlink de p"
    and "de_list de (fs\<lparr>fy_cwd := dir\<rparr>) dir = Some names"
    and "list_all (\<lambda>n. name_ok n \<and> length n < 256 \<and> fy_links fs (dir @ CHR ''/'' # n) = None) names"
  shows "fs_empty_dir lc de dir fs = Done (True, fs\<lparr>fy_files :=
     (\<lambda>p. if p \<notin> fy_dirs fs \<and> (\<exists>n \<in> set names. \<not> dot_name n \<and> p = dir @ CHR ''/'' # n) then None else fy_files fs p)\<rparr>)"
  using empty_dir_removes [OF assms] by (simp only: without_def)

definition sample_dir :: "string list \<Rightarrow> direnv" where
  "sample_dir names = \<lparr>de_list = (\<lambda>_ _. Some names), de_chdir = (\<lambda>_. True), de_open_r = (\<lambda>_. True), de_unlink = (\<lambda>_. True), de_getcwd = True\<rparr>"

definition sample_fs :: fsys where
  "sample_fs = \<lparr>fy_files = [''/b/hosts/old'' \<mapsto> (''x'', 384), ''/b/tinc.conf'' \<mapsto> (''y'', 384)], fy_links = Map.empty,
     fy_dirs = {''/b'', ''/b/hosts'', ''/b/hosts/sub''}, fy_cwd = ''/b''\<rparr>"

lemma sample_cwd: "cwd_ok (sample_dir names) sample_fs"
  by (simp add: cwd_ok_def sample_dir_def sample_fs_def path_ok_def)

theorem fs_empty_dir_correct_witness:
  "fs_empty_dir plain_libc (sample_dir [''.'', ''old'', ''sub'', ''gone'']) ''/b/hosts'' sample_fs =
     Done (True, sample_fs\<lparr>fy_files :=
       (\<lambda>p. if p \<notin> fy_dirs sample_fs \<and> (\<exists>n \<in> set [''.'', ''old'', ''sub'', ''gone'']. \<not> dot_name n \<and> p = ''/b/hosts'' @ CHR ''/'' # n)
         then None else fy_files sample_fs p)\<rparr>)"
  by (rule fs_empty_dir_correct [OF alloc_total_plain sample_cwd])
    (simp_all add: path_ok_def name_ok_def sample_fs_def sample_dir_def)

end
