(* ===== verification/Startup.thy ===== *)
theory Startup
  imports Daemon Fsdir
begin

text \<open>
  What the client does before it enters its loop: the options of \<^verbatim>\<open>src/main.c\<close>, the device of \<^verbatim>\<open>src/tun.c\<close>, the pid
  file of \<^verbatim>\<open>src/pidfile.c\<close>, and going into the background as \<^verbatim>\<open>src/daemon.c\<close> does it.
\<close>

section \<open>Options\<close>

text \<open>
  What successive calls of \<open>getopt\<close> with \<open>"c:p:aofrd"\<close> return, with the argument of an option, for the words behind
  the name of the program: the GNU library goes on behind words that are not options, up to a word \<open>--\<close>.
\<close>

function getopt_words :: "string list \<Rightarrow> (char \<times> string) list"
  and getopt_cluster :: "string \<Rightarrow> string list \<Rightarrow> (char \<times> string) list" where
  "getopt_words [] = []"
| "getopt_words (a # as) =
     (if a = ''--'' then []
      else if length a < 2 \<or> hd a \<noteq> CHR ''-'' then getopt_words as
      else getopt_cluster (tl a) as)"
| "getopt_cluster [] as = getopt_words as"
| "getopt_cluster (c # cs) as =
     (if c \<in> set ''cp''
      then (if cs \<noteq> [] then (c, cs) # getopt_words as
            else (case as of [] \<Rightarrow> [(CHR ''?'', [])] | b # bs \<Rightarrow> (c, b) # getopt_words bs))
      else (if c \<in> set ''aofrd'' then c else CHR ''?'', []) # getopt_cluster cs as)"
  by pat_completeness auto
termination
  by (relation "measure (\<lambda>x. case x of Inl as \<Rightarrow> 2 * sum_list (map (Suc \<circ> length) as)
      | Inr (cs, as) \<Rightarrow> Suc (2 * length cs + 2 * sum_list (map (Suc \<circ> length) as)))") auto

fun main_parse_opts :: "libc \<Rightarrow> (char \<times> string) list \<Rightarrow> config \<Rightarrow> config run" where
  "main_parse_opts lc [] cfg = Done cfg"
| "main_parse_opts lc ((c, optarg) # opts) cfg =
     (if c = CHR ''c'' then main_parse_opts lc opts (cfg\<lparr>cf_configfile := strdup lc optarg\<rparr>)
      else if c = CHR ''p'' then main_parse_opts lc opts (cfg\<lparr>cf_pidfile := strdup lc optarg\<rparr>)
      else if c = CHR ''a'' \<or> c = CHR ''o'' then main_parse_opts lc opts (cfg\<lparr>cf_daemonmode := False, cf_oneshot := True\<rparr>)
      else if c = CHR ''f'' \<or> c = CHR ''r'' then main_parse_opts lc opts (cfg\<lparr>cf_daemonmode := False, cf_oneshot := False\<rparr>)
      else if c = CHR ''d'' then main_parse_opts lc opts (cfg\<lparr>cf_daemonmode := True, cf_oneshot := False\<rparr>)
      else Exit 1)"

definition main_check_root :: "nat \<Rightarrow> bool" where
  "main_check_root uid \<longleftrightarrow> uid = 0"

section \<open>The tun device\<close>

unbundle bit_operations_syntax

definition tun_gnu_dev_makedev :: "32 word \<Rightarrow> 32 word \<Rightarrow> 64 word" where
  "tun_gnu_dev_makedev major minor =
     ucast ((minor AND 0xff) OR push_bit 8 (major AND 0xfff))
     OR push_bit 12 (ucast (minor AND NOT 0xff)) OR push_bit 32 (ucast (major AND NOT 0xfff))"

text \<open>How the kernel interface takes a device number apart.\<close>

definition gnu_dev_major :: "64 word \<Rightarrow> 32 word" where
  "gnu_dev_major dev = ucast ((drop_bit 8 dev AND 0xfff) OR (drop_bit 32 dev AND NOT 0xfff))"

definition gnu_dev_minor :: "64 word \<Rightarrow> 32 word" where
  "gnu_dev_minor dev = ucast ((dev AND 0xff) OR (drop_bit 12 dev AND NOT 0xff))"

text \<open>Whether a path exists, whether \<open>mkdir\<close> works, and whether \<open>mknod\<close> works for a device number.\<close>

record tunenv =
  te_exists :: "string \<Rightarrow> bool"
  te_mkdir :: "string \<Rightarrow> bool"
  te_mknod :: "string \<Rightarrow> 64 word \<Rightarrow> bool"

definition TUN_DEV :: string where "TUN_DEV = ''/dev/net/tun''"
definition TUN_PATH :: string where "TUN_PATH = ''/dev/net''"

definition tun_create_dev :: "tunenv \<Rightarrow> bool" where
  "tun_create_dev te =
     (if \<not> te_exists te TUN_PATH \<and> \<not> te_mkdir te TUN_PATH then False
      else if \<not> te_mknod te TUN_DEV (tun_gnu_dev_makedev 10 200) then False
      else True)"

definition tun_check_or_create :: "tunenv \<Rightarrow> bool" where
  "tun_check_or_create te = (if \<not> te_exists te TUN_DEV then tun_create_dev te else True)"

section \<open>The pid file\<close>

text \<open>The process id, and whether \<open>fprintf\<close> and \<open>chmod\<close> succeed; a write error shows when the file is closed.\<close>

record pidenv =
  pe_pid :: nat
  pe_fprintf :: bool
  pe_chmod :: bool

definition lockfile_name :: "string \<Rightarrow> string" where
  "lockfile_name filename = take 511 (filename @ ''.lck'')"

definition set_file_mode :: "string \<Rightarrow> nat \<Rightarrow> files \<Rightarrow> files" where
  "set_file_mode path mode files = (case files path of None \<Rightarrow> files | Some (data, _) \<Rightarrow> files(path \<mapsto> (data, mode)))"

definition pidfile_create_pidfile :: "pidenv \<Rightarrow> sysenv \<Rightarrow> string \<Rightarrow> files \<Rightarrow> bool \<times> files" where
  "pidfile_create_pidfile pe se filename files =
     (let lockfile = canon (lockfile_name filename) in
      if files lockfile \<noteq> None \<or> \<not> se_open_w se lockfile then (False, files)
      else let files = files(lockfile \<mapsto> ([], 384)); unlock = (\<lambda>files. files(lockfile := None)) in
           if \<not> se_open_w se filename then (False, unlock files)
           else if \<not> pe_fprintf pe then (False, unlock (snd (fs_writecontents se filename [] 420 files)))
           else (case fs_writecontents se filename (nat_dec (pe_pid pe) @ ''\<newline>'') 420 files of
               (ok, files) \<Rightarrow>
                 if \<not> ok then (False, unlock files)
                 else (True, unlock (if pe_chmod pe then set_file_mode (canon filename) 384 files else files))))"

section \<open>Into the background\<close>

text \<open>Descriptors are numbers below a limit; a new one is the smallest that is free.\<close>

definition open_null :: "nat \<Rightarrow> nat set \<Rightarrow> int \<times> nat set" where
  "open_null limit fds =
     (case find (\<lambda>n. n \<notin> fds) [0..<limit] of None \<Rightarrow> (- 1, fds) | Some n \<Rightarrow> (int n, insert n fds))"

definition close_big :: "int \<Rightarrow> nat set \<Rightarrow> nat set" where
  "close_big fd fds = (if fd > 2 then fds - {nat fd} else fds)"

definition fix_fds :: "nat \<Rightarrow> nat set \<Rightarrow> nat set" where
  "fix_fds limit fds =
     (case open_null limit fds of (fd0, fds) \<Rightarrow>
      case open_null limit fds of (fd1, fds) \<Rightarrow>
      case open_null limit fds of (fd2, fds) \<Rightarrow> close_big fd2 (close_big fd1 (close_big fd0 fds)))"

text \<open>
  \<open>daemonize\<close>, in the process in which it goes on: the results of the two calls of \<open>fork\<close> and of \<open>setsid\<close>.
\<close>

definition daemonize :: "int \<Rightarrow> int \<Rightarrow> bool \<Rightarrow> nat \<Rightarrow> nat set \<Rightarrow> (bool \<times> nat set) run" where
  "daemonize fork1 fork2 setsid limit fds =
     (if fork1 < 0 then Done (False, fds)
      else if fork1 > 0 then Exit 0
      else if fork2 < 0 then Exit 1
      else if fork2 > 0 then Exit 0
      else if \<not> setsid then Done (False, fds)
      else Done (True, fix_fds limit (fds - {0, 1, 2})))"

section \<open>Facts\<close>

lemma byte_masks: "(0xff :: 'a :: len word) = mask 8" "(0xfff :: 'a :: len word) = mask 12"
  by (simp_all add: mask_eq_exp_minus_1)

lemma dev_major: "gnu_dev_major (tun_gnu_dev_makedev major minor) = major"
  unfolding gnu_dev_major_def tun_gnu_dev_makedev_def byte_masks
  by (rule bit_word_eqI) (auto simp: bit_simps)

lemma dev_minor: "gnu_dev_minor (tun_gnu_dev_makedev major minor) = minor"
  unfolding gnu_dev_minor_def tun_gnu_dev_makedev_def byte_masks
  by (rule bit_word_eqI) (auto simp: bit_simps)

text \<open>
  the device number that is made keeps the whole major and minor number: taken apart as the kernel interface
  does it, it gives back both, for all 32-bit numbers.
\<close>

theorem tun_makedev_roundtrip:
  "gnu_dev_major (tun_gnu_dev_makedev major minor) = major \<and> gnu_dev_minor (tun_gnu_dev_makedev major minor) = minor"
  by (simp add: dev_major dev_minor)

lemma open_null_cases:
  obtains n where "open_null limit fds = (int n, insert n fds)" "n < limit" "n \<notin> fds" "\<And>m. m < n \<Longrightarrow> m \<in> fds"
  | "open_null limit fds = (- 1, fds)" "\<And>m. m < limit \<Longrightarrow> m \<in> fds"
proof (cases "find (\<lambda>n. n \<notin> fds) [0..<limit]")
  case None
  with that(2) show ?thesis by (simp add: open_null_def find_None_iff)
next
  case (Some n)
  then obtain i where "i < length [0..<limit]" "[0..<limit] ! i \<notin> fds" "n = [0..<limit] ! i" "\<And>j. j < i \<Longrightarrow> [0..<limit] ! j \<in> fds"
    by (auto simp: find_Some_iff)
  with that(1) [of n] Some show ?thesis by (simp add: open_null_def)
qed

lemma open_null_new: "open_null limit fds = (a, fds1) \<Longrightarrow> fds1 = fds \<union> {n. int n = a} \<and> (\<forall>n. int n = a \<longrightarrow> n \<notin> fds)"
  by (cases rule: open_null_cases [of limit fds]) auto

lemma close_big_removes: "close_big fd fds = fds - {n. int n = fd \<and> 2 < n}"
  by (auto simp: close_big_def)

lemma open_null_fills: "open_null limit fds = (a, fds1) \<Longrightarrow> \<forall>m < k. m \<in> fds \<Longrightarrow> k < limit \<Longrightarrow> \<forall>m < Suc k. m \<in> fds1"
  by (cases rule: open_null_cases [of limit fds]) (auto simp: less_Suc_eq, metis linorder_cases)

lemma fix_fds_adds:
  assumes "3 \<le> limit"
  shows "fix_fds limit fds = fds \<union> {0, 1, 2}"
proof -
  obtain a fds1 where a: "open_null limit fds = (a, fds1)" by (cases "open_null limit fds")
  obtain b fds2 where b: "open_null limit fds1 = (b, fds2)" by (cases "open_null limit fds1")
  obtain c fds3 where c: "open_null limit fds2 = (c, fds3)" by (cases "open_null limit fds2")
  have "\<forall>m < Suc 0. m \<in> fds1" using open_null_fills [OF a, of 0] assms by simp
  then have "\<forall>m < Suc (Suc 0). m \<in> fds2" using open_null_fills [OF b, of "Suc 0"] assms by simp
  then have "\<forall>m < Suc (Suc (Suc 0)). m \<in> fds3" using open_null_fills [OF c, of "Suc (Suc 0)"] assms by simp
  then have low: "0 \<in> fds3" "1 \<in> fds3" "2 \<in> fds3" by simp_all
  have r: "fix_fds limit fds = close_big c (close_big b (close_big a fds3))" by (simp add: fix_fds_def a b c)
  define P where "P n \<longleftrightarrow> int n = a \<or> int n = b \<or> int n = c" for n
  have new: "n \<in> fds3 \<longleftrightarrow> n \<in> fds \<or> P n" "P n \<Longrightarrow> n \<notin> fds" for n
    using open_null_new [OF a] open_null_new [OF b] open_null_new [OF c] unfolding P_def by blast+
  have removed: "n \<in> fix_fds limit fds \<longleftrightarrow> n \<in> fds3 \<and> \<not> (P n \<and> 2 < n)" for n
    unfolding r close_big_removes P_def by blast
  have "\<not> 2 < n \<longleftrightarrow> n \<in> {0, 1, 2}" for n :: nat by auto
  with new low removed show ?thesis by blast
qed

lemma canon_extend:
  assumes "CHR ''/'' \<notin> set x"
  shows "canon (p @ x) = canon p @ x"
proof (induction p)
  case Nil
  with assms show ?case by (simp add: canon_name)
next
  case (Cons c cs)
  have "x = [] \<or> hd x \<noteq> CHR ''/''" using assms by (cases x) auto
  with Cons show ?case by (cases cs) (auto simp: canon_Cons)
qed

text \<open>The last argument of an option, and the mode of the last option that sets it: daemon mode and oneshot.\<close>

definition last_arg :: "char \<Rightarrow> (char \<times> string) list \<Rightarrow> string option \<Rightarrow> string option" where
  "last_arg c opts old = fold (\<lambda>(d, a) x. if d = c then Some a else x) opts old"

definition mode_of :: "char \<Rightarrow> (bool \<times> bool) option" where
  "mode_of c = (if c \<in> set ''ao'' then Some (False, True) else if c \<in> set ''fr'' then Some (False, False)
     else if c = CHR ''d'' then Some (True, False) else None)"

definition last_mode :: "(char \<times> string) list \<Rightarrow> bool \<times> bool \<Rightarrow> bool \<times> bool" where
  "last_mode opts old = fold (\<lambda>(c, _) x. case mode_of c of None \<Rightarrow> x | Some m \<Rightarrow> m) opts old"

lemma last_arg_Cons: "last_arg c ((d, a) # opts) old = last_arg c opts (if d = c then Some a else old)"
  by (simp add: last_arg_def)

lemma last_mode_Cons: "last_mode ((c, a) # opts) old = last_mode opts (case mode_of c of None \<Rightarrow> old | Some m \<Rightarrow> m)"
  by (simp add: last_mode_def)

definition known_option :: "char \<Rightarrow> bool" where
  "known_option c \<longleftrightarrow> c \<in> set ''cpaofrd''"

definition with_opts :: "(char \<times> string) list \<Rightarrow> config \<Rightarrow> config" where
  "with_opts opts cfg =
     cfg\<lparr>cf_configfile := last_arg (CHR ''c'') opts (cf_configfile cfg), cf_pidfile := last_arg (CHR ''p'') opts (cf_pidfile cfg),
       cf_daemonmode := fst (last_mode opts (cf_daemonmode cfg, cf_oneshot cfg)),
       cf_oneshot := snd (last_mode opts (cf_daemonmode cfg, cf_oneshot cfg))\<rparr>"

lemma parse_opts_step:
  assumes "alloc_total lc"
  shows "main_parse_opts lc ((c, a) # opts) cfg = (if \<not> known_option c then Exit 1 else main_parse_opts lc opts
     (if c = CHR ''c'' then cfg\<lparr>cf_configfile := Some a\<rparr> else if c = CHR ''p'' then cfg\<lparr>cf_pidfile := Some a\<rparr>
      else cfg\<lparr>cf_daemonmode := fst (the (mode_of c)), cf_oneshot := snd (the (mode_of c))\<rparr>))"
  using assms by (simp add: known_option_def mode_of_def strdup_def alloc_total_def)

lemma with_opts_Cons:
  "with_opts ((c, a) # opts) cfg = with_opts opts
     (if c = CHR ''c'' then cfg\<lparr>cf_configfile := Some a\<rparr> else if c = CHR ''p'' then cfg\<lparr>cf_pidfile := Some a\<rparr>
      else cfg\<lparr>cf_daemonmode := fst (the (mode_of c)), cf_oneshot := snd (the (mode_of c))\<rparr>)" if "known_option c"
  using that by (auto simp: with_opts_def last_arg_Cons last_mode_Cons known_option_def mode_of_def)

lemma parse_opts_spec:
  assumes "alloc_total lc"
  shows "main_parse_opts lc opts cfg = (if \<forall>(c, a) \<in> set opts. known_option c then Done (with_opts opts cfg) else Exit 1)"
proof (induction opts arbitrary: cfg)
  case Nil
  show ?case by (simp add: with_opts_def last_arg_def last_mode_def)
next
  case (Cons o' opts)
  obtain c a where o': "o' = (c, a)" by (cases o')
  show ?case unfolding o' parse_opts_step [OF assms] Cons.IH by (auto simp: with_opts_Cons)
qed

text \<open>
  C22: the options are read as the usage text says, whatever their order: the last \<open>-c\<close> and the last \<open>-p\<close> count, the
  last of \<open>-a -o -f -r -d\<close> decides between one run, running in the foreground and running as a daemon, and an
  unknown option, or an option without its argument, ends the client with 1.
\<close>

theorem main_parse_opts_correct:
  assumes "alloc_total lc"
  shows "main_parse_opts lc (getopt_words argv) cfg =
     (if \<forall>(c, a) \<in> set (getopt_words argv). known_option c then Done (with_opts (getopt_words argv) cfg) else Exit 1)"
  by (rule parse_opts_spec [OF assms])

theorem main_parse_opts_correct_witness:
  "main_parse_opts plain_libc (getopt_words [''-d'', ''x'', ''-rp/run/c.pid'', ''-c'', ''a.conf'']) (config_alloc ''/etc/tinc'')
     = Done ((config_alloc ''/etc/tinc'')\<lparr>cf_configfile := Some ''a.conf'', cf_pidfile := Some ''/run/c.pid'',
         cf_daemonmode := False, cf_oneshot := False\<rparr>)"
proof -
  have "getopt_words [''-d'', ''x'', ''-rp/run/c.pid'', ''-c'', ''a.conf'']
     = [(CHR ''d'', []), (CHR ''r'', []), (CHR ''p'', ''/run/c.pid''), (CHR ''c'', ''a.conf'')]" by simp
  with main_parse_opts_correct [OF alloc_total_plain, of "[''-d'', ''x'', ''-rp/run/c.pid'', ''-c'', ''a.conf'']" "config_alloc ''/etc/tinc''"]
  show ?thesis by (simp add: known_option_def with_opts_def last_arg_def last_mode_def mode_of_def)
qed

section \<open>The pid file holds the process id\<close>

lemma lockfile_path:
  assumes "length filename \<le> 507"
  shows "canon (lockfile_name filename) = canon filename @ ''.lck''"
  using assms canon_extend [of "''.lck''" filename] by (simp add: lockfile_name_def)

lemma granted_write:
  assumes "env_grants se"
  shows "se_open_w se p" and "fs_writecontents se filename data 420 fl
     = (True, fl(canon filename \<mapsto> (data, case fl (canon filename) of None \<Rightarrow> 420 | Some (_, old) \<Rightarrow> old)))"
proof -
  have "length data \<le> se_write se filename (length data)" using assms by (auto simp: env_grants_def)
  then show "se_open_w se p" "fs_writecontents se filename data 420 fl
     = (True, fl(canon filename \<mapsto> (data, case fl (canon filename) of None \<Rightarrow> 420 | Some (_, old) \<Rightarrow> old)))"
    using assms by (simp_all add: fs_writecontents_def Let_def min_absorb1 env_grants_def)
qed

lemma pidfile_spec:
  assumes "length filename \<le> 507" and "env_grants se" and "pe_fprintf pe" and "pe_chmod pe"
    and "files (canon filename @ ''.lck'') = None"
  shows "pidfile_create_pidfile pe se filename files = (True, files(canon filename \<mapsto> (nat_dec (pe_pid pe) @ ''\<newline>'', 384)))"
proof -
  have d: "canon filename @ ''.lck'' \<noteq> canon filename" by simp
  show ?thesis
    using assms(3-5) d lockfile_path [OF assms(1)]
    by (simp add: pidfile_create_pidfile_def Let_def granted_write [OF assms(2)] set_file_mode_def fun_eq_iff)
qed

text \<open>
  with the disk granted and no lock in the way, \<open>pidfile_create_pidfile\<close> returns true and changes one file: the
  pid file holds the process id and a newline, readable by root only, and the lock is gone.  A lock file that is
  there already makes it return false and change nothing.
\<close>

theorem pidfile_create_correct:
  assumes "length filename \<le> 507" and "env_grants se" and "pe_fprintf pe" and "pe_chmod pe"
  shows "pidfile_create_pidfile pe se filename files =
     (if files (canon filename @ ''.lck'') = None then (True, files(canon filename \<mapsto> (nat_dec (pe_pid pe) @ ''\<newline>'', 384)))
      else (False, files))"
  using pidfile_spec [OF assms] lockfile_path [OF assms(1)] by (simp add: pidfile_create_pidfile_def Let_def)

theorem pidfile_create_correct_witness:
  "pidfile_create_pidfile \<lparr>pe_pid = 4711, pe_fprintf = True, pe_chmod = True\<rparr> plain_env ''/run/c.pid'' Map.empty =
     (True, [''/run/c.pid'' \<mapsto> (nat_dec 4711 @ ''\<newline>'', 384)])"
  using pidfile_create_correct [OF _ env_grants_plain, of "''/run/c.pid''" "\<lparr>pe_pid = 4711, pe_fprintf = True, pe_chmod = True\<rparr>" Map.empty]
  by simp

text \<open>
  C23: a pid file name of 511 characters is its own lock file, because the name of the lock is cut off: the pid file
  is written and removed again, and the result is true.
\<close>

theorem pidfile_long_name_vanishes:
  assumes "length filename = 511" and "env_grants se" and "pe_fprintf pe" and "files (canon filename) = None"
  shows "pidfile_create_pidfile pe se filename files = (True, files)"
proof -
  have l: "lockfile_name filename = filename" using assms(1) by (simp add: lockfile_name_def)
  show ?thesis
    using assms(3,4) by (simp add: pidfile_create_pidfile_def Let_def granted_write [OF assms(2)] l set_file_mode_def fun_eq_iff)
qed

theorem pidfile_long_name_vanishes_witness:
  "pidfile_create_pidfile \<lparr>pe_pid = 4711, pe_fprintf = True, pe_chmod = True\<rparr> plain_env (replicate 511 (CHR ''p'')) Map.empty = (True, Map.empty)"
  by (rule pidfile_long_name_vanishes) (simp_all add: env_grants_plain)

end
