(* ===== verification/Worker.thy ===== *)
theory Worker
  imports Daemon
begin

text \<open>
  The process behind \<open>fire_up_tincd_handler\<close> of \<^verbatim>\<open>src/main.c\<close>: it starts, restarts and stops tincd for the main
  process, which sends it one byte commands through a pipe.  Its signal handlers run between, and inside, the calls
  that sleep or wait, so the state keeps the stack of the calls that have not returned.  A step runs from one such
  point to the next.
\<close>

section \<open>The state\<close>

datatype command = START_TINCD | RESTART_TINCD | STOP | SIGNAL_OLD_TINCD

text \<open>What follows a \<open>daemon_stop\<close>: the rest of \<open>HANDLER_RESTART_TINCD\<close>, or \<open>exit\<close>.\<close>

datatype continuation = Then_ifdown | Then_exit int

text \<open>
  The calls that have not returned, the innermost first: \<open>sigchild\<close> in \<open>waitpid\<close>, and in front of its
  \<open>daemon_start\<close>; \<open>daemon_stop\<close> asleep between \<open>SIGTERM\<close> and \<open>SIGKILL\<close>; \<open>main_terminate_old_tincd\<close> asleep.
\<close>

datatype frame = In_wait | In_restart | In_stop int continuation | In_old int

text \<open>What has happened, for the properties.\<close>

datatype event = Ev_start int | Ev_kill int int | Ev_reap int int | Ev_ifdown

abbreviation SIGKILL :: int where "SIGKILL \<equiv> 9"
abbreviation SIGTERM :: int where "SIGTERM \<equiv> 15"

text \<open>
  \<open>wk_sigchld\<close> tells whether \<open>sigchild\<close> is installed; otherwise \<open>SIGCHLD\<close> is ignored and the kernel drops children
  that end.  \<open>wk_read\<close> and \<open>wk_trace\<close> are history.
\<close>

record worker =
  wk_di :: daemon_info
  wk_fds :: "int set"
  wk_procs :: procs
  wk_files :: files
  wk_sigchld :: bool
  wk_pending :: bool
  wk_stack :: "frame list"
  wk_pipe :: "command list"
  wk_closed :: bool
  wk_exit :: "int option"
  wk_read :: "command list"
  wk_trace :: "event list"

record worker_env =
  we_libc :: libc
  we_sys :: sysenv
  we_cfg :: config
  we_denied :: "int \<Rightarrow> bool"

abbreviation alive :: "worker \<Rightarrow> bool" where "alive st \<equiv> wk_exit st = None"

section \<open>Its operations\<close>

definition happens :: "event \<Rightarrow> worker \<Rightarrow> worker" where
  "happens ev st = st\<lparr>wk_trace := wk_trace st @ [ev]\<rparr>"

definition exit_with :: "int \<Rightarrow> worker \<Rightarrow> worker" where
  "exit_with n st = st\<lparr>wk_exit := Some n\<rparr>"

definition push :: "frame \<Rightarrow> worker \<Rightarrow> worker" where
  "push f st = st\<lparr>wk_stack := f # wk_stack st\<rparr>"

text \<open>A child ends.\<close>

definition die :: "int \<Rightarrow> int \<Rightarrow> worker \<Rightarrow> worker" where
  "die pid status st =
     (if wk_sigchld st then st\<lparr>wk_procs := (wk_procs st)(pid \<mapsto> Zombie status), wk_pending := True\<rparr>
      else st\<lparr>wk_procs := (wk_procs st)(pid := None)\<rparr>)"

definition sigkill :: "worker_env \<Rightarrow> int \<Rightarrow> worker \<Rightarrow> worker" where
  "sigkill we pid st =
     (let st = happens (Ev_kill pid SIGKILL) st in
      if \<not> we_denied we pid \<and> running (wk_procs st pid) then die pid SIGKILL st else st)"

definition invoke_ifdown :: "worker_env \<Rightarrow> worker \<Rightarrow> worker run" where
  "invoke_ifdown we st =
     run_bind (tinc_invoke_ifdown (we_libc we) (we_sys we) (we_cfg we))
       (\<lambda>_. Done (if cf_run_ifdown (we_cfg we) then happens Ev_ifdown st else st))"

definition continue :: "worker_env \<Rightarrow> continuation \<Rightarrow> worker \<Rightarrow> worker run" where
  "continue we k st = (case k of Then_ifdown \<Rightarrow> invoke_ifdown we st | Then_exit n \<Rightarrow> Done (exit_with n st))"

definition stop_tincd :: "worker_env \<Rightarrow> continuation \<Rightarrow> worker \<Rightarrow> worker run" where
  "stop_tincd we k st =
     (case daemon_stop_term (we_denied we) 5 (wk_di st) (wk_procs st) of
        (None, _) \<Rightarrow> continue we k st
      | (Some pid, False) \<Rightarrow> continue we k (happens (Ev_kill pid SIGTERM) st)
      | (Some pid, True) \<Rightarrow> Done (push (In_stop pid k) (happens (Ev_kill pid SIGTERM) st)))"

definition start_tincd :: "start_answer \<Rightarrow> worker \<Rightarrow> worker" where
  "start_tincd sa st =
     (case daemon_start sa (wk_di st, wk_fds st, wk_procs st) of
        (ok, di, fds, procs) \<Rightarrow>
          let st = st\<lparr>wk_di := di, wk_fds := fds, wk_procs := procs\<rparr> in
          if \<not> ok then exit_with 1 st else happens (Ev_start (di_pid di)) st)"

definition ignore_sigchld :: "worker \<Rightarrow> worker" where
  "ignore_sigchld st = st\<lparr>wk_sigchld := False, wk_pending := False\<rparr>"

text \<open>\<open>main_terminate_old_tincd\<close>, up to its sleep and behind it.\<close>

definition main_terminate_old_tincd :: "worker_env \<Rightarrow> worker \<Rightarrow> worker run" where
  "main_terminate_old_tincd we st =
     run_bind (tinc_get_pid (we_libc we) (we_sys we) (we_cfg we) (wk_files st)) (\<lambda>pid.
       if pid = 0 then Done st else Done (push (In_old pid) (happens (Ev_kill pid SIGTERM) st)))"

definition main_unlink_pidfile :: "config \<Rightarrow> files \<Rightarrow> files" where
  "main_unlink_pidfile cfg files =
     (if str_is_empty (cf_tincd_pidfile cfg) then files else files(canon (the (cf_tincd_pidfile cfg)) := None))"

definition terminate_old_kill :: "worker_env \<Rightarrow> bool \<Rightarrow> int \<Rightarrow> worker \<Rightarrow> worker" where
  "terminate_old_kill we found pid st =
     (let st = sigkill we pid st in
      if found then st\<lparr>wk_files := main_unlink_pidfile (we_cfg we) (wk_files st)\<rparr> else st)"

text \<open>The signal handlers.\<close>

definition sigterm :: "worker_env \<Rightarrow> worker \<Rightarrow> worker run" where
  "sigterm we st = stop_tincd we (Then_exit 1) (ignore_sigchld st)"

definition WIFEXITED :: "int \<Rightarrow> bool" where
  "WIFEXITED status \<longleftrightarrow> status mod 128 = 0"

definition WEXITSTATUS :: "int \<Rightarrow> int" where
  "WEXITSTATUS status = (status div 256) mod 256"

definition sigchild :: "worker_env \<Rightarrow> int \<Rightarrow> int \<Rightarrow> worker \<Rightarrow> worker run" where
  "sigchild we pid status st =
     (if pid = di_pid (wk_di st)
      then run_bind (invoke_ifdown we st) (\<lambda>st.
             if WIFEXITED status \<and> WEXITSTATUS status = 1 then Done (exit_with 1 st) else Done (push In_restart st))
      else Done st)"

text \<open>The switch of the main loop.\<close>

definition handle_command :: "worker_env \<Rightarrow> start_answer \<Rightarrow> command \<Rightarrow> worker \<Rightarrow> worker run" where
  "handle_command we sa c st =
     (case c of
        START_TINCD \<Rightarrow>
          let st = start_tincd sa st in
          Done (if alive st \<and> cf_oneshot (we_cfg we) then exit_with 0 st else st)
      | RESTART_TINCD \<Rightarrow> stop_tincd we Then_ifdown st
      | STOP \<Rightarrow> run_bind (invoke_ifdown we (ignore_sigchld st)) (stop_tincd we (Then_exit 0))
      | SIGNAL_OLD_TINCD \<Rightarrow> main_terminate_old_tincd we st)"

section \<open>Its steps\<close>

text \<open>
  What the main process sends: first the order to signal the old tincd, then one start, then restarts, then the stop.
\<close>

fun restarts :: "command list \<Rightarrow> bool" where
  "restarts [] \<longleftrightarrow> True"
| "restarts (c # cs) \<longleftrightarrow> (c = RESTART_TINCD \<and> restarts cs) \<or> (c = STOP \<and> cs = [])"

fun protocol :: "command list \<Rightarrow> bool" where
  "protocol [] \<longleftrightarrow> True"
| "protocol [c] \<longleftrightarrow> c = SIGNAL_OLD_TINCD"
| "protocol (c # d # cs) \<longleftrightarrow> c = SIGNAL_OLD_TINCD \<and> d = START_TINCD \<and> restarts cs"

text \<open>The kernel gives a new child a positive number that no child has.\<close>

definition answer_ok :: "start_answer \<Rightarrow> worker \<Rightarrow> bool" where
  "answer_ok sa st \<longleftrightarrow> (case sa_fork sa of None \<Rightarrow> True | Some pid \<Rightarrow> 0 < pid \<and> wk_procs st pid = None)"

text \<open>
  \<open>SIGCHLD\<close> is blocked while \<open>sigchild\<close> runs.  Besides tincd, the commands run by \<open>system\<close> and \<open>popen\<close> raise it
  (\<open>noise\<close>); \<open>waitpid\<close> may then find one of them, or nothing (\<open>wait_other\<close>).
\<close>

inductive wstep :: "worker_env \<Rightarrow> worker \<Rightarrow> worker \<Rightarrow> bool" for we where
  command: "alive st \<Longrightarrow> wk_stack st = [] \<Longrightarrow> wk_pipe st = c # cs \<Longrightarrow> answer_ok sa st \<Longrightarrow>
    handle_command we sa c (st\<lparr>wk_pipe := cs, wk_read := wk_read st @ [c]\<rparr>) = Done st' \<Longrightarrow> wstep we st st'"
| eof: "alive st \<Longrightarrow> wk_stack st = [] \<Longrightarrow> wk_pipe st = [] \<Longrightarrow> wk_closed st \<Longrightarrow> sigterm we st = Done st' \<Longrightarrow> wstep we st st'"
| sigchld: "alive st \<Longrightarrow> wk_pending st \<Longrightarrow> wk_sigchld st \<Longrightarrow> In_wait \<notin> set (wk_stack st) \<Longrightarrow> In_restart \<notin> set (wk_stack st) \<Longrightarrow>
    wstep we st (push In_wait (st\<lparr>wk_pending := False\<rparr>))"
| wait: "alive st \<Longrightarrow> wk_stack st = In_wait # fs \<Longrightarrow> wk_procs st pid = Some (Zombie status) \<Longrightarrow>
    sigchild we pid status (happens (Ev_reap pid status) (st\<lparr>wk_stack := fs, wk_procs := (wk_procs st)(pid := None)\<rparr>)) = Done st' \<Longrightarrow>
    wstep we st st'"
| wait_other: "alive st \<Longrightarrow> wk_stack st = In_wait # fs \<Longrightarrow> wstep we st (st\<lparr>wk_stack := fs\<rparr>)"
| restart: "alive st \<Longrightarrow> wk_stack st = In_restart # fs \<Longrightarrow> answer_ok sa st \<Longrightarrow> wstep we st (start_tincd sa (st\<lparr>wk_stack := fs\<rparr>))"
| stop: "alive st \<Longrightarrow> wk_stack st = In_stop pid k # fs \<Longrightarrow> continue we k (sigkill we pid (st\<lparr>wk_stack := fs\<rparr>)) = Done st' \<Longrightarrow>
    wstep we st st'"
| old: "alive st \<Longrightarrow> wk_stack st = In_old pid # fs \<Longrightarrow> wk_procs st pid = None \<or> found = (\<not> we_denied we pid) \<Longrightarrow>
    wstep we st (terminate_old_kill we found pid (st\<lparr>wk_stack := fs\<rparr>))"
| sigterm: "alive st \<Longrightarrow> sigterm we st = Done st' \<Longrightarrow> wstep we st st'"
| died: "alive st \<Longrightarrow> wk_procs st pid = Some (Running path args) \<Longrightarrow> wstep we st (die pid status st)"
| noise: "alive st \<Longrightarrow> wk_sigchld st \<Longrightarrow> wstep we st (st\<lparr>wk_pending := True\<rparr>)"
| send: "alive st \<Longrightarrow> \<not> wk_closed st \<Longrightarrow> protocol (wk_read st @ wk_pipe st @ [c]) \<Longrightarrow> wstep we st (st\<lparr>wk_pipe := wk_pipe st @ [c]\<rparr>)"
| hangup: "alive st \<Longrightarrow> wstep we st (st\<lparr>wk_closed := True\<rparr>)"

text \<open>The worker when it enters its loop.\<close>

definition worker_init :: "worker_env \<Rightarrow> worker \<Rightarrow> bool" where
  "worker_init we st \<longleftrightarrow>
     tincd_command (we_libc we) (we_cfg we) daemon_zero = Done (wk_di st)
     \<and> wk_procs st = Map.empty \<and> wk_sigchld st \<and> \<not> wk_pending st \<and> wk_stack st = [] \<and> wk_pipe st = [] \<and> \<not> wk_closed st
     \<and> wk_exit st = None \<and> wk_read st = [] \<and> wk_trace st = []"

end
