(* ===== verification/Workerinv.thy ===== *)
theory Workerinv
  imports Worker
begin

text \<open>
  What holds in every state the worker of \<^verbatim>\<open>src/main.c\<close> can reach, by induction over its steps, and the runs that
  show what can happen.
\<close>

section \<open>The invariant\<close>

fun base_ok :: "frame list \<Rightarrow> bool" where
  "base_ok [] \<longleftrightarrow> True"
| "base_ok [In_old _] \<longleftrightarrow> True"
| "base_ok [In_stop _ Then_ifdown] \<longleftrightarrow> True"
| "base_ok _ \<longleftrightarrow> False"

fun handlers_ok :: "frame list \<Rightarrow> bool" where
  "handlers_ok (In_wait # fs) \<longleftrightarrow> base_ok fs"
| "handlers_ok (In_restart # fs) \<longleftrightarrow> base_ok fs"
| "handlers_ok fs \<longleftrightarrow> base_ok fs"

fun exits_ok :: "int \<Rightarrow> frame list \<Rightarrow> bool" where
  "exits_ok pid (In_stop p (Then_exit n) # fs) \<longleftrightarrow> p = pid \<and> (exits_ok pid fs \<or> handlers_ok fs)"
| "exits_ok pid _ \<longleftrightarrow> False"

text \<open>While the worker exits it only sleeps in \<open>daemon_stop\<close>, for the tincd it knows.\<close>

definition stack_ok :: "worker \<Rightarrow> bool" where
  "stack_ok st \<longleftrightarrow> (if wk_sigchld st then handlers_ok (wk_stack st) else exits_ok (di_pid (wk_di st)) (wk_stack st))"

text \<open>Only one child, and it is the tincd the worker knows; it is gone when a restart is due.\<close>

definition single_child :: "worker \<Rightarrow> bool" where
  "single_child st \<longleftrightarrow>
     (\<forall>p. wk_procs st p \<noteq> None \<longrightarrow> p = di_pid (wk_di st) \<and> p \<noteq> - 1)
   \<and> (START_TINCD \<notin> set (wk_read st) \<longrightarrow> di_pid (wk_di st) = - 1)
   \<and> (In_restart \<in> set (wk_stack st) \<longrightarrow> wk_procs st = Map.empty \<and> di_pid (wk_di st) \<noteq> - 1)"

text \<open>Signals go to a tincd that was started here, or to process 1.\<close>

definition known :: "worker \<Rightarrow> int \<Rightarrow> bool" where
  "known st p \<longleftrightarrow> 0 < p \<and> Ev_start p \<in> set (wk_trace st)"

fun frame_known :: "worker \<Rightarrow> frame \<Rightarrow> bool" where
  "frame_known st (In_stop p k) \<longleftrightarrow> known st p"
| "frame_known st (In_old p) \<longleftrightarrow> p = 1"
| "frame_known st _ \<longleftrightarrow> True"

definition signals_known :: "worker \<Rightarrow> bool" where
  "signals_known st \<longleftrightarrow>
     (di_pid (wk_di st) \<noteq> - 1 \<longrightarrow> known st (di_pid (wk_di st)))
   \<and> (\<forall>f \<in> set (wk_stack st). frame_known st f)
   \<and> (\<forall>p s. Ev_kill p s \<in> set (wk_trace st) \<longrightarrow> p = 1 \<or> known st p)"

definition leaves_nothing :: "worker_env \<Rightarrow> worker \<Rightarrow> bool" where
  "leaves_nothing we st \<longleftrightarrow>
     (\<forall>n p. wk_exit st = Some n \<longrightarrow> running (wk_procs st p) \<longrightarrow> cf_oneshot (we_cfg we) \<and> n = 0 \<or> we_denied we p)"

definition worker_inv :: "worker_env \<Rightarrow> worker \<Rightarrow> bool" where
  "worker_inv we st \<longleftrightarrow> protocol (wk_read st @ wk_pipe st) \<and> (alive st \<longrightarrow> stack_ok st) \<and> single_child st \<and> signals_known st
     \<and> leaves_nothing we st"

lemmas worker_inv_defs = worker_inv_def stack_ok_def single_child_def signals_known_def leaves_nothing_def known_def
lemmas worker_ops = happens_def exit_with_def push_def ignore_sigchld_def

lemma frame_known_cong: "set (wk_trace st) \<subseteq> set (wk_trace st') \<Longrightarrow> frame_known st f \<Longrightarrow> frame_known st' f"
  by (cases f) (auto simp: known_def)

lemma frame_known_same: "wk_trace st = wk_trace st' \<Longrightarrow> frame_known st = frame_known st'"
proof
  fix f assume "wk_trace st = wk_trace st'"
  then show "frame_known st f = frame_known st' f" by (cases f) (auto simp: known_def)
qed

section \<open>The operations preserve it\<close>

text \<open>What an operation does to the parts the invariant is about.\<close>

lemma ifdown_cases:
  assumes "invoke_ifdown we st = Done st'"
  shows "st' = st \<or> st' = happens Ev_ifdown st"
  using assms by (auto simp: invoke_ifdown_def run_simps split: if_splits)

lemma stop_cases:
  assumes "stop_tincd we k st = Done st'"
  obtains "di_pid (wk_di st) = - 1" "continue we k st = Done st'"
  | "di_pid (wk_di st) \<noteq> - 1" "we_denied we (di_pid (wk_di st))" "continue we k (happens (Ev_kill (di_pid (wk_di st)) SIGTERM) st) = Done st'"
  | "di_pid (wk_di st) \<noteq> - 1" "st' = push (In_stop (di_pid (wk_di st)) k) (happens (Ev_kill (di_pid (wk_di st)) SIGTERM) st)"
  using assms by (auto simp: stop_tincd_def daemon_stop_term_def Let_def kill_result_def split: if_splits)

text \<open>The part of the invariant that holds in the middle of an operation too.\<close>

definition core :: "worker \<Rightarrow> bool" where
  "core st \<longleftrightarrow> protocol (wk_read st @ wk_pipe st) \<and> single_child st \<and> signals_known st"

lemma worker_inv_iff: "worker_inv we st \<longleftrightarrow> core st \<and> (alive st \<longrightarrow> stack_ok st) \<and> leaves_nothing we st"
  by (auto simp: worker_inv_def core_def)

lemma core_happens:
  assumes "core st" and "\<And>p s. ev = Ev_kill p s \<Longrightarrow> p = 1 \<or> known st p"
  shows "core (happens ev st)"
proof -
  have "frame_known st f \<Longrightarrow> frame_known (happens ev st) f" for f
    by (rule frame_known_cong) (auto simp: happens_def)
  with assms show ?thesis
    by (auto simp: core_def single_child_def signals_known_def known_def happens_def)
qed

lemma core_push:
  assumes "core st" and "frame_known st f" and "f = In_restart \<Longrightarrow> wk_procs st = Map.empty \<and> di_pid (wk_di st) \<noteq> - 1"
  shows "core (push f st)"
proof -
  have "frame_known (push f st) = frame_known st" by (rule frame_known_same) (simp add: push_def)
  with assms show ?thesis by (auto simp: core_def single_child_def signals_known_def known_def push_def)
qed

text \<open>Updates of the other fields, and of these fields by less.\<close>

lemma core_mono:
  assumes "core st" and "wk_di st' = wk_di st" "wk_read st' = wk_read st" "wk_pipe st' = wk_pipe st" "wk_trace st' = wk_trace st"
    and "set (wk_stack st') \<subseteq> set (wk_stack st)" and "\<And>p. wk_procs st' p \<noteq> None \<Longrightarrow> wk_procs st p \<noteq> None"
  shows "core st'"
proof -
  have "frame_known st' = frame_known st" by (rule frame_known_same) (rule assms(5))
  moreover have "wk_procs st' = Map.empty" if "wk_procs st = Map.empty"
    using assms(7) that by (intro ext) (metis)
  ultimately show ?thesis
    using assms(1-4,6,7) by (auto simp: core_def single_child_def signals_known_def known_def assms(5))
qed

lemma core_exit: "core st \<Longrightarrow> core (exit_with n st)" and core_ignore: "core st \<Longrightarrow> core (ignore_sigchld st)"
  and core_pop: "core st \<Longrightarrow> wk_stack st = f # fs \<Longrightarrow> core (st\<lparr>wk_stack := fs\<rparr>)"
  by (auto elim!: core_mono simp: exit_with_def ignore_sigchld_def)

lemma core_die: "core st \<Longrightarrow> wk_procs st p \<noteq> None \<Longrightarrow> core (die p s st)"
  by (erule core_mono) (auto simp: die_def split: if_splits)

lemma core_ifdown: "invoke_ifdown we st = Done st' \<Longrightarrow> core st \<Longrightarrow> core st'"
  using core_happens [of st Ev_ifdown] by (auto dest: ifdown_cases)

lemma core_sigkill: "core st \<Longrightarrow> p = 1 \<or> known st p \<Longrightarrow> core (sigkill we p st)"
  using core_happens [of st "Ev_kill p SIGKILL"] core_die [of "happens (Ev_kill p SIGKILL) st" p]
  by (auto simp: sigkill_def Let_def running_def split: option.splits)

lemma core_tincd: "core st \<Longrightarrow> di_pid (wk_di st) \<noteq> - 1 \<Longrightarrow> known st (di_pid (wk_di st))"
  by (simp add: core_def signals_known_def)

lemma core_procs: "core st \<Longrightarrow> wk_procs st p \<noteq> None \<Longrightarrow> p = di_pid (wk_di st) \<and> p \<noteq> - 1"
  by (simp add: core_def single_child_def)

lemma known_happens [simp]: "known st p \<Longrightarrow> known (happens ev st) p"
  by (simp add: known_def happens_def)

section \<open>Stopping preserves it\<close>

lemma continue_inv:
  assumes "continue we k st = Done st'" and "core st" and "alive st"
    and "k = Then_ifdown \<Longrightarrow> stack_ok st"
    and "\<And>n p. k = Then_exit n \<Longrightarrow> running (wk_procs st p) \<Longrightarrow> we_denied we p"
  shows "worker_inv we st'"
proof (cases k)
  case Then_ifdown
  with assms(1) have "invoke_ifdown we st = Done st'" by (simp add: continue_def)
  with assms(2-4) Then_ifdown core_ifdown [OF this] show ?thesis
    by (auto simp: worker_inv_iff leaves_nothing_def stack_ok_def happens_def dest!: ifdown_cases)
next
  case (Then_exit n)
  with assms(1,2,5) core_exit show ?thesis by (auto simp: worker_inv_iff leaves_nothing_def continue_def exit_with_def)
qed

lemma stop_inv:
  assumes "stop_tincd we k st = Done st'" and c: "core st" "alive st"
    and d: "k = Then_ifdown \<Longrightarrow> wk_stack st = [] \<and> wk_sigchld st"
    and e: "\<And>n. k = Then_exit n \<Longrightarrow> \<not> wk_sigchld st \<and> (handlers_ok (wk_stack st) \<or> exits_ok (di_pid (wk_di st)) (wk_stack st))"
  shows "worker_inv we st'"
  using assms(1)
proof (cases rule: stop_cases)
  case 1
  have "\<not> running (wk_procs st p)" for p
    using core_procs [OF c(1), of p] 1(1) by (auto simp: running_def split: option.splits)
  then show ?thesis using continue_inv [OF 1(2) c] d by (simp add: stack_ok_def)
next
  case 2
  let ?st = "happens (Ev_kill (di_pid (wk_di st)) SIGTERM) st"
  have "core ?st" using c core_tincd [OF c(1) 2(1)] by (auto intro: core_happens)
  moreover have "we_denied we p" if "running (wk_procs ?st p)" for p
    using core_procs [OF c(1), of p] 2(2) that by (auto simp: running_def happens_def split: option.splits)
  moreover have "alive ?st" "k = Then_ifdown \<Longrightarrow> stack_ok ?st" using c(2) d by (simp_all add: happens_def stack_ok_def)
  ultimately show ?thesis by (intro continue_inv [OF 2(3)]) simp_all
next
  case 3
  let ?st = "happens (Ev_kill (di_pid (wk_di st)) SIGTERM) st"
  have k: "known st (di_pid (wk_di st))" by (rule core_tincd [OF c(1) 3(1)])
  then have "core ?st" using c by (auto intro: core_happens)
  then have "core st'" unfolding 3(2) using k by (intro core_push) simp_all
  moreover have "stack_ok st'"
    using d e by (cases k) (auto simp: 3(2) stack_ok_def push_def happens_def)
  ultimately show ?thesis using c(2) by (simp add: worker_inv_iff leaves_nothing_def 3(2) push_def happens_def)
qed

section \<open>Starting preserves it\<close>

lemma start_cases:
  obtains di fds where "start_tincd sa st = exit_with 1 (st\<lparr>wk_di := di, wk_fds := fds\<rparr>)" "di_pid di = di_pid (wk_di st)"
  | pid di fds where "sa_fork sa = Some pid" "di_pid di = pid" "start_tincd sa st = happens (Ev_start pid)
      (st\<lparr>wk_di := di, wk_fds := fds, wk_procs := (wk_procs st)(pid \<mapsto> Running (di_path (wk_di st)) (di_arguments (wk_di st)))\<rparr>)"
proof -
  obtain ok di fds procs where r: "daemon_start sa (wk_di st, wk_fds st, wk_procs st) = (ok, di, fds, procs)"
    by (cases "daemon_start sa (wk_di st, wk_fds st, wk_procs st)") auto
  show ?thesis
  proof (cases ok)
    case True
    with r obtain pid where "sa_fork sa = Some pid" "di_pid di = pid"
      "procs = (wk_procs st)(pid \<mapsto> Running (di_path (wk_di st)) (di_arguments (wk_di st)))"
      by (auto simp: daemon_start_def Let_def split: option.splits prod.splits)
    with True r that(2) show ?thesis by (simp add: start_tincd_def)
  next
    case False
    with r have "procs = wk_procs st" "di_pid di = di_pid (wk_di st)"
      by (auto simp: daemon_start_def Let_def split: option.splits prod.splits)
    with False r that(1) [where di = di and fds = fds] show ?thesis by (simp add: start_tincd_def exit_with_def)
  qed
qed

lemma start_inv:
  assumes a: "answer_ok sa st" and c: "core st" "alive st" and p: "wk_procs st = Map.empty" "START_TINCD \<in> set (wk_read st)"
    and s: "wk_sigchld st" "base_ok (wk_stack st)"
  shows "worker_inv we (start_tincd sa st)" and "alive (start_tincd sa st) \<or> wk_procs (start_tincd sa st) = Map.empty"
proof -
  have s': "handlers_ok (wk_stack st)" "In_restart \<notin> set (wk_stack st)"
    using s(2) by (cases "wk_stack st" rule: base_ok.cases; simp)+
  have "worker_inv we (start_tincd sa st) \<and> (alive (start_tincd sa st) \<or> wk_procs (start_tincd sa st) = Map.empty)"
  proof (cases rule: start_cases [of sa st])
    case st': (1 di fds)
    have "frame_known (st\<lparr>wk_di := di, wk_fds := fds\<rparr>) = frame_known st" by (rule frame_known_same) simp
    with c(1) st'(2) have "core (st\<lparr>wk_di := di, wk_fds := fds\<rparr>)"
      by (simp add: core_def single_child_def signals_known_def known_def)
    then show ?thesis
      using p(1) core_exit by (auto simp: worker_inv_iff st'(1) exit_with_def leaves_nothing_def running_def)
  next
    case (2 pid di fds)
    have pid: "0 < pid" using a 2(1) by (simp add: answer_ok_def)
    have "frame_known st f \<Longrightarrow> frame_known (start_tincd sa st) f" for f
      by (rule frame_known_cong) (auto simp: 2(3) happens_def)
    with c(1) pid p s'(2) have "core (start_tincd sa st)"
      by (auto simp: core_def single_child_def signals_known_def known_def 2(2,3) happens_def)
    with c(2) s(1) s'(1) show ?thesis
      by (simp add: worker_inv_iff leaves_nothing_def stack_ok_def 2(3) happens_def)
  qed
  then show "worker_inv we (start_tincd sa st)" "alive (start_tincd sa st) \<or> wk_procs (start_tincd sa st) = Map.empty" by simp_all
qed

lemma protocol_no_start: "protocol (xs @ START_TINCD # ys) \<Longrightarrow> START_TINCD \<notin> set xs"
proof -
  have r: "restarts zs \<Longrightarrow> START_TINCD \<notin> set zs" for zs by (induction zs) auto
  assume "protocol (xs @ START_TINCD # ys)"
  then show ?thesis
  proof (cases xs)
    case (Cons x zs)
    with \<open>protocol (xs @ START_TINCD # ys)\<close> show ?thesis using r by (cases zs) (force dest!: r)+
  qed simp
qed

section \<open>Every step preserves it\<close>

lemma read_core: "core st \<Longrightarrow> wk_pipe st = c # cs \<Longrightarrow> core (st\<lparr>wk_pipe := cs, wk_read := wk_read st @ [c]\<rparr>)"
proof -
  let ?st = "st\<lparr>wk_pipe := cs, wk_read := wk_read st @ [c]\<rparr>"
  have "frame_known ?st = frame_known st" by (rule frame_known_same) simp
  then show "core st \<Longrightarrow> wk_pipe st = c # cs \<Longrightarrow> core ?st"
    by (auto simp: core_def single_child_def signals_known_def known_def)
qed

lemma command_inv:
  assumes "worker_inv we st" and a: "alive st" "wk_stack st = []" "wk_pipe st = c # cs" "answer_ok sa st"
    and h: "handle_command we sa c (st\<lparr>wk_pipe := cs, wk_read := wk_read st @ [c]\<rparr>) = Done st'"
  shows "worker_inv we st'"
proof -
  let ?st = "st\<lparr>wk_pipe := cs, wk_read := wk_read st @ [c]\<rparr>"
  have c: "core ?st" "alive ?st" "wk_stack ?st = []"
    using assms(1) a read_core by (simp_all add: worker_inv_iff)
  have s: "wk_sigchld ?st" using assms(1) a by (auto simp: worker_inv_iff stack_ok_def split: if_splits)
  show ?thesis
  proof (cases c)
    case START_TINCD
    have "START_TINCD \<notin> set (wk_read st)"
      using assms(1) a(3) START_TINCD protocol_no_start [of "wk_read st" cs] by (simp add: worker_inv_def)
    then have "wk_procs ?st = Map.empty" using assms(1) by (force simp: worker_inv_def single_child_def)
    moreover have "answer_ok sa ?st" using a(4) by (cases "sa_fork sa") (simp_all add: answer_ok_def)
    moreover have "START_TINCD \<in> set (wk_read ?st)" "base_ok (wk_stack ?st)" using START_TINCD c(3) by simp_all
    ultimately have i: "worker_inv we (start_tincd sa ?st)" using start_inv c s by blast
    show ?thesis
    proof (cases "alive (start_tincd sa ?st) \<and> cf_oneshot (we_cfg we)")
      case True
      with h START_TINCD have "st' = exit_with 0 (start_tincd sa ?st)" by (simp add: handle_command_def Let_def)
      with True i core_exit show ?thesis by (auto simp: worker_inv_iff leaves_nothing_def exit_with_def)
    next
      case False
      with h START_TINCD i show ?thesis by (auto simp: handle_command_def Let_def split: if_splits)
    qed
  next
    case RESTART_TINCD
    with h c s show ?thesis by (auto simp: handle_command_def intro!: stop_inv)
  next
    case STOP
    with h obtain st1 where st1: "invoke_ifdown we (ignore_sigchld ?st) = Done st1" "stop_tincd we (Then_exit 0) st1 = Done st'"
      by (auto simp: handle_command_def run_simps)
    have "core st1" by (rule core_ifdown [OF st1(1) core_ignore [OF c(1)]])
    moreover have "wk_stack st1 = []" "alive st1" "\<not> wk_sigchld st1"
      using ifdown_cases [OF st1(1)] c by (auto simp: ignore_sigchld_def happens_def)
    ultimately show ?thesis using st1(2) by (auto intro!: stop_inv)
  next
    case SIGNAL_OLD_TINCD
    with h obtain pid where pid: "tinc_get_pid (we_libc we) (we_sys we) (we_cfg we) (wk_files ?st) = Done pid"
      "st' = (if pid = 0 then ?st else push (In_old pid) (happens (Ev_kill pid SIGTERM) ?st))"
      by (auto simp: handle_command_def main_terminate_old_tincd_def run_simps split: if_splits)
    then have "pid = 0 \<or> pid = 1"
      by (auto simp: tinc_get_pid_def pid_of_text_def Let_def run_simps split: if_splits option.splits)
    then have "core st'" unfolding pid(2) using c(1) by (auto intro!: core_push core_happens)
    then show ?thesis using c s by (auto simp: worker_inv_iff leaves_nothing_def stack_ok_def pid(2) push_def happens_def)
  qed
qed

lemma sigterm_inv:
  assumes "worker_inv we st" and "alive st" and t: "sigterm we st = Done st'"
  shows "worker_inv we st'"
  using assms(1,2)
  by (intro stop_inv [OF t [unfolded sigterm_def]])
    (auto simp: worker_inv_iff core_ignore stack_ok_def ignore_sigchld_def core_ignore [unfolded ignore_sigchld_def] split: if_splits)

lemma wait_inv:
  assumes i: "worker_inv we st" and a: "alive st" "wk_stack st = In_wait # fs" "wk_procs st pid = Some (Zombie status)"
    and h: "sigchild we pid status (happens (Ev_reap pid status) (st\<lparr>wk_stack := fs, wk_procs := (wk_procs st)(pid := None)\<rparr>)) = Done st'"
  shows "worker_inv we st'"
proof -
  let ?st = "happens (Ev_reap pid status) (st\<lparr>wk_stack := fs, wk_procs := (wk_procs st)(pid := None)\<rparr>)"
  have c: "core st" "stack_ok st" using i a(1) by (simp_all add: worker_inv_iff)
  have pid: "pid = di_pid (wk_di st)" "pid \<noteq> - 1" using core_procs [OF c(1), of pid] a(3) by simp_all
  have "wk_procs ?st p = None" for p using core_procs [OF c(1), of p] pid(1) by (cases "wk_procs st p") (auto simp: happens_def)
  then have none: "wk_procs ?st = Map.empty" by blast
  have "core (st\<lparr>wk_stack := fs, wk_procs := (wk_procs st)(pid := None)\<rparr>)"
    using c(1) by (rule core_mono) (auto simp: a(2) split: if_splits)
  then have c': "core ?st" by (rule core_happens) simp
  have s: "wk_sigchld st" "base_ok fs" using c(2) a(2) by (auto simp: stack_ok_def split: if_splits)
  from h pid(1) obtain st1 where st1: "invoke_ifdown we ?st = Done st1"
    "st' = (if WIFEXITED status \<and> WEXITSTATUS status = 1 then exit_with 1 st1 else push In_restart st1)"
    by (auto simp: sigchild_def run_simps happens_def split: if_splits)
  have c1: "core st1" by (rule core_ifdown [OF st1(1) c'])
  have eq: "wk_procs st1 = Map.empty" "wk_di st1 = wk_di st" "wk_stack st1 = fs" "wk_sigchld st1" "alive st1"
    using ifdown_cases [OF st1(1)] none s(1) a(1) by (auto simp: happens_def)
  have "core (push In_restart st1)" using c1 eq pid by (intro core_push) auto
  then show ?thesis
    using core_exit [OF c1, of 1] eq s(2) by (simp add: worker_inv_iff st1(2) leaves_nothing_def stack_ok_def push_def exit_with_def running_def)
qed

lemma base_no_restart: "base_ok fs \<Longrightarrow> In_restart \<notin> set fs"
  by (cases fs rule: base_ok.cases) auto

lemma restart_inv:
  assumes i: "worker_inv we st" and a: "alive st" "wk_stack st = In_restart # fs" "answer_ok sa st"
  shows "worker_inv we (start_tincd sa (st\<lparr>wk_stack := fs\<rparr>))"
proof -
  have c: "core st" "stack_ok st" using i a(1) by (simp_all add: worker_inv_iff)
  then have "wk_procs st = Map.empty" "START_TINCD \<in> set (wk_read st)" "wk_sigchld st" "base_ok fs"
    using a(2) by (auto simp: core_def single_child_def stack_ok_def split: if_splits)
  moreover have "answer_ok sa (st\<lparr>wk_stack := fs\<rparr>)" using a(3) by (cases "sa_fork sa") (simp_all add: answer_ok_def)
  ultimately show ?thesis using core_pop [OF c(1) a(2)] a(1) by (intro start_inv) simp_all
qed

lemma running_die: "running (wk_procs (die p s st) q) \<longleftrightarrow> running (wk_procs st q) \<and> q \<noteq> p"
  by (auto simp: die_def running_def)

lemma running_sigkill: "running (wk_procs (sigkill we p st) q) \<longleftrightarrow> running (wk_procs st q) \<and> (q = p \<longrightarrow> we_denied we p)"
  by (auto simp: sigkill_def Let_def running_die happens_def)

text \<open>What ending a child leaves alone.\<close>

lemma die_keeps: "wk_stack (die p s st) = wk_stack st" "wk_sigchld (die p s st) = wk_sigchld st" "wk_exit (die p s st) = wk_exit st"
  "wk_di (die p s st) = wk_di st"
  by (simp_all add: die_def)

lemma sigkill_keeps: "wk_stack (sigkill we p st) = wk_stack st" "wk_sigchld (sigkill we p st) = wk_sigchld st"
  "wk_exit (sigkill we p st) = wk_exit st" "wk_di (sigkill we p st) = wk_di st"
  by (simp_all add: sigkill_def Let_def die_keeps happens_def)

lemma stop_step_inv:
  assumes i: "worker_inv we st" and a: "alive st" "wk_stack st = In_stop pid k # fs"
    and h: "continue we k (sigkill we pid (st\<lparr>wk_stack := fs\<rparr>)) = Done st'"
  shows "worker_inv we st'"
proof (rule continue_inv [OF h])
  have c: "core st" "stack_ok st" using i a(1) by (simp_all add: worker_inv_iff)
  then have "known st pid" using a(2) by (simp add: core_def signals_known_def)
  then have "known (st\<lparr>wk_stack := fs\<rparr>) pid" by (simp add: known_def)
  then show "core (sigkill we pid (st\<lparr>wk_stack := fs\<rparr>))" using core_pop [OF c(1) a(2)] by (intro core_sigkill) simp_all
  show "alive (sigkill we pid (st\<lparr>wk_stack := fs\<rparr>))" using a(1) by (simp add: sigkill_keeps)
  show "stack_ok (sigkill we pid (st\<lparr>wk_stack := fs\<rparr>))" if "k = Then_ifdown"
    using c(2) a(2) that by (cases fs) (auto simp: stack_ok_def sigkill_keeps split: if_splits)
  show "we_denied we p" if "k = Then_exit n" "running (wk_procs (sigkill we pid (st\<lparr>wk_stack := fs\<rparr>)) p)" for n p
  proof -
    have "pid = di_pid (wk_di st)" using c(2) a(2) that(1) by (auto simp: stack_ok_def split: if_splits)
    moreover from that(2) have r: "running (wk_procs st p)" "p = pid \<longrightarrow> we_denied we pid" by (simp_all add: running_sigkill)
    moreover have "p = di_pid (wk_di st)" using core_procs [OF c(1), of p] r(1) by (auto simp: running_def split: option.splits)
    ultimately show ?thesis by simp
  qed
qed

lemma base_pop_old: "base_ok (In_old p # fs) \<Longrightarrow> fs = []"
  by (cases fs) simp_all

lemma old_step_inv:
  assumes i: "worker_inv we st" and a: "alive st" "wk_stack st = In_old pid # fs"
  shows "worker_inv we (terminate_old_kill we found pid (st\<lparr>wk_stack := fs\<rparr>))"
proof -
  have c: "core st" "stack_ok st" using i a(1) by (simp_all add: worker_inv_iff)
  have s: "wk_sigchld st" "fs = []" using c(2) a(2) base_pop_old by (auto simp: stack_ok_def split: if_splits)
  have "pid = 1" using c(1) a(2) by (simp add: core_def signals_known_def)
  with core_pop [OF c(1) a(2)] have k: "core (sigkill we pid (st\<lparr>wk_stack := fs\<rparr>))" by (intro core_sigkill) simp_all
  let ?st = "terminate_old_kill we found pid (st\<lparr>wk_stack := fs\<rparr>)"
  have "core ?st" using k by (rule core_mono) (auto simp: terminate_old_kill_def Let_def split: if_splits)
  then show ?thesis
    using a(1) s by (simp add: worker_inv_iff leaves_nothing_def stack_ok_def terminate_old_kill_def Let_def sigkill_keeps)
qed

lemma died_inv:
  assumes "worker_inv we st" and "alive st" and "wk_procs st p \<noteq> None"
  shows "worker_inv we (die p s st)"
  using assms core_die [of st p s] by (auto simp: worker_inv_iff leaves_nothing_def stack_ok_def die_keeps)

lemma other_inv:
  assumes i: "worker_inv we st" and a: "alive st"
  shows "wk_sigchld st \<Longrightarrow> worker_inv we (st\<lparr>wk_pending := True\<rparr>)" and "worker_inv we (st\<lparr>wk_closed := True\<rparr>)"
    and "protocol (wk_read st @ wk_pipe st @ [c]) \<Longrightarrow> worker_inv we (st\<lparr>wk_pipe := wk_pipe st @ [c]\<rparr>)"
    and "wk_stack st = In_wait # fs \<Longrightarrow> worker_inv we (st\<lparr>wk_stack := fs\<rparr>)"
    and "wk_sigchld st \<Longrightarrow> In_wait \<notin> set (wk_stack st) \<Longrightarrow> In_restart \<notin> set (wk_stack st) \<Longrightarrow>
      worker_inv we (push In_wait (st\<lparr>wk_pending := False\<rparr>))"
proof -
  have c: "core st" "stack_ok st" using i a by (simp_all add: worker_inv_iff)
  have same: "core st'" if "wk_di st' = wk_di st" "wk_read st' = wk_read st" "wk_pipe st' = wk_pipe st" "wk_trace st' = wk_trace st"
    "wk_stack st' = wk_stack st" "wk_procs st' = wk_procs st" for st'
    by (rule core_mono [OF c(1)]) (simp_all add: that)
  have p: "core (st\<lparr>wk_pending := b\<rparr>)" for b by (rule same) simp_all
  have cl: "core (st\<lparr>wk_closed := True\<rparr>)" by (rule same) simp_all
  show "wk_sigchld st \<Longrightarrow> worker_inv we (st\<lparr>wk_pending := True\<rparr>)" "worker_inv we (st\<lparr>wk_closed := True\<rparr>)"
    using c(2) a p cl by (simp_all add: worker_inv_iff leaves_nothing_def stack_ok_def)
  let ?s = "st\<lparr>wk_pipe := wk_pipe st @ [c]\<rparr>"
  have "frame_known ?s = frame_known st" by (rule frame_known_same) simp
  then show "worker_inv we ?s" if "protocol (wk_read st @ wk_pipe st @ [c])"
    using that c a by (simp add: worker_inv_iff core_def single_child_def signals_known_def known_def leaves_nothing_def stack_ok_def)
  show "worker_inv we (st\<lparr>wk_stack := fs\<rparr>)" if s: "wk_stack st = In_wait # fs"
  proof -
    have "handlers_ok fs" if "base_ok fs" using that by (cases fs rule: base_ok.cases) simp_all
    then show ?thesis using core_pop [OF c(1) s] c(2) a s by (auto simp: worker_inv_iff leaves_nothing_def stack_ok_def split: if_splits)
  qed
  show "worker_inv we (push In_wait (st\<lparr>wk_pending := False\<rparr>))"
    if s: "wk_sigchld st" "In_wait \<notin> set (wk_stack st)" "In_restart \<notin> set (wk_stack st)"
  proof -
    have "base_ok fs" if "handlers_ok fs" "In_wait \<notin> set fs" "In_restart \<notin> set fs" for fs
      using that by (cases fs rule: handlers_ok.cases) simp_all
    then have "base_ok (wk_stack st)" using c(2) s by (simp add: stack_ok_def)
    moreover have "core (push In_wait (st\<lparr>wk_pending := False\<rparr>))" using p by (intro core_push) simp_all
    ultimately show ?thesis using a s(1) by (simp add: worker_inv_iff leaves_nothing_def stack_ok_def push_def)
  qed
qed

lemma wstep_inv: "wstep we st st' \<Longrightarrow> worker_inv we st \<Longrightarrow> worker_inv we st'"
proof (induction rule: wstep.induct)
  case (command st c cs sa st')
  then show ?case by - (rule command_inv; assumption)
next
  case (eof st st')
  then show ?case by - (rule sigterm_inv; assumption)
next
  case (sigchld st)
  then show ?case by - (rule other_inv(5); assumption)
next
  case (wait st fs pid status st')
  then show ?case by - (rule wait_inv; assumption)
next
  case (wait_other st fs)
  then show ?case by - (rule other_inv(4); assumption)
next
  case (restart st fs sa)
  then show ?case by - (rule restart_inv; assumption)
next
  case (stop st pid k fs st')
  then show ?case by - (rule stop_step_inv; assumption)
next
  case (old st pid fs found)
  then show ?case by - (rule old_step_inv; assumption)
next
  case (sigterm st st')
  then show ?case by - (rule sigterm_inv; assumption)
next
  case (died st pid path args status)
  then show ?case by - (rule died_inv; simp)
next
  case (noise st)
  then show ?case by - (rule other_inv(1); assumption)
next
  case (send st c)
  then show ?case by - (rule other_inv(3); assumption)
next
  case (hangup st)
  then show ?case by - (rule other_inv(2); assumption)
qed

lemma tincd_command_pid: "tincd_command lc cfg di = Done di' \<Longrightarrow> di_pid di' = - 1"
proof -
  have init: "di_pid (snd (daemon_init lc path args di)) = - 1" for path args
    by (simp add: daemon_init_def Let_def)
  have add: "addparam_ignored lc a di = Done di' \<Longrightarrow> di_pid di' = di_pid di" for a di di'
    by (auto simp: addparam_ignored_def daemon_addparam_def Let_def run_simps split: if_splits option.splits)
  assume "tincd_command lc cfg di = Done di'"
  then show ?thesis
    by (auto simp: tincd_command_def Let_def run_simps init dest!: add split: if_splits option.splits)
qed

lemma init_inv: "worker_init we st \<Longrightarrow> worker_inv we st"
  using tincd_command_pid
  by (auto simp: worker_init_def worker_inv_def stack_ok_def single_child_def signals_known_def leaves_nothing_def)

section \<open>Reachable states\<close>

interpretation worker: invariant_system "worker_init we" "wstep we" "worker_inv we"
  by unfold_locales (auto intro: init_inv wstep_inv)

text \<open>Once \<open>SIGCHLD\<close> is ignored, nothing is started any more.\<close>

definition started :: "worker \<Rightarrow> int set" where
  "started st = {p. Ev_start p \<in> set (wk_trace st)}"

lemma started_ops [simp]:
  "started (exit_with n st) = started st" "started (push f st) = started st" "started (ignore_sigchld st) = started st"
  "started (die p s st) = started st" "started (happens (Ev_kill p s) st) = started st" "started (happens Ev_ifdown st) = started st"
  "started (happens (Ev_reap p s) st) = started st" "started (sigkill we p st) = started st"
  by (simp_all add: started_def worker_ops die_def sigkill_def Let_def)

lemma started_more [simp]: "started (st\<lparr>wk_stack := fs\<rparr>) = started st" "started (st\<lparr>wk_pending := b\<rparr>) = started st"
  "started (st\<lparr>wk_closed := b\<rparr>) = started st" "started (st\<lparr>wk_pipe := cs\<rparr>) = started st" "started (st\<lparr>wk_files := fl\<rparr>) = started st"
  by (simp_all add: started_def)

definition shut :: "int set \<Rightarrow> worker_env \<Rightarrow> worker \<Rightarrow> bool" where
  "shut ps we st \<longleftrightarrow> worker_inv we st \<and> \<not> wk_sigchld st \<and> started st = ps"

lemma exits_top: "exits_ok p fs \<Longrightarrow> \<exists>n gs. fs = In_stop p (Then_exit n) # gs"
  by (cases "(p, fs)" rule: exits_ok.cases) auto

lemma shut_top: "shut ps we st \<Longrightarrow> alive st \<Longrightarrow> \<exists>p n gs. wk_stack st = In_stop p (Then_exit n) # gs"
  using exits_top [of "di_pid (wk_di st)" "wk_stack st"] by (auto simp: shut_def worker_inv_iff stack_ok_def)

lemma exit_keeps [simp]: "wk_sigchld (exit_with n st) = wk_sigchld st" "wk_exit (exit_with n st) = Some n"
  "\<not> wk_sigchld (ignore_sigchld st)"
  by (simp_all add: exit_with_def ignore_sigchld_def)

lemma stop_exit_shut:
  "stop_tincd we (Then_exit n) st = Done st' \<Longrightarrow> started st' = started st \<and> wk_sigchld st' = wk_sigchld st"
  by (erule stop_cases) (auto simp: continue_def exit_with_def push_def happens_def started_def)

lemma shut_step: "wstep we st st' \<Longrightarrow> shut ps we st \<Longrightarrow> shut ps we st'"
proof -
  assume s: "wstep we st st'" and h: "shut ps we st"
  have i: "worker_inv we st'" using s h by (auto simp: shut_def intro: wstep_inv)
  have ig: "\<not> wk_sigchld st" "started st = ps" using h by (simp_all add: shut_def)
  from s have "alive st" by cases
  from shut_top [OF h this] obtain p n gs where top: "wk_stack st = In_stop p (Then_exit n) # gs" by blast
  from s have "\<not> wk_sigchld st' \<and> started st' = ps"
  proof cases
    case (stop pid k fs)
    then show ?thesis using top ig by (auto simp: continue_def sigkill_keeps)
  next
    case eof
    then show ?thesis using top by simp
  next
    case sigterm
    then show ?thesis using stop_exit_shut [OF sigterm(2) [unfolded sigterm_def]] ig by simp
  qed (use top ig in \<open>simp_all add: die_keeps\<close>)
  with i show "shut ps we st'" by (simp add: shut_def)
qed

interpretation shutdown: invariant_system "shut ps we" "wstep we" "shut ps we"
  by unfold_locales (auto intro: shut_step)

section \<open>Leaving\<close>

lemma sigterm_then_exits:
  assumes "alive st"
  shows "\<exists>st1. sigterm we st = Done st1 \<and> wstep we st st1 \<and> \<not> wk_sigchld st1
     \<and> (wk_exit st1 = Some 1 \<or> (\<exists>st2. wstep we st1 st2 \<and> wk_exit st2 = Some 1))"
proof -
  have "\<exists>st1. stop_tincd we (Then_exit 1) (ignore_sigchld st) = Done st1"
    by (auto simp: stop_tincd_def continue_def split: prod.splits option.splits bool.splits)
  then obtain st1 where st1: "sigterm we st = Done st1" unfolding sigterm_def by blast
  have s: "\<not> wk_sigchld st1" using stop_exit_shut [of we 1 "ignore_sigchld st" st1] st1 by (simp add: sigterm_def)
  have "wk_exit st1 = Some 1 \<or> (\<exists>st2. wstep we st1 st2 \<and> wk_exit st2 = Some 1)"
    using st1 unfolding sigterm_def
  proof (cases rule: stop_cases)
    case 3
    let ?p = "di_pid (wk_di (ignore_sigchld st))"
    have "alive st1" "wk_stack st1 = In_stop ?p (Then_exit 1) # wk_stack st"
      using assms by (simp_all add: 3(2) push_def happens_def ignore_sigchld_def)
    then have "wstep we st1 (exit_with 1 (sigkill we ?p (st1\<lparr>wk_stack := wk_stack st\<rparr>)))"
      by (rule wstep.stop) (simp add: continue_def)
    then show ?thesis by auto
  qed (auto simp: continue_def)
  with st1 s wstep.sigterm [OF assms st1] show ?thesis by blast
qed

section \<open>The old tincd\<close>

lemma terminate_old_signals_init:
  assumes "tinc_get_pid (we_libc we) (we_sys we) (we_cfg we) (wk_files st) = Done 1"
  shows "main_terminate_old_tincd we st = Done (push (In_old 1) (happens (Ev_kill 1 SIGTERM) st))"
  using assms by (simp add: main_terminate_old_tincd_def)

section \<open>A restart\<close>

lemma restart_run:
  assumes ifdown: "tinc_invoke_ifdown (we_libc we) (we_sys we) (we_cfg we) = Done b" "cf_run_ifdown (we_cfg we)"
    and st: "alive st" "wk_stack st = []" "wk_pipe st = RESTART_TINCD # cs" "wk_sigchld st"
    and p: "wk_procs st = [p \<mapsto> Running path args]" "di_pid (wk_di st) = p" "p \<noteq> - 1" "\<not> we_denied we p"
    and q: "0 < q" "q \<noteq> p" and status: "\<not> (WIFEXITED status \<and> WEXITSTATUS status = 1)"
  shows "\<exists>st'. (wstep we)\<^sup>*\<^sup>* st st' \<and> alive st' \<and> wk_stack st' = [] \<and> wk_pipe st' = cs \<and> running (wk_procs st' q)
     \<and> wk_trace st' = wk_trace st @ [Ev_kill p SIGTERM, Ev_reap p status, Ev_ifdown, Ev_start q, Ev_kill p SIGKILL, Ev_ifdown]"
proof -
  let ?sa = "\<lparr>sa_pipe = Some (3, 4), sa_fdopen = True, sa_fork = Some q\<rparr>"
  have ifd: "invoke_ifdown we st = Done (happens Ev_ifdown st)" for st using ifdown by (simp add: invoke_ifdown_def)
  define st1 where "st1 = push (In_stop p Then_ifdown) (happens (Ev_kill p SIGTERM) (st\<lparr>wk_pipe := cs, wk_read := wk_read st @ [RESTART_TINCD]\<rparr>))"
  have s1: "wstep we st st1"
    by (rule wstep.command [OF st(1-3), where sa = ?sa])
      (use p q in \<open>auto simp: answer_ok_def handle_command_def stop_tincd_def daemon_stop_term_def kill_result_def st1_def Let_def\<close>)
  have k1: "wk_stack st1 = [In_stop p Then_ifdown]" "wk_procs st1 = [p \<mapsto> Running path args]" "alive st1" "wk_sigchld st1"
    "wk_di st1 = wk_di st" "wk_pipe st1 = cs" "wk_trace st1 = wk_trace st @ [Ev_kill p SIGTERM]"
    using st p(1) by (simp_all add: st1_def push_def happens_def)
  have s2: "wstep we st1 (die p status st1)" using k1 by (intro wstep.died) simp_all
  define st3 where "st3 = push In_wait ((die p status st1)\<lparr>wk_pending := False\<rparr>)"
  have s3: "wstep we (die p status st1) st3" unfolding st3_def using k1 by (intro wstep.sigchld) (simp_all add: die_def)
  have k3: "wk_stack st3 = [In_wait, In_stop p Then_ifdown]" "wk_procs st3 = [p \<mapsto> Zombie status]" "alive st3" "wk_di st3 = wk_di st"
    "wk_pipe st3 = cs" "wk_trace st3 = wk_trace st1"
    using k1 by (simp_all add: st3_def push_def die_def)
  define st4 where "st4 = push In_restart (happens Ev_ifdown (happens (Ev_reap p status)
    (st3\<lparr>wk_stack := [In_stop p Then_ifdown], wk_procs := Map.empty\<rparr>)))"
  have s4: "wstep we st3 st4"
    by (rule wstep.wait [OF k3(3,1), where pid = p and status = status])
      (use k3 p(2) status in \<open>auto simp: sigchild_def ifd st4_def happens_def\<close>)
  have k4: "wk_stack st4 = [In_restart, In_stop p Then_ifdown]" "wk_procs st4 = Map.empty" "alive st4" "wk_pipe st4 = cs"
    "wk_trace st4 = wk_trace st1 @ [Ev_reap p status, Ev_ifdown]"
    using k3 by (simp_all add: st4_def push_def happens_def)
  define st5 where "st5 = start_tincd ?sa (st4\<lparr>wk_stack := [In_stop p Then_ifdown]\<rparr>)"
  have s5: "wstep we st4 st5" unfolding st5_def using k4 q(1) by (intro wstep.restart) (simp_all add: answer_ok_def)
  have k5: "wk_stack st5 = [In_stop p Then_ifdown]" "running (wk_procs st5 q)" "wk_procs st5 p = None" "alive st5" "wk_pipe st5 = cs"
    "wk_trace st5 = wk_trace st4 @ [Ev_start q]"
    using k4 q by (simp_all add: st5_def start_tincd_def daemon_start_def Let_def happens_def running_def)
  define st6 where "st6 = happens Ev_ifdown (happens (Ev_kill p SIGKILL) (st5\<lparr>wk_stack := []\<rparr>))"
  have s6: "wstep we st5 st6"
    by (rule wstep.stop [OF k5(4,1)]) (use k5(3) in \<open>simp add: continue_def ifd sigkill_def Let_def happens_def running_def st6_def\<close>)
  have "(wstep we)\<^sup>*\<^sup>* st st6" using s1 s2 s3 s4 s5 s6 by (meson r_into_rtranclp rtranclp.rtrancl_into_rtrancl)
  then show ?thesis using k5 k4(5) k1(7) by (intro exI [of _ st6]) (simp add: st6_def happens_def)
qed

section \<open>Properties\<close>

text \<open>
  C3: the worker never has two tincd at once, whatever the order of commands the main process may send, of
  signals and of deaths: every child is the one it knows, also while a restart is under way.
\<close>

theorem worker_single_tincd:
  assumes "worker_init we st" and "(wstep we)\<^sup>*\<^sup>* st st'" and "wk_procs st' p \<noteq> None" and "wk_procs st' q \<noteq> None"
  shows "p = q \<and> p = di_pid (wk_di st')"
proof -
  have "core st'" using worker.reachable_good [OF assms(1,2)] by (simp add: worker_inv_iff)
  with core_procs [of st'] assms(3,4) show ?thesis by blast
qed

text \<open>
  C16: a worker that has left its loop leaves no tincd behind that it could have killed, except when it has
  started one in oneshot mode and ended with 0, which is what that mode is for.
\<close>

theorem worker_exit_leaves_nothing:
  assumes "worker_init we st" and "(wstep we)\<^sup>*\<^sup>* st st'" and "wk_exit st' = Some n" and "\<not> (cf_oneshot (we_cfg we) \<and> n = 0)"
    and "\<not> we_denied we p"
  shows "\<not> running (wk_procs st' p)"
  using worker.reachable_good [OF assms(1,2)] assms(3-5) by (auto simp: worker_inv_iff leaves_nothing_def)

text \<open>
  C19: every signal the worker has sent went to a tincd it had started itself, by a positive process id, or to
  process 1; in particular never to a process group and never to all processes, which -1 would mean.
\<close>

theorem worker_signals_known:
  assumes "worker_init we st" and "(wstep we)\<^sup>*\<^sup>* st st'" and "Ev_kill p s \<in> set (wk_trace st')"
  shows "p = 1 \<or> 0 < p \<and> Ev_start p \<in> set (wk_trace st')"
  using worker.reachable_good [OF assms(1,2)] assms(3) by (auto simp: worker_inv_iff core_def signals_known_def known_def)

text \<open>
  once the worker ignores \<open>SIGCHLD\<close>, which it does before it stops tincd for good, no further step of any
  kind starts a tincd, and it never listens to \<open>SIGCHLD\<close> again.
\<close>

theorem worker_shutdown_is_final:
  assumes "worker_init we st" and "(wstep we)\<^sup>*\<^sup>* st st'" and "\<not> wk_sigchld st'" and "(wstep we)\<^sup>*\<^sup>* st' st''"
  shows "\<not> wk_sigchld st'' \<and> {p. Ev_start p \<in> set (wk_trace st'')} = {p. Ev_start p \<in> set (wk_trace st')}"
proof -
  have "shut (started st') we st'" using worker.reachable_good [OF assms(1,2)] assms(3) by (simp add: shut_def)
  from shutdown.reachable_good [OF this assms(4)] show ?thesis by (simp add: shut_def started_def)
qed

text \<open>
  C17: from every state it can be in, also asleep in one of its signal handlers, the worker has a way out:
  \<open>SIGTERM\<close> takes it to \<open>exit(1)\<close> in at most one more step of its own, with no tincd left that it could have killed.
\<close>

theorem worker_sigterm_exits:
  assumes "worker_init we st" and "(wstep we)\<^sup>*\<^sup>* st st'" and "wk_exit st' = None"
  shows "\<exists>st1 st2. sigterm we st' = Done st1 \<and> wstep we st' st1 \<and> (st2 = st1 \<or> wstep we st1 st2) \<and> wk_exit st2 = Some 1
     \<and> (\<forall>p. we_denied we p \<or> \<not> running (wk_procs st2 p))"
proof -
  obtain st1 where st1: "sigterm we st' = Done st1" "wstep we st' st1"
    "wk_exit st1 = Some 1 \<or> (\<exists>st2. wstep we st1 st2 \<and> wk_exit st2 = Some 1)" using sigterm_then_exits [OF assms(3)] by blast
  then obtain st2 where st2: "st2 = st1 \<or> wstep we st1 st2" "wk_exit st2 = Some 1" by blast
  have "worker_inv we st'" by (rule worker.reachable_good [OF assms(1,2)])
  then have "worker_inv we st2" using st1(2) st2(1) wstep_inv by blast
  with st1 st2 show ?thesis by (auto simp: worker_inv_iff leaves_nothing_def)
qed

text \<open>
  C20: a restart can take down the new tincd's interface.  When tincd ends on the \<open>SIGTERM\<close> of a restart command,
  \<open>sigchild\<close> runs inside the sleep of \<open>daemon_stop\<close> and starts the next one; back in \<open>daemon_stop\<close> the worker sends
  \<open>SIGKILL\<close> to the process id already waited for, and then runs \<open>tinc-down\<close> with the new tincd running.
\<close>

theorem worker_restart_ifdown_late:
  assumes "tinc_invoke_ifdown (we_libc we) (we_sys we) (we_cfg we) = Done b" and "cf_run_ifdown (we_cfg we)"
    and "wk_exit st = None" and "wk_stack st = []" and "wk_pipe st = RESTART_TINCD # cs" and "wk_sigchld st"
    and "wk_procs st = [p \<mapsto> Running path args]" and "di_pid (wk_di st) = p" and "p \<noteq> - 1" and "\<not> we_denied we p"
    and "0 < q" and "q \<noteq> p" and "\<not> (WIFEXITED status \<and> WEXITSTATUS status = 1)"
  shows "\<exists>st'. (wstep we)\<^sup>*\<^sup>* st st' \<and> wk_exit st' = None \<and> wk_stack st' = [] \<and> wk_pipe st' = cs \<and> running (wk_procs st' q)
     \<and> wk_trace st' = wk_trace st @ [Ev_kill p SIGTERM, Ev_reap p status, Ev_ifdown, Ev_start q, Ev_kill p SIGKILL, Ev_ifdown]"
  using assms by (rule restart_run)

section \<open>A run\<close>

definition sample_worker_env :: worker_env where
  "sample_worker_env = \<lparr>we_libc = plain_libc, we_sys = plain_env,
     we_cfg = sample_config\<lparr>cf_networkname := Some ''chaos'', cf_run_ifdown := True\<rparr>, we_denied = (\<lambda>_. False)\<rparr>"

lemma sample_worker_env_simps [simp]:
  "we_libc sample_worker_env = plain_libc" "we_sys sample_worker_env = plain_env" "\<not> we_denied sample_worker_env p"
  "cf_run_ifdown (we_cfg sample_worker_env)" "\<not> cf_oneshot (we_cfg sample_worker_env)"
  "cf_tincd_bin (we_cfg sample_worker_env) = Some ''tincd''" "cf_networkname (we_cfg sample_worker_env) = Some ''chaos''"
  "cf_tincd_pidfile (we_cfg sample_worker_env) = None" "cf_base_path (we_cfg sample_worker_env) = Some ''/etc/tinc/chaos''"
  by (simp_all add: sample_worker_env_def sample_config_def config_alloc_def)

lemma sample_no_old: "tinc_get_pid plain_libc plain_env (we_cfg sample_worker_env) files = Done 0"
proof -
  have "\<not> 0 < strnatcmp ''1.0.19'' ''1.1''" by code_simp
  then have "\<not> version_newer (we_cfg sample_worker_env) ''1.1''"
    by (simp add: version_newer_def sample_worker_env_def sample_config_def)
  then show ?thesis by (simp add: tinc_get_pid_def str_is_empty_def)
qed

text \<open>The worker is told to signal the old tincd and to start one; then it has a running tincd.\<close>

definition worker_at_work :: "worker_env \<Rightarrow> int \<Rightarrow> worker \<Rightarrow> bool" where
  "worker_at_work we p st \<longleftrightarrow> wk_exit st = None \<and> wk_stack st = [] \<and> wk_pipe st = [] \<and> wk_sigchld st
     \<and> (\<exists>path args. wk_procs st = [p \<mapsto> Running path args]) \<and> di_pid (wk_di st) = p \<and> \<not> wk_closed st
     \<and> wk_read st = [SIGNAL_OLD_TINCD, START_TINCD] \<and> wk_trace st = [Ev_start p]"

lemma sample_worker:
  obtains st0 st where "worker_init sample_worker_env st0" "(wstep sample_worker_env)\<^sup>*\<^sup>* st0 st" "worker_at_work sample_worker_env 4711 st"
proof -
  let ?we = sample_worker_env
  obtain di where di: "tincd_command plain_libc (we_cfg ?we) daemon_zero = Done di"
    using tincd_command_builds [OF alloc_total_plain, of "we_cfg ?we" "''tincd''" "''chaos''" daemon_zero] by auto
  define st0 where "st0 = \<lparr>wk_di = di, wk_fds = {}, wk_procs = Map.empty, wk_files = Map.empty, wk_sigchld = True, wk_pending = False,
    wk_stack = [], wk_pipe = [], wk_closed = False, wk_exit = None, wk_read = [], wk_trace = []\<rparr>"
  let ?sa = "\<lparr>sa_pipe = Some (3, 4), sa_fdopen = True, sa_fork = Some 4711\<rparr>"
  have init: "worker_init ?we st0" using di by (simp add: worker_init_def st0_def)
  define st1 where "st1 = st0\<lparr>wk_pipe := [SIGNAL_OLD_TINCD]\<rparr>"
  define st2 where "st2 = st1\<lparr>wk_pipe := [SIGNAL_OLD_TINCD, START_TINCD]\<rparr>"
  define st3 where "st3 = st2\<lparr>wk_pipe := [START_TINCD], wk_read := [SIGNAL_OLD_TINCD]\<rparr>"
  define st4 where "st4 = start_tincd ?sa (st3\<lparr>wk_pipe := [], wk_read := [SIGNAL_OLD_TINCD, START_TINCD]\<rparr>)"
  have s1: "wstep ?we st0 st1" using wstep.send [of st0 SIGNAL_OLD_TINCD ?we] by (simp add: st1_def st0_def)
  have s2: "wstep ?we st1 st2" using wstep.send [of st1 START_TINCD ?we] by (simp add: st2_def st1_def st0_def)
  have s3: "wstep ?we st2 st3"
    by (rule wstep.command [where c = SIGNAL_OLD_TINCD and cs = "[START_TINCD]" and sa = ?sa])
      (simp_all add: st3_def st2_def st1_def st0_def answer_ok_def handle_command_def main_terminate_old_tincd_def sample_no_old)
  have s4: "wstep ?we st3 st4"
    by (rule wstep.command [where c = START_TINCD and cs = "[]" and sa = ?sa])
      (simp_all add: st4_def st3_def st2_def st1_def st0_def answer_ok_def handle_command_def)
  have "worker_at_work ?we 4711 st4"
    unfolding worker_at_work_def
    by (intro conjI exI) (simp_all add: st4_def st3_def st2_def st1_def st0_def start_tincd_def daemon_start_def happens_def)
  moreover have "(wstep ?we)\<^sup>*\<^sup>* st0 st4" using s1 s2 s3 s4 by (meson r_into_rtranclp rtranclp.rtrancl_into_rtrancl)
  ultimately show ?thesis using init that by blast
qed

theorem worker_single_tincd_witness:
  "\<exists>st. worker_at_work sample_worker_env 4711 st \<and> (\<forall>p. wk_procs st p \<noteq> None \<longrightarrow> p = 4711)"
proof -
  obtain st0 st where st: "worker_init sample_worker_env st0" "(wstep sample_worker_env)\<^sup>*\<^sup>* st0 st" "worker_at_work sample_worker_env 4711 st"
    by (rule sample_worker)
  then have "wk_procs st 4711 \<noteq> None" by (auto simp: worker_at_work_def)
  with worker_single_tincd [OF st(1,2)] st(3) show ?thesis by blast
qed

lemma sample_shutdown:
  obtains st0 st1 st2 where "worker_init sample_worker_env st0" "(wstep sample_worker_env)\<^sup>*\<^sup>* st0 st1" "\<not> wk_sigchld st1"
    "wstep sample_worker_env st1 st2" "wk_exit st2 = Some 1" "Ev_kill 4711 SIGTERM \<in> set (wk_trace st2)"
    "{p. Ev_start p \<in> set (wk_trace st1)} = {4711}"
proof -
  let ?we = sample_worker_env
  obtain st0 st where st: "worker_init ?we st0" "(wstep ?we)\<^sup>*\<^sup>* st0 st" "worker_at_work ?we 4711 st" by (rule sample_worker)
  define st1 where "st1 = push (In_stop 4711 (Then_exit 1)) (happens (Ev_kill 4711 SIGTERM) (ignore_sigchld st))"
  define st2 where "st2 = exit_with 1 (sigkill ?we 4711 (st1\<lparr>wk_stack := []\<rparr>))"
  have k: "wk_exit st = None" "wk_stack st = []" "wk_procs st 4711 \<noteq> None" "di_pid (wk_di st) = 4711" "wk_trace st = [Ev_start 4711]"
    using st(3) by (auto simp: worker_at_work_def)
  have t: "sigterm ?we st = Done st1"
    using k by (simp add: sigterm_def stop_tincd_def daemon_stop_term_def kill_result_def st1_def ignore_sigchld_def)
  have s1: "wstep ?we st st1" by (rule wstep.sigterm [OF k(1) t])
  have k1: "wk_exit st1 = None" "wk_stack st1 = [In_stop 4711 (Then_exit 1)]" "\<not> wk_sigchld st1"
    "wk_trace st1 = [Ev_start 4711, Ev_kill 4711 SIGTERM]"
    using k by (simp_all add: st1_def push_def happens_def ignore_sigchld_def)
  have s2: "wstep ?we st1 st2" by (rule wstep.stop [OF k1(1,2)]) (simp add: continue_def st2_def)
  have t2: "Ev_kill 4711 SIGTERM \<in> set (wk_trace st2)" "wk_exit st2 = Some 1"
    using k1(4) by (simp_all add: st2_def exit_with_def sigkill_def Let_def happens_def die_def)
  have "(wstep ?we)\<^sup>*\<^sup>* st0 st1" using st(2) s1 by simp
  with st(1) k1(3,4) s2 t2 that show ?thesis by auto
qed

theorem worker_exit_leaves_nothing_witness:
  "\<exists>st :: worker. wk_exit st = Some 1 \<and> \<not> running (wk_procs st 4711) \<and> Ev_kill 4711 SIGTERM \<in> set (wk_trace st)"
proof -
  obtain st0 st1 st2 where st: "worker_init sample_worker_env st0" "(wstep sample_worker_env)\<^sup>*\<^sup>* st0 st1"
    "wstep sample_worker_env st1 st2" "wk_exit st2 = Some 1" "Ev_kill 4711 SIGTERM \<in> set (wk_trace st2)" by (rule sample_shutdown)
  have "(wstep sample_worker_env)\<^sup>*\<^sup>* st0 st2" using st(2,3) by simp
  from worker_exit_leaves_nothing [OF st(1) this st(4), of 4711] st(4,5) show ?thesis by - (rule exI [of _ st2], simp)
qed

theorem worker_signals_known_witness:
  "\<exists>st :: worker. Ev_kill 4711 SIGTERM \<in> set (wk_trace st) \<and> Ev_start 4711 \<in> set (wk_trace st)"
proof -
  obtain st0 st1 st2 where st: "worker_init sample_worker_env st0" "(wstep sample_worker_env)\<^sup>*\<^sup>* st0 st1"
    "wstep sample_worker_env st1 st2" "Ev_kill 4711 SIGTERM \<in> set (wk_trace st2)" by (rule sample_shutdown)
  have "(wstep sample_worker_env)\<^sup>*\<^sup>* st0 st2" using st(2,3) by simp
  from worker_signals_known [OF st(1) this st(4)] st(4) show ?thesis by - (rule exI [of _ st2], simp)
qed

theorem worker_shutdown_is_final_witness:
  "\<exists>st :: worker. wk_exit st = Some 1 \<and> \<not> wk_sigchld st \<and> {p. Ev_start p \<in> set (wk_trace st)} = {4711}"
proof -
  obtain st0 st1 st2 where st: "worker_init sample_worker_env st0" "(wstep sample_worker_env)\<^sup>*\<^sup>* st0 st1" "\<not> wk_sigchld st1"
    "wstep sample_worker_env st1 st2" "wk_exit st2 = Some 1" "{p. Ev_start p \<in> set (wk_trace st1)} = {4711}" by (rule sample_shutdown)
  from st(4) have "(wstep sample_worker_env)\<^sup>*\<^sup>* st1 st2" by (rule r_into_rtranclp)
  from worker_shutdown_is_final [OF st(1-3) this] st(5,6) show ?thesis by - (rule exI [of _ st2], simp)
qed

theorem worker_sigterm_exits_witness:
  "\<exists>st st1 st2. worker_at_work sample_worker_env 4711 st \<and> sigterm sample_worker_env st = Done st1
     \<and> (st2 = st1 \<or> wstep sample_worker_env st1 st2) \<and> wk_exit st2 = Some 1 \<and> \<not> running (wk_procs st2 4711)"
proof -
  obtain st0 st where st: "worker_init sample_worker_env st0" "(wstep sample_worker_env)\<^sup>*\<^sup>* st0 st" "worker_at_work sample_worker_env 4711 st"
    by (rule sample_worker)
  from worker_sigterm_exits [OF st(1,2)] st(3) show ?thesis by (auto simp: worker_at_work_def)
qed

theorem worker_restart_ifdown_late_witness:
  "\<exists>st st'. (wstep sample_worker_env)\<^sup>*\<^sup>* st st' \<and> running (wk_procs st' 4712)
     \<and> wk_trace st' = [Ev_start 4711, Ev_kill 4711 SIGTERM, Ev_reap 4711 0, Ev_ifdown, Ev_start 4712, Ev_kill 4711 SIGKILL, Ev_ifdown]"
proof -
  obtain st0 st where "worker_at_work sample_worker_env 4711 st" by (rule sample_worker)
  then obtain path args where st: "wk_exit st = None" "wk_stack st = []" "wk_sigchld st" "wk_procs st = [4711 \<mapsto> Running path args]"
    "di_pid (wk_di st) = 4711" "wk_trace st = [Ev_start 4711]" by (auto simp: worker_at_work_def)
  obtain b where b: "tinc_invoke_ifdown plain_libc plain_env (we_cfg sample_worker_env) = Done b"
  proof -
    have "base_file plain_libc (we_cfg sample_worker_env) ''/tinc-down'' = Done (''/etc/tinc/chaos'' @ ''/tinc-down'')"
      by (rule base_file_path [OF alloc_total_plain]) (simp_all add: c_text_def)
    with that show ?thesis by (simp add: tinc_invoke_ifdown_def plain_env_def)
  qed
  let ?st = "st\<lparr>wk_pipe := [RESTART_TINCD]\<rparr>"
  have "\<exists>st'. (wstep sample_worker_env)\<^sup>*\<^sup>* ?st st' \<and> wk_exit st' = None \<and> wk_stack st' = [] \<and> wk_pipe st' = [] \<and> running (wk_procs st' 4712)
     \<and> wk_trace st' = wk_trace ?st @ [Ev_kill 4711 SIGTERM, Ev_reap 4711 0, Ev_ifdown, Ev_start 4712, Ev_kill 4711 SIGKILL, Ev_ifdown]"
    by (rule worker_restart_ifdown_late [where b = b]) (use st b in \<open>simp_all add: WEXITSTATUS_def\<close>)
  with st(6) show ?thesis by auto
qed

text \<open>
  C21: the old tincd is not the process that is signalled.  Whatever process id its pid file holds, the worker sends
  \<open>SIGTERM\<close> to process 1, sleeps, sends \<open>SIGKILL\<close> to process 1, and when that is granted removes the pid file of
  the tincd that still runs.
\<close>

theorem main_terminate_old_signals_init:
  assumes "alloc_total (we_libc we)" and "\<not> version_newer (we_cfg we) ''1.1''" and "cf_tincd_pidfile (we_cfg we) = Some path"
    and "path \<noteq> []" and "wk_files st (canon path) = Some (nat_dec pid @ ''\<newline>'', mode)" and "\<not> se_read_error (we_sys we) path"
    and "0 < pid" and "pid < 2 ^ 31" and "wk_exit st = None" and "wk_stack st = []"
    and "wk_pipe st = SIGNAL_OLD_TINCD # cs" and "wk_procs st = Map.empty" and "\<not> we_denied we 1"
  shows "\<exists>st'. (wstep we)\<^sup>*\<^sup>* st st' \<and> wk_trace st' = wk_trace st @ [Ev_kill 1 SIGTERM, Ev_kill 1 SIGKILL]
     \<and> wk_files st' = (wk_files st)(canon path := None) \<and> wk_pipe st' = cs \<and> wk_stack st' = []"
proof -
  let ?st = "st\<lparr>wk_pipe := cs, wk_read := wk_read st @ [SIGNAL_OLD_TINCD]\<rparr>"
  let ?sa = "\<lparr>sa_pipe = None, sa_fdopen = False, sa_fork = None\<rparr>"
  have "tinc_get_pid (we_libc we) (we_sys we) (we_cfg we) (wk_files st) = Done 1" by (rule get_pid_flag [where files = "wk_files st" and se = "we_sys we", OF assms(1-8)])
  then have t: "main_terminate_old_tincd we ?st = Done (push (In_old 1) (happens (Ev_kill 1 SIGTERM) ?st))"
    by (intro terminate_old_signals_init) simp
  define st1 where "st1 = push (In_old 1) (happens (Ev_kill 1 SIGTERM) ?st)"
  have s1: "wstep we st st1"
    by (rule wstep.command [OF assms(9-11), where sa = ?sa]) (simp_all add: answer_ok_def handle_command_def t st1_def)
  have k1: "wk_exit st1 = None" "wk_stack st1 = [In_old 1]" "wk_procs st1 = Map.empty"
    "wk_trace st1 = wk_trace st @ [Ev_kill 1 SIGTERM]" "wk_files st1 = wk_files st" "wk_pipe st1 = cs"
    using assms(9,10,12) by (simp_all add: st1_def push_def happens_def)
  define st2 where "st2 = terminate_old_kill we True 1 (st1\<lparr>wk_stack := []\<rparr>)"
  have s2: "wstep we st1 st2" unfolding st2_def using k1(3) by (intro wstep.old [OF k1(1,2)]) simp
  have "wk_trace st2 = wk_trace st1 @ [Ev_kill 1 SIGKILL]" "wk_files st2 = (wk_files st1)(canon path := None)"
    "wk_pipe st2 = cs" "wk_stack st2 = []"
    using k1 assms(3,4) by (simp_all add: st2_def terminate_old_kill_def sigkill_def Let_def happens_def running_def main_unlink_pidfile_def
        str_is_empty_def)
  with s1 s2 k1(4,5) show ?thesis by (intro exI [of _ st2]) (simp add: rtranclp.rtrancl_into_rtrancl)
qed

definition old_tincd_env :: worker_env where
  "old_tincd_env = \<lparr>we_libc = plain_libc, we_sys = plain_env, we_cfg = pid_config, we_denied = (\<lambda>_. False)\<rparr>"

definition old_tincd_worker :: worker where
  "old_tincd_worker = \<lparr>wk_di = daemon_zero, wk_fds = {}, wk_procs = Map.empty,
     wk_files = [''/var/run/tinc.pid'' \<mapsto> (nat_dec 4711 @ ''\<newline>'', 420)], wk_sigchld = True, wk_pending = False,
     wk_stack = [], wk_pipe = [SIGNAL_OLD_TINCD], wk_closed = False, wk_exit = None, wk_read = [], wk_trace = []\<rparr>"

theorem main_terminate_old_signals_init_witness:
  "\<exists>st'. (wstep old_tincd_env)\<^sup>*\<^sup>* old_tincd_worker st' \<and> wk_trace st' = [Ev_kill 1 SIGTERM, Ev_kill 1 SIGKILL]
     \<and> wk_files st' ''/var/run/tinc.pid'' = None"
proof -
  have v: "\<not> 0 < strnatcmp ''1.0.19'' ''1.1''" by code_simp
  have "\<exists>st'. (wstep old_tincd_env)\<^sup>*\<^sup>* old_tincd_worker st'
     \<and> wk_trace st' = wk_trace old_tincd_worker @ [Ev_kill 1 SIGTERM, Ev_kill 1 SIGKILL]
     \<and> wk_files st' = (wk_files old_tincd_worker)(canon ''/var/run/tinc.pid'' := None) \<and> wk_pipe st' = [] \<and> wk_stack st' = []"
    by (rule main_terminate_old_signals_init [where pid = 4711 and mode = 420])
      (use v in \<open>simp_all add: old_tincd_env_def old_tincd_worker_def pid_config_def sample_config_def version_newer_def plain_env_def alloc_total_plain\<close>)
  then show ?thesis by (auto simp: old_tincd_worker_def)
qed

end
