(* ===== verification/Conflex.thy ===== *)
theory Conflex
  imports Chaosconfig
begin

text \<open>
  \<^verbatim>\<open>src/cvconf.l\<close>: the scanner of the configuration file.  The rules are data, in the order of the
  file: a start condition, a pattern and an action.  \<open>pick\<close> is flex's documented choice among them: the
  longest match, the earlier rule on a tie, and one echoed character where no rule matches any.
\<close>

section \<open>Patterns\<close>

text \<open>
  Every pattern of the file is a sequence of character classes, single or repeated; \<open>x+\<close> is \<open>xx*\<close>.
  \<open>longest\<close> is the length of the longest prefix that matches.
\<close>

datatype piece = One "char \<Rightarrow> bool" | Many "char \<Rightarrow> bool"

fun longer :: "nat option \<Rightarrow> nat option \<Rightarrow> nat option" where
  "longer None b = b"
| "longer a None = a"
| "longer (Some a) (Some b) = Some (max a b)"

fun longest :: "piece list \<Rightarrow> string \<Rightarrow> nat option" where
  "longest [] s = Some 0"
| "longest (One p # r) [] = None"
| "longest (One p # r) (c # s) = (if p c then map_option Suc (longest r s) else None)"
| "longest (Many p # r) [] = longest r []"
| "longest (Many p # r) (c # s) =
     longer (longest r (c # s)) (if p c then map_option Suc (longest (Many p # r) s) else None)"

definition lit :: "string \<Rightarrow> piece list" where
  "lit s = map (\<lambda>c. One ((=) c)) s"

text \<open>\<open>[Yy][Ee][Ss]\<close> and its like, from the word in lower case.\<close>

definition anycase :: "string \<Rightarrow> piece list" where
  "anycase s = map (\<lambda>c. One (\<lambda>d. tolower d = c)) s"

definition blank :: "char \<Rightarrow> bool" where
  "blank c \<longleftrightarrow> c = CHR '' '' \<or> c = CHR 0x09"

definition name_char :: "char \<Rightarrow> bool" where
  "name_char c \<longleftrightarrow> c = CHR ''_'' \<or> 97 \<le> code c \<and> code c \<le> 122"

definition string_char :: "char \<Rightarrow> bool" where
  "string_char c \<longleftrightarrow> c \<noteq> CHR 0x22 \<and> c \<noteq> CHR 0x5C \<and> c \<noteq> CHR ''$''"

section \<open>Tokens\<close>

text \<open>
  A pointer to a field of the configuration is its reader and its writer.  \<open>UNKNOWN\<close> stands for the
  place in the text where the scanner ends the program.
\<close>

record 'a field =
  fd_get :: "config \<Rightarrow> 'a"
  fd_put :: "'a \<Rightarrow> config \<Rightarrow> config"

abbreviation field :: "(config \<Rightarrow> 'a) \<Rightarrow> (('a \<Rightarrow> 'a) \<Rightarrow> config \<Rightarrow> config) \<Rightarrow> 'a field" where
  "field get update \<equiv> \<lparr>fd_get = get, fd_put = \<lambda>v. update (\<lambda>_. v)\<rparr>"

datatype token =
    KEYWORD_S "string option field" | KEYWORD_I "32 word field" | KEYWORD_B "bool field"
  | KEYWORD_L "settings_list_entry list option field"
  | STRING string | INTVAL int | BOOLVAL bool | YESNOVAL bool | FLOATVAL
  | ASSIGNMENT | SEPARATOR | STRINGMARKER | LISTOPEN | LISTSEP | LISTCLOSE | UNKNOWN

section \<open>Start conditions and actions\<close>

text \<open>
  The conditions are inclusive: a rule without one is active in all of them.  The scanner's state is
  the condition and the one a string goes back to.
\<close>

datatype condition = INITIAL | PV | SS | LL

record scanner =
  yy_start :: condition
  stringcaller :: condition

datatype outcome = Return token scanner | Ignore scanner | Stop

type_synonym rule = "condition option \<times> piece list \<times> (string \<Rightarrow> scanner \<Rightarrow> outcome)"

definition return :: "token \<Rightarrow> string \<Rightarrow> scanner \<Rightarrow> outcome" where
  "return t yytext sc = Return t sc"

definition begin_return :: "condition \<Rightarrow> token \<Rightarrow> string \<Rightarrow> scanner \<Rightarrow> outcome" where
  "begin_return c t yytext sc = Return t (sc\<lparr>yy_start := c\<rparr>)"

definition open_string :: "string \<Rightarrow> scanner \<Rightarrow> outcome" where
  "open_string yytext sc = Return STRINGMARKER (sc\<lparr>stringcaller := yy_start sc, yy_start := SS\<rparr>)"

definition close_string :: "string \<Rightarrow> scanner \<Rightarrow> outcome" where
  "close_string yytext sc = Return STRINGMARKER (sc\<lparr>yy_start := stringcaller sc\<rparr>)"

definition return_string :: "string \<Rightarrow> scanner \<Rightarrow> outcome" where
  "return_string yytext sc = Return (STRING (cstr yytext)) sc"

definition return_int :: "string \<Rightarrow> scanner \<Rightarrow> outcome" where
  "return_int yytext sc = Return (INTVAL (atoi yytext)) sc"

definition ignore :: "string \<Rightarrow> scanner \<Rightarrow> outcome" where
  "ignore yytext sc = Ignore sc"

definition unknown_variable :: "string \<Rightarrow> scanner \<Rightarrow> outcome" where
  "unknown_variable yytext sc = Stop"

section \<open>The rules\<close>

definition variables :: "(string \<times> token) list" where
  "variables =
     [(''$my_peerid'', KEYWORD_S (field cf_peerid cf_peerid_update)),
      (''$my_vpn_ip'', KEYWORD_S (field cf_vpn_ip cf_vpn_ip_update)),
      (''$my_vpn_ip6'', KEYWORD_S (field cf_vpn_ip6 cf_vpn_ip6_update)),
      (''$my_password'', KEYWORD_S (field cf_password cf_password_update)),
      (''$my_ip'', KEYWORD_S (field cf_my_ip cf_my_ip_update)),
      (''$my_addressfamily'', KEYWORD_S (field cf_my_addressfamily cf_my_addressfamily_update)),
      (''$networkname'', KEYWORD_S (field cf_networkname cf_networkname_update)),
      (''$tincd_bin'', KEYWORD_S (field cf_tincd_bin cf_tincd_bin_update)),
      (''$tincctl_bin'', KEYWORD_S (field cf_tincctl_bin cf_tincctl_bin_update)),
      (''$routeadd'', KEYWORD_S (field cf_routeadd cf_routeadd_update)),
      (''$routeadd6'', KEYWORD_S (field cf_routeadd6 cf_routeadd6_update)),
      (''$routedel'', KEYWORD_S (field cf_routedel cf_routedel_update)),
      (''$routedel6'', KEYWORD_S (field cf_routedel6 cf_routedel6_update)),
      (''$routemetric'', KEYWORD_S (field cf_routemetric cf_routemetric_update)),
      (''$postup'', KEYWORD_S (field cf_postup cf_postup_update)),
      (''$ifconfig'', KEYWORD_S (field cf_ifconfig cf_ifconfig_update)),
      (''$ifconfig6'', KEYWORD_S (field cf_ifconfig6 cf_ifconfig6_update)),
      (''$master_url'', KEYWORD_S (field cf_master_url cf_master_url_update)),
      (''$masterdata_signkey'', KEYWORD_S (field cf_masterdata_signkey cf_masterdata_signkey_update)),
      (''$base'', KEYWORD_S (field cf_base_path cf_base_path_update)),
      (''$pidfile'', KEYWORD_S (field cf_tincd_pidfile cf_tincd_pidfile_update)),
      (''$tincd_debuglevel'', KEYWORD_I (field cf_tincd_debuglevel cf_tincd_debuglevel_update)),
      (''$my_vpn_netmask'', KEYWORD_S (field cf_vpn_netmask cf_vpn_netmask_update)),
      (''$tmpconffile'', KEYWORD_S (field cf_tmpconffile cf_tmpconffile_update)),
      (''$tincd_restart_delay'', KEYWORD_I (field cf_tincd_restart_delay cf_tincd_restart_delay_update)),
      (''$tincd_graphdumpfile'', KEYWORD_S (field cf_tincd_graphdumpfile cf_tincd_graphdumpfile_update)),
      (''$tincd_interface'', KEYWORD_S (field cf_tincd_interface cf_tincd_interface_update)),
      (''$tincd_device'', KEYWORD_S (field cf_tincd_device cf_tincd_device_update)),
      (''$tincd_user'', KEYWORD_S (field cf_tincd_user cf_tincd_user_update)),
      (''$tincd_raw_config'', KEYWORD_S (field cf_tincd_raw_config cf_tincd_raw_config_update)),
      (''$update_interval'', KEYWORD_I (field cf_update_interval cf_update_interval_update)),
      (''$use_dynamic_routes'', KEYWORD_B (field cf_use_dynamic_routes cf_use_dynamic_routes_update)),
      (''$connect_only_to_primary_nodes'',
         KEYWORD_B (field cf_connect_only_to_primary_nodes cf_connect_only_to_primary_nodes_update)),
      (''$run_ifdown'', KEYWORD_B (field cf_run_ifdown cf_run_ifdown_update)),
      (''$localdiscovery'', KEYWORD_B (field cf_localdiscovery cf_localdiscovery_update)),
      (''@exclude'', KEYWORD_L (field cf_exclude cf_exclude_update)),
      (''@mergeroutes_supernet'', KEYWORD_L (field cf_mergeroutes_supernet_raw cf_mergeroutes_supernet_raw_update)),
      (''@ignore_subnets'', KEYWORD_L (field cf_ignore_subnets_raw cf_ignore_subnets_raw_update)),
      (''@whitelist_subnets'', KEYWORD_L (field cf_whitelist_subnets_raw cf_whitelist_subnets_raw_update))]"

definition variable_rules :: "rule list" where
  "variable_rules = map (\<lambda>(name, t). (None, lit name, return t)) variables"

text \<open>The pattern meant for unknown names: its first bracket is quoted, so it matches \<open>[@$]\<close> itself and letters.\<close>

definition value_rules :: "rule list" where
  "value_rules =
     [(None, lit ''[@$]'' @ [One name_char, Many name_char], unknown_variable),
      (None, anycase ''yes'', return (YESNOVAL True)),
      (None, anycase ''no'', return (YESNOVAL False)),
      (None, anycase ''true'', return (BOOLVAL True)),
      (None, anycase ''false'', return (BOOLVAL False)),
      (None, [Many blank, One ((=) CHR ''=''), Many blank], begin_return PV ASSIGNMENT),
      (Some PV, [Many isdigit, One ((=) CHR ''.''), One isdigit, Many isdigit], return FLOATVAL),
      (Some PV, [One isdigit, Many isdigit], return_int),
      (Some PV, [One ((=) CHR 0x22)], open_string),
      (Some PV, [One ((=) CHR ''('')], begin_return LL LISTOPEN)]"

definition string_rules :: "rule list" where
  "string_rules =
     [(Some SS, [One ((=) CHR 0x22)], close_string),
      (Some SS, [One ((=) CHR 0x5C), One ((=) CHR ''$'')], return (STRING ''$'')),
      (Some SS, [Many string_char], return_string)]"

definition list_rules :: "rule list" where
  "list_rules =
     [(Some LL, [Many blank], ignore),
      (Some LL, [One ((=) CHR '','')], return LISTSEP),
      (Some LL, [One ((=) CHR 0x22)], open_string),
      (Some LL, [Many isdigit, One ((=) CHR ''.''), One isdigit, Many isdigit], return FLOATVAL),
      (Some LL, [One isdigit, Many isdigit], return_int),
      (Some LL, [One ((=) CHR '')'')], begin_return INITIAL LISTCLOSE)]"

definition other_rules :: "rule list" where
  "other_rules =
     [(None, [One ((=) CHR '';'')], return SEPARATOR),
      (None, [One ((=) CHR ''#''), Many (\<lambda>c. c \<noteq> CHR 0x0A)], ignore),
      (None, [Many blank], ignore),
      (None, [One ((=) CHR 0x0A)], ignore)]"

definition rules :: "rule list" where
  "rules = variable_rules @ value_rules @ string_rules @ list_rules @ other_rules"

section \<open>The scanner\<close>

definition try_rule :: "condition \<Rightarrow> string \<Rightarrow> rule \<Rightarrow> nat \<times> (string \<Rightarrow> scanner \<Rightarrow> outcome) \<Rightarrow> nat \<times> (string \<Rightarrow> scanner \<Rightarrow> outcome)" where
  "try_rule start input r later =
     (case r of (cond, pattern, action) \<Rightarrow>
        if cond = None \<or> cond = Some start
        then (case longest pattern input of
                None \<Rightarrow> later
              | Some n \<Rightarrow> if fst later \<le> n then (n, action) else later)
        else later)"

text \<open>The default rule, last of all, echoes one character.\<close>

definition pick :: "condition \<Rightarrow> string \<Rightarrow> nat \<times> (string \<Rightarrow> scanner \<Rightarrow> outcome)" where
  "pick start input = foldr (try_rule start input) rules (1, ignore)"

lemma try_rule_grows: "fst later \<le> fst (try_rule start input r later)"
  by (auto simp: try_rule_def split: prod.split option.split)

lemma foldr_try_grows: "fst later \<le> fst (foldr (try_rule start input) rs later)"
  by (induction rs) (auto intro: le_trans try_rule_grows)

lemma pick_consumes: "(n, action) = pick start input \<Longrightarrow> 0 < n"
  using foldr_try_grows [of "(1, ignore)" start input rules] by (auto simp: pick_def dest: arg_cong [of _ _ fst])

function yylex_all :: "string \<Rightarrow> scanner \<Rightarrow> token list" where
  "yylex_all [] sc = []"
| "yylex_all (c # input) sc =
     (case pick (yy_start sc) (c # input) of
        (n, action) \<Rightarrow>
          (case action (take n (c # input)) sc of
             Return t sc' \<Rightarrow> t # yylex_all (drop n (c # input)) sc'
           | Ignore sc' \<Rightarrow> yylex_all (drop n (c # input)) sc'
           | Stop \<Rightarrow> [UNKNOWN]))"
  by pat_completeness auto
termination
  by (relation "measure (length \<circ> fst)") (auto dest: pick_consumes)

definition start_scanner :: scanner where
  "start_scanner = \<lparr>yy_start = INITIAL, stringcaller = INITIAL\<rparr>"

declare yylex_all.simps(2) [simp del]

lemmas scan_actions = return_def begin_return_def open_string_def close_string_def return_string_def return_int_def ignore_def

end
