(* ===== verification/Confgram.thy ===== *)
theory Confgram
  imports Conflex
begin

text \<open>
  \<^verbatim>\<open>src/cvconf.y\<close>: the grammar of the configuration file and the actions that store the settings.
\<close>

section \<open>Strings\<close>

definition catandfree :: "libc \<Rightarrow> string \<Rightarrow> string \<Rightarrow> string run" where
  "catandfree lc s1 s2 = (if lc_alloc lc (length s1 + length s2 + 1) then Done (s1 @ s2) else Exit 111)"

definition concatias :: "libc \<Rightarrow> int \<Rightarrow> string \<Rightarrow> string run" where
  "concatias lc i s =
     (let sl = length s; tl = sl + 20 in
      if lc_alloc lc (sl + tl) then Done (take (sl + tl - 1) (int_dec i @ s)) else Exit 111)"

fun in_string :: "token \<Rightarrow> bool" where
  "in_string (KEYWORD_S p) = True"
| "in_string (KEYWORD_I p) = True"
| "in_string (STRING s) = True"
| "in_string t = False"

text \<open>The actions of \<open>string\<close>; the rule is right recursive, so the last part is reduced first.\<close>

fun string_value :: "libc \<Rightarrow> config \<Rightarrow> token list \<Rightarrow> string run" where
  "string_value lc cfg (KEYWORD_S p # ts) =
     run_bind (string_value lc cfg ts) (\<lambda>s.
       case fd_get p cfg of None \<Rightarrow> Exit 1 | Some v \<Rightarrow> catandfree lc v s)"
| "string_value lc cfg (KEYWORD_I p # ts) =
     run_bind (string_value lc cfg ts) (concatias lc (sint (fd_get p cfg)))"
| "string_value lc cfg (STRING v # ts) = run_bind (string_value lc cfg ts) (catandfree lc v)"
| "string_value lc cfg ts = Done ''''"

text \<open>
  \<open>string STRINGMARKER\<close>, behind the opening marker.  The parts are reduced when the next token is
  known, whatever it is; where it cannot be read, the scanner has ended the program before.
\<close>

definition parse_string :: "libc \<Rightarrow> config \<Rightarrow> token list \<Rightarrow> (string \<times> token list) run" where
  "parse_string lc cfg ts =
     (case dropWhile in_string ts of
        UNKNOWN # rest \<Rightarrow> Exit 1
      | STRINGMARKER # rest \<Rightarrow> run_bind (string_value lc cfg (takeWhile in_string ts)) (\<lambda>s. Done (s, rest))
      | _ \<Rightarrow> run_bind (string_value lc cfg (takeWhile in_string ts)) (\<lambda>s. Exit 1))"

text \<open>A pattern match on the first tokens of a text that has another shape is a parse error, \<open>yyerror\<close>, which ends the program.\<close>

section \<open>Lists\<close>

definition list_allocate :: "libc \<Rightarrow> settings_list_entry list run" where
  "list_allocate lc = (if lc_alloc lc 24 then Done [] else Exit 111)"

definition list_mkientry :: "libc \<Rightarrow> int \<Rightarrow> settings_list_entry run" where
  "list_mkientry lc i = (if lc_alloc lc 16 then Done (LIST_INTEGER i) else Exit 111)"

definition list_mksentry :: "libc \<Rightarrow> string \<Rightarrow> settings_list_entry run" where
  "list_mksentry lc s = (if lc_alloc lc 16 then Done (LIST_STRING s) else Exit 111)"

definition list_add_elem ::
  "libc \<Rightarrow> settings_list_entry list \<Rightarrow> settings_list_entry \<Rightarrow> settings_list_entry list run" where
  "list_add_elem lc list item = (if lc_alloc lc 24 then Done (item # list) else Exit 111)"

definition parse_listentry :: "libc \<Rightarrow> config \<Rightarrow> token list \<Rightarrow> (settings_list_entry \<times> token list) run" where
  "parse_listentry lc cfg ts =
     (case ts of
        INTVAL i # ts \<Rightarrow> run_bind (list_mkientry lc i) (\<lambda>e. Done (e, ts))
      | STRINGMARKER # ts \<Rightarrow>
          run_bind (parse_string lc cfg ts) (\<lambda>(s, ts). run_bind (list_mksentry lc s) (\<lambda>e. Done (e, ts)))
      | _ \<Rightarrow> Exit 1)"

declare run_bind_cong [fundef_cong]

lemma parse_string_shorter: "parse_string lc cfg ts = Done (s, rest) \<Longrightarrow> length rest < length ts"
  using length_dropWhile_le [of in_string ts]
  by (auto simp: parse_string_def run_simps split: list.splits token.splits if_splits)

lemma parse_listentry_shorter: "parse_listentry lc cfg ts = Done (e, rest) \<Longrightarrow> length rest < length ts"
  by (auto simp: parse_listentry_def run_simps dest!: parse_string_shorter split: list.splits token.splits)

text \<open>\<open>list\<close>, behind the opening parenthesis; the list is built from its end.\<close>

function parse_list :: "libc \<Rightarrow> config \<Rightarrow> token list \<Rightarrow> (settings_list_entry list \<times> token list) run" where
  "parse_list lc cfg ts =
     (case ts of
        LISTCLOSE # rest \<Rightarrow> run_bind (list_allocate lc) (\<lambda>l. Done (l, rest))
      | _ \<Rightarrow> run_bind (parse_listentry lc cfg ts) (\<lambda>(e, ts).
          case ts of
            LISTCLOSE # rest \<Rightarrow>
              run_bind (list_allocate lc) (\<lambda>l. run_bind (list_add_elem lc l e) (\<lambda>l. Done (l, rest)))
          | LISTSEP # rest \<Rightarrow>
              run_bind (parse_list lc cfg rest) (\<lambda>(l, ts). run_bind (list_add_elem lc l e) (\<lambda>l. Done (l, ts)))
          | _ \<Rightarrow> Exit 1))"
  by pat_completeness auto
termination
  by (relation "measure (\<lambda>(lc, cfg, ts). length ts)") (auto dest!: parse_listentry_shorter)

declare parse_list.simps [simp del]

section \<open>Settings\<close>

definition parse_setting :: "libc \<Rightarrow> config \<Rightarrow> token list \<Rightarrow> (config \<times> token list) run" where
  "parse_setting lc cfg ts =
     (case ts of
        KEYWORD_I p # ASSIGNMENT # INTVAL i # ts \<Rightarrow> Done (fd_put p (word_of_int i) cfg, ts)
      | KEYWORD_B p # ASSIGNMENT # BOOLVAL b # ts \<Rightarrow> Done (fd_put p b cfg, ts)
      | KEYWORD_B p # ASSIGNMENT # YESNOVAL b # ts \<Rightarrow> Done (fd_put p b cfg, ts)
      | KEYWORD_B p # ASSIGNMENT # INTVAL i # ts \<Rightarrow> Done (fd_put p (i \<noteq> 0) cfg, ts)
      | KEYWORD_S p # ASSIGNMENT # STRINGMARKER # ts \<Rightarrow>
          run_bind (parse_string lc cfg ts) (\<lambda>(s, ts). Done (fd_put p (Some s) cfg, ts))
      | KEYWORD_L p # ASSIGNMENT # LISTOPEN # ts \<Rightarrow>
          run_bind (parse_list lc cfg ts) (\<lambda>(l, ts). Done (fd_put p (Some l) cfg, ts))
      | _ \<Rightarrow> Exit 1)"

lemma case_close:
  "(case ts of LISTCLOSE # r \<Rightarrow> f r | _ \<Rightarrow> g) = Done x \<Longrightarrow> (\<exists>r. ts = LISTCLOSE # r \<and> f r = Done x) \<or> g = Done x"
  by (simp split: list.splits token.splits)

lemma case_close_sep:
  "(case ts of LISTCLOSE # r \<Rightarrow> f r | LISTSEP # r \<Rightarrow> g r | _ \<Rightarrow> Exit 1) = Done x \<Longrightarrow>
     (\<exists>r. ts = LISTCLOSE # r \<and> f r = Done x) \<or> (\<exists>r. ts = LISTSEP # r \<and> g r = Done x)"
  by (simp split: list.splits token.splits)

lemma parse_list_shorter: "parse_list lc cfg ts = Done (l, rest) \<Longrightarrow> length rest < length ts"
proof (induction ts arbitrary: l rest rule: length_induct)
  case (1 ts)
  from case_close [OF "1.prems" [unfolded parse_list.simps [of lc cfg ts]]]
  show ?case
  proof
    assume "run_bind (parse_listentry lc cfg ts) (\<lambda>(e, ts). case ts of
            LISTCLOSE # rest \<Rightarrow>
              run_bind (list_allocate lc) (\<lambda>l. run_bind (list_add_elem lc l e) (\<lambda>l. Done (l, rest)))
          | LISTSEP # rest \<Rightarrow>
              run_bind (parse_list lc cfg rest) (\<lambda>(l, ts). run_bind (list_add_elem lc l e) (\<lambda>l. Done (l, ts)))
          | _ \<Rightarrow> Exit 1) = Done (l, rest)"
    then obtain e ts1 where e: "parse_listentry lc cfg ts = Done (e, ts1)" and
      k: "(case ts1 of
            LISTCLOSE # rest \<Rightarrow>
              run_bind (list_allocate lc) (\<lambda>l. run_bind (list_add_elem lc l e) (\<lambda>l. Done (l, rest)))
          | LISTSEP # rest \<Rightarrow>
              run_bind (parse_list lc cfg rest) (\<lambda>(l, ts). run_bind (list_add_elem lc l e) (\<lambda>l. Done (l, ts)))
          | _ \<Rightarrow> Exit 1) = Done (l, rest)" by (auto simp: run_simps)
    note s = parse_listentry_shorter [OF e]
    from case_close_sep [OF k] s show ?thesis
    proof (elim disjE exE conjE)
      fix r assume "ts1 = LISTSEP # r"
         "run_bind (parse_list lc cfg r) (\<lambda>(l, ts). run_bind (list_add_elem lc l e) (\<lambda>l. Done (l, ts))) = Done (l, rest)"
      then obtain l' where "parse_list lc cfg r = Done (l', rest)" and r: "length r < length ts"
        using s by (auto simp: run_simps)
      then show ?thesis using "1.IH" by fastforce
    qed (auto simp: run_simps)
  qed (auto simp: run_simps)
qed

lemma parse_setting_shorter: "parse_setting lc cfg ts = Done (cfg', rest) \<Longrightarrow> length rest < length ts"
  by (auto simp: parse_setting_def run_simps dest!: parse_string_shorter parse_list_shorter split: list.splits token.splits)

function parse_settings :: "libc \<Rightarrow> config \<Rightarrow> token list \<Rightarrow> config run" where
  "parse_settings lc cfg ts =
     (if ts = [] then Done cfg
      else run_bind (parse_setting lc cfg ts) (\<lambda>(cfg, ts).
             case ts of SEPARATOR # rest \<Rightarrow> parse_settings lc cfg rest | _ \<Rightarrow> Exit 1))"
  by pat_completeness auto
termination
  by (relation "measure (\<lambda>(lc, cfg, ts). length ts)") (auto dest!: parse_setting_shorter)

declare parse_settings.simps [simp del]

declare run_bind_cong [fundef_cong del]

definition yyparse :: "libc \<Rightarrow> string \<Rightarrow> config \<Rightarrow> config run" where
  "yyparse lc input cfg = parse_settings lc cfg (yylex_all input start_scanner)"

text \<open>An empty file sets nothing.\<close>

lemma yyparse_empty [simp]: "yyparse lc [] cfg = Done cfg"
  by (simp add: yyparse_def parse_settings.simps)

end
