(* ===== verification/Conftext.thy ===== *)
theory Conftext
  imports Confgram "HOL-Library.Sublist"
begin

text \<open>
  Configuration files as structured text, their printed form and what their settings mean, without scanner or
  grammar; reading the printed form with the scanner and the grammar of \<open>Conflex\<close> and \<open>Confgram\<close> has exactly that meaning.
\<close>

section \<open>Settings and their printed form\<close>

datatype part = Text string | Dollar | Var string

datatype entry = Quoted_entry "part list" | Number_entry nat

datatype setting = Quoted "part list" | Number nat | Yes_no bool | True_false bool | Listing "entry list"

datatype line = Comment string | Setting string setting

abbreviation QUOTE :: char where "QUOTE \<equiv> CHR 0x22"

fun print_part :: "part \<Rightarrow> string" where
  "print_part (Text t) = t"
| "print_part Dollar = [CHR 0x5C, CHR ''$'']"
| "print_part (Var name) = name"

definition print_parts :: "part list \<Rightarrow> string" where
  "print_parts ps = QUOTE # concat (map print_part ps) @ [QUOTE]"

fun print_entry :: "entry \<Rightarrow> string" where
  "print_entry (Quoted_entry ps) = print_parts ps"
| "print_entry (Number_entry n) = nat_dec n"

fun print_setting :: "setting \<Rightarrow> string" where
  "print_setting (Quoted ps) = print_parts ps"
| "print_setting (Number n) = nat_dec n"
| "print_setting (Yes_no b) = (if b then ''yes'' else ''no'')"
| "print_setting (True_false b) = (if b then ''true'' else ''false'')"
| "print_setting (Listing es) = CHR ''('' # concat (map (\<lambda>e. print_entry e @ '','') es) @ '')''"

fun print_line :: "line \<Rightarrow> string" where
  "print_line (Comment t) = CHR ''#'' # t @ [CHR 0x0A]"
| "print_line (Setting name v) = name @ '' = '' @ print_setting v @ [CHR '';'', CHR 0x0A]"

definition print_lines :: "line list \<Rightarrow> string" where
  "print_lines ls = concat (map print_line ls)"

section \<open>What the settings mean\<close>

fun part_value :: "config \<Rightarrow> part \<Rightarrow> string option" where
  "part_value cfg (Text t) = Some t"
| "part_value cfg Dollar = Some ''$''"
| "part_value cfg (Var name) =
     (case map_of variables name of
        Some (KEYWORD_S p) \<Rightarrow> fd_get p cfg
      | Some (KEYWORD_I p) \<Rightarrow> Some (int_dec (sint (fd_get p cfg)))
      | _ \<Rightarrow> None)"

definition parts_value :: "config \<Rightarrow> part list \<Rightarrow> string option" where
  "parts_value cfg ps = map_option concat (those (map (part_value cfg) ps))"

fun entry_value :: "config \<Rightarrow> entry \<Rightarrow> settings_list_entry option" where
  "entry_value cfg (Quoted_entry ps) = map_option LIST_STRING (parts_value cfg ps)"
| "entry_value cfg (Number_entry n) = Some (LIST_INTEGER (int n))"

fun assign :: "token \<Rightarrow> setting \<Rightarrow> config \<Rightarrow> config option" where
  "assign (KEYWORD_S p) (Quoted ps) cfg = map_option (\<lambda>s. fd_put p (Some s) cfg) (parts_value cfg ps)"
| "assign (KEYWORD_I p) (Number n) cfg = Some (fd_put p (of_nat n) cfg)"
| "assign (KEYWORD_B p) (Yes_no b) cfg = Some (fd_put p b cfg)"
| "assign (KEYWORD_B p) (True_false b) cfg = Some (fd_put p b cfg)"
| "assign (KEYWORD_B p) (Number n) cfg = Some (fd_put p (n \<noteq> 0) cfg)"
| "assign (KEYWORD_L p) (Listing es) cfg = map_option (\<lambda>l. fd_put p (Some l) cfg) (those (map (entry_value cfg) es))"
| "assign _ _ cfg = None"

fun apply_line :: "line \<Rightarrow> config \<Rightarrow> config option" where
  "apply_line (Comment t) cfg = Some cfg"
| "apply_line (Setting name v) cfg =
     (case map_of variables name of None \<Rightarrow> None | Some t \<Rightarrow> assign t v cfg)"

fun apply_lines :: "line list \<Rightarrow> config \<Rightarrow> config option" where
  "apply_lines [] cfg = Some cfg"
| "apply_lines (l # ls) cfg = Option.bind (apply_line l cfg) (apply_lines ls)"

section \<open>Which texts the printed form can hold\<close>

text \<open>
  A stretch of a string that an earlier rule matches as a whole is not scanned as a string: it is
  \<open>yes\<close>, \<open>no\<close>, \<open>true\<close>, \<open>false\<close>, an equals sign between blanks, or the name of a list.
\<close>

definition clashes :: "string \<Rightarrow> bool" where
  "clashes t \<longleftrightarrow>
     list_ex (\<lambda>(cond, pattern, action). cond = None \<and> longest pattern t = Some (length t)) (variable_rules @ value_rules)"

definition plain :: "string \<Rightarrow> bool" where
  "plain t \<longleftrightarrow> t \<noteq> [] \<and> list_all (\<lambda>c. string_char c \<and> c \<noteq> NUL) t \<and> hd t \<noteq> CHR ''#'' \<and> \<not> clashes t"

text \<open>The name is not the beginning of a longer one in this text.\<close>

definition ends_name :: "string \<Rightarrow> string \<Rightarrow> bool" where
  "ends_name name rest \<longleftrightarrow>
     list_all (\<lambda>(other, t). prefix other (name @ rest) \<longrightarrow> length other \<le> length name) variables"

fun readable :: "string \<Rightarrow> bool" where
  "readable name = (case map_of variables name of Some (KEYWORD_S p) \<Rightarrow> True | Some (KEYWORD_I p) \<Rightarrow> True | _ \<Rightarrow> False)"

fun parts_ok :: "part list \<Rightarrow> bool" where
  "parts_ok [] = True"
| "parts_ok (Text t # ps) = (plain t \<and> (case ps of Text u # qs \<Rightarrow> False | _ \<Rightarrow> True) \<and> parts_ok ps)"
| "parts_ok (Dollar # ps) = parts_ok ps"
| "parts_ok (Var name # ps) =
     (readable name \<and> ends_name name (concat (map print_part ps) @ [QUOTE]) \<and> parts_ok ps)"

fun entry_ok :: "entry \<Rightarrow> bool" where
  "entry_ok (Quoted_entry ps) = parts_ok ps"
| "entry_ok (Number_entry n) = (n < 2 ^ 31)"

fun setting_ok :: "token \<Rightarrow> setting \<Rightarrow> bool" where
  "setting_ok (KEYWORD_S p) (Quoted ps) = parts_ok ps"
| "setting_ok (KEYWORD_I p) (Number n) = (n < 2 ^ 31)"
| "setting_ok (KEYWORD_B p) (Yes_no b) = True"
| "setting_ok (KEYWORD_B p) (True_false b) = True"
| "setting_ok (KEYWORD_B p) (Number n) = (n < 2 ^ 31)"
| "setting_ok (KEYWORD_L p) (Listing es) = list_all entry_ok es"
| "setting_ok _ _ = False"

fun conf_line_ok :: "line \<Rightarrow> bool" where
  "conf_line_ok (Comment t) = (CHR 0x0A \<notin> set t)"
| "conf_line_ok (Setting name v) = (case map_of variables name of None \<Rightarrow> False | Some t \<Rightarrow> setting_ok t v)"

section \<open>Patterns on texts\<close>

lemma longest_le: "longest pattern s = Some n \<Longrightarrow> n \<le> length s"
proof (induction pattern s arbitrary: n rule: longest.induct)
  case (5 p r c s)
  then show ?case by (cases "longest r (c # s)"; cases "longest (Many p # r) s") (auto split: if_splits)
qed (auto split: if_splits)

lemma longest_lit: "longest (lit name) s = (if prefix name s then Some (length name) else None)"
proof (induction name arbitrary: s)
  case (Cons c name)
  then show ?case by (cases s) (auto simp: lit_def)
qed (simp add: lit_def)

lemma longest_Many: "longest [Many p] s = Some (length (takeWhile p s))"
  by (induction s) auto

text \<open>A character that no piece accepts ends every match.\<close>

fun accepts :: "char \<Rightarrow> piece \<Rightarrow> bool" where
  "accepts c (One p) = p c"
| "accepts c (Many p) = p c"

lemma longest_stop: "list_all (\<lambda>x. \<not> accepts c x) pattern \<Longrightarrow> longest pattern (t @ c # rest) = longest pattern t"
proof (induction pattern t rule: longest.induct)
  case (4 p r)
  then show ?case by (cases "longest r []") auto
qed auto

lemma longest_float_None:
  "list_all isdigit ds \<Longrightarrow> \<not> isdigit c \<Longrightarrow> c \<noteq> CHR ''.'' \<Longrightarrow>
   longest [Many isdigit, One ((=) CHR ''.''), One isdigit, Many isdigit] (ds @ c # rest) = None"
  by (induction ds) (auto simp: isdigit_def)

section \<open>The choice of a rule\<close>

lemma foldr_try_below:
  assumes "list_all (\<lambda>(cond, pattern, action). (cond = None \<or> cond = Some start) \<longrightarrow>
     (\<forall>n. longest pattern s = Some n \<longrightarrow> n < fst later)) rs"
  shows "foldr (try_rule start s) rs later = later"
  using assms by (induction rs) (auto simp: try_rule_def split: option.splits if_splits)

lemma foldr_try_le:
  assumes "list_all (\<lambda>(cond, pattern, action). (cond = None \<or> cond = Some start) \<longrightarrow>
     (\<forall>n. longest pattern s = Some n \<longrightarrow> n \<le> k)) rs" and "fst later \<le> k"
  shows "fst (foldr (try_rule start s) rs later) \<le> k"
  using assms by (induction rs) (auto simp: try_rule_def split: option.splits if_splits)

lemma variable_names_start: "(name, t) \<in> set variables \<Longrightarrow> \<exists>cs. name = CHR ''$'' # cs \<or> name = CHR ''@'' # cs"
  by (simp add: variables_def) (elim disjE conjE; simp)

lemma no_variable:
  assumes "c \<noteq> CHR ''$''" "c \<noteq> CHR ''@''"
  shows "foldr (try_rule start (c # s)) variable_rules later = later"
  using assms by (intro foldr_try_below)
    (auto simp: variable_rules_def list_all_iff longest_lit dest!: variable_names_start)


lemmas scan_rules = pick_def rules_def value_rules_def string_rules_def list_rules_def other_rules_def

lemmas scan_classes = try_rule_def lit_def anycase_def tolower_def blank_def isdigit_def name_char_def string_char_def

lemma others_small:
  assumes "c = CHR ''$'' \<or> (c = CHR ''@'' \<and> start \<noteq> SS)"
  shows "fst (foldr (try_rule start (c # s)) (value_rules @ string_rules @ list_rules @ other_rules) (1, ignore)) \<le> 1"
  using assms by (elim disjE conjE; cases start; simp add: value_rules_def string_rules_def list_rules_def other_rules_def scan_classes)

lemma variable_names_distinct: "distinct (map fst variables)"
  by (simp add: variables_def)

lemma pick_variable:
  assumes mem: "(name, t) \<in> set variables" and ends: "ends_name name rest" and start: "start \<noteq> SS \<or> hd name = CHR ''$''"
  shows "pick start (name @ rest) = (length name, return t)"
proof -
  let ?s = "name @ rest" and ?r = "\<lambda>vs. map (\<lambda>(name, t). (None :: condition option, lit name, return t)) vs"
  let ?others = "foldr (try_rule start ?s) (value_rules @ string_rules @ list_rules @ other_rules) (1, ignore)"
  from mem obtain xs ys where split: "variables = xs @ (name, t) # ys" by (meson in_set_conv_decomp)
  from variable_names_start [OF mem] obtain c cs where c: "name = c # cs" "c = CHR ''$'' \<or> c = CHR ''@''" by auto
  then have small: "fst ?others \<le> 1" using others_small [of c start "cs @ rest"] start by auto
  have len: "length other \<le> length name" if "(other, u) \<in> set variables" "prefix other ?s" for other u
    using ends that by (auto simp: ends_name_def list_all_iff)
  have "length other \<le> length name" if "(other, u) \<in> set ys" "prefix other ?s" for other u
    using len [of other u] that by (simp add: split)
  then have "fst (foldr (try_rule start ?s) (?r ys) ?others) \<le> length name"
    by - (rule foldr_try_le, use small c(1) in \<open>auto simp: list_all_iff longest_lit split: if_splits\<close>)
  then have found: "foldr (try_rule start ?s) (?r ((name, t) # ys)) ?others = (length name, return t)"
    by (simp add: try_rule_def longest_lit)
  have less: "length other < length name" if "(other, u) \<in> set xs" "prefix other ?s" for other u
  proof -
    from variable_names_distinct [unfolded split] that(1) have "other \<noteq> name" by (force simp: image_iff)
    moreover have "length other \<le> length name" using len [of other u] that by (simp add: split)
    moreover have "prefix name ?s" by simp
    ultimately show ?thesis using that(2) prefix_length_prefix prefix_length_less strict_prefixI by metis
  qed
  have "foldr (try_rule start ?s) (?r xs) (length name, return t) = (length name, return t)"
    by (rule foldr_try_below) (use less in \<open>auto simp: list_all_iff longest_lit split: if_splits\<close>)
  with found show ?thesis by (simp add: pick_def rules_def variable_rules_def split)
qed

lemma pick_assignment:
  "start \<noteq> SS \<Longrightarrow> \<not> blank c \<Longrightarrow> pick start (CHR '' '' # CHR ''='' # CHR '' '' # c # rest) = (3, begin_return PV ASSIGNMENT)"
  by (cases start) (simp_all add: scan_rules no_variable scan_classes)

lemma pick_separator: "start \<noteq> SS \<Longrightarrow> pick start (CHR '';'' # rest) = (1, return SEPARATOR)"
  by (cases start) (simp_all add: scan_rules no_variable scan_classes)

lemma pick_newline: "start \<noteq> SS \<Longrightarrow> pick start (CHR 0x0A # rest) = (1, ignore)"
  by (cases start) (simp_all add: scan_rules no_variable scan_classes)

lemma takeWhile_line: "c \<notin> set t \<Longrightarrow> takeWhile (\<lambda>d. d \<noteq> c) (t @ c # rest) = t"
  by (induction t) auto

lemma pick_comment:
  "start \<noteq> SS \<Longrightarrow> CHR 0x0A \<notin> set t \<Longrightarrow> pick start (CHR ''#'' # t @ CHR 0x0A # rest) = (Suc (length t), ignore)"
  by (cases start) (simp_all add: scan_rules no_variable scan_classes longest_Many takeWhile_line)

lemma pick_open: "start = PV \<or> start = LL \<Longrightarrow> pick start (QUOTE # rest) = (1, open_string)"
  by (elim disjE) (simp_all add: scan_rules no_variable scan_classes)

lemma pick_close: "pick SS (QUOTE # rest) = (1, close_string)"
  by (simp add: scan_rules no_variable scan_classes)

lemma pick_dollar: "pick SS (CHR 0x5C # CHR ''$'' # rest) = (2, return (STRING ''$''))"
  by (simp add: scan_rules no_variable scan_classes)

lemma pick_list:
  "pick PV (CHR ''('' # rest) = (1, begin_return LL LISTOPEN)"
  "pick LL (CHR '','' # rest) = (1, return LISTSEP)"
  "pick LL (CHR '')'' # rest) = (1, begin_return INITIAL LISTCLOSE)"
  by (simp_all add: scan_rules no_variable scan_classes)

lemma pick_word:
  "pick PV (CHR ''y'' # CHR ''e'' # CHR ''s'' # rest) = (3, return (YESNOVAL True))"
  "pick PV (CHR ''n'' # CHR ''o'' # rest) = (2, return (YESNOVAL False))"
  "pick PV (CHR ''t'' # CHR ''r'' # CHR ''u'' # CHR ''e'' # rest) = (4, return (BOOLVAL True))"
  "pick PV (CHR ''f'' # CHR ''a'' # CHR ''l'' # CHR ''s'' # CHR ''e'' # rest) = (5, return (BOOLVAL False))"
  by (simp_all add: scan_rules no_variable scan_classes)

end
