(* ===== verification/Confscan.thy ===== *)
theory Confscan
  imports Conftext
begin

text \<open>
  Scanning the printed form of a configuration file: each printed piece gives the tokens it stands for, whatever follows.
\<close>

section \<open>Numbers\<close>

lemma longest_reject: "\<not> p c \<Longrightarrow> longest (Many p # r) (c # s) = longest r (c # s)"
  by (cases "longest r (c # s)") auto

lemma isdigit_differs:
  assumes "isdigit c"
  shows "c \<noteq> CHR ''$''" "c \<noteq> CHR ''@''" "c \<noteq> CHR ''[''" "c \<noteq> CHR ''=''" "c \<noteq> QUOTE" "c \<noteq> CHR ''(''" "c \<noteq> CHR '')''"
    "c \<noteq> CHR '',''" "c \<noteq> CHR '';''" "c \<noteq> CHR ''#''" "c \<noteq> CHR 0x0A" "\<not> blank c" "tolower c = c"
    "c \<noteq> CHR ''y''" "c \<noteq> CHR ''n''" "c \<noteq> CHR ''t''" "c \<noteq> CHR ''f''"
  using assms by (auto simp: isdigit_def blank_def tolower_def)

lemma pick_digits:
  assumes start: "start = PV \<or> start = LL" and ds: "list_all isdigit (d # ds)" and c: "\<not> isdigit c" "c \<noteq> CHR ''.''"
  shows "pick start (d # ds @ c # rest) = (Suc (length ds), return_int)"
proof -
  have d: "isdigit d" using ds by simp
  have fl: "longest [Many isdigit, One ((=) CHR ''.''), One isdigit, Many isdigit] (d # ds @ c # rest) = None"
    using longest_float_None [OF ds c] by simp
  have int: "takeWhile isdigit (ds @ c # rest) = ds"
    using ds c(1) by (induction ds) auto
  note d' = isdigit_differs [OF d]
  note d'' = d'(1-11,14-17) [symmetric]
  from start show ?thesis
    by (elim disjE) (simp_all add: scan_rules try_rule_def no_variable lit_def anycase_def d d' d'' fl int longest_reject longest_Many
        del: longest.simps(5))
qed

lemma pick_nat:
  assumes "start = PV \<or> start = LL" and "\<not> isdigit c" "c \<noteq> CHR ''.''"
  shows "pick start (nat_dec n @ c # rest) = (length (nat_dec n), return_int)"
proof -
  have "list_all isdigit (nat_dec n)" using nat_dec_isdigit by (auto simp: list_all_iff)
  then show ?thesis using pick_digits [OF assms(1) _ assms(2,3)] by (cases "nat_dec n") auto
qed


section \<open>The choice inside a string\<close>

lemma variable_name_chars:
  assumes "(name, t) \<in> set variables"
  shows "c \<in> set name \<Longrightarrow> c \<noteq> QUOTE \<and> c \<noteq> CHR 0x5C \<and> c \<noteq> CHR '' ''" "name = d # cs \<Longrightarrow> c \<in> set cs \<Longrightarrow> c \<noteq> CHR ''$''"
proof -
  have "list_all (\<lambda>(name, t). QUOTE \<notin> set name \<and> CHR 0x5C \<notin> set name \<and> CHR '' '' \<notin> set name \<and> CHR ''$'' \<notin> set (tl name)) variables"
    by (simp add: variables_def)
  with assms show "c \<in> set name \<Longrightarrow> c \<noteq> QUOTE \<and> c \<noteq> CHR 0x5C \<and> c \<noteq> CHR '' ''" "name = d # cs \<Longrightarrow> c \<in> set cs \<Longrightarrow> c \<noteq> CHR ''$''"
    by (auto simp: list_all_iff)
qed

lemma early_rule_cases:
  assumes "(cond, pattern, action) \<in> set (variable_rules @ value_rules)"
  obtains (variable) name t where "(name, t) \<in> set variables" "pattern = lit name" "cond = None"
  | (fixed) "(cond, pattern, action) \<in> set value_rules"
  using assms by (auto simp: variable_rules_def)

lemma early_rules_stop:
  assumes mem: "(None, pattern, action) \<in> set (variable_rules @ value_rules)" and c: "c = QUOTE \<or> c = CHR 0x5C"
  shows "list_all (\<lambda>x. \<not> accepts c x) pattern"
  using mem
proof (cases rule: early_rule_cases)
  case (variable name t)
  then have "c \<notin> set name" using variable_name_chars(1) [OF variable(1), of c] c by blast
  then show ?thesis by (auto simp: variable(2) lit_def list_all_iff)
qed (use c in \<open>auto simp: value_rules_def lit_def anycase_def tolower_def blank_def name_char_def\<close>)

lemma early_rules_dollar:
  assumes mem: "(None, pattern, action) \<in> set (variable_rules @ value_rules)"
  shows "(\<exists>r. pattern = One ((=) CHR ''$'') # r) \<or> list_all (\<lambda>x. \<not> accepts (CHR ''$'') x) pattern
     \<or> pattern = lit ''[@$]'' @ [One name_char, Many name_char]"
  using mem
proof (cases rule: early_rule_cases)
  case (variable name t)
  obtain d cs where d: "name = d # cs" "d = CHR ''$'' \<or> d = CHR ''@''" using variable_names_start [OF variable(1)] by auto
  then have "CHR ''$'' \<notin> set cs" using variable_name_chars(2) [OF variable(1), of d cs "CHR ''$''"] by blast
  with d show ?thesis by (auto simp: variable(2) lit_def list_all_iff)
qed (auto simp: value_rules_def lit_def anycase_def tolower_def blank_def name_char_def)

lemma early_rules_conditions: "(Some cond, pattern, action) \<in> set (variable_rules @ value_rules) \<Longrightarrow> cond = PV"
  by (auto simp: variable_rules_def value_rules_def)

lemma bracket_text:
  assumes "list_all string_char t" and "rest \<noteq> [] \<longrightarrow> hd rest \<noteq> CHR '']''"
  shows "longest (lit ''[@$]'' @ [One name_char, Many name_char]) (t @ CHR ''$'' # rest) = None"
proof (cases t)
  case (Cons a t1)
  show ?thesis
  proof (cases t1)
    case (Cons b t2)
    then show ?thesis using assms \<open>t = a # t1\<close> by (cases t2; cases rest) (auto simp: lit_def string_char_def)
  qed (use assms Cons in \<open>auto simp: lit_def\<close>)
qed (simp add: lit_def)

lemma early_rule_shorter:
  assumes mem: "(None, pattern, action) \<in> set (variable_rules @ value_rules)" and t: "plain t"
    and c: "c = QUOTE \<or> c = CHR 0x5C \<or> (c = CHR ''$'' \<and> (rest \<noteq> [] \<longrightarrow> hd rest \<noteq> CHR '']''))"
    and n: "longest pattern (t @ c # rest) = Some n"
  shows "n < length t"
proof -
  have chars: "list_all string_char t" "t \<noteq> []" using t by (auto simp: plain_def list_all_iff)
  have same: "longest pattern (t @ c # rest) = longest pattern t"
  proof (cases "c = CHR ''$''")
    case True
    from early_rules_dollar [OF mem] show ?thesis
    proof (elim disjE exE)
      fix r assume "pattern = One ((=) CHR ''$'') # r"
      then show ?thesis using chars by (cases t) (auto simp: string_char_def)
    next
      assume "pattern = lit ''[@$]'' @ [One name_char, Many name_char]"
      then show ?thesis using n bracket_text [OF chars(1), of rest] True c by simp
    qed (auto simp: longest_stop True)
  next
    case False
    with c have "c = QUOTE \<or> c = CHR 0x5C" by blast
    from longest_stop [OF early_rules_stop [OF mem this]] show ?thesis .
  qed
  with n have "longest pattern t = Some n" by simp
  moreover from this mem t have "n \<noteq> length t" by (fastforce simp: plain_def clashes_def list_ex_iff)
  ultimately show ?thesis using longest_le by (metis le_neq_implies_less)
qed

lemma pick_text:
  assumes t: "plain t" and c: "c = QUOTE \<or> c = CHR 0x5C \<or> (c = CHR ''$'' \<and> (rest \<noteq> [] \<longrightarrow> hd rest \<noteq> CHR '']''))"
  shows "pick SS (t @ c # rest) = (length t, return_string)"
proof -
  let ?s = "t @ c # rest"
  have chars: "list_all string_char t" "t \<noteq> []" "hd t \<noteq> CHR ''#''" using t by (auto simp: plain_def list_all_iff)
  have stop: "\<not> string_char c" "\<not> blank c" using c by (auto simp: string_char_def blank_def)
  have string: "longest [Many string_char] ?s = Some (length t)"
    using chars(1) stop by (simp add: longest_Many list_all_iff takeWhile_append2)
  have blanks: "length (takeWhile blank ?s) \<le> length t"
    using stop by (induction t) auto
  obtain d ts where d: "t = d # ts" "d \<noteq> QUOTE" "d \<noteq> CHR 0x5C" "d \<noteq> CHR ''#''"
    using chars by (cases t) (auto simp: string_char_def)
  note d' = d(2-4) [symmetric]
  let ?others = "foldr (try_rule SS ?s) (list_rules @ other_rules) (1, ignore)"
  have "fst ?others \<le> length t"
    by (rule foldr_try_le) (use d blanks in \<open>auto simp: list_rules_def other_rules_def longest_Many split: if_splits\<close>)
  then have "foldr (try_rule SS ?s) string_rules ?others = (length t, return_string)"
    using string by (simp add: string_rules_def try_rule_def d d')
  moreover have "foldr (try_rule SS ?s) (variable_rules @ value_rules) (length t, return_string) = (length t, return_string)"
  proof (rule foldr_try_below)
    show "list_all (\<lambda>(cond, pattern, action). (cond = None \<or> cond = Some SS) \<longrightarrow>
       (\<forall>n. longest pattern ?s = Some n \<longrightarrow> n < fst (length t, return_string))) (variable_rules @ value_rules)"
      unfolding list_all_iff using early_rule_shorter [OF _ t c] early_rules_conditions by fastforce
  qed
  ultimately show ?thesis by (simp add: pick_def rules_def)
qed


section \<open>Scanning the printed form\<close>

lemma yylex_Return:
  assumes "pick (yy_start sc) s = (n, action)" and "s \<noteq> []" and "action (take n s) sc = Return t sc'"
  shows "yylex_all s sc = t # yylex_all (drop n s) sc'"
  using assms by (cases s) (auto simp: yylex_all.simps(2))

lemma yylex_Ignore:
  assumes "pick (yy_start sc) s = (n, action)" and "s \<noteq> []" and "action (take n s) sc = Ignore sc'"
  shows "yylex_all s sc = yylex_all (drop n s) sc'"
  using assms by (cases s) (auto simp: yylex_all.simps(2))

fun part_token :: "part \<Rightarrow> token" where
  "part_token (Text t) = STRING t"
| "part_token Dollar = STRING ''$''"
| "part_token (Var name) = the (map_of variables name)"

fun entry_tokens :: "entry \<Rightarrow> token list" where
  "entry_tokens (Quoted_entry ps) = STRINGMARKER # map part_token ps @ [STRINGMARKER]"
| "entry_tokens (Number_entry n) = [INTVAL (int n)]"

fun setting_tokens :: "setting \<Rightarrow> token list" where
  "setting_tokens (Quoted ps) = STRINGMARKER # map part_token ps @ [STRINGMARKER]"
| "setting_tokens (Number n) = [INTVAL (int n)]"
| "setting_tokens (Yes_no b) = [YESNOVAL b]"
| "setting_tokens (True_false b) = [BOOLVAL b]"
| "setting_tokens (Listing es) = LISTOPEN # concat (map (\<lambda>e. entry_tokens e @ [LISTSEP]) es) @ [LISTCLOSE]"

fun line_tokens :: "line \<Rightarrow> token list" where
  "line_tokens (Comment t) = []"
| "line_tokens (Setting name v) = the (map_of variables name) # ASSIGNMENT # setting_tokens v @ [SEPARATOR]"

lemma readable_names: "list_all (\<lambda>(name, t). in_string t \<longrightarrow> (\<exists>d cs. name = CHR ''$'' # d # cs \<and> d \<noteq> CHR '']'')) variables"
  by (simp add: variables_def)

lemma readable_name:
  assumes "readable name"
  obtains t d cs where "map_of variables name = Some t" "(name, t) \<in> set variables" "name = CHR ''$'' # d # cs" "d \<noteq> CHR '']''"
    "in_string t"
proof -
  obtain t where t: "map_of variables name = Some t" "in_string t"
    using assms by (auto split: option.splits token.splits)
  have mem: "(name, t) \<in> set variables" using t(1) by (rule map_of_SomeD)
  with readable_names t(2) have "\<exists>d cs. name = CHR ''$'' # d # cs \<and> d \<noteq> CHR '']''" unfolding list_all_iff by blast
  with that t mem show ?thesis by blast
qed

lemma prefix_before:
  assumes "c \<notin> set other" and "prefix other (s @ c # rest)"
  shows "prefix other s"
proof -
  obtain z where "s @ c # rest = other @ z" using assms(2) by (auto elim: prefixE)
  then obtain us where "s @ us = other \<and> c # rest = us @ z \<or> s = other @ us" by (auto simp only: append_eq_append_conv2)
  with assms(1) show ?thesis by (cases us) auto
qed

lemma ends_name_more: "ends_name name (s @ [QUOTE]) \<Longrightarrow> ends_name name (s @ QUOTE # rest)"
proof -
  assume e: "ends_name name (s @ [QUOTE])"
  have "length other \<le> length name" if o: "(other, t) \<in> set variables" "prefix other (name @ s @ QUOTE # rest)" for other t
  proof -
    have "QUOTE \<notin> set other" using variable_name_chars(1) [OF o(1), of QUOTE] by blast
    then have "prefix other (name @ s)" using prefix_before [of QUOTE other "name @ s" rest] o(2) by simp
    then have "prefix other (name @ s @ [QUOTE])" by (metis append_assoc prefix_prefix)
    with e o(1) show ?thesis by (auto simp: ends_name_def list_all_iff)
  qed
  then show ?thesis by (auto simp: ends_name_def list_all_iff)
qed

text \<open>What follows a stretch of text ends it.\<close>

lemma next_part:
  assumes "parts_ok (Text t # ps)"
  obtains c more where "concat (map print_part ps) @ QUOTE # rest = c # more"
    "c = QUOTE \<or> c = CHR 0x5C \<or> (c = CHR ''$'' \<and> (more \<noteq> [] \<longrightarrow> hd more \<noteq> CHR '']''))"
proof (cases ps)
  case (Cons p qs)
  show ?thesis
  proof (cases p)
    case (Var name)
    with assms Cons have "readable name" by (simp del: readable.simps)
    then obtain t d cs where "name = CHR ''$'' # d # cs" "d \<noteq> CHR '']''" by (rule readable_name)
    with that [of "CHR ''$''" "d # cs @ concat (map print_part qs) @ QUOTE # rest"] Cons Var show ?thesis by simp
  qed (use assms Cons that in auto)
qed (use that in simp)

lemma lex_parts:
  "parts_ok ps \<Longrightarrow>
   yylex_all (concat (map print_part ps) @ QUOTE # rest) \<lparr>yy_start = SS, stringcaller = b\<rparr>
     = map part_token ps @ STRINGMARKER # yylex_all rest \<lparr>yy_start = b, stringcaller = b\<rparr>"
proof (induction ps)
  case Nil
  show ?case using yylex_Return [of "\<lparr>yy_start = SS, stringcaller = b\<rparr>" "QUOTE # rest"] by (simp add: pick_close scan_actions)
next
  case (Cons p ps)
  let ?sc = "\<lparr>yy_start = SS, stringcaller = b\<rparr>" and ?more = "concat (map print_part ps) @ QUOTE # rest"
  show ?case
  proof (cases p)
    case (Text t)
    have t: "plain t" and ok: "parts_ok ps" using Cons.prems Text by auto
    obtain c more where c: "?more = c # more" "c = QUOTE \<or> c = CHR 0x5C \<or> (c = CHR ''$'' \<and> (more \<noteq> [] \<longrightarrow> hd more \<noteq> CHR '']''))"
      using next_part Cons.prems Text by metis
    have "cstr t = t" using t by (intro cstr_no_NUL) (auto simp: plain_def list_all_iff)
    with yylex_Return [of ?sc "t @ ?more", unfolded c(1), OF _ _ _] pick_text [OF t c(2)] t Cons.IH [OF ok]
    show ?thesis by (simp add: Text c(1) scan_actions plain_def)
  next
    case Dollar
    with yylex_Return [of ?sc "CHR 0x5C # CHR ''$'' # ?more"] Cons show ?thesis
      by (simp add: pick_dollar scan_actions)
  next
    case (Var name)
    have n: "readable name" and e: "ends_name name (concat (map print_part ps) @ [QUOTE])" and ok: "parts_ok ps"
      using Cons.prems Var by (auto simp del: readable.simps)
    from n obtain t d cs where t: "map_of variables name = Some t" "(name, t) \<in> set variables" "name = CHR ''$'' # d # cs"
      by (rule readable_name)
    have "pick SS (name @ ?more) = (length name, return t)"
      by (rule pick_variable [OF t(2) ends_name_more [OF e]]) (simp add: t(3))
    with yylex_Return [of ?sc "name @ ?more"] Cons.IH [OF ok] t show ?thesis
      by (simp add: Var scan_actions)
  qed
qed


lemma lex_quoted:
  assumes "parts_ok ps" and "k = PV \<or> k = LL"
  shows "yylex_all (print_parts ps @ rest) \<lparr>yy_start = k, stringcaller = b\<rparr>
     = STRINGMARKER # map part_token ps @ STRINGMARKER # yylex_all rest \<lparr>yy_start = k, stringcaller = k\<rparr>"
  using yylex_Return [of "\<lparr>yy_start = k, stringcaller = b\<rparr>" "print_parts ps @ rest"] lex_parts [OF assms(1), of rest k] assms(2)
  by (simp add: print_parts_def pick_open scan_actions)

lemma lex_nat:
  assumes "n < 2 ^ 31" and "k = PV \<or> k = LL" and "\<not> isdigit c" "c \<noteq> CHR ''.''"
  shows "yylex_all (nat_dec n @ c # rest) \<lparr>yy_start = k, stringcaller = b\<rparr>
     = INTVAL (int n) # yylex_all (c # rest) \<lparr>yy_start = k, stringcaller = b\<rparr>"
  using yylex_Return [of "\<lparr>yy_start = k, stringcaller = b\<rparr>" "nat_dec n @ c # rest"] pick_nat [OF assms(2-4), of n rest]
    atoi_nat_dec [OF assms(1)]
  by (simp add: scan_actions)

lemma lex_comma:
  "yylex_all (CHR '','' # rest) \<lparr>yy_start = LL, stringcaller = b\<rparr> = LISTSEP # yylex_all rest \<lparr>yy_start = LL, stringcaller = b\<rparr>"
  using yylex_Return [of "\<lparr>yy_start = LL, stringcaller = b\<rparr>" "CHR '','' # rest"] by (simp add: pick_list scan_actions)

lemma lex_entries:
  "list_all entry_ok es \<Longrightarrow>
   \<exists>b'. yylex_all (concat (map (\<lambda>e. print_entry e @ '','') es) @ CHR '')'' # rest) \<lparr>yy_start = LL, stringcaller = b\<rparr>
     = concat (map (\<lambda>e. entry_tokens e @ [LISTSEP]) es) @ LISTCLOSE # yylex_all rest \<lparr>yy_start = INITIAL, stringcaller = b'\<rparr>"
proof (induction es arbitrary: b)
  case Nil
  then show ?case
    using yylex_Return [of "\<lparr>yy_start = LL, stringcaller = b\<rparr>" "CHR '')'' # rest"] by (auto simp: pick_list scan_actions)
next
  case (Cons e es)
  let ?more = "concat (map (\<lambda>e. print_entry e @ '','') es) @ CHR '')'' # rest"
  have "\<exists>b'. yylex_all (print_entry e @ CHR '','' # ?more) \<lparr>yy_start = LL, stringcaller = b\<rparr>
      = entry_tokens e @ LISTSEP # yylex_all ?more \<lparr>yy_start = LL, stringcaller = b'\<rparr>"
    using Cons.prems lex_quoted [of _ LL "CHR '','' # ?more" b] lex_nat [of _ LL "CHR '',''" ?more b]
    by (cases e) (auto simp: lex_comma isdigit_def)
  then obtain b1 where b1: "yylex_all (print_entry e @ CHR '','' # ?more) \<lparr>yy_start = LL, stringcaller = b\<rparr>
      = entry_tokens e @ LISTSEP # yylex_all ?more \<lparr>yy_start = LL, stringcaller = b1\<rparr>" by blast
  from Cons.IH [of b1] Cons.prems obtain b2 where "yylex_all ?more \<lparr>yy_start = LL, stringcaller = b1\<rparr>
      = concat (map (\<lambda>e. entry_tokens e @ [LISTSEP]) es) @ LISTCLOSE # yylex_all rest \<lparr>yy_start = INITIAL, stringcaller = b2\<rparr>"
    by auto
  with b1 show ?case by (intro exI [of _ b2]) simp
qed

lemma lex_setting:
  assumes "setting_ok t v"
  shows "\<exists>k b'. (k = INITIAL \<or> k = PV) \<and>
     yylex_all (print_setting v @ CHR '';'' # rest) \<lparr>yy_start = PV, stringcaller = b\<rparr>
       = setting_tokens v @ yylex_all (CHR '';'' # rest) \<lparr>yy_start = k, stringcaller = b'\<rparr>"
proof (cases v)
  case (Quoted ps)
  then have "parts_ok ps" using assms by (cases t) auto
  from lex_quoted [OF this, of PV "CHR '';'' # rest" b] Quoted show ?thesis by auto
next
  case (Number n)
  then have "n < 2 ^ 31" using assms by (cases t) auto
  from lex_nat [OF this, of PV "CHR '';''" rest b] Number show ?thesis by (auto simp: isdigit_def)
next
  case (Yes_no y)
  then show ?thesis
    using yylex_Return [of "\<lparr>yy_start = PV, stringcaller = b\<rparr>" "print_setting v @ CHR '';'' # rest"]
    by (intro exI [of _ PV] exI [of _ b]) (auto simp: pick_word scan_actions)
next
  case (True_false y)
  then show ?thesis
    using yylex_Return [of "\<lparr>yy_start = PV, stringcaller = b\<rparr>" "print_setting v @ CHR '';'' # rest"]
    by (intro exI [of _ PV] exI [of _ b]) (auto simp: pick_word scan_actions)
next
  case (Listing es)
  then have "list_all entry_ok es" using assms by (cases t) auto
  from lex_entries [OF this, of "CHR '';'' # rest" b] Listing
    yylex_Return [of "\<lparr>yy_start = PV, stringcaller = b\<rparr>" "print_setting v @ CHR '';'' # rest"]
  show ?thesis by (auto simp: pick_list scan_actions)
qed

lemma print_setting_start: "setting_ok t v \<Longrightarrow> \<exists>c cs. print_setting v = c # cs \<and> \<not> blank c"
proof (cases v)
  case (Number n)
  then show ?thesis using hd_nat_dec_isdigit [of n] by (cases "nat_dec n") (auto simp: isdigit_differs)
qed (auto simp: print_parts_def blank_def)

lemma lex_assign:
  assumes t: "map_of variables name = Some t" and k: "k = INITIAL \<or> k = PV" and c: "\<not> blank c"
  shows "yylex_all (name @ '' = '' @ c # rest) \<lparr>yy_start = k, stringcaller = b\<rparr>
     = t # ASSIGNMENT # yylex_all (c # rest) \<lparr>yy_start = PV, stringcaller = b\<rparr>"
proof -
  let ?tail = "CHR '' '' # CHR ''='' # CHR '' '' # c # rest"
  have mem: "(name, t) \<in> set variables" using t by (rule map_of_SomeD)
  have ends: "ends_name name ?tail"
    using prefix_before [of "CHR '' ''" _ name] variable_name_chars(1) [of _ _ "CHR '' ''"]
    by (fastforce simp: ends_name_def list_all_iff dest: prefix_length_le)
  have "pick k (name @ ?tail) = (length name, return t)"
    by (rule pick_variable [OF mem ends]) (use k in auto)
  then have "yylex_all (name @ ?tail) \<lparr>yy_start = k, stringcaller = b\<rparr> = t # yylex_all ?tail \<lparr>yy_start = k, stringcaller = b\<rparr>"
    using yylex_Return [of "\<lparr>yy_start = k, stringcaller = b\<rparr>" "name @ ?tail"] by (simp add: scan_actions)
  moreover have "yylex_all ?tail \<lparr>yy_start = k, stringcaller = b\<rparr>
      = ASSIGNMENT # yylex_all (c # rest) \<lparr>yy_start = PV, stringcaller = b\<rparr>"
    using yylex_Return [of "\<lparr>yy_start = k, stringcaller = b\<rparr>" ?tail] pick_assignment [of k c rest] c k
    by (auto simp: scan_actions)
  ultimately show ?thesis by simp
qed

lemma lex_line:
  assumes "conf_line_ok l" and "k = INITIAL \<or> k = PV"
  shows "\<exists>k' b'. (k' = INITIAL \<or> k' = PV) \<and>
     yylex_all (print_line l @ rest) \<lparr>yy_start = k, stringcaller = b\<rparr>
       = line_tokens l @ yylex_all rest \<lparr>yy_start = k', stringcaller = b'\<rparr>"
proof (cases l)
  case (Comment t)
  have k: "k \<noteq> SS" "CHR 0x0A \<notin> set t" using assms Comment by auto
  have "yylex_all (CHR 0x0A # rest) \<lparr>yy_start = k, stringcaller = b\<rparr> = yylex_all rest \<lparr>yy_start = k, stringcaller = b\<rparr>"
    using yylex_Ignore [of "\<lparr>yy_start = k, stringcaller = b\<rparr>" "CHR 0x0A # rest"] k by (simp add: pick_newline scan_actions)
  with yylex_Ignore [of "\<lparr>yy_start = k, stringcaller = b\<rparr>" "print_line l @ rest"] k assms(2) show ?thesis
    by (auto simp: Comment pick_comment scan_actions)
next
  case (Setting name v)
  obtain t where t: "map_of variables name = Some t" "setting_ok t v" using assms(1) Setting by (auto split: option.splits)
  obtain c cs where c: "print_setting v = c # cs" "\<not> blank c" using print_setting_start [OF t(2)] by blast
  obtain k' b' where k': "k' = INITIAL \<or> k' = PV"
    "yylex_all (print_setting v @ CHR '';'' # CHR 0x0A # rest) \<lparr>yy_start = PV, stringcaller = b\<rparr>
       = setting_tokens v @ yylex_all (CHR '';'' # CHR 0x0A # rest) \<lparr>yy_start = k', stringcaller = b'\<rparr>"
    using lex_setting [OF t(2), of "CHR 0x0A # rest" b] by blast
  moreover have "yylex_all (CHR '';'' # CHR 0x0A # rest) \<lparr>yy_start = k', stringcaller = b'\<rparr>
      = SEPARATOR # yylex_all rest \<lparr>yy_start = k', stringcaller = b'\<rparr>"
    using yylex_Return [of "\<lparr>yy_start = k', stringcaller = b'\<rparr>" "CHR '';'' # CHR 0x0A # rest"]
      yylex_Ignore [of "\<lparr>yy_start = k', stringcaller = b'\<rparr>" "CHR 0x0A # rest"] k'(1)
    by (auto simp: pick_separator pick_newline scan_actions)
  ultimately show ?thesis
    using lex_assign [OF t(1) assms(2) c(2), of "cs @ CHR '';'' # CHR 0x0A # rest" b]
    by (intro exI [of _ k'] exI [of _ b']) (simp add: Setting t(1) c(1))
qed

lemma lex_lines:
  "list_all conf_line_ok ls \<Longrightarrow> k = INITIAL \<or> k = PV \<Longrightarrow>
   \<exists>k' b'. (k' = INITIAL \<or> k' = PV) \<and> yylex_all (print_lines ls @ rest) \<lparr>yy_start = k, stringcaller = b\<rparr>
     = concat (map line_tokens ls) @ yylex_all rest \<lparr>yy_start = k', stringcaller = b'\<rparr>"
proof (induction ls arbitrary: k b)
  case (Cons l ls)
  obtain k1 b1 where 1: "k1 = INITIAL \<or> k1 = PV" "yylex_all (print_line l @ print_lines ls @ rest) \<lparr>yy_start = k, stringcaller = b\<rparr>
       = line_tokens l @ yylex_all (print_lines ls @ rest) \<lparr>yy_start = k1, stringcaller = b1\<rparr>"
    using lex_line [of l k "print_lines ls @ rest" b] Cons.prems by auto
  with Cons.IH [OF _ 1(1), of b1] Cons.prems show ?case by (auto simp: print_lines_def)
qed (auto simp: print_lines_def)

end
