(* ===== verification/Confread.thy ===== *)
theory Confread
  imports Confscan
begin

text \<open>What the grammar does with the tokens of a printed file, and which strings it does not read.\<close>

section \<open>Strings and lists\<close>

lemma in_string_parts: "parts_ok ps \<Longrightarrow> list_all in_string (map part_token ps)"
proof (induction ps)
  case (Cons p ps)
  then show ?case by (cases p) (auto elim: readable_name simp del: readable.simps)
qed simp

lemma string_value_parts:
  assumes "alloc_total lc"
  shows "parts_ok ps \<Longrightarrow>
    string_value lc cfg (map part_token ps) = (case parts_value cfg ps of None \<Rightarrow> Exit 1 | Some s \<Rightarrow> Done s)"
proof (induction ps)
  case Nil
  show ?case by (simp add: parts_value_def)
next
  case (Cons p ps)
  have cat: "catandfree lc a b = Done (a @ b)" for a b using assms by (simp add: catandfree_def alloc_total_def)
  have num: "concatias lc (sint w) b = Done (int_dec (sint w) @ b)" for w :: "32 word" and b
    using assms int_dec_length [of w] by (simp add: concatias_def alloc_total_def)
  show ?case
  proof (cases p)
    case (Var name)
    then have "readable name" using Cons.prems by (simp del: readable.simps)
    then obtain t where t: "map_of variables name = Some t" "(\<exists>q. t = KEYWORD_S q) \<or> (\<exists>q. t = KEYWORD_I q)"
      by (auto split: option.splits token.splits)
    with Cons Var show ?thesis by (auto simp: parts_value_def cat num split: option.splits simp del: readable.simps)
  qed (use Cons in \<open>auto simp: parts_value_def cat split: option.splits\<close>)
qed

lemma parse_string_parts:
  assumes "alloc_total lc" and "parts_ok ps"
  shows "parse_string lc cfg (map part_token ps @ STRINGMARKER # ts)
     = (case parts_value cfg ps of None \<Rightarrow> Exit 1 | Some s \<Rightarrow> Done (s, ts))"
proof -
  have all: "\<forall>t\<in>set (map part_token ps). in_string t" using in_string_parts [OF assms(2)] by (simp add: list_all_iff)
  have "takeWhile in_string (map part_token ps @ STRINGMARKER # ts) = map part_token ps"
    "dropWhile in_string (map part_token ps @ STRINGMARKER # ts) = STRINGMARKER # ts"
    using all by (simp_all add: takeWhile_append2 dropWhile_append2 del: set_map)
  with string_value_parts [OF assms] show ?thesis by (simp add: parse_string_def split: option.split)
qed

lemma parse_entry:
  assumes "alloc_total lc" and "entry_ok e"
  shows "parse_listentry lc cfg (entry_tokens e @ ts)
     = (case entry_value cfg e of None \<Rightarrow> Exit 1 | Some v \<Rightarrow> Done (v, ts))"
  using assms parse_string_parts [OF assms(1)]
  by (cases e) (auto simp: parse_listentry_def list_mkientry_def list_mksentry_def alloc_total_def split: option.split)

lemma parse_list_entries:
  assumes lc: "alloc_total lc"
  shows "list_all entry_ok es \<Longrightarrow> parse_list lc cfg (concat (map (\<lambda>e. entry_tokens e @ [LISTSEP]) es) @ LISTCLOSE # ts)
     = (case those (map (entry_value cfg) es) of None \<Rightarrow> Exit 1 | Some l \<Rightarrow> Done (l, ts))"
proof (induction es)
  case Nil
  show ?case by (subst parse_list.simps) (use lc in \<open>simp add: list_allocate_def alloc_total_def\<close>)
next
  case (Cons e es)
  let ?more = "concat (map (\<lambda>e. entry_tokens e @ [LISTSEP]) es) @ LISTCLOSE # ts"
  have e: "parse_listentry lc cfg (entry_tokens e @ LISTSEP # ?more)
     = (case entry_value cfg e of None \<Rightarrow> Exit 1 | Some v \<Rightarrow> Done (v, LISTSEP # ?more))"
    by (rule parse_entry [OF lc]) (use Cons.prems in simp)
  have "parse_list lc cfg (entry_tokens e @ LISTSEP # ?more)
     = run_bind (parse_listentry lc cfg (entry_tokens e @ LISTSEP # ?more)) (\<lambda>(e, ts).
          case ts of
            LISTCLOSE # rest \<Rightarrow>
              run_bind (list_allocate lc) (\<lambda>l. run_bind (list_add_elem lc l e) (\<lambda>l. Done (l, rest)))
          | LISTSEP # rest \<Rightarrow>
              run_bind (parse_list lc cfg rest) (\<lambda>(l, ts). run_bind (list_add_elem lc l e) (\<lambda>l. Done (l, ts)))
          | _ \<Rightarrow> Exit 1)"
    by (subst parse_list.simps) (cases e; simp)
  also have "\<dots> = (case those (map (entry_value cfg) (e # es)) of None \<Rightarrow> Exit 1 | Some l \<Rightarrow> Done (l, ts))"
    using Cons.IH Cons.prems lc unfolding e
    by (auto simp: list_add_elem_def alloc_total_def split: option.splits)
  finally show ?case by simp
qed

section \<open>Settings\<close>

lemma parse_setting_tokens:
  assumes lc: "alloc_total lc" and ok: "setting_ok t v"
  shows "parse_setting lc cfg (t # ASSIGNMENT # setting_tokens v @ ts)
     = (case assign t v cfg of None \<Rightarrow> Exit 1 | Some c \<Rightarrow> Done (c, ts))"
  using ok
proof (cases rule: setting_ok.elims(2))
  case (1 p ps)
  then show ?thesis using parse_string_parts [OF lc, of ps cfg ts] by (auto simp: parse_setting_def split: option.split)
next
  case (6 p es)
  then show ?thesis using parse_list_entries [OF lc, of es cfg ts] by (auto simp: parse_setting_def split: option.split)
qed (auto simp: parse_setting_def)

lemma parse_settings_lines:
  assumes lc: "alloc_total lc"
  shows "list_all conf_line_ok ls \<Longrightarrow> parse_settings lc cfg (concat (map line_tokens ls) @ ts)
     = (case apply_lines ls cfg of None \<Rightarrow> Exit 1 | Some c \<Rightarrow> parse_settings lc c ts)"
proof (induction ls arbitrary: cfg)
  case (Cons l ls)
  show ?case
  proof (cases l)
    case (Setting name v)
    obtain t where t: "map_of variables name = Some t" "setting_ok t v" using Cons.prems Setting by (auto split: option.splits)
    have "parse_settings lc cfg (t # ASSIGNMENT # setting_tokens v @ SEPARATOR # concat (map line_tokens ls) @ ts)
      = (case assign t v cfg of None \<Rightarrow> Exit 1 | Some c \<Rightarrow> parse_settings lc c (concat (map line_tokens ls) @ ts))"
      using parse_setting_tokens [OF lc t(2), of cfg "SEPARATOR # concat (map line_tokens ls) @ ts"]
      by (subst parse_settings.simps) (auto split: option.split)
    with Cons t(1) show ?thesis by (auto simp: Setting split: option.splits)
  qed (use Cons in simp)
qed simp

lemma yyparse_lines:
  assumes "alloc_total lc" and "list_all conf_line_ok ls"
  shows "yyparse lc (print_lines ls) cfg = (case apply_lines ls cfg of None \<Rightarrow> Exit 1 | Some c \<Rightarrow> Done c)"
proof -
  obtain k b where "yylex_all (print_lines ls @ []) start_scanner = concat (map line_tokens ls) @ yylex_all [] \<lparr>yy_start = k, stringcaller = b\<rparr>"
    using lex_lines [OF assms(2), of INITIAL "[]" INITIAL] unfolding start_scanner_def by blast
  then have "yylex_all (print_lines ls) start_scanner = concat (map line_tokens ls) @ []" by simp
  then show ?thesis
    using parse_settings_lines [OF assms, of cfg "[]"] by (simp add: yyparse_def parse_settings.simps split: option.split)
qed

section \<open>Values that are not read as strings\<close>

lemma letter_differs:
  assumes "tolower c = d" "97 \<le> code d" "code d \<le> 122"
  shows "c \<noteq> CHR ''$''" "c \<noteq> CHR ''@''" "c \<noteq> CHR ''[''" "c \<noteq> CHR ''=''" "c \<noteq> QUOTE" "c \<noteq> CHR 0x5C" "c \<noteq> CHR '';''" "c \<noteq> CHR ''#''"
    "c \<noteq> CHR 0x0A" "\<not> blank c" "string_char c"
  using assms by (auto simp: tolower_def blank_def string_char_def)

lemma pick_string_word:
  assumes "(map tolower w, t) \<in> {(''yes'', YESNOVAL True), (''no'', YESNOVAL False), (''true'', BOOLVAL True), (''false'', BOOLVAL False)}"
  shows "pick SS (w @ QUOTE # rest) = (length w, return t)"
proof -
  have w: "list_all (\<lambda>c. 97 \<le> code (tolower c) \<and> code (tolower c) \<le> 122) w"
  proof -
    have "list_all (\<lambda>c. 97 \<le> code c \<and> code c \<le> 122) (map tolower w)" using assms by auto
    then show ?thesis by (simp add: list_all_iff)
  qed
  note d = letter_differs [OF refl]
  have q: "\<not> string_char QUOTE" by (simp add: string_char_def)
  from assms w show ?thesis
    by (elim insertE; clarsimp simp: map_eq_Cons_conv)
      (simp_all add: scan_rules try_rule_def no_variable lit_def anycase_def d d(1-9) [symmetric] q longest_reject longest_Many
        del: longest.simps(5))
qed


lemma lex_opened:
  assumes "list_all conf_line_ok ls" and "map_of variables name = Some t"
  shows "\<exists>b. yylex_all (print_lines ls @ name @ '' = '' @ QUOTE # rest) start_scanner
     = concat (map line_tokens ls) @ t # ASSIGNMENT # STRINGMARKER # yylex_all rest \<lparr>yy_start = SS, stringcaller = b\<rparr>"
proof -
  obtain k b where k: "k = INITIAL \<or> k = PV" "yylex_all (print_lines ls @ name @ '' = '' @ QUOTE # rest) start_scanner
     = concat (map line_tokens ls) @ yylex_all (name @ '' = '' @ QUOTE # rest) \<lparr>yy_start = k, stringcaller = b\<rparr>"
    using lex_lines [OF assms(1), of INITIAL "name @ '' = '' @ QUOTE # rest" INITIAL] unfolding start_scanner_def by blast
  have "\<not> blank QUOTE" by (simp add: blank_def)
  from lex_assign [OF assms(2) k(1) this, of rest b] k(2)
    yylex_Return [of "\<lparr>yy_start = PV, stringcaller = b\<rparr>" "QUOTE # rest"]
  show ?thesis by (auto simp: pick_open scan_actions)
qed

lemma string_word_refused:
  assumes lc: "alloc_total lc" and ls: "list_all conf_line_ok ls" and name: "map_of variables name = Some (KEYWORD_S p)"
    and w: "map tolower w \<in> {''yes'', ''no'', ''true'', ''false''}"
  shows "yyparse lc (print_lines ls @ name @ '' = '' @ QUOTE # w @ QUOTE # rest) cfg = Exit 1"
proof -
  obtain t where t: "(map tolower w, t) \<in> {(''yes'', YESNOVAL True), (''no'', YESNOVAL False), (''true'', BOOLVAL True), (''false'', BOOLVAL False)}"
    using w by auto
  have word: "yylex_all (w @ QUOTE # rest) \<lparr>yy_start = SS, stringcaller = b\<rparr>
     = t # yylex_all (QUOTE # rest) \<lparr>yy_start = SS, stringcaller = b\<rparr>" for b
    using yylex_Return [of "\<lparr>yy_start = SS, stringcaller = b\<rparr>" "w @ QUOTE # rest"] pick_string_word [OF t, of rest]
    by (simp add: scan_actions)
  have "parse_setting lc c (KEYWORD_S p # ASSIGNMENT # STRINGMARKER # t # ts) = Exit 1" for c ts
    using t by (auto simp: parse_setting_def parse_string_def)
  then have "parse_settings lc c (KEYWORD_S p # ASSIGNMENT # STRINGMARKER # t # ts) = Exit 1" for c ts
    by (simp add: parse_settings.simps)
  with lex_opened [OF ls name, of "w @ QUOTE # rest"] show ?thesis
    by (auto simp: yyparse_def word parse_settings_lines [OF lc ls] split: option.split)
qed

lemma pick_hash:
  assumes "CHR 0x0A \<notin> set u" "CHR 0x0A \<notin> set v"
  shows "pick SS (CHR ''#'' # u @ QUOTE # v @ CHR 0x0A # rest) = (Suc (Suc (length u + length v)), ignore)"
proof -
  have "CHR 0x0A \<notin> set (u @ QUOTE # v)" using assms by simp
  from takeWhile_line [OF this, of rest]
  have line: "takeWhile (\<lambda>d. d \<noteq> CHR 0x0A) (u @ QUOTE # v @ CHR 0x0A # rest) = u @ QUOTE # v" by simp
  have "length (takeWhile string_char (u @ QUOTE # more)) \<le> length u" for more
    by (induction u) (auto simp: string_char_def)
  from this [of "v @ CHR 0x0A # rest"]
  have "length (takeWhile string_char (u @ QUOTE # v @ CHR 0x0A # rest)) < Suc (length u + length v)" by simp
  moreover have "string_char (CHR ''#'')" by (simp add: string_char_def)
  ultimately show ?thesis
    by (simp add: scan_rules try_rule_def no_variable lit_def anycase_def tolower_def blank_def longest_reject longest_Many line
        del: longest.simps(5))
qed

lemma string_hash_refused:
  assumes lc: "alloc_total lc" and ls: "list_all conf_line_ok ls" and name: "map_of variables name = Some (KEYWORD_S p)"
    and t: "CHR 0x0A \<notin> set u" "CHR 0x0A \<notin> set v"
  shows "yyparse lc (print_lines ls @ name @ '' = '' @ QUOTE # CHR ''#'' # u @ QUOTE # v @ [CHR 0x0A]) cfg = Exit 1"
proof -
  let ?more = "CHR ''#'' # u @ QUOTE # v @ [CHR 0x0A]"
  have nl: "pick SS [CHR 0x0A] = (1, return_string)" by (simp add: scan_rules no_variable scan_classes)
  have "yylex_all ?more \<lparr>yy_start = SS, stringcaller = b\<rparr> = yylex_all [CHR 0x0A] \<lparr>yy_start = SS, stringcaller = b\<rparr>" for b
    using yylex_Ignore [of "\<lparr>yy_start = SS, stringcaller = b\<rparr>" ?more] pick_hash [OF t, of "[]"] by (simp add: scan_actions)
  then have rest: "yylex_all ?more \<lparr>yy_start = SS, stringcaller = b\<rparr> = [STRING [CHR 0x0A]]" for b
    using yylex_Return [of "\<lparr>yy_start = SS, stringcaller = b\<rparr>" "[CHR 0x0A]"] nl by (simp add: scan_actions cstr_no_NUL)
  have "parse_setting lc c [KEYWORD_S p, ASSIGNMENT, STRINGMARKER, STRING [CHR 0x0A]] = Exit 1" for c
    using lc by (simp add: parse_setting_def parse_string_def catandfree_def alloc_total_def)
  then have "parse_settings lc c [KEYWORD_S p, ASSIGNMENT, STRINGMARKER, STRING [CHR 0x0A]] = Exit 1" for c
    by (simp add: parse_settings.simps)
  with lex_opened [OF ls name, of ?more] show ?thesis
    by (auto simp: yyparse_def rest parse_settings_lines [OF lc ls] split: option.split simp del: append.simps append_assoc)
qed

section \<open>Properties\<close>

text \<open>
  C10: reading back a printed list of settings with scanner, grammar and the actions of the grammar does exactly
  what the settings mean, in their order: comments do nothing, strings are put together from their text, their
  escaped dollar signs and the current values of the variables in them, numbers, yes/no values and lists are
  stored as given, and a variable that is read before it is set ends the program.
\<close>

theorem config_file_roundtrip:
  assumes "alloc_total lc" and "list_all conf_line_ok ls"
  shows "yyparse lc (print_lines ls) cfg = (case apply_lines ls cfg of None \<Rightarrow> Exit 1 | Some c \<Rightarrow> Done c)"
  using assms by (rule yyparse_lines)

definition sample_lines :: "line list" where
  "sample_lines =
     [Comment '' base of all paths'', Setting ''$networkname'' (Quoted [Text ''chaos'']),
      Setting ''$base'' (Quoted [Text ''/etc/'', Dollar, Var ''$networkname'', Var ''$tincd_debuglevel'']),
      Setting ''@exclude'' (Listing [Quoted_entry [Text ''a b''], Number_entry 4, Quoted_entry []]),
      Setting ''$update_interval'' (Number 3600), Setting ''$localdiscovery'' (Yes_no False)]"

lemma sample_lines_ok: "list_all conf_line_ok sample_lines"
proof -
  have "plain ''chaos'' \<and> plain ''/etc/'' \<and> plain ''a b'' \<and> ends_name ''$networkname'' (''$tincd_debuglevel'' @ [QUOTE])
     \<and> ends_name ''$tincd_debuglevel'' [QUOTE]" by code_simp
  then show ?thesis by (simp add: sample_lines_def variables_def)
qed

theorem config_file_roundtrip_witness:
  "yyparse \<lparr>lc_alloc = \<lambda>n. True, lc_before = NUL, lc_vsnprintf = \<lambda>f args. ([], args), lc_getaddrinfo = \<lambda>f h. None,
       lc_inet_ntop = \<lambda>f a. None\<rparr> (print_lines sample_lines) (config_alloc ''/etc/tinc'')
     = Done ((config_alloc ''/etc/tinc'')\<lparr>cf_networkname := Some ''chaos'', cf_base_path := Some ''/etc/$chaos3'',
         cf_exclude := Some [LIST_STRING ''a b'', LIST_INTEGER 4, LIST_STRING []], cf_update_interval := 3600,
         cf_localdiscovery := False\<rparr>)"
proof -
  have three: "int_dec 3 = ''3''" by code_simp
  show ?thesis
    by (subst config_file_roundtrip [OF _ sample_lines_ok])
      (simp_all add: alloc_total_def sample_lines_def variables_def parts_value_def config_alloc_def three)
qed

text \<open>
  C13: a string that is a word of the grammar, yes, no, true or false in any case, is not read as a string: after
  any well-formed settings, giving such a value to a string variable ends the program, whatever follows.
\<close>

theorem config_word_refused:
  assumes "alloc_total lc" and "list_all conf_line_ok ls" and "map_of variables name = Some (KEYWORD_S p)"
    and "map tolower w \<in> {''yes'', ''no'', ''true'', ''false''}"
  shows "yyparse lc (print_lines ls @ name @ '' = '' @ QUOTE # w @ QUOTE # rest) cfg = Exit 1"
  using assms by (rule string_word_refused)

theorem config_word_refused_witness:
  "yyparse \<lparr>lc_alloc = \<lambda>n. True, lc_before = NUL, lc_vsnprintf = \<lambda>f args. ([], args), lc_getaddrinfo = \<lambda>f h. None,
       lc_inet_ntop = \<lambda>f a. None\<rparr> (print_lines sample_lines @ ''$my_password'' @ '' = '' @ QUOTE # ''No'' @ QUOTE # '';'') (config_alloc ''/etc/tinc'')
     = Exit 1"
proof -
  have word: "tolower (CHR ''N'') = CHR ''n''" "tolower (CHR ''o'') = CHR ''o''" by code_simp+
  show ?thesis
    by (rule config_word_refused [OF _ sample_lines_ok])
      (simp_all add: alloc_total_def variables_def word)
qed

text \<open>
  a string that starts with a number sign is read as a comment up to the end of its line, its closing quote
  included: when it is the last setting of the file, the program ends with a parse error.
\<close>

theorem config_hash_refused:
  assumes "alloc_total lc" and "list_all conf_line_ok ls" and "map_of variables name = Some (KEYWORD_S p)"
    and "CHR 0x0A \<notin> set u" and "CHR 0x0A \<notin> set v"
  shows "yyparse lc (print_lines ls @ name @ '' = '' @ QUOTE # CHR ''#'' # u @ QUOTE # v @ [CHR 0x0A]) cfg = Exit 1"
  using assms by (rule string_hash_refused)

theorem config_hash_refused_witness:
  "yyparse \<lparr>lc_alloc = \<lambda>n. True, lc_before = NUL, lc_vsnprintf = \<lambda>f args. ([], args), lc_getaddrinfo = \<lambda>f h. None,
       lc_inet_ntop = \<lambda>f a. None\<rparr> (print_lines sample_lines @ ''$my_password'' @ '' = '' @ QUOTE # CHR ''#'' # ''1secret'' @ QUOTE # '';'' @ [CHR 0x0A])
       (config_alloc ''/etc/tinc'') = Exit 1"
  by (rule config_hash_refused [OF _ sample_lines_ok]) (simp_all add: alloc_total_def variables_def)

end
