(* ===== verification/Confinit.thy ===== *)
theory Confinit
  imports Tincctl Confread
begin

text \<open>
  \<^verbatim>\<open>src/config.c\<close>: checking the configuration and filling in what it leaves open.  The
  configuration file itself is read by \<open>yyparse\<close> of \<open>Confgram\<close>.  \<open>config_init\<close> is a
  sequence of steps on the configuration, in the order of the C function; a step that reports
  false ends it.  This is the Linux build.
\<close>

section \<open>Lists of subnets\<close>

fun subnetlist_loop :: "libc \<Rightarrow> settings_list_entry list \<Rightarrow> addr_info list \<Rightarrow> addr_info list run" where
  "subnetlist_loop lc [] addrlist = Done addrlist"
| "subnetlist_loop lc (LIST_STRING v # es) addrlist =
     run_bind (addrmask_init lc v)
       (\<lambda>current. case current of
          None \<Rightarrow> subnetlist_loop lc es addrlist
        | Some a \<Rightarrow> subnetlist_loop lc es (addrlist @ [a]))"
| "subnetlist_loop lc (LIST_INTEGER i # es) addrlist = subnetlist_loop lc es addrlist"
| "subnetlist_loop lc (LIST_LIST # es) addrlist = subnetlist_loop lc es addrlist"

definition parse_and_free_raw_subnetlist :: "libc \<Rightarrow> settings_list_entry list option \<Rightarrow> addr_info list run" where
  "parse_and_free_raw_subnetlist lc raw = (case raw of None \<Rightarrow> Done [] | Some es \<Rightarrow> subnetlist_loop lc es [])"

section \<open>The steps of config\_init\<close>

text \<open>The update interval; a wrong one ends the program.\<close>

definition check_interval :: "config \<Rightarrow> (bool \<times> config) run" where
  "check_interval cfg =
     (if cf_update_interval cfg = 0 \<and> \<not> cf_oneshot cfg then Exit 1
      else if cf_update_interval cfg < 60 \<and> \<not> cf_oneshot cfg then Exit 1
      else Done (True, cfg))"

text \<open>\<open>reqparam\<close>: a parameter that must be given.\<close>

definition reqparam :: "(config \<Rightarrow> string option) \<Rightarrow> config \<Rightarrow> (bool \<times> config) run" where
  "reqparam param cfg = Done (\<not> str_is_empty (param cfg), cfg)"

definition check_tincd_bin :: "sysenv \<Rightarrow> config \<Rightarrow> (bool \<times> config) run" where
  "check_tincd_bin se cfg =
     (case cf_tincd_bin cfg of
        None \<Rightarrow> Fault Null_deref
      | Some tincd_bin \<Rightarrow>
          Done (\<not> (CHR ''/'' \<in> set tincd_bin
                   \<and> (case se_stat se tincd_bin of None \<Rightarrow> True | Some st_mode \<Rightarrow> \<not> bit st_mode 6)), cfg))"

definition check_my_ip :: "libc \<Rightarrow> config \<Rightarrow> (bool \<times> config) run" where
  "check_my_ip lc cfg0 =
     (let cfg = (if str_is_empty (cf_my_ip cfg0) \<or> cf_my_ip cfg0 = Some ''0.0.0.0'' \<or> cf_my_ip cfg0 = Some ''127.0.0.1''
                    \<or> cf_my_ip cfg0 = Some ''::'' then cfg0\<lparr>cf_my_ip := None\<rparr> else cfg0) in
      if str_is_nonempty (cf_my_ip cfg)
      then run_bind (addrmask_verify_ip lc (cf_my_ip cfg) AF_UNSPEC) (\<lambda>valid. Done (valid, cfg))
      else Done (True, cfg))"

definition check_addressfamily :: "config \<Rightarrow> (bool \<times> config) run" where
  "check_addressfamily cfg =
     (if str_is_nonempty (cf_my_addressfamily cfg) \<and> cf_my_addressfamily cfg \<noteq> Some ''any''
         \<and> cf_my_addressfamily cfg \<noteq> Some ''ipv4'' \<and> cf_my_addressfamily cfg \<noteq> Some ''ipv6''
      then Done (False, cfg)
      else Done (True, if str_is_empty (cf_my_addressfamily cfg) then cfg\<lparr>cf_my_addressfamily := Some ''ipv4''\<rparr> else cfg))"

definition lookup_user :: "sysenv \<Rightarrow> config \<Rightarrow> (bool \<times> config) run" where
  "lookup_user se cfg =
     (case cf_tincd_user cfg of
        None \<Rightarrow> Fault Null_deref
      | Some user \<Rightarrow> (case se_getpwnam se user of
            None \<Rightarrow> Done (False, cfg)
          | Some (uid, gid) \<Rightarrow> Done (True, cfg\<lparr>cf_tincd_uid := uid, cf_tincd_gid := gid\<rparr>)))"

text \<open>An address of this node, checked when it is given.\<close>

definition check_ip :: "libc \<Rightarrow> (config \<Rightarrow> string option) \<Rightarrow> family \<Rightarrow> config \<Rightarrow> (bool \<times> config) run" where
  "check_ip lc param fam cfg =
     (if str_is_nonempty (param cfg)
      then run_bind (addrmask_verify_ip lc (param cfg) fam) (\<lambda>valid. Done (valid, cfg))
      else Done (True, cfg))"

definition check_sample_ip :: "config \<Rightarrow> (bool \<times> config) run" where
  "check_sample_ip cfg =
     (case cf_vpn_ip cfg of None \<Rightarrow> Fault Null_deref | Some ip \<Rightarrow> Done (ip \<noteq> ''172.31.0.255'', cfg))"

text \<open>Parameters that are needed only with some settings.\<close>

definition check_routes :: "config \<Rightarrow> (bool \<times> config) run" where
  "check_routes cfg =
     run_seq
       [run_when (cf_use_dynamic_routes cfg) (reqparam cf_routedel),
        run_when (str_is_nonempty (cf_vpn_ip6 cfg)) (run_seq
          [reqparam cf_ifconfig6, reqparam cf_routeadd6,
           run_when (cf_use_dynamic_routes cfg) (reqparam cf_routedel6)])] cfg"

text \<open>One of the three lists of subnets: read, stored, and refused together with dynamic routes.\<close>

definition load_subnets ::
  "libc \<Rightarrow> (config \<Rightarrow> settings_list_entry list option) \<Rightarrow> (addr_info list \<Rightarrow> config \<Rightarrow> config) \<Rightarrow> config \<Rightarrow> (bool \<times> config) run" where
  "load_subnets lc raw store cfg =
     run_bind (parse_and_free_raw_subnetlist lc (raw cfg))
       (\<lambda>addrs. Done (\<not> (addrs \<noteq> [] \<and> cf_use_dynamic_routes cfg), store addrs cfg))"

definition load_mergeroutes :: "libc \<Rightarrow> config \<Rightarrow> (bool \<times> config) run" where
  "load_mergeroutes lc = load_subnets lc cf_mergeroutes_supernet_raw
     (\<lambda>a cfg. cfg\<lparr>cf_mergeroutes_supernet := a, cf_mergeroutes_supernet_raw := None\<rparr>)"

definition load_ignore :: "libc \<Rightarrow> config \<Rightarrow> (bool \<times> config) run" where
  "load_ignore lc = load_subnets lc cf_ignore_subnets_raw
     (\<lambda>a cfg. cfg\<lparr>cf_ignore_subnets := a, cf_ignore_subnets_raw := None\<rparr>)"

definition load_whitelist :: "libc \<Rightarrow> config \<Rightarrow> (bool \<times> config) run" where
  "load_whitelist lc = load_subnets lc cf_whitelist_subnets_raw
     (\<lambda>a cfg. cfg\<lparr>cf_whitelist_subnets := a, cf_whitelist_subnets_raw := None\<rparr>)"

definition default_device :: "config \<Rightarrow> (bool \<times> config) run" where
  "default_device cfg0 =
     (let cfg = (if str_is_empty (cf_tincd_device cfg0) then cfg0\<lparr>cf_tincd_device := Some ''/dev/net/tun''\<rparr> else cfg0) in
      if str_is_empty (cf_tincd_interface cfg)
      then (case cf_networkname cfg of
              None \<Rightarrow> Fault Null_deref
            | Some name \<Rightarrow> Done (True, cfg\<lparr>cf_tincd_interface := Some (snprintf1024 (name @ ''_vpn''))\<rparr>))
      else Done (True, cfg))"

text \<open>\<open>stat(\<dots>) & fs_mkdir_p(\<dots>)\<close>: both are called, and both have to fail.\<close>

definition create_base :: "sysenv \<Rightarrow> (string \<Rightarrow> 's \<Rightarrow> mkdir_result \<times> 's) \<Rightarrow> config \<Rightarrow> 's \<Rightarrow> (bool \<times> 's) run" where
  "create_base se mkdir cfg dirs =
     (case cf_base_path cfg of
        None \<Rightarrow> Fault Null_deref
      | Some base \<Rightarrow> (case fs_mkdir_p mkdir base dirs of
            (made, dirs') \<Rightarrow> Done (\<not> (se_stat se base = None \<and> \<not> made), dirs')))"

text \<open>The name of a key file; the format ends with the zero byte \<open>string_concat_sprintf\<close> puts there.\<close>

definition key_file :: "libc \<Rightarrow> config \<Rightarrow> string \<Rightarrow> string option run" where
  "key_file lc cfg name =
     (case cf_base_path cfg of
        None \<Rightarrow> Fault Null_deref
      | Some base \<Rightarrow> run_bind (string_concat_sprintf lc (''%s'' @ name) [Arg_s base] (string_init lc 1024 512))
          (\<lambda>(ok, s). Done (if \<not> ok then None else Some (string_cstr s))))"

definition read_keys :: "libc \<Rightarrow> sysenv \<Rightarrow> files \<Rightarrow> config \<Rightarrow> (bool \<times> config) run" where
  "read_keys lc se files cfg =
     run_bind (key_file lc cfg ''/rsa_key.priv'') (\<lambda>key_name. case key_name of
        None \<Rightarrow> Done (False, cfg)
      | Some key_name \<Rightarrow> run_bind (fs_read_file lc se files (string_free (cf_privkey cfg)) key_name) (\<lambda>(ok, privkey).
          let cfg = cfg\<lparr>cf_privkey := privkey\<rparr> in
          if \<not> ok then Done (False, cfg)
          else run_bind (key_file lc cfg ''/ed25519_key.pub'') (\<lambda>key_name. case key_name of
              None \<Rightarrow> Done (False, cfg)
            | Some key_name \<Rightarrow>
                run_bind (fs_read_file lc se files (string_free (cf_ed25519publickey cfg)) key_name) (\<lambda>(_, key).
                  Done (True, cfg\<lparr>cf_ed25519publickey := key\<rparr>)))))"

text \<open>The path of the control program: the directory of \<open>tincd_bin\<close>, cut to the size of the array.\<close>

definition tincctl_path :: "string \<Rightarrow> string" where
  "tincctl_path tincd_bin =
     (let dir = take 1023 (rev (dropWhile (\<lambda>c. c \<noteq> CHR ''/'') (rev tincd_bin)))
      in dir @ take (1023 - length dir) ''tinc'')"

definition find_version :: "libc \<Rightarrow> sysenv \<Rightarrow> config \<Rightarrow> (bool \<times> config) run" where
  "find_version lc se cfg0 =
     run_bind (tinc_get_version lc se cfg0) (\<lambda>version.
       let cfg = cfg0\<lparr>cf_tincd_version := version\<rparr> in
       if version_newer cfg ''1.1''
       then if cf_tincctl_bin cfg = None
            then (case cf_tincd_bin cfg of
                None \<Rightarrow> Fault Null_deref
              | Some tincd_bin \<Rightarrow> Done (True, cfg\<lparr>cf_tincctl_bin := Some (tincctl_path tincd_bin)\<rparr>))
            else Done (True, cfg)
       else Done (True, cfg\<lparr>cf_tincctl_bin := None\<rparr>))"

definition default_files :: "config \<Rightarrow> (bool \<times> config) run" where
  "default_files cfg0 =
     (case (cf_networkname cfg0, cf_base_path cfg0) of
        (Some name, Some base) \<Rightarrow>
          let cfg = (if cf_tincd_pidfile cfg0 = None
                     then cfg0\<lparr>cf_tincd_pidfile := Some (snprintf1024 (''/var/run/tinc.'' @ name @ ''.pid''))\<rparr> else cfg0)
          in Done (True, if cf_tmpconffile cfg = None
                         then cfg\<lparr>cf_tmpconffile := Some (snprintf1024 (base @ ''/data.sav''))\<rparr> else cfg)
      | _ \<Rightarrow> Fault Null_deref)"

definition required_params :: "sysenv \<Rightarrow> config \<Rightarrow> (bool \<times> config) run" where
  "required_params se =
     run_seq
       [check_interval, reqparam cf_peerid, reqparam cf_networkname, reqparam cf_vpn_ip, reqparam cf_routeadd,
        reqparam cf_ifconfig, reqparam cf_base_path, reqparam cf_tincd_user, reqparam cf_tincd_bin, check_tincd_bin se]"

definition identity_checks :: "libc \<Rightarrow> sysenv \<Rightarrow> config \<Rightarrow> (bool \<times> config) run" where
  "identity_checks lc se = run_seq [check_my_ip lc, check_addressfamily, lookup_user se]"

definition address_checks :: "libc \<Rightarrow> config \<Rightarrow> (bool \<times> config) run" where
  "address_checks lc =
     run_seq [check_ip lc cf_vpn_ip AF_INET, check_sample_ip, check_ip lc cf_vpn_ip6 AF_INET6, check_routes]"

definition subnet_lists :: "libc \<Rightarrow> config \<Rightarrow> (bool \<times> config) run" where
  "subnet_lists lc = run_seq [load_mergeroutes lc, load_ignore lc, load_whitelist lc]"

definition config_checks :: "libc \<Rightarrow> sysenv \<Rightarrow> config \<Rightarrow> (bool \<times> config) run" where
  "config_checks lc se =
     run_seq [required_params se, identity_checks lc se, address_checks lc, subnet_lists lc, default_device]"

definition config_init ::
  "libc \<Rightarrow> sysenv \<Rightarrow> (string \<Rightarrow> 's \<Rightarrow> mkdir_result \<times> 's) \<Rightarrow> files \<Rightarrow> 's \<Rightarrow> config
     \<Rightarrow> (bool \<times> 's \<times> config) run" where
  "config_init lc se mkdir files dirs cfg0 =
     (case cf_configfile cfg0 of
        None \<Rightarrow> Fault Null_deref
      | Some configfile \<Rightarrow> (case files (canon configfile) of
          None \<Rightarrow> Done (False, dirs, cfg0)
        | Some (text, _) \<Rightarrow>
            run_bind (yyparse lc text cfg0) (\<lambda>cfg.
            run_bind (config_checks lc se cfg) (\<lambda>(ok, cfg).
              if \<not> ok then Done (False, dirs, cfg)
              else run_bind (create_base se mkdir cfg dirs) (\<lambda>(ok, dirs).
                if \<not> ok then Done (False, dirs, cfg)
                else run_bind (run_seq [read_keys lc se files, find_version lc se, default_files] cfg)
                       (\<lambda>(ok, cfg). Done (ok, dirs, cfg)))))))"

section \<open>What a successful start guarantees\<close>

text \<open>What each step has checked or stored when it reports true.\<close>

named_theorems step_results \<open>what the steps of config_init have done when they report true\<close>

lemma check_interval_True [step_results]:
  "check_interval cfg = Done (True, cfg') \<longleftrightarrow> cfg' = cfg \<and> (cf_oneshot cfg \<or> 60 \<le> cf_update_interval cfg)"
  by (auto simp: check_interval_def not_less)

lemma reqparam_True [step_results]:
  "reqparam param cfg = Done (True, cfg') \<longleftrightarrow> cfg' = cfg \<and> \<not> str_is_empty (param cfg)"
  by (auto simp: reqparam_def)

lemma check_tincd_bin_True: "check_tincd_bin se cfg = Done (True, cfg') \<Longrightarrow> cfg' = cfg"
  by (auto simp: check_tincd_bin_def split: option.splits)

lemma check_my_ip_True:
  assumes "check_my_ip lc cfg = Done (True, cfg')"
  obtains v where "cfg' = cfg\<lparr>cf_my_ip := v\<rparr>" "str_is_empty v \<or> addrmask_verify_ip lc v AF_UNSPEC = Done True"
proof (cases "str_is_empty (cf_my_ip cfg) \<or> cf_my_ip cfg = Some ''0.0.0.0'' \<or> cf_my_ip cfg = Some ''127.0.0.1''
                    \<or> cf_my_ip cfg = Some ''::''")
  case True
  with assms that [of None] show ?thesis by (simp add: check_my_ip_def)
next
  case False
  with assms that [of "cf_my_ip cfg"] show ?thesis by (auto simp: check_my_ip_def run_simps)
qed

lemma check_addressfamily_True:
  assumes "check_addressfamily cfg = Done (True, cfg')"
  obtains v where "cfg' = cfg\<lparr>cf_my_addressfamily := v\<rparr>" "v \<in> {Some ''any'', Some ''ipv4'', Some ''ipv6''}"
proof (cases "str_is_empty (cf_my_addressfamily cfg)")
  case True
  with assms that [of "Some ''ipv4''"] show ?thesis by (simp add: check_addressfamily_def)
next
  case False
  with assms that [of "cf_my_addressfamily cfg"] show ?thesis by (simp add: check_addressfamily_def split: if_splits)
qed

lemma lookup_user_True:
  "lookup_user se cfg = Done (True, cfg') \<Longrightarrow>
   \<exists>user uid gid. cf_tincd_user cfg = Some user \<and> se_getpwnam se user = Some (uid, gid)
     \<and> cfg' = cfg\<lparr>cf_tincd_uid := uid, cf_tincd_gid := gid\<rparr>"
  by (auto simp: lookup_user_def split: option.splits)

lemma check_ip_True [step_results]:
  "check_ip lc param fam cfg = Done (True, cfg') \<longleftrightarrow>
     cfg' = cfg \<and> (str_is_empty (param cfg) \<or> addrmask_verify_ip lc (param cfg) fam = Done True)"
  by (auto simp: check_ip_def run_simps)

lemma check_sample_ip_True [step_results]:
  "check_sample_ip cfg = Done (True, cfg') \<longleftrightarrow> cfg' = cfg \<and> cf_vpn_ip cfg \<noteq> None \<and> cf_vpn_ip cfg \<noteq> Some ''172.31.0.255''"
  by (auto simp: check_sample_ip_def split: option.splits)

lemma run_when_True: "run_when c e s = Done (True, t) \<longleftrightarrow> (if c then e s = Done (True, t) else t = s)"
  by (auto simp: run_when_def)

lemma check_routes_True [step_results]:
  "check_routes cfg = Done (True, cfg') \<longleftrightarrow> cfg' = cfg
     \<and> (cf_use_dynamic_routes cfg \<longrightarrow> \<not> str_is_empty (cf_routedel cfg))
     \<and> (\<not> str_is_empty (cf_vpn_ip6 cfg) \<longrightarrow> \<not> str_is_empty (cf_ifconfig6 cfg) \<and> \<not> str_is_empty (cf_routeadd6 cfg)
          \<and> (cf_use_dynamic_routes cfg \<longrightarrow> \<not> str_is_empty (cf_routedel6 cfg)))"
  by (auto simp: check_routes_def run_when_True reqparam_True run_simps)

lemma addrmask_init_ok:
  "addrmask_init lc v = Done (Some a) \<Longrightarrow> getaddrinfo_sized lc \<Longrightarrow> addr_ok a"
  by (auto simp: addrmask_init_def addrmask_parse_def run_simps parse_pattern_ok split: if_splits)

lemma subnetlist_loop_ok:
  "subnetlist_loop lc es acc = Done r \<Longrightarrow> getaddrinfo_sized lc \<Longrightarrow> list_all addr_ok acc \<Longrightarrow> list_all addr_ok r"
  by (induction lc es acc rule: subnetlist_loop.induct)
    (auto simp: run_simps dest: addrmask_init_ok split: option.splits)

lemma load_subnets_True:
  assumes "load_subnets lc raw store cfg = Done (True, cfg')" and "getaddrinfo_sized lc"
  shows "\<exists>a. cfg' = store a cfg \<and> list_all addr_ok a \<and> (cf_use_dynamic_routes cfg \<longrightarrow> a = [])"
  using assms subnetlist_loop_ok [OF _ assms(2), where acc = "[]"]
  by (auto simp: load_subnets_def parse_and_free_raw_subnetlist_def run_simps split: option.splits)

lemma snprintf1024_nonempty: "s \<noteq> [] \<Longrightarrow> snprintf1024 s \<noteq> []"
  by (simp add: snprintf1024_def)

lemma default_device_True:
  assumes "default_device cfg = Done (True, cfg')"
  obtains d i where "cfg' = cfg\<lparr>cf_tincd_device := d, cf_tincd_interface := i\<rparr>" "\<not> str_is_empty d" "\<not> str_is_empty i"
proof (cases "str_is_empty (cf_tincd_interface cfg)")
  case True
  with assms obtain name where "cf_networkname cfg = Some name" by (cases "cf_networkname cfg") (auto simp: default_device_def Let_def split: if_splits)
  with True assms that [where d = "if str_is_empty (cf_tincd_device cfg) then Some ''/dev/net/tun'' else cf_tincd_device cfg"
      and i = "Some (snprintf1024 (name @ ''_vpn''))"] show ?thesis
    by (simp add: default_device_def snprintf1024_nonempty split: if_splits)
next
  case False
  with assms that [where d = "if str_is_empty (cf_tincd_device cfg) then Some ''/dev/net/tun'' else cf_tincd_device cfg"
      and i = "cf_tincd_interface cfg"] show ?thesis
    by (simp add: default_device_def split: if_splits)
qed

definition checks_done :: "libc \<Rightarrow> sysenv \<Rightarrow> config \<Rightarrow> bool" where
  "checks_done lc se cfg \<longleftrightarrow>
     (cf_oneshot cfg \<or> 60 \<le> cf_update_interval cfg)
     \<and> list_all (\<lambda>v. \<not> str_is_empty v)
         [cf_peerid cfg, cf_networkname cfg, cf_vpn_ip cfg, cf_routeadd cfg, cf_ifconfig cfg, cf_base_path cfg,
          cf_tincd_user cfg, cf_tincd_bin cfg, cf_tincd_device cfg, cf_tincd_interface cfg]
     \<and> cf_my_addressfamily cfg \<in> {Some ''any'', Some ''ipv4'', Some ''ipv6''}
     \<and> se_getpwnam se (the (cf_tincd_user cfg)) = Some (cf_tincd_uid cfg, cf_tincd_gid cfg)
     \<and> (\<forall>(ip, fam) \<in> set [(cf_my_ip cfg, AF_UNSPEC), (cf_vpn_ip cfg, AF_INET), (cf_vpn_ip6 cfg, AF_INET6)].
          str_is_empty ip \<or> addrmask_verify_ip lc ip fam = Done True)
     \<and> cf_vpn_ip cfg \<noteq> Some ''172.31.0.255''
     \<and> (\<not> str_is_empty (cf_vpn_ip6 cfg) \<longrightarrow> \<not> str_is_empty (cf_ifconfig6 cfg) \<and> \<not> str_is_empty (cf_routeadd6 cfg))
     \<and> (cf_use_dynamic_routes cfg \<longrightarrow> \<not> str_is_empty (cf_routedel cfg)
          \<and> (\<not> str_is_empty (cf_vpn_ip6 cfg) \<longrightarrow> \<not> str_is_empty (cf_routedel6 cfg))
          \<and> cf_mergeroutes_supernet cfg = [] \<and> cf_ignore_subnets cfg = [] \<and> cf_whitelist_subnets cfg = [])
     \<and> config_nets_ok cfg"

lemma required_params_True:
  "required_params se cfg = Done (True, cfg') \<Longrightarrow>
   cfg' = cfg \<and> (cf_oneshot cfg \<or> 60 \<le> cf_update_interval cfg)
     \<and> list_all (\<lambda>v. \<not> str_is_empty v)
         [cf_peerid cfg, cf_networkname cfg, cf_vpn_ip cfg, cf_routeadd cfg, cf_ifconfig cfg, cf_base_path cfg,
          cf_tincd_user cfg, cf_tincd_bin cfg]"
  unfolding required_params_def run_seq.simps seq_step_Done_True_iff check_interval_True reqparam_True
  by (elim exE conjE) (simp add: check_tincd_bin_True)

lemma address_checks_True:
  "address_checks lc cfg = Done (True, cfg') \<Longrightarrow>
   cfg' = cfg \<and> (str_is_empty (cf_vpn_ip cfg) \<or> addrmask_verify_ip lc (cf_vpn_ip cfg) AF_INET = Done True)
     \<and> (str_is_empty (cf_vpn_ip6 cfg) \<or> addrmask_verify_ip lc (cf_vpn_ip6 cfg) AF_INET6 = Done True)
     \<and> cf_vpn_ip cfg \<noteq> Some ''172.31.0.255'' \<and> check_routes cfg = Done (True, cfg)"
  unfolding address_checks_def run_seq.simps seq_step_Done_True_iff check_ip_True check_sample_ip_True
  by (elim exE conjE) (simp add: check_routes_True)

lemma identity_checks_True:
  assumes "identity_checks lc se cfg = Done (True, cfg')"
  obtains ip fam user uid gid where
    "cfg' = cfg\<lparr>cf_my_ip := ip, cf_my_addressfamily := fam, cf_tincd_uid := uid, cf_tincd_gid := gid\<rparr>"
    "str_is_empty ip \<or> addrmask_verify_ip lc ip AF_UNSPEC = Done True" "fam \<in> {Some ''any'', Some ''ipv4'', Some ''ipv6''}"
    "cf_tincd_user cfg = Some user" "se_getpwnam se user = Some (uid, gid)"
proof -
  from assms obtain c1 c2 where c: "check_my_ip lc cfg = Done (True, c1)" "check_addressfamily c1 = Done (True, c2)"
      "lookup_user se c2 = Done (True, cfg')"
    unfolding identity_checks_def run_seq.simps seq_step_Done_True_iff by auto
  show ?thesis
    by (rule check_my_ip_True [OF c(1)], rule check_addressfamily_True [OF c(2)])
      (use lookup_user_True [OF c(3)] that in auto)
qed

lemma subnet_lists_True:
  assumes "subnet_lists lc cfg = Done (True, cfg')" and lc: "getaddrinfo_sized lc"
  obtains m i w where
    "cfg' = cfg\<lparr>cf_mergeroutes_supernet := m, cf_mergeroutes_supernet_raw := None, cf_ignore_subnets := i,
       cf_ignore_subnets_raw := None, cf_whitelist_subnets := w, cf_whitelist_subnets_raw := None\<rparr>"
    "list_all addr_ok (m @ i @ w)" "cf_use_dynamic_routes cfg \<longrightarrow> m @ i @ w = []"
proof -
  from assms obtain c1 c2 where c: "load_mergeroutes lc cfg = Done (True, c1)" "load_ignore lc c1 = Done (True, c2)"
      "load_whitelist lc c2 = Done (True, cfg')"
    unfolding subnet_lists_def run_seq.simps seq_step_Done_True_iff by auto
  obtain m where m: "c1 = cfg\<lparr>cf_mergeroutes_supernet := m, cf_mergeroutes_supernet_raw := None\<rparr>" "list_all addr_ok m"
      "cf_use_dynamic_routes cfg \<longrightarrow> m = []"
    using load_subnets_True [OF c(1) [unfolded load_mergeroutes_def] lc] by blast
  obtain i where i: "c2 = c1\<lparr>cf_ignore_subnets := i, cf_ignore_subnets_raw := None\<rparr>" "list_all addr_ok i"
      "cf_use_dynamic_routes c1 \<longrightarrow> i = []"
    using load_subnets_True [OF c(2) [unfolded load_ignore_def] lc] by blast
  obtain w where w: "cfg' = c2\<lparr>cf_whitelist_subnets := w, cf_whitelist_subnets_raw := None\<rparr>" "list_all addr_ok w"
      "cf_use_dynamic_routes c2 \<longrightarrow> w = []"
    using load_subnets_True [OF c(3) [unfolded load_whitelist_def] lc] by blast
  show ?thesis
    by (rule that [where m = m and i = i and w = w]) (use m i w in simp_all)
qed

lemma config_checks_done:
  assumes "config_checks lc se cfg0 = Done (True, cfg)" and lc: "getaddrinfo_sized lc"
  shows "checks_done lc se cfg"
proof -
  from assms(1) obtain c1 c2 c3 c4 where c: "required_params se cfg0 = Done (True, c1)" "identity_checks lc se c1 = Done (True, c2)"
      "address_checks lc c2 = Done (True, c3)" "subnet_lists lc c3 = Done (True, c4)" "default_device c4 = Done (True, cfg)"
    unfolding config_checks_def run_seq.simps seq_step_Done_True_iff by auto
  from required_params_True [OF c(1)] have c1: "c1 = cfg0"
    and req: "cf_oneshot cfg0 \<or> 60 \<le> cf_update_interval cfg0" "list_all (\<lambda>v. \<not> str_is_empty v)
         [cf_peerid cfg0, cf_networkname cfg0, cf_vpn_ip cfg0, cf_routeadd cfg0, cf_ifconfig cfg0, cf_base_path cfg0,
          cf_tincd_user cfg0, cf_tincd_bin cfg0]" by blast+
  from address_checks_True [OF c(3)] have c3: "c3 = c2"
    and ips: "str_is_empty (cf_vpn_ip c2) \<or> addrmask_verify_ip lc (cf_vpn_ip c2) AF_INET = Done True"
      "str_is_empty (cf_vpn_ip6 c2) \<or> addrmask_verify_ip lc (cf_vpn_ip6 c2) AF_INET6 = Done True"
      "cf_vpn_ip c2 \<noteq> Some ''172.31.0.255''" "check_routes c2 = Done (True, c2)" by blast+
  obtain ip fam user uid gid where
    c2: "c2 = cfg0\<lparr>cf_my_ip := ip, cf_my_addressfamily := fam, cf_tincd_uid := uid, cf_tincd_gid := gid\<rparr>"
    and ident: "str_is_empty ip \<or> addrmask_verify_ip lc ip AF_UNSPEC = Done True" "fam \<in> {Some ''any'', Some ''ipv4'', Some ''ipv6''}"
      "cf_tincd_user cfg0 = Some user" "se_getpwnam se user = Some (uid, gid)"
    by (rule identity_checks_True [OF c(2) [unfolded c1]]) (rule that; assumption)
  obtain m i w where
    c4: "c4 = c2\<lparr>cf_mergeroutes_supernet := m, cf_mergeroutes_supernet_raw := None, cf_ignore_subnets := i,
         cf_ignore_subnets_raw := None, cf_whitelist_subnets := w, cf_whitelist_subnets_raw := None\<rparr>"
    and nets: "list_all addr_ok (m @ i @ w)" "cf_use_dynamic_routes c2 \<longrightarrow> m @ i @ w = []"
    by (rule subnet_lists_True [OF c(4) [unfolded c3] lc]) (rule that; assumption)
  obtain d ifc where
    cfg: "cfg = c4\<lparr>cf_tincd_device := d, cf_tincd_interface := ifc\<rparr>" and dev: "\<not> str_is_empty d" "\<not> str_is_empty ifc"
    by (rule default_device_True [OF c(5)]) (rule that; assumption)
  have "checks_done lc se (c2\<lparr>cf_mergeroutes_supernet := m, cf_mergeroutes_supernet_raw := None, cf_ignore_subnets := i,
         cf_ignore_subnets_raw := None, cf_whitelist_subnets := w, cf_whitelist_subnets_raw := None,
         cf_tincd_device := d, cf_tincd_interface := ifc\<rparr>)"
    using req ips ident nets dev unfolding checks_done_def config_nets_ok_def check_routes_True
    by (simp add: c2)
  then show ?thesis by (simp only: cfg c4)
qed

lemma read_keys_True:
  assumes "read_keys lc se files cfg = Done (True, cfg')"
  obtains priv pub where "cfg' = cfg\<lparr>cf_privkey := priv, cf_ed25519publickey := pub\<rparr>"
  using assms by (auto simp: read_keys_def run_simps Let_def split: option.splits if_splits)

lemma find_version_True:
  assumes "find_version lc se cfg = Done (True, cfg')"
  obtains v t where "cfg' = cfg\<lparr>cf_tincd_version := v, cf_tincctl_bin := t\<rparr>" "version_newer cfg' ''1.1'' \<longleftrightarrow> t \<noteq> None"
proof -
  from assms obtain v where v: "tinc_get_version lc se cfg = Done v"
    by (auto simp: find_version_def run_simps)
  let ?c = "cfg\<lparr>cf_tincd_version := v\<rparr>"
  have nv: "version_newer (cfg\<lparr>cf_tincd_version := v, cf_tincctl_bin := t\<rparr>) ''1.1'' = version_newer ?c ''1.1''" for t
    by (simp add: version_newer_def)
  have same: "?c\<lparr>cf_tincctl_bin := cf_tincctl_bin cfg\<rparr> = ?c" by simp
  consider "\<not> version_newer ?c ''1.1''" | "version_newer ?c ''1.1''" "cf_tincctl_bin cfg \<noteq> None"
    | b where "version_newer ?c ''1.1''" "cf_tincctl_bin cfg = None" "cf_tincd_bin cfg = Some b"
    using assms v by (cases "cf_tincd_bin cfg") (auto simp: find_version_def Let_def split: if_splits)
  then show ?thesis
  proof cases
    case 1
    with assms v that [where v = v and t = None] nv show ?thesis by (force simp: find_version_def)
  next
    case 2
    with assms v that [where v = v and t = "cf_tincctl_bin cfg"] nv same show ?thesis by (simp add: find_version_def)
  next
    case 3
    with assms v that [where v = v and t = "Some (tincctl_path b)"] nv show ?thesis by (force simp: find_version_def)
  qed
qed

lemma default_files_parts:
  assumes "default_files cfg = Done (True, cfg')"
  shows "\<exists>name base. cf_networkname cfg = Some name \<and> cf_base_path cfg = Some base"
  using assms by (cases "cf_networkname cfg"; cases "cf_base_path cfg") (simp_all add: default_files_def)

lemma default_files_eq:
  assumes n: "cf_networkname cfg = Some name" "cf_base_path cfg = Some base"
  shows "default_files cfg = Done (True, cfg\<lparr>
     cf_tincd_pidfile := if cf_tincd_pidfile cfg = None then Some (snprintf1024 (''/var/run/tinc.'' @ name @ ''.pid''))
                         else cf_tincd_pidfile cfg,
     cf_tmpconffile := if cf_tmpconffile cfg = None then Some (snprintf1024 (base @ ''/data.sav'')) else cf_tmpconffile cfg\<rparr>)"
  unfolding default_files_def n option.case prod.case Let_def
  by (cases "cf_tincd_pidfile cfg = None") (simp_all del: append.simps)

lemma default_files_True:
  assumes "default_files cfg = Done (True, cfg')"
  obtains p t where "cfg' = cfg\<lparr>cf_tincd_pidfile := p, cf_tmpconffile := t\<rparr>" "p \<noteq> None" "t \<noteq> None"
proof -
  from default_files_parts [OF assms] obtain name base where "cf_networkname cfg = Some name" "cf_base_path cfg = Some base"
    by blast
  note e = default_files_eq [OF this]
  from assms e have "cfg' = cfg\<lparr>
     cf_tincd_pidfile := if cf_tincd_pidfile cfg = None then Some (snprintf1024 (''/var/run/tinc.'' @ name @ ''.pid''))
                         else cf_tincd_pidfile cfg,
     cf_tmpconffile := if cf_tmpconffile cfg = None then Some (snprintf1024 (base @ ''/data.sav'')) else cf_tmpconffile cfg\<rparr>"
    by (simp only: run.inject prod.inject simp_thms)
  then show ?thesis by (rule that) simp_all
qed

lemma checks_done_keeps:
  "checks_done lc se (cfg\<lparr>cf_privkey := a, cf_ed25519publickey := b, cf_tincd_version := c, cf_tincctl_bin := d,
     cf_tincd_pidfile := e, cf_tmpconffile := f\<rparr>) = checks_done lc se cfg"
  by (simp add: checks_done_def config_nets_ok_def)

lemma config_init_done:
  assumes "config_init lc se mkdir files dirs cfg0 = Done (True, dirs', cfg)" and lc: "getaddrinfo_sized lc"
  shows "checks_done lc se cfg \<and> cf_tincd_pidfile cfg \<noteq> None \<and> cf_tmpconffile cfg \<noteq> None
     \<and> (version_newer cfg ''1.1'' \<longleftrightarrow> cf_tincctl_bin cfg \<noteq> None)"
proof -
  from assms(1) obtain c1 c2 c3 c4 where c: "config_checks lc se c1 = Done (True, c2)" "read_keys lc se files c2 = Done (True, c3)"
      "find_version lc se c3 = Done (True, c4)" "default_files c4 = Done (True, cfg)"
    by (auto simp: config_init_def run_simps split: option.splits if_splits)
  obtain priv pub where c3: "c3 = c2\<lparr>cf_privkey := priv, cf_ed25519publickey := pub\<rparr>" by (rule read_keys_True [OF c(2)])
  obtain v t where c4: "c4 = c3\<lparr>cf_tincd_version := v, cf_tincctl_bin := t\<rparr>" "version_newer c4 ''1.1'' \<longleftrightarrow> t \<noteq> None"
    by (rule find_version_True [OF c(3)])
  obtain p tmp where cfg: "cfg = c4\<lparr>cf_tincd_pidfile := p, cf_tmpconffile := tmp\<rparr>" "p \<noteq> None" "tmp \<noteq> None"
    by (rule default_files_True [OF c(4)])
  have "checks_done lc se cfg" using config_checks_done [OF c(1) lc] by (simp only: cfg(1) c4(1) c3 checks_done_keeps)
  moreover have "version_newer cfg ''1.1'' = version_newer c4 ''1.1''" by (simp add: version_newer_def cfg(1))
  ultimately show ?thesis using c4 cfg by simp
qed

section \<open>Properties\<close>


text \<open>A start that succeeds, for a concrete instance.\<close>

definition start_config :: config where
  "start_config = (config_alloc ''/etc/tinc'')\<lparr>cf_oneshot := True\<rparr>"

definition start_lines :: "line list" where
  "start_lines =
     [Comment '' this node'', Setting ''$my_peerid'' (Quoted [Text ''me'']), Setting ''$my_vpn_ip'' (Quoted [Text ''172.31.0.5'']),
      Setting ''$networkname'' (Quoted [Text ''chaos'']),
      Setting ''$base'' (Quoted [Text ''/etc/tinc/'', Var ''$networkname'']),
      Setting ''$routeadd'' (Quoted [Text ''ip route add %s dev '', Dollar, Text ''INTERFACE'']),
      Setting ''$ifconfig'' (Quoted [Text ''ifconfig '', Var ''$my_vpn_ip'']), Setting ''$tincd_user'' (Quoted [Text ''tincd'']),
      Setting ''$tincd_debuglevel'' (Number 2), Setting ''$run_ifdown'' (Yes_no True),
      Setting ''@exclude'' (Listing [Quoted_entry [Text ''bla''], Number_entry 4])]"

definition read_config :: config where
  "read_config = start_config\<lparr>cf_peerid := Some ''me'', cf_vpn_ip := Some ''172.31.0.5'', cf_networkname := Some ''chaos'',
     cf_base_path := Some ''/etc/tinc/chaos'', cf_routeadd := Some ''ip route add %s dev $INTERFACE'',
     cf_ifconfig := Some ''ifconfig 172.31.0.5'', cf_tincd_user := Some ''tincd'', cf_tincd_debuglevel := 2,
     cf_run_ifdown := True, cf_exclude := Some [LIST_STRING ''bla'', LIST_INTEGER 4]\<rparr>"

definition start_files :: files where
  "start_files = (\<lambda>_. None)(''/etc/tinc/chaosvpn.conf'' \<mapsto> (print_lines start_lines, 420), ''/etc/tinc/chaos/rsa_key.priv'' \<mapsto> (''KEY'', 384))"

lemma start_texts_plain:
  "plain ''me'' \<and> plain ''172.31.0.5'' \<and> plain ''chaos'' \<and> plain ''/etc/tinc/'' \<and> plain ''ip route add %s dev ''
     \<and> plain ''INTERFACE'' \<and> plain ''ifconfig '' \<and> plain ''tincd'' \<and> plain ''bla''
     \<and> ends_name ''$networkname'' [QUOTE] \<and> ends_name ''$my_vpn_ip'' [QUOTE]"
  by code_simp

lemma start_lines_ok: "list_all conf_line_ok start_lines"
  using start_texts_plain by (simp add: start_lines_def variables_def)

lemma start_lines_read: "apply_lines start_lines start_config = Some read_config"
  by (simp add: start_lines_def read_config_def variables_def parts_value_def)

lemma sample_ip_ok: "addrmask_verify_ip total_libc (Some ''172.31.0.5'') AF_INET = Done True"
proof -
  have "parse_pattern total_libc ''172.31.0.5'' = Some (quad_entry [172, 31, 0, 5] [255, 255, 255, 255] 32)" by code_simp
  then show ?thesis
    using addrmask_parse_pattern [OF total_libc_facts(1), of "''172.31.0.5''"] total_libc_facts(1)
    by (simp add: addrmask_verify_ip_def addrmask_init_def alloc_total_def family_fits_def quad_entry_def)
qed

lemma start_checks:
  "config_checks total_libc version_env read_config =
     Done (True, read_config\<lparr>cf_my_addressfamily := Some ''ipv4'', cf_tincd_uid := 1000, cf_tincd_gid := 1000,
        cf_mergeroutes_supernet := [], cf_ignore_subnets := [], cf_whitelist_subnets := [],
        cf_tincd_device := Some ''/dev/net/tun'', cf_tincd_interface := Some ''chaos_vpn''\<rparr>)"
  using sample_ip_ok
  by (simp add: config_checks_def required_params_def identity_checks_def address_checks_def subnet_lists_def
      check_interval_def reqparam_def check_tincd_bin_def check_my_ip_def check_addressfamily_def lookup_user_def
      check_ip_def check_sample_ip_def check_routes_def run_when_def load_mergeroutes_def load_ignore_def load_whitelist_def
      load_subnets_def parse_and_free_raw_subnetlist_def default_device_def snprintf1024_def
      read_config_def start_config_def config_alloc_def version_env_def plain_env_def)

lemma sprintf_cstr:
  assumes f: "format_text msg args = Some t" and lc: "alloc_total lc" and s: "buf_inv s" "content s = []"
    and len: "length t < 2 ^ 61" "NUL \<notin> set t"
  shows "\<exists>s'. string_concat_sprintf lc msg args s = Done (True, s') \<and> string_cstr s' = t"
proof -
  have "length (content s) + length t < buf_limit" using s(2) len(1) by (simp add: buf_limit_def)
  from writes_total [OF sprintf_loop_writes [OF f] lc s(1) this] obtain s1 where
    s1: "sprintf_loop lc msg args s = Done (True, s1)" "buf_inv s1" "content s1 = t" using s(2) by auto
  have "length (content s1) + length [NUL] < buf_limit" using s1(3) len(1) by (simp add: buf_limit_def)
  from writes_total [OF string_putc_writes lc s1(2) this] obtain s2 where
    s2: "string_putc lc s1 NUL = Done (True, s2)" "buf_inv s2" "content s2 = t @ [NUL]" using s1(3) by auto
  let ?s = "s2\<lparr>sb_length := sb_length s2 - 1\<rparr>"
  have "string_concat_sprintf lc msg args s = Done (True, ?s)" using s1(1) s2(1) by (simp add: string_concat_sprintf_def)
  moreover have "string_cstr ?s = t"
    using string_cstr_zero_terminated [OF _ drop_last_byte(2) [OF s2(2,3)]] drop_last_byte(1) [OF s2(2,3)] buf_inv_ok len(2)
    by (simp add: cstr_simps)
  ultimately show ?thesis by blast
qed

lemma key_file_path:
  assumes "alloc_total lc" and "cf_base_path cfg = Some base" and "c_text base"
    and "format_text (''%s'' @ name) [Arg_s base] = Some (base @ name)" and "NUL \<notin> set name" and "length name < 2 ^ 32"
  shows "key_file lc cfg name = Done (Some (base @ name))"
proof -
  have "length (base @ name) < 2 ^ 61" "NUL \<notin> set (base @ name)" using assms(3,5,6) by (simp_all add: c_text_def)
  from sprintf_cstr [OF assms(4,1) _ _ this] init_buffer(2) [OF assms(1)] obtain s' where
    "string_concat_sprintf lc (''%s'' @ name) [Arg_s base] (string_init lc 1024 512) = Done (True, s')" "string_cstr s' = base @ name"
    by blast
  then show ?thesis unfolding key_file_def assms(2) option.case by simp
qed

lemma read_keys_start:
  assumes cfg: "cf_base_path cfg = Some ''/etc/tinc/chaos''" "cf_privkey cfg = string_lazyinit 2048"
  shows "\<exists>priv. read_keys total_libc version_env start_files cfg
     = Done (True, cfg\<lparr>cf_privkey := priv, cf_ed25519publickey := string_free (cf_ed25519publickey cfg)\<rparr>)"
proof -
  have p: "key_file total_libc cfg ''/rsa_key.priv'' = Done (Some (''/etc/tinc/chaos'' @ ''/rsa_key.priv''))"
    "key_file total_libc cfg ''/ed25519_key.pub'' = Done (Some (''/etc/tinc/chaos'' @ ''/ed25519_key.pub''))"
    by (rule key_file_path [OF total_libc_facts(1) cfg(1)]; simp add: c_text_def)+
  have p': "key_file total_libc (cfg\<lparr>cf_privkey := b\<rparr>) ''/ed25519_key.pub'' = Done (Some (''/etc/tinc/chaos'' @ ''/ed25519_key.pub''))" for b
    using p(2) by (simp add: key_file_def)
  have "buf_inv (string_lazyinit 2048)" "content (string_lazyinit 2048) = []" by (simp_all add: string_lazyinit_inv)
  then obtain b where "read_chunks total_libc ''KEY'' (string_lazyinit 2048) = Done (True, b)"
    using writes_total [OF read_chunks_writes total_libc_facts(1), of "string_lazyinit 2048" "''KEY''"] by (auto simp: buf_limit_def)
  moreover have "string_free (cf_privkey cfg) = string_lazyinit 2048" by (simp add: cfg(2) string_free_def string_lazyinit_def)
  moreover have "start_files (canon (''/etc/tinc/chaos'' @ ''/rsa_key.priv'')) = Some (''KEY'', 384)"
    "start_files (canon (''/etc/tinc/chaos'' @ ''/ed25519_key.pub'')) = None" by (simp_all add: start_files_def)
  moreover have "\<not> se_read_error version_env fn" for fn by (simp add: version_env_def plain_env_def)
  ultimately show ?thesis
    by (intro exI [of _ b]) (simp add: read_keys_def p p' fs_read_file_def Let_def del: append_Cons append_Nil)
qed

lemma find_version_exists:
  "tinc_get_version lc se cfg = Done v \<Longrightarrow> cf_tincd_bin cfg = Some b \<Longrightarrow>
   \<exists>e. find_version lc se cfg = Done (True, e) \<and> cf_networkname e = cf_networkname cfg \<and> cf_base_path e = cf_base_path cfg"
  by (auto simp: find_version_def Let_def)

lemma start_succeeds_in:
  assumes "fs_mkdir_p mkdir ''/etc/tinc/chaos'' s = (True, s')"
  shows "\<exists>dirs cfg. config_init total_libc version_env mkdir start_files s start_config = Done (True, dirs, cfg)"
proof -
  let ?c = "read_config\<lparr>cf_my_addressfamily := Some ''ipv4'', cf_tincd_uid := 1000, cf_tincd_gid := 1000,
        cf_mergeroutes_supernet := [], cf_ignore_subnets := [], cf_whitelist_subnets := [],
        cf_tincd_device := Some ''/dev/net/tun'', cf_tincd_interface := Some ''chaos_vpn''\<rparr>"
  have base: "cf_base_path ?c = Some ''/etc/tinc/chaos''" "cf_privkey ?c = string_lazyinit 2048" "cf_tincd_bin ?c = Some ''tincd''"
    "cf_networkname ?c = Some ''chaos''"
    by (simp_all add: read_config_def start_config_def config_alloc_def)
  have conf: "cf_configfile start_config = Some ''/etc/tinc/chaosvpn.conf''" "start_files (canon ''/etc/tinc/chaosvpn.conf'') = Some (print_lines start_lines, 420)"
    by (simp_all add: start_config_def config_alloc_def start_files_def)
  have read: "yyparse total_libc (print_lines start_lines) start_config = Done read_config"
    by (simp add: yyparse_lines [OF total_libc_facts(1) start_lines_ok] start_lines_read)
  have dirs: "\<exists>dirs. create_base version_env mkdir ?c s = Done (True, dirs)"
    using assms by (simp add: create_base_def base)
  obtain priv where keys: "read_keys total_libc version_env start_files ?c
     = Done (True, ?c\<lparr>cf_privkey := priv, cf_ed25519publickey := string_free (cf_ed25519publickey ?c)\<rparr>)"
    using read_keys_start [OF base(1,2)] by blast
  let ?d = "?c\<lparr>cf_privkey := priv, cf_ed25519publickey := string_free (cf_ed25519publickey ?c)\<rparr>"
  have "cf_tincd_bin ?d = Some ''tincd''" using base(3) by simp
  from tinc_get_version_eval [OF total_libc_facts(1) this, of version_env] obtain v where
    "tinc_get_version total_libc version_env ?d = Done v" by (auto simp: version_env_def)
  from find_version_exists [OF this \<open>cf_tincd_bin ?d = Some ''tincd''\<close>] obtain e where
    e: "find_version total_libc version_env ?d = Done (True, e)" "cf_networkname e = Some ''chaos''"
      "cf_base_path e = Some ''/etc/tinc/chaos''" using base(1,4) by auto
  note f = default_files_eq [OF e(2,3)]
  have "\<exists>g. run_seq [read_keys total_libc version_env start_files, find_version total_libc version_env, default_files] ?c = Done (True, g)"
    by (intro exI) (simp only: run_seq.simps keys seq_step_simps e(1) f; rule refl)
  then show ?thesis using dirs start_checks unfolding config_init_def conf option.case prod.case read run_bind.simps
    by (elim exE) (simp only: run_bind.simps prod.case not_True_eq_False if_False, blast)
qed

lemma start_succeeds:
  "\<exists>dirs cfg. config_init total_libc version_env tree_mkdir start_files {} start_config = Done (True, dirs, cfg)"
proof -
  from mkdir_p_tree [of "{}" "''/etc/tinc/chaos''"] obtain s' where "fs_mkdir_p tree_mkdir ''/etc/tinc/chaos'' {} = (True, s')"
    by (auto simp: tree_ok_def)
  then show ?thesis by (rule start_succeeds_in)
qed


text \<open>
  with an update interval below a minute, the default of 0 included, and not in one-shot mode,
  \<open>config_init\<close> ends the program with status 1 before it looks at anything else.
\<close>

theorem config_init_interval_exits:
  assumes "cf_configfile cfg0 = Some configfile" and "files (canon configfile) = Some (contents, mode)" and "yyparse lc contents cfg0 = Done cfg"
    and "cf_update_interval cfg < 60" and "\<not> cf_oneshot cfg"
  shows "config_init lc se mkdir files dirs cfg0 = Exit 1"
  using assms by (simp add: config_init_def config_checks_def required_params_def check_interval_def)

theorem config_init_interval_exits_witness:
  "config_init total_libc plain_env tree_mkdir ((\<lambda>_. None)(''/etc/tinc/chaosvpn.conf'' \<mapsto> ([], 420))) {} (config_alloc ''/etc/tinc'') = Exit 1"
  by (rule config_init_interval_exits [where cfg = "config_alloc ''/etc/tinc''" and configfile = "''/etc/tinc/chaosvpn.conf''"
        and contents = "[]" and mode = 420]) (simp_all add: config_alloc_def)

lemma subnetlist_loop_spec:
  assumes "alloc_total lc" and "list_all (\<lambda>v. v \<noteq> [] \<and> c_text v) (string_entries es)"
  shows "subnetlist_loop lc es acc = Done (acc @ List.map_filter (parse_pattern lc) (string_entries es))"
  using assms(2)
proof (induction es arbitrary: acc rule: string_entries.induct)
  case (2 v es)
  then have v: "addrmask_init lc v = Done (parse_pattern lc v)"
    using assms(1) addrmask_parse_pattern [OF assms(1), of v] by (simp add: addrmask_init_def alloc_total_def c_text_def)
  show ?case
  proof (cases "parse_pattern lc v")
    case None
    with v 2 show ?thesis by (simp add: List.map_filter_simps)
  next
    case (Some a)
    with v 2 show ?thesis by (simp add: List.map_filter_simps)
  qed
qed (simp_all add: List.map_filter_simps)

text \<open>
  the list of a subnet setting holds, in order, the entry of every string of the setting that is a
  valid address with an optional mask; invalid strings and entries of other kinds are skipped.
\<close>

theorem subnetlist_parses:
  assumes "alloc_total lc" and "list_all (\<lambda>v. v \<noteq> [] \<and> c_text v) (string_entries es)"
  shows "parse_and_free_raw_subnetlist lc (Some es) = Done (List.map_filter (parse_pattern lc) (string_entries es))"
  using subnetlist_loop_spec [OF assms, of "[]"] by (simp add: parse_and_free_raw_subnetlist_def)

theorem subnetlist_parses_witness:
  "parse_and_free_raw_subnetlist total_libc (Some [LIST_STRING ''10.0.0.0/8'', LIST_INTEGER 3, LIST_STRING ''bad''])
     = Done (List.map_filter (parse_pattern total_libc) (string_entries [LIST_STRING ''10.0.0.0/8'', LIST_INTEGER 3, LIST_STRING ''bad'']))"
  by (rule subnetlist_parses [OF total_libc_facts(1)]) (simp add: c_text_def)

end
