(* ===== verification/Crypto.thy ===== *)
theory Crypto
  imports Strbuf
begin

text \<open>
  \<^verbatim>\<open>src/crypto.c\<close>: the calls into OpenSSL.  The library is the record \<open>openssl\<close>; keys are values of a
  type \<open>'k\<close> the code never looks into.
\<close>

section \<open>The library\<close>

text \<open>
  \<^item> \<open>os_key_len\<close>, \<open>os_iv_len\<close>, \<open>os_max_block\<close>: the sizes of AES-256-CBC and \<open>EVP_MAX_BLOCK_LENGTH\<close>;
  \<^item> \<open>os_load_key private pem\<close>: the key a PEM text holds;
  \<^item> \<open>os_ctx\<close>, \<open>os_ready\<close>: whether a context can be made, and initialised for its operation;
  \<^item> \<open>os_verify key data signature\<close>: the result of \<open>EVP_VerifyFinal\<close> with SHA-512: 1 for a good signature;
  \<^item> \<open>os_pkey_size key\<close>: the size of a block of the key;
  \<^item> \<open>os_rsa_len key ciphertext\<close>: the size \<open>EVP_PKEY_decrypt\<close> asks for;
  \<^item> \<open>os_rsa_decrypt key ciphertext\<close>: the text an OAEP block holds;
  \<^item> \<open>os_aes_update key iv ciphertext\<close>, \<open>os_aes_final\<close>: the bytes AES-256-CBC gives, and the last ones once the
    padding has been checked.
\<close>

record 'k openssl =
  os_key_len :: nat
  os_iv_len :: nat
  os_max_block :: nat
  os_load_key :: "bool \<Rightarrow> string \<Rightarrow> 'k option"
  os_ctx :: bool
  os_ready :: bool
  os_verify :: "'k \<Rightarrow> char list \<Rightarrow> char list \<Rightarrow> int"
  os_pkey_size :: "'k \<Rightarrow> nat"
  os_rsa_len :: "'k \<Rightarrow> char list \<Rightarrow> nat"
  os_rsa_decrypt :: "'k \<Rightarrow> char list \<Rightarrow> char list option"
  os_aes_update :: "char list \<Rightarrow> char list \<Rightarrow> char list \<Rightarrow> char list option"
  os_aes_final :: "char list \<Rightarrow> char list \<Rightarrow> char list \<Rightarrow> char list option"

definition crypto_load_key :: "'k openssl \<Rightarrow> string option \<Rightarrow> bool \<Rightarrow> 'k option run" where
  "crypto_load_key os key is_private =
     (case key of None \<Rightarrow> Fault Null_deref | Some pem \<Rightarrow> Done (os_load_key os is_private pem))"

definition crypto_rsa_verify_signature :: "'k openssl \<Rightarrow> strbuf \<Rightarrow> strbuf \<Rightarrow> string option \<Rightarrow> bool run" where
  "crypto_rsa_verify_signature os databuffer signature pubkey =
     run_bind (crypto_load_key os pubkey False) (\<lambda>pkey. case pkey of
        None \<Rightarrow> Done False
      | Some pkey \<Rightarrow>
          if \<not> os_ctx os then Done False
          else if \<not> os_ready os then Done False
          else let err = os_verify os pkey (content databuffer) (content signature) in
            if err \<noteq> 1 then Done False else Done True)"

text \<open>Bytes a library function writes into a buffer behind what is there; the length is then set by hand.\<close>

definition fill_buffer :: "strbuf \<Rightarrow> char list \<Rightarrow> strbuf run" where
  "fill_buffer s out =
     run_bind (store_bytes (sb_s s) (unat (sb_length s)) out)
       (\<lambda>b. Done (s\<lparr>sb_s := b, sb_length := sb_length s + of_nat (length out)\<rparr>))"

definition crypto_rsa_decrypt :: "libc \<Rightarrow> 'k openssl \<Rightarrow> strbuf \<Rightarrow> string option \<Rightarrow> strbuf \<Rightarrow> (bool \<times> strbuf) run" where
  "crypto_rsa_decrypt lc os ciphertext privkey decrypted0 =
     run_bind (crypto_load_key os privkey True) (\<lambda>pkey. case pkey of
        None \<Rightarrow> Done (False, decrypted0)
      | Some pkey \<Rightarrow>
          if unat (sb_length ciphertext) \<noteq> os_pkey_size os pkey then Done (False, decrypted0)
          else let decrypted = string_init lc (of_nat (os_pkey_size os pkey)) 512 in
            if unat (sb_size decrypted) < os_pkey_size os pkey then Done (False, decrypted)
            else if \<not> os_ctx os then Done (False, decrypted)
            else if \<not> os_ready os then Done (False, decrypted)
            else if os_rsa_len os pkey (content ciphertext) \<noteq> unat (sb_length ciphertext) then Done (False, decrypted)
            else (case os_rsa_decrypt os pkey (content ciphertext) of
                None \<Rightarrow> Done (False, decrypted)
              | Some out \<Rightarrow> run_bind (fill_buffer decrypted out) (\<lambda>decrypted. Done (True, decrypted))))"

text \<open>
  \<open>crypto_aes_decrypt\<close>.  \<open>EVP_DecryptInit_ex\<close> reads a whole key and a whole initialisation vector (when
  the pointers are not null) before the lengths are checked.  \<open>decryptspace\<close> is an \<open>int\<close>.
\<close>

definition aes_reads :: "nat \<Rightarrow> strbuf \<Rightarrow> unit run" where
  "aes_reads n s = (case sb_s s of None \<Rightarrow> Done () | Some b \<Rightarrow> if n \<le> length b then Done () else Fault Out_of_bounds)"

definition crypto_aes_decrypt ::
  "libc \<Rightarrow> 'k openssl \<Rightarrow> strbuf \<Rightarrow> strbuf \<Rightarrow> strbuf \<Rightarrow> strbuf \<Rightarrow> (bool \<times> strbuf) run" where
  "crypto_aes_decrypt lc os ciphertext aes_key aes_iv decrypted0 =
     (if \<not> os_ctx os then Done (False, decrypted0)
      else run_bind (aes_reads (os_key_len os) aes_key) (\<lambda>_. run_bind (aes_reads (os_iv_len os) aes_iv) (\<lambda>_.
      let key = content aes_key; iv = content aes_iv; cipher = content ciphertext in
      if \<not> os_ready os then Done (False, decrypted0)
      else if unat (sb_length aes_key) \<noteq> os_key_len os then Done (False, decrypted0)
      else if unat (sb_length aes_iv) \<noteq> os_iv_len os then Done (False, decrypted0)
      else let decryptspace = (ucast (sb_length ciphertext + of_nat (os_max_block os)) :: 32 word);
               decrypted = string_init lc (scast decryptspace) 1024 in
        if sb_size decrypted < scast decryptspace then Done (False, decrypted)
        else (case os_aes_update os key iv cipher of
            None \<Rightarrow> Done (False, decrypted)
          | Some out \<Rightarrow> run_bind (fill_buffer decrypted out) (\<lambda>decrypted.
              case os_aes_final os key iv cipher of
                None \<Rightarrow> Done (False, decrypted)
              | Some out \<Rightarrow> run_bind (fill_buffer decrypted out) (\<lambda>decrypted. Done (True, decrypted)))))))"

section \<open>Facts\<close>

lemma fill_buffer_appends:
  assumes s: "buf_ok s" and b: "sb_s s = Some b" and room: "length (content s) + length out \<le> length b"
    and small: "length b < 2 ^ 62"
  shows "\<exists>s' b'. fill_buffer s out = Done s' \<and> buf_ok s' \<and> content s' = content s @ out \<and> sb_growby s' = sb_growby s
     \<and> sb_size s' = sb_size s \<and> sb_s s' = Some b' \<and> length b' = length b"
proof -
  have l: "length (content s) = unat (sb_length s)" using s by (rule buf_ok_length)
  have len: "unat (sb_length s + of_nat (length out)) = unat (sb_length s) + length out"
    using l room small by (simp add: unat_word_ariths unat_of_nat_size_t)
  define b' where "b' = take (unat (sb_length s)) b @ out @ drop (unat (sb_length s) + length out) b"
  have "store_bytes (sb_s s) (unat (sb_length s)) out = Done (Some b')"
    using b room l by (auto simp: store_bytes_def b'_def)
  moreover have "length b' = length b" using room l by (simp add: b'_def)
  moreover have "take (unat (sb_length s) + length out) b' = content s @ out"
    using room l b by (simp add: b'_def content_def)
  ultimately show ?thesis
    using s b len room l by (auto simp: fill_buffer_def buf_ok_def content_def word_le_nat_alt)
qed

lemma fill_init:
  assumes "alloc_total lc" and "n < 2 ^ 62" and "length out \<le> n" and "0 < unat g" "unat g \<le> 2 ^ 32"
  obtains s' b where "fill_buffer (string_init lc (of_nat n) g) out = Done s'" "buf_inv s'" "content s' = out"
    "sb_s s' = Some b" "length b = n"
proof -
  let ?s = "string_init lc (of_nat n) g"
  have n: "unat (of_nat n :: size_t) = n" using assms(2) by (simp add: unat_of_nat_size_t)
  have s: "buf_ok ?s" "content ?s = []" "sb_s ?s = Some (replicate n NUL)" "sb_growby ?s = g" "sb_size ?s = of_nat n"
    using assms(1) n by (simp_all add: string_init_def alloc_total_def buf_ok_def content_def)
  obtain s' b where "fill_buffer ?s out = Done s'" "buf_ok s'" "content s' = out" "sb_growby s' = g"
    "sb_size s' = of_nat n" "sb_s s' = Some b" "length b = n"
    using fill_buffer_appends [OF s(1,3), of out] s assms(2,3) by auto
  with assms(2,4,5) n that show ?thesis by (simp add: buf_inv_def)
qed

lemma crypto_rsa_verify_signature_eval:
  "crypto_rsa_verify_signature os d s (Some pem) =
     Done (os_ctx os \<and> os_ready os
       \<and> (\<exists>k. os_load_key os False pem = Some k \<and> os_verify os k (content d) (content s) = 1))"
  by (auto simp: crypto_rsa_verify_signature_def crypto_load_key_def Let_def split: option.splits)

text \<open>What the OpenSSL manual promises of \<open>EVP_PKEY_decrypt\<close>: the text is never longer than the key's block.\<close>

definition rsa_fits :: "'k openssl \<Rightarrow> bool" where
  "rsa_fits os \<longleftrightarrow> (\<forall>k c m. os_rsa_decrypt os k c = Some m \<longrightarrow> length m \<le> os_pkey_size os k)
     \<and> (\<forall>k. 0 < os_pkey_size os k \<and> os_pkey_size os k < 2 ^ 31)"

text \<open>What it promises of the cipher calls: at most one block more than the ciphertext is written.\<close>

definition aes_fits :: "'k openssl \<Rightarrow> bool" where
  "aes_fits os \<longleftrightarrow> (\<forall>k i c a. os_aes_update os k i c = Some a \<longrightarrow>
       length a \<le> length c + os_max_block os
     \<and> (\<forall>b. os_aes_final os k i c = Some b \<longrightarrow> length a + length b \<le> length c + os_max_block os))"

lemma crypto_rsa_decrypt_total:
  assumes "alloc_total lc" and "rsa_fits os" and "buf_ok d"
  shows "\<exists>ok s. crypto_rsa_decrypt lc os c (Some pem) d = Done (ok, s) \<and> buf_ok s
    \<and> (ok \<longrightarrow> (\<exists>k. os_load_key os True pem = Some k \<and> os_rsa_decrypt os k (content c) = Some (content s)) \<and> buf_inv s)"
proof -
  have init: "buf_ok (string_init lc n g)" for n g
    by (auto simp: string_init_def buf_ok_def)
  have fill: "\<exists>s'. fill_buffer (string_init lc (of_nat (os_pkey_size os k)) 512) out = Done s' \<and> buf_inv s' \<and> content s' = out"
    if "os_rsa_decrypt os k x = Some out" for k x out
  proof -
    have "os_pkey_size os k < 2 ^ 62" "length out \<le> os_pkey_size os k"
      using assms(2) that by (auto simp: rsa_fits_def intro: less_trans)
    then obtain s' b where "fill_buffer (string_init lc (of_nat (os_pkey_size os k)) 512) out = Done s'"
      "buf_inv s'" "content s' = out"
      by (rule fill_init [OF assms(1), where g = 512]) simp_all
    then show ?thesis by blast
  qed
  show ?thesis
  proof (cases "os_load_key os True pem")
    case (Some k)
    show ?thesis
    proof (cases "os_rsa_decrypt os k (content c)")
      case None
      with Some show ?thesis
        using assms(3) init by (auto simp: crypto_rsa_decrypt_def crypto_load_key_def Let_def)
    next
      case (Some m)
      from fill [OF this] obtain s' where "fill_buffer (string_init lc (of_nat (os_pkey_size os k)) 512) m = Done s'"
        "buf_inv s'" "content s' = m" by blast
      with Some \<open>os_load_key os True pem = Some k\<close> show ?thesis
        using assms(3) init by (auto simp: crypto_rsa_decrypt_def crypto_load_key_def Let_def)
    qed
  qed (use assms(3) in \<open>auto simp: crypto_rsa_decrypt_def crypto_load_key_def\<close>)
qed

lemma decryptspace:
  fixes l :: size_t
  assumes "unat l + n < 2 ^ 31"
  shows "scast (ucast (l + of_nat n) :: 32 word) = (of_nat (unat l + n) :: size_t)"
proof -
  have u: "uint (l + of_nat n) = int (unat l + n)"
  proof -
    have "unat (of_nat n :: size_t) = n" using assms by (intro unat_of_nat_size_t) simp
    then have "unat (l + of_nat n) = unat l + n"
      using assms by (simp add: unat_plus_size_t)
    then show ?thesis by (simp add: uint_nat del: of_nat_unat)
  qed
  have "sint (ucast (l + of_nat n) :: 32 word) = int (unat l + n)"
    using assms sint_word32 [of "int (unat l + n)"] u by (simp add: unsigned_ucast_eq of_int_of_nat_eq ucast_eq del: of_nat_add)
  then show ?thesis
    by (simp add: scast_eq del: of_nat_add)
qed

lemma crypto_aes_decrypt_eval:
  assumes lc: "alloc_total lc" and ctx: "os_ctx os" "os_ready os"
    and key: "buf_ok key" "length (content key) = os_key_len os"
    and iv: "buf_ok iv" "length (content iv) = os_iv_len os"
    and c: "buf_ok c" "length (content c) + os_max_block os < 2 ^ 31"
    and upd: "os_aes_update os (content key) (content iv) (content c) = Some a"
    and fits: "length a \<le> length (content c) + os_max_block os"
      "\<And>b. os_aes_final os (content key) (content iv) (content c) = Some b \<Longrightarrow>
         length a + length b \<le> length (content c) + os_max_block os"
  shows "\<exists>s'. buf_inv s' \<and> crypto_aes_decrypt lc os c key iv d =
     (case os_aes_final os (content key) (content iv) (content c) of
        None \<Rightarrow> Done (False, s') | Some b \<Rightarrow> Done (True, s'))
     \<and> content s' = a @ (case os_aes_final os (content key) (content iv) (content c) of None \<Rightarrow> [] | Some b \<Rightarrow> b)"
proof -
  define n where "n = length (content c) + os_max_block os"
  have space: "scast (ucast (sb_length c + of_nat (os_max_block os)) :: 32 word) = (of_nat n :: size_t)"
    using c buf_ok_length [OF c(1)] by (simp add: decryptspace n_def)
  have reads: "aes_reads (os_key_len os) key = Done ()" "aes_reads (os_iv_len os) iv = Done ()"
    using key iv by (auto simp: aes_reads_def content_def split: option.splits)
  have lens: "unat (sb_length key) = os_key_len os" "unat (sb_length iv) = os_iv_len os"
    using key iv by (metis buf_ok_length)+
  have n: "n < 2 ^ 62" using c(2) by (simp add: n_def)
  obtain s1 b1 where s1: "fill_buffer (string_init lc (of_nat n) 1024) a = Done s1" "buf_inv s1" "content s1 = a"
    "sb_s s1 = Some b1" "length b1 = n"
    by (rule fill_init [OF lc n, of a 1024]) (use fits(1) in \<open>simp_all add: n_def\<close>)
  have start: "\<not> sb_size (string_init lc (of_nat n) 1024) < of_nat n"
    using lc by (simp add: string_init_def alloc_total_def)
  note eval = crypto_aes_decrypt_def ctx reads lens space Let_def upd start s1(1)
  show ?thesis
  proof (cases "os_aes_final os (content key) (content iv) (content c)")
    case None
    then show ?thesis using s1 by (auto simp: eval)
  next
    case (Some b)
    then have "length (content s1) + length b \<le> length b1" using fits(2) s1 by (simp add: n_def)
    from fill_buffer_appends [OF _ s1(4) this] s1 n obtain s2 where
      "fill_buffer s1 b = Done s2" "buf_ok s2" "content s2 = a @ b" "sb_growby s2 = sb_growby s1" "sb_size s2 = sb_size s1"
      by auto
    moreover from this have "buf_inv s2" using s1(2) by (simp add: buf_inv_def)
    ultimately show ?thesis using Some by (auto simp: eval)
  qed
qed

end
