(* ===== verification/Ar.thy ===== *)
theory Ar
  imports Strbuf
begin

text \<open>
  \<^verbatim>\<open>src/ar.c\<close>: taking one member out of an \<open>ar\<close> archive held in memory.  The pointer \<open>pos\<close>
  and the remaining length \<open>len\<close> of the C code are one value here, the bytes from \<open>pos\<close> to the end
  of the archive; reading past that end is a fault.
\<close>

section \<open>Headers\<close>

definition ARMAG :: string where
  "ARMAG = ''!<arch>'' @ [CHR 0x0A]"

definition ARFMAG :: string where
  "ARFMAG = [CHR 0x60, CHR 0x0A]"

record ar_hdr =
  ar_name :: string
  ar_date :: string
  ar_uid :: string
  ar_gid :: string
  ar_mode :: string
  ar_size :: string
  ar_fmag :: string

definition sizeof_ar_hdr :: nat where
  "sizeof_ar_hdr = 60"

text \<open>The bytes at \<open>pos\<close> seen as a \<open>struct ar_hdr\<close>.\<close>

definition ar_hdr_at :: "char list \<Rightarrow> ar_hdr run" where
  "ar_hdr_at pos =
     (if length pos < sizeof_ar_hdr then Fault Out_of_bounds
      else Done \<lparr>ar_name = take 16 pos, ar_date = take 12 (drop 16 pos), ar_uid = take 6 (drop 28 pos),
        ar_gid = take 6 (drop 34 pos), ar_mode = take 8 (drop 40 pos), ar_size = take 10 (drop 48 pos),
        ar_fmag = take 2 (drop 58 pos)\<rparr>)"

section \<open>Operations\<close>

text \<open>
  A field is copied into a local array, a blank is put behind it, and the text is cut at the
  first blank.
\<close>

definition cut_field :: "string \<Rightarrow> string" where
  "cut_field inh = takeWhile (\<lambda>c. c \<noteq> CHR '' '') (inh @ '' '')"

definition ar_parseheaderlength :: "string \<Rightarrow> int run" where
  "ar_parseheaderlength inh =
     (if NUL \<in> set inh then Done (- 1)
      else if 15 < length inh then Done (- 1)
      else if length inh = 15 then Fault Out_of_bounds
      else let (r, endp) = strtol10 (cut_field inh)
           in if r < 0 then Done (- 1) else if endp \<noteq> [] then Done (- 1) else Done r)"

text \<open>
  The function is declared \<open>bool\<close>, so its \<open>return -1\<close> is true.  For an empty name the code reads
  and maybe writes the byte in front of its array.
\<close>

definition ar_compare_name :: "string \<Rightarrow> string \<Rightarrow> bool run" where
  "ar_compare_name inh searchname =
     (if NUL \<in> set inh then Done True
      else if 32 < length inh then Done True
      else if length inh = 32 then Fault Out_of_bounds
      else let lintbuf = cut_field inh
           in if lintbuf = [] then Fault Out_of_bounds
              else Done ((if last lintbuf = CHR ''/'' then butlast lintbuf else lintbuf) = searchname))"

definition ar_is_ar_file :: "strbuf \<Rightarrow> bool" where
  "ar_is_ar_file archive =
     (if length (content archive) < 8 then False
      else if take 8 (content archive) \<noteq> ARMAG then False else True)"

text \<open>The loop over the members.\<close>

function ar_extract_loop :: "libc \<Rightarrow> char list \<Rightarrow> string \<Rightarrow> strbuf \<Rightarrow> (bool \<times> strbuf) run" where
  "ar_extract_loop lc pos membername result =
     (if length pos < sizeof_ar_hdr then Done (False, result)
      else run_bind (ar_hdr_at pos) (\<lambda>arh.
        let pos' = drop sizeof_ar_hdr pos in
        if ar_fmag arh \<noteq> ARFMAG then Done (False, result)
        else run_bind (ar_parseheaderlength (ar_size arh)) (\<lambda>memberlen.
          let step = nat (memberlen + memberlen mod 2) in
          if memberlen < 0 then Done (False, result)
          else if length pos' < step then Done (False, result)
          else run_bind (ar_compare_name (ar_name arh) membername) (\<lambda>found.
            if found
            then if length pos' < nat memberlen then Fault Out_of_bounds
                 else string_concatb lc result (take (nat memberlen) pos')
            else if length (drop step pos') = 0 then Done (True, result)
            else ar_extract_loop lc (drop step pos') membername result))))"
  by pat_completeness auto
termination
  by (relation "measure (\<lambda>(lc, pos, m, r). length pos)") (auto simp: sizeof_ar_hdr_def)

declare ar_extract_loop.simps [simp del]

definition ar_extract :: "libc \<Rightarrow> strbuf \<Rightarrow> string \<Rightarrow> strbuf \<Rightarrow> (bool \<times> strbuf) run" where
  "ar_extract lc archive membername result =
     (let result = string_free result; pos = content archive in
      if length pos < 8 then Done (False, result)
      else if take 8 pos \<noteq> ARMAG then Done (False, result)
      else ar_extract_loop lc (drop 8 pos) membername result)"

section \<open>Archives as lists of members\<close>

text \<open>How an archive is laid out: what the extraction has to undo.\<close>

record ar_member =
  m_name :: string
  m_slash :: bool
  m_meta :: string
  m_data :: "char list"

definition pad_right :: "nat \<Rightarrow> string \<Rightarrow> string" where
  "pad_right n s = s @ replicate (n - length s) (CHR '' '')"

definition member_image :: "ar_member \<Rightarrow> char list" where
  "member_image m =
     pad_right 16 (m_name m @ (if m_slash m then ''/'' else [])) @ m_meta m
     @ pad_right 10 (nat_dec (length (m_data m))) @ ARFMAG
     @ m_data m @ (if odd (length (m_data m)) then [CHR 0x0A] else [])"

definition archive_image :: "ar_member list \<Rightarrow> char list" where
  "archive_image ms = ARMAG @ concat (map member_image ms)"

definition member_ok :: "ar_member \<Rightarrow> bool" where
  "member_ok m \<longleftrightarrow>
     m_name m \<noteq> [] \<and> length (m_name m) + (if m_slash m then 1 else 0) \<le> 16 \<and> CHR '' '' \<notin> set (m_name m) \<and> NUL \<notin> set (m_name m)
     \<and> last (m_name m) \<noteq> CHR ''/'' \<and> length (m_meta m) = 32 \<and> length (m_data m) < 10 ^ 10"

definition find_member :: "ar_member list \<Rightarrow> string \<Rightarrow> ar_member option" where
  "find_member ms n = find (\<lambda>m. m_name m = n) ms"

section \<open>Facts\<close>

lemma cut_field_pad: "CHR '' '' \<notin> set s \<Longrightarrow> cut_field (pad_right n s) = s"
proof -
  assume s: "CHR '' '' \<notin> set s"
  have "takeWhile (\<lambda>c. c \<noteq> CHR '' '') (s @ replicate k (CHR '' '') @ '' '') = s" for k
    using s by (subst takeWhile_append2) (auto simp: takeWhile_eq_Nil_iff hd_append)
  then show ?thesis by (simp add: cut_field_def pad_right_def)
qed

lemma length_pad_right: "length s \<le> n \<Longrightarrow> length (pad_right n s) = n"
  by (simp add: pad_right_def)

lemma set_pad_right: "set (pad_right n s) \<subseteq> set s \<union> {CHR '' ''}"
  by (auto simp: pad_right_def)

lemma parse_size_field:
  assumes "n < 10 ^ 10"
  shows "ar_parseheaderlength (pad_right 10 (nat_dec n)) = Done (int n)"
proof -
  have l: "length (nat_dec n) \<le> 10" using assms by (intro nat_dec_length) simp_all
  have d: "CHR '' '' \<notin> set (nat_dec n)" "NUL \<notin> set (nat_dec n)"
    using nat_dec_isdigit [of "CHR '' ''" n] nat_dec_isdigit [of NUL n] by (auto simp: isdigit_def)
  then have "NUL \<notin> set (pad_right 10 (nat_dec n))" using set_pad_right [of 10 "nat_dec n"] by auto
  moreover have "strtol10 (nat_dec n) = (int n, [])" using assms by (intro strtol10_nat_dec) simp
  ultimately show ?thesis
    using l d by (simp add: ar_parseheaderlength_def length_pad_right cut_field_pad)
qed

lemma compare_name_field:
  assumes "member_ok m"
  shows "ar_compare_name (pad_right 16 (m_name m @ (if m_slash m then ''/'' else []))) n = Done (m_name m = n)"
proof -
  let ?t = "m_name m @ (if m_slash m then ''/'' else [])"
  have l: "length ?t \<le> 16" "CHR '' '' \<notin> set ?t" "NUL \<notin> set ?t"
    using assms by (auto simp: member_ok_def)
  have "NUL \<notin> set (pad_right 16 ?t)" using l(3) set_pad_right [of 16 ?t] by auto
  moreover have "cut_field (pad_right 16 ?t) = ?t" using l(2) by (rule cut_field_pad)
  ultimately show ?thesis
    using assms l(1) by (simp add: ar_compare_name_def length_pad_right member_ok_def)
qed

lemma ar_hdr_at_fields:
  assumes "length n = 16" and "length meta = 32" and "length sz = 10" and "length fm = 2"
  shows "\<exists>h. ar_hdr_at (n @ meta @ sz @ fm @ rest) = Done h \<and> ar_name h = n \<and> ar_size h = sz \<and> ar_fmag h = fm"
  using assms by (simp add: ar_hdr_at_def sizeof_ar_hdr_def)

text \<open>One turn of the loop on a well-formed member.\<close>

lemma loop_member:
  assumes m: "member_ok m"
  shows "ar_extract_loop lc (member_image m @ rest) n result =
     (if m_name m = n then string_concatb lc result (m_data m)
      else if rest = [] then Done (True, result) else ar_extract_loop lc rest n result)"
proof -
  let ?d = "m_data m"
  let ?nf = "pad_right 16 (m_name m @ (if m_slash m then ''/'' else []))"
  let ?sf = "pad_right 10 (nat_dec (length ?d))"
  let ?t = "?d @ (if odd (length ?d) then [CHR 0x0A] else [])"
  have f: "length ?nf = 16" "length (m_meta m) = 32" "length ?sf = 10" "length ARFMAG = 2"
    using m nat_dec_length [of "length ?d" 10]
    by (auto simp: length_pad_right member_ok_def ARFMAG_def split: if_splits)
  have img: "member_image m @ rest = ?nf @ m_meta m @ ?sf @ ARFMAG @ ?t @ rest"
    by (simp add: member_image_def)
  obtain h where h: "ar_hdr_at (member_image m @ rest) = Done h" "ar_name h = ?nf" "ar_size h = ?sf"
      "ar_fmag h = ARFMAG"
    using ar_hdr_at_fields [OF f, of "?t @ rest"] unfolding img by blast
  have pos: "drop sizeof_ar_hdr (member_image m @ rest) = ?t @ rest"
    "sizeof_ar_hdr \<le> length (member_image m @ rest)"
    unfolding img using f by (simp_all add: sizeof_ar_hdr_def)
  have sz: "ar_parseheaderlength (ar_size h) = Done (int (length ?d))"
    using m h(3) by (simp add: parse_size_field member_ok_def)
  have step: "nat (int (length ?d) + int (length ?d) mod 2) = length ?t"
    by (simp add: nat_add_distrib zmod_int [symmetric] mod_2_eq_odd flip: of_nat_add)
  have nm: "ar_compare_name (ar_name h) n = Done (m_name m = n)"
    using m h(2) by (simp add: compare_name_field)
  show ?thesis
    using h(1,4) pos sz step nm
    by (subst ar_extract_loop.simps) (simp add: Let_def)
qed

lemma loop_archive:
  assumes "list_all member_ok ms" and "ms \<noteq> []"
  shows "ar_extract_loop lc (concat (map member_image ms)) n result =
     (case find_member ms n of None \<Rightarrow> Done (True, result) | Some m \<Rightarrow> string_concatb lc result (m_data m))"
  using assms
proof (induction ms)
  case (Cons m ms)
  have ne: "member_image m \<noteq> []" for m by (simp add: member_image_def ARFMAG_def)
  show ?case
  proof (cases "ms = []")
    case True
    with Cons.prems show ?thesis
      using loop_member [of m lc "[]" n result] by (simp add: find_member_def)
  next
    case False
    then have "concat (map member_image ms) \<noteq> []" using ne by (cases ms) auto
    with Cons False show ?thesis
      using loop_member [of m lc "concat (map member_image ms)" n result]
      by (simp add: find_member_def del: concat_eq_Nil_conv)
  qed
qed simp

lemma string_free_inv: "buf_inv s \<Longrightarrow> buf_inv (string_free s) \<and> content (string_free s) = []"
  by (auto simp: buf_inv_def string_free_def buf_ok_def content_def split: option.splits)

text \<open>No header in the bytes has a name field that starts with a blank.\<close>

fun no_blank_name :: "char list \<Rightarrow> bool" where
  "no_blank_name [] = True"
| "no_blank_name (c # cs) =
     ((if c = CHR '' '' then length (c # cs) < sizeof_ar_hdr \<or> take 2 (drop 58 (c # cs)) \<noteq> ARFMAG else True)
      \<and> no_blank_name cs)"

lemma no_blank_name_drop: "no_blank_name pos \<Longrightarrow> no_blank_name (drop n pos)"
proof (induction pos arbitrary: n)
  case (Cons c cs)
  then show ?case by (cases n) (auto split: if_splits)
qed simp

lemma ar_compare_name_total:
  assumes "length inh = 16" and "inh ! 0 \<noteq> CHR '' ''"
  shows "\<exists>b. ar_compare_name inh n = Done b"
proof -
  have "cut_field inh \<noteq> []" using assms by (cases inh) (auto simp: cut_field_def)
  then show ?thesis using assms(1) unfolding ar_compare_name_def Let_def by auto
qed

lemma ar_parseheaderlength_total: "length inh = 10 \<Longrightarrow> \<exists>r. ar_parseheaderlength inh = Done r"
  by (auto simp: ar_parseheaderlength_def split: prod.splits)

text \<open>What one turn of the loop can do.\<close>

lemma loop_turn:
  assumes len: "sizeof_ar_hdr \<le> length pos" and nb: "no_blank_name pos"
  obtains (stop) ok where "ar_extract_loop lc pos n result = Done (ok, result)"
  | (copy) k where "ar_extract_loop lc pos n result = string_concatb lc result (take k (drop sizeof_ar_hdr pos))"
  | (more) k where "ar_extract_loop lc pos n result = ar_extract_loop lc (drop k (drop sizeof_ar_hdr pos)) n result"
proof -
  from len obtain h where h: "ar_hdr_at pos = Done h" "ar_name h = take 16 pos"
      "ar_size h = take 10 (drop 48 pos)" "ar_fmag h = take 2 (drop 58 pos)"
    by (simp add: ar_hdr_at_def)
  note turn = ar_extract_loop.simps [of lc pos n result]
  obtain ml where ml: "ar_parseheaderlength (ar_size h) = Done ml"
    using ar_parseheaderlength_total [of "ar_size h"] h(3) len by (auto simp: sizeof_ar_hdr_def)
  show ?thesis
  proof (cases "ar_fmag h \<noteq> ARFMAG \<or> ml < 0 \<or> length (drop sizeof_ar_hdr pos) < nat (ml + ml mod 2)")
    case True
    then have "ar_extract_loop lc pos n result = Done (False, result)"
      using len h(1) ml by (subst turn) (auto simp: Let_def not_less)
    then show ?thesis by (rule stop)
  next
    case go: False
    with h(4) len nb have "pos ! 0 \<noteq> CHR '' ''"
      by (cases pos) (auto simp: sizeof_ar_hdr_def split: if_splits)
    with len h(2) obtain found where found: "ar_compare_name (ar_name h) n = Done found"
      using ar_compare_name_total [of "ar_name h" n] by (auto simp: sizeof_ar_hdr_def)
    moreover from go have "nat ml \<le> length (drop sizeof_ar_hdr pos)" by linarith
    ultimately have "ar_extract_loop lc pos n result =
        (if found then string_concatb lc result (take (nat ml) (drop sizeof_ar_hdr pos))
         else if length (drop (nat (ml + ml mod 2)) (drop sizeof_ar_hdr pos)) = 0 then Done (True, result)
         else ar_extract_loop lc (drop (nat (ml + ml mod 2)) (drop sizeof_ar_hdr pos)) n result)"
      using len go h(1) ml by (subst turn) (simp add: Let_def not_less)
    then show ?thesis using stop copy more by (cases found; simp; metis)
  qed
qed

lemma loop_safe:
  assumes "no_blank_name pos" and "buf_inv result" and "content result = []" and "alloc_total lc"
    and "length pos \<le> buf_limit"
  shows "\<exists>ok r a b. ar_extract_loop lc pos n result = Done (ok, r) \<and> buf_inv r \<and> pos = a @ content r @ b"
  using assms
proof (induction "length pos" arbitrary: pos rule: less_induct)
  case less
  let ?rest = "drop sizeof_ar_hdr pos"
  show ?case
  proof (cases "sizeof_ar_hdr \<le> length pos")
    case False
    then have "ar_extract_loop lc pos n result = Done (False, result)"
      by (subst ar_extract_loop.simps) simp
    with less.prems show ?thesis by auto
  next
    case True
    from True less.prems(1) show ?thesis
    proof (cases rule: loop_turn [of pos lc n result, case_names stop copy more])
      case (copy k)
      have "length (content result) + length (take k ?rest) \<le> buf_limit" using less.prems(3,5) by simp
      from string_concatb_core [OF less.prems(2) this, of lc] less.prems(3,4) copy obtain r where
        "ar_extract_loop lc pos n result = Done (True, r)" "buf_inv r" "content r = take k ?rest"
        by auto
      moreover have "pos = take sizeof_ar_hdr pos @ take k ?rest @ drop k ?rest"
        by (metis append_take_drop_id)
      ultimately show ?thesis by metis
    next
      case (more k)
      let ?next = "drop k ?rest"
      have "length ?next < length pos" using True by (simp add: sizeof_ar_hdr_def)
      then obtain ok r a b where r: "ar_extract_loop lc ?next n result = Done (ok, r)" "buf_inv r"
          "?next = a @ content r @ b"
        using less.hyps [of ?next] no_blank_name_drop less.prems by (metis drop_drop less_imp_le order_trans)
      have "pos = (take sizeof_ar_hdr pos @ take k ?rest) @ ?next"
        by (metis append.assoc append_take_drop_id)
      then have "pos = (take sizeof_ar_hdr pos @ take k ?rest @ a) @ content r @ b" using r(3) by simp
      with r(1,2) more show ?thesis by metis
    qed (use less.prems in auto)
  qed
qed

lemma ar_extract_finds:
  assumes "list_all member_ok ms" and "ms \<noteq> []" and "content archive = archive_image ms"
    and "buf_inv result" and "alloc_total lc"
  shows "\<exists>r. ar_extract lc archive n result = Done (True, r) \<and> buf_inv r
     \<and> content r = (case find_member ms n of None \<Rightarrow> [] | Some m \<Rightarrow> m_data m)"
proof -
  let ?r = "string_free result"
  have r: "buf_inv ?r" "content ?r = []" using string_free_inv [OF assms(4)] by simp_all
  have eq: "ar_extract lc archive n result =
      (case find_member ms n of None \<Rightarrow> Done (True, ?r) | Some m \<Rightarrow> string_concatb lc ?r (m_data m))"
    using assms(3) loop_archive [OF assms(1,2)]
    by (simp add: ar_extract_def archive_image_def ARMAG_def Let_def)
  show ?thesis
  proof (cases "find_member ms n")
    case (Some m)
    then have "m \<in> set ms" by (auto simp: find_member_def find_Some_iff)
    with assms(1) have "length (content ?r) + length (m_data m) \<le> buf_limit"
      using r(2) by (auto simp: list_all_iff member_ok_def buf_limit_def)
    from string_concatb_core [OF r(1) this, of lc] assms(5) Some eq r(2) show ?thesis by auto
  qed (use eq r in simp)
qed

section \<open>Properties\<close>

text \<open>
  C28: extraction undoes the layout of an archive.  From the image of a non-empty list of members,
  \<open>ar_extract\<close> returns true, and the result buffer holds the data of the first member with the
  name asked for; if there is none it returns true as well and the result is empty.
\<close>

theorem ar_extract_image:
  assumes "list_all member_ok ms" and "ms \<noteq> []" and "content archive = archive_image ms"
    and "buf_inv result" and "alloc_total lc"
  shows "\<exists>r. ar_extract lc archive n result = Done (True, r) \<and> buf_inv r
     \<and> content r = (case find_member ms n of None \<Rightarrow> [] | Some m \<Rightarrow> m_data m)"
  using assms by (rule ar_extract_finds)

abbreviation "sample_member n d \<equiv> \<lparr>m_name = n, m_slash = True, m_meta = replicate 32 (CHR ''0''), m_data = d\<rparr>"

abbreviation "sample_members \<equiv> [sample_member ''config'' ''abc'', sample_member ''rsa'' ''key1'']"

theorem ar_extract_image_witness:
  "\<exists>r. ar_extract plain_libc (string_mkstatic (archive_image sample_members)) ''rsa'' (string_lazyinit 16)
         = Done (True, r) \<and> buf_inv r
     \<and> content r = (case find_member sample_members ''rsa'' of None \<Rightarrow> [] | Some m \<Rightarrow> m_data m)"
proof (rule ar_extract_image)
  have "length (archive_image sample_members) = 136" by code_simp
  then show "content (string_mkstatic (archive_image sample_members)) = archive_image sample_members"
    by (intro content_mkstatic) simp
qed (simp_all add: member_ok_def string_lazyinit_inv)

text \<open>
  C29: on an arbitrary archive, well-formed or not, in which no header starts with a blank,
  \<open>ar_extract\<close> ends with true or false and without a memory fault, and what it puts into the
  result is a contiguous piece of the archive.
\<close>

theorem ar_extract_safe:
  assumes "no_blank_name (content archive)" and "length (content archive) \<le> buf_limit"
    and "buf_inv result" and "alloc_total lc"
  shows "\<exists>ok r a b. ar_extract lc archive n result = Done (ok, r) \<and> buf_inv r
            \<and> content archive = a @ content r @ b"
proof -
  have r: "buf_inv (string_free result)" "content (string_free result) = []"
    using string_free_inv [OF assms(3)] by simp_all
  then have none: "\<exists>r a b. Done (False, string_free result) = Done (False, r) \<and> buf_inv r
      \<and> content archive = a @ content r @ b" by auto
  have "length (drop 8 (content archive)) \<le> buf_limit" using assms(2) by simp
  from loop_safe [OF no_blank_name_drop [OF assms(1)] r assms(4) this, of n] obtain ok r a b where
    l: "ar_extract_loop lc (drop 8 (content archive)) n (string_free result) = Done (ok, r)" "buf_inv r"
      "drop 8 (content archive) = a @ content r @ b" by blast
  have "content archive = (take 8 (content archive) @ a) @ content r @ b"
    by (metis l(3) append.assoc append_take_drop_id)
  with l(1,2) have "\<exists>ok r a b. ar_extract_loop lc (drop 8 (content archive)) n (string_free result) = Done (ok, r)
      \<and> buf_inv r \<and> content archive = a @ content r @ b" by blast
  with none show ?thesis unfolding ar_extract_def Let_def
    by (cases "length (content archive) < 8 \<or> take 8 (content archive) \<noteq> ARMAG") (simp_all, blast+)
qed

theorem ar_extract_safe_witness:
  "\<exists>ok r a b. ar_extract plain_libc (string_mkstatic (archive_image sample_members @ ''x'')) ''tinc'' (string_lazyinit 16)
       = Done (ok, r)
     \<and> buf_inv r \<and> content (string_mkstatic (archive_image sample_members @ ''x'')) = a @ content r @ b"
proof (rule ar_extract_safe)
  have "length (archive_image sample_members @ ''x'') = 137" by code_simp
  moreover from this have c [simp]: "content (string_mkstatic (archive_image sample_members @ ''x'')) = archive_image sample_members @ ''x''"
    by (intro content_mkstatic) simp
  ultimately show "length (content (string_mkstatic (archive_image sample_members @ ''x''))) \<le> buf_limit"
    by (simp add: buf_limit_def)
  have "no_blank_name (archive_image sample_members @ ''x'')" by code_simp
  then show "no_blank_name (content (string_mkstatic (archive_image sample_members @ ''x'')))" by simp
qed (simp_all add: string_lazyinit_inv)

end
