(* ===== verification/Uncompress.thy ===== *)
theory Uncompress
  imports Strbuf
begin

text \<open>
  \<^verbatim>\<open>src/uncompress.c\<close>: inflating a buffer.  zlib's \<open>inflate\<close> is a parameter: from a stream
  state and the room in the output array it gives a return code, the bytes it wrote and the new state.
\<close>

datatype zret = Z_OK | Z_STREAM_END | Z_NEED_DICT | Z_STREAM_ERROR | Z_DATA_ERROR | Z_MEM_ERROR | Z_BUF_ERROR

type_synonym 'z inflate = "'z \<Rightarrow> nat \<Rightarrow> zret \<times> char list \<times> 'z"

definition OUTBUF :: nat where
  "OUTBUF = 1024"

text \<open>
  The loop: \<open>None\<close> is a loop that does not end.  The result of \<open>string_concatb\<close> is not looked at.
\<close>

partial_function (option) inflate_loop ::
  "libc \<Rightarrow> 'z inflate \<Rightarrow> 'z \<Rightarrow> strbuf \<Rightarrow> (bool \<times> strbuf) run option" where
  "inflate_loop lc inflate strm uncompressed =
     (case inflate strm OUTBUF of (retval, out, strm') \<Rightarrow>
        if retval \<in> {Z_STREAM_ERROR, Z_NEED_DICT, Z_DATA_ERROR, Z_MEM_ERROR} then Some (Done (False, uncompressed))
        else (case string_concatb lc uncompressed out of
            Done (_, u) \<Rightarrow>
              if length out = OUTBUF then inflate_loop lc inflate strm' u
              else Some (Done (retval = Z_STREAM_END, u))
          | Fault e \<Rightarrow> Some (Fault e) | Exit n \<Rightarrow> Some (Exit n) | Diverge \<Rightarrow> Some Diverge))"

definition uncompress_inflate ::
  "libc \<Rightarrow> (char list \<Rightarrow> 'z option) \<Rightarrow> 'z inflate \<Rightarrow> strbuf \<Rightarrow> strbuf \<Rightarrow> (bool \<times> strbuf) run" where
  "uncompress_inflate lc inflateInit inflate compressed uncompressed =
     (case inflateInit (content compressed) of
        None \<Rightarrow> Done (False, uncompressed)
      | Some strm \<Rightarrow>
          (case inflate_loop lc inflate strm uncompressed of None \<Rightarrow> Diverge | Some r \<Rightarrow> r))"

section \<open>Streams\<close>

text \<open>
  The documented behaviour of \<open>inflate\<close> with \<open>Z_FINISH\<close> on a stream whose output is \<open>d\<close>: it fills
  the room it is given as long as more is left, reporting \<open>Z_BUF_ERROR\<close>, and reports the end of the
  stream with the last bytes and in every later call.
\<close>

definition delivers :: "'z inflate \<Rightarrow> ('z \<Rightarrow> char list) \<Rightarrow> bool" where
  "delivers inflate left \<longleftrightarrow>
     (\<forall>z n. case inflate z n of (r, out, z') \<Rightarrow>
        out = take n (left z) \<and> left z' = drop n (left z)
        \<and> (if n < length (left z) then r = Z_BUF_ERROR else r = Z_STREAM_END))"

lemma inflate_loop_delivers:
  assumes "delivers inflate left" and "alloc_total lc" and "buf_inv u"
    and "length (content u) + length (left z) \<le> buf_limit"
  shows "\<exists>u'. inflate_loop lc inflate z u = Some (Done (True, u')) \<and> buf_inv u' \<and> content u' = content u @ left z"
  using assms(3,4)
proof (induction "length (left z)" arbitrary: z u rule: less_induct)
  case less
  obtain r out z' where step: "inflate z OUTBUF = (r, out, z')" by (cases "inflate z OUTBUF") auto
  with assms(1) have d: "out = take OUTBUF (left z)" "left z' = drop OUTBUF (left z)"
      "if OUTBUF < length (left z) then r = Z_BUF_ERROR else r = Z_STREAM_END"
    unfolding delivers_def by (metis (mono_tags, lifting) case_prod_conv)+
  have fine: "r \<notin> {Z_STREAM_ERROR, Z_NEED_DICT, Z_DATA_ERROR, Z_MEM_ERROR}" using d(3) by (auto split: if_splits)
  have "length (content u) + length out \<le> buf_limit" using less.prems(2) d(1) by simp
  from string_concatb_core [OF less.prems(1) this, of lc] assms(2) obtain u1 where
    u1: "string_concatb lc u out = Done (True, u1)" "buf_inv u1" "content u1 = content u @ out" by auto
  show ?case
  proof (cases "OUTBUF \<le> length (left z)")
    case True
    then have "length (left z') < length (left z)" "length out = OUTBUF"
      using d by (simp_all add: OUTBUF_def)
    moreover have "length (content u1) + length (left z') \<le> buf_limit"
      using less.prems(2) u1(3) d(1,2) True by simp
    ultimately obtain u' where "inflate_loop lc inflate z' u1 = Some (Done (True, u'))" "buf_inv u'"
        "content u' = content u1 @ left z'"
      using less.hyps u1(2) by blast
    then show ?thesis using step fine u1 d \<open>length out = OUTBUF\<close>
      by (subst inflate_loop.simps) auto
  next
    case False
    then have "r = Z_STREAM_END" "length out \<noteq> OUTBUF" "out = left z" using d by simp_all
    then show ?thesis using step fine u1 by (subst inflate_loop.simps) simp
  qed
qed

lemma inflate_delivered:
  assumes "inflateInit (content compressed) = Some z" and "delivers inflate left"
    and "alloc_total lc" and "buf_inv u" and "length (content u) + length (left z) \<le> buf_limit"
  shows "\<exists>u'. uncompress_inflate lc inflateInit inflate compressed u = Done (True, u')
            \<and> buf_inv u' \<and> content u' = content u @ left z"
  using inflate_loop_delivers [OF assms(2-5)] assms(1) by (auto simp: uncompress_inflate_def)

section \<open>Properties\<close>

text \<open>
  C34: when zlib accepts the compressed bytes and delivers the stream's output, \<open>uncompress_inflate\<close>
  returns, returns true, and has appended that output in full, whatever its length.
\<close>

theorem uncompress_inflate_correct:
  assumes "inflateInit (content compressed) = Some z" and "delivers inflate left"
    and "alloc_total lc" and "buf_inv u" and "length (content u) + length (left z) \<le> buf_limit"
  shows "\<exists>u'. uncompress_inflate lc inflateInit inflate compressed u = Done (True, u')
            \<and> buf_inv u' \<and> content u' = content u @ left z"
  using assms by (rule inflate_delivered)

text \<open>A stream that is stored, not compressed.\<close>

definition stored_inflate :: "char list inflate" where
  "stored_inflate z n = (if n < length z then Z_BUF_ERROR else Z_STREAM_END, take n z, drop n z)"

theorem uncompress_inflate_correct_witness:
  "\<exists>u'. uncompress_inflate plain_libc Some stored_inflate (string_mkstatic ''abc'') (string_lazyinit 8) = Done (True, u')
            \<and> buf_inv u' \<and> content u' = content (string_lazyinit 8) @ ''abc''"
proof -
  have "Some (content (string_mkstatic ''abc'')) = Some ''abc''" by (simp add: content_def string_mkstatic_def)
  moreover have "delivers stored_inflate (\<lambda>z. z)" by (simp add: delivers_def stored_inflate_def)
  moreover have "buf_inv (string_lazyinit 8)" by (simp add: string_lazyinit_inv)
  moreover have "length (content (string_lazyinit 8)) + length ((\<lambda>z. z) ''abc'') \<le> buf_limit"
    by (simp add: string_lazyinit_inv buf_limit_def)
  ultimately show ?thesis by (rule uncompress_inflate_correct [OF _ _ alloc_total_plain, of Some])
qed

text \<open>
  A stream that stops early is refused: if zlib runs out of input before the end of the stream,
  or reports corrupt data, the function returns false.
\<close>

lemma uncompress_inflate_rejects:
  assumes "inflateInit (content compressed) = Some z" and "inflate z OUTBUF = (r, out, z')"
    and "r \<noteq> Z_STREAM_END" and "length out < OUTBUF"
    and "alloc_total lc" and "buf_inv u" and "length (content u) + OUTBUF \<le> buf_limit"
  shows "\<exists>u'. uncompress_inflate lc inflateInit inflate compressed u = Done (False, u')"
proof -
  have "length (content u) + length out \<le> buf_limit" using assms(4,7) by simp
  from string_concatb_core [OF assms(6) this, of lc] assms(5) obtain u1 where
    "string_concatb lc u out = Done (True, u1)" by auto
  then show ?thesis using assms(1-4)
    by (simp add: uncompress_inflate_def inflate_loop.simps)
qed

end
