(* ===== verification/Httpurl.thy ===== *)
theory Httpurl
  imports Strbuf
begin

text \<open>
  \<^verbatim>\<open>src/httplib/http_parseurl.c\<close> and the result codes of \<^verbatim>\<open>httplib.h\<close>.  The out parameters are
  part of the result; the port is an option because some paths leave it unassigned.
\<close>

definition HTTP_EOK :: int where "HTTP_EOK = 0"
definition HTTP_EINVURL :: int where "HTTP_EINVURL = 5"
definition HTTP_ENOMEM :: int where "HTTP_ENOMEM = 2"
definition HTTP_ENETERR :: int where "HTTP_ENETERR = 3"
definition HTTP_ESRVERR :: int where "HTTP_ESRVERR = 4"

lemmas http_codes = HTTP_EOK_def HTTP_EINVURL_def HTTP_ENOMEM_def HTTP_ENETERR_def HTTP_ESRVERR_def

record url_parts =
  up_hostname :: strbuf
  up_portnum :: strbuf
  up_path :: strbuf

text \<open>The loop from index 7 on; \<open>urlpart\<close> is 0 in the host name, 1 in the port, 2 in the path.\<close>

fun parseurl_loop :: "libc \<Rightarrow> string \<Rightarrow> nat \<Rightarrow> url_parts \<Rightarrow> (int \<times> url_parts) run" where
  "parseurl_loop lc [] urlpart up = Done (HTTP_EOK, up)"
| "parseurl_loop lc (c # cs) urlpart up =
     (if urlpart = 0 then
        (if c = CHR '':'' then
           if unat (sb_length (up_hostname up)) < 1 then Done (HTTP_EINVURL, up) else parseurl_loop lc cs 1 up
         else if c = CHR ''/'' then
           if unat (sb_length (up_hostname up)) < 1 then Done (HTTP_EINVURL, up) else parseurl_loop lc cs 2 up
         else run_bind (string_putc lc (up_hostname up) c)
                (\<lambda>(ok, h). let up' = up\<lparr>up_hostname := h\<rparr> in
                   if \<not> ok then Done (HTTP_ENOMEM, up') else parseurl_loop lc cs 0 up'))
      else if urlpart = 1 then
        (if c = CHR ''/'' then parseurl_loop lc cs 2 up
         else if schar c < 48 \<or> 57 < schar c then Done (HTTP_EINVURL, up)
         else run_bind (string_putc lc (up_portnum up) c)
                (\<lambda>(ok, p). let up' = up\<lparr>up_portnum := p\<rparr> in
                   if \<not> ok then Done (HTTP_ENOMEM, up') else parseurl_loop lc cs 1 up'))
      else run_bind (string_concatb lc (up_path up) (c # cs))
             (\<lambda>(ok, p). let up' = up\<lparr>up_path := p\<rparr> in
                if \<not> ok then Done (HTTP_ENOMEM, up') else Done (HTTP_EOK, up')))"

text \<open>The label \<open>bail_out_check_port\<close>.\<close>

definition check_port :: "libc \<Rightarrow> strbuf \<Rightarrow> (int \<times> int option) run" where
  "check_port lc portnum =
     (if string_get portnum \<noteq> None
      then run_bind (string_ensurez lc portnum)
             (\<lambda>(ok, p). if \<not> ok then Done (HTTP_ENOMEM, None) else Done (HTTP_EOK, Some (atoi (string_cstr p))))
      else Done (HTTP_EOK, Some 80))"

definition http_parseurl ::
  "libc \<Rightarrow> strbuf \<Rightarrow> strbuf \<Rightarrow> strbuf \<Rightarrow> (int \<times> strbuf \<times> int option \<times> strbuf) run" where
  "http_parseurl lc url hostname path =
     (let s = content url in
      if length s < 7 then Done (HTTP_EINVURL, hostname, None, path)
      else if take 7 s \<noteq> ''http://'' then Done (HTTP_EINVURL, hostname, None, path)
      else run_bind (string_concat lc path ''/'') (\<lambda>(ok, path).
        if \<not> ok then Done (HTTP_ENOMEM, hostname, None, path)
        else run_bind (parseurl_loop lc (drop 7 s) 0
                         \<lparr>up_hostname = hostname, up_portnum = string_lazyinit 16, up_path = path\<rparr>)
          (\<lambda>(retval, up).
            if retval \<noteq> HTTP_EOK then Done (retval, up_hostname up, None, up_path up)
            else run_bind (check_port lc (up_portnum up))
                   (\<lambda>(retval, port). Done (retval, up_hostname up, port, up_path up)))))"

section \<open>Facts\<close>

lemma host_phase:
  assumes "alloc_total lc" and "CHR '':'' \<notin> set host" and "CHR ''/'' \<notin> set host"
    and "buf_inv (up_hostname up)" and "length (content (up_hostname up)) + length host < buf_limit"
  shows "\<exists>h. buf_inv h \<and> content h = content (up_hostname up) @ host
     \<and> parseurl_loop lc (host @ cs) 0 up = parseurl_loop lc cs 0 (up\<lparr>up_hostname := h\<rparr>)"
  using assms
proof (induction host arbitrary: up)
  case Nil
  then show ?case by (intro exI [of _ "up_hostname up"]) simp
next
  case (Cons c host)
  have "length (content (up_hostname up)) + 1 \<le> buf_limit" using Cons.prems(5) by simp
  from string_putc_core [OF Cons.prems(4) this, of lc c] Cons.prems(1) obtain h where
    h: "string_putc lc (up_hostname up) c = Done (True, h)" "buf_inv h"
       "content h = content (up_hostname up) @ [c]" by auto
  from Cons.IH [of "up\<lparr>up_hostname := h\<rparr>"] Cons.prems h obtain h' where
    "buf_inv h'" "content h' = content (up_hostname up) @ c # host"
    "parseurl_loop lc (host @ cs) 0 (up\<lparr>up_hostname := h\<rparr>) = parseurl_loop lc cs 0 (up\<lparr>up_hostname := h'\<rparr>)"
    by auto
  with Cons.prems h(1) show ?case by (intro exI [of _ h']) auto
qed

lemma isdigit_schar: "isdigit c \<longleftrightarrow> \<not> (schar c < 48 \<or> 57 < schar c)"
  using code_less_256 [of c] by (auto simp: isdigit_def schar_def simp del: code_less_256)

lemma port_phase:
  assumes "alloc_total lc" and "list_all isdigit ds"
    and "buf_inv (up_portnum up)" and "length (content (up_portnum up)) + length ds < buf_limit"
  shows "\<exists>p. buf_inv p \<and> content p = content (up_portnum up) @ ds
     \<and> parseurl_loop lc (ds @ cs) 1 up = parseurl_loop lc cs 1 (up\<lparr>up_portnum := p\<rparr>)"
  using assms
proof (induction ds arbitrary: up)
  case Nil
  then show ?case by (intro exI [of _ "up_portnum up"]) simp
next
  case (Cons c ds)
  have "length (content (up_portnum up)) + 1 \<le> buf_limit" using Cons.prems(4) by simp
  from string_putc_core [OF Cons.prems(3) this, of lc c] Cons.prems(1) obtain h where
    h: "string_putc lc (up_portnum up) c = Done (True, h)" "buf_inv h"
       "content h = content (up_portnum up) @ [c]" by auto
  from Cons.IH [of "up\<lparr>up_portnum := h\<rparr>"] Cons.prems h obtain h' where
    "buf_inv h'" "content h' = content (up_portnum up) @ c # ds"
    "parseurl_loop lc (ds @ cs) 1 (up\<lparr>up_portnum := h\<rparr>) = parseurl_loop lc cs 1 (up\<lparr>up_portnum := h'\<rparr>)"
    by auto
  moreover have "isdigit c" "c \<noteq> CHR ''/''" using Cons.prems(2) by (auto simp: isdigit_def)
  ultimately show ?case using h(1) by (intro exI [of _ h']) (auto simp: isdigit_schar)
qed

lemma path_phase:
  assumes "alloc_total lc" and "buf_inv (up_path up)" and "length (content (up_path up)) + length cs < buf_limit"
  shows "\<exists>p. buf_inv p \<and> content p = content (up_path up) @ cs
     \<and> parseurl_loop lc cs 2 up = Done (HTTP_EOK, up\<lparr>up_path := p\<rparr>)"
proof (cases cs)
  case Nil
  with assms(2) show ?thesis by (intro exI [of _ "up_path up"]) simp
next
  case (Cons c ds)
  have "length (content (up_path up)) + length cs \<le> buf_limit" using assms(3) by simp
  from string_concatb_core [OF assms(2) this, of lc] assms(1) Cons show ?thesis by auto
qed

lemma check_port_digits:
  assumes "alloc_total lc" and "buf_inv p" and "content p = nat_dec n" and "n < 2 ^ 31"
  shows "check_port lc p = Done (HTTP_EOK, Some (int n))"
proof -
  have ne: "content p \<noteq> []" using assms(3) by simp
  then have s: "sb_s p \<noteq> None" by (auto simp: content_def split: option.splits)
  have "length (nat_dec n) \<le> 10" using assms(4) by (intro nat_dec_length) simp_all
  then have "length (content p) + 1 \<le> buf_limit" using assms(3) by (simp add: buf_limit_def)
  from string_ensurez_total [OF assms(2) this assms(1)] ne obtain p' where
    p': "string_ensurez lc p = Done (True, p')" "string_cstr p' = cstr (nat_dec n)"
    using assms(3) by auto
  have "NUL \<notin> set (nat_dec n)" using nat_dec_isdigit isdigit_NUL by blast
  then show ?thesis using s p' assms(4) by (simp add: check_port_def string_get_def cstr_simps atoi_nat_dec)
qed

text \<open>The address part of a URL.\<close>

definition url_text :: "string \<Rightarrow> nat option \<Rightarrow> string \<Rightarrow> string" where
  "url_text host port rest =
     ''http://'' @ host @ (case port of None \<Rightarrow> [] | Some p \<Rightarrow> CHR '':'' # nat_dec p) @ CHR ''/'' # rest"

definition url_host_ok :: "string \<Rightarrow> bool" where
  "url_host_ok host \<longleftrightarrow> host \<noteq> [] \<and> CHR '':'' \<notin> set host \<and> CHR ''/'' \<notin> set host \<and> length host < 2 ^ 31"

lemma loop_url:
  assumes lc: "alloc_total lc" and h: "url_host_ok host" and rest: "length rest < 2 ^ 31"
    and port: "case port of None \<Rightarrow> True | Some p \<Rightarrow> p < 2 ^ 31"
    and up: "buf_inv (up_hostname up)" "content (up_hostname up) = []" "up_portnum up = string_lazyinit 16"
      "buf_inv (up_path up)" "content (up_path up) = ''/''"
  shows "\<exists>up'. parseurl_loop lc (drop 7 (url_text host port rest)) 0 up = Done (HTTP_EOK, up')
     \<and> buf_inv (up_hostname up') \<and> content (up_hostname up') = host
     \<and> buf_inv (up_path up') \<and> content (up_path up') = CHR ''/'' # rest
     \<and> check_port lc (up_portnum up') = Done (HTTP_EOK, Some (case port of None \<Rightarrow> 80 | Some p \<Rightarrow> int p))"
proof -
  let ?tail = "(case port of None \<Rightarrow> [] | Some p \<Rightarrow> CHR '':'' # nat_dec p) @ CHR ''/'' # rest"
  obtain hb where hb: "buf_inv hb" "content hb = host"
      "parseurl_loop lc (host @ ?tail) 0 up = parseurl_loop lc ?tail 0 (up\<lparr>up_hostname := hb\<rparr>)"
    using host_phase [OF lc, of host up ?tail] h up(1,2) by (auto simp: url_host_ok_def buf_limit_def)
  have len: "\<not> unat (sb_length hb) < 1"
    using hb(1,2) h by (simp add: buf_inv_length url_host_ok_def Suc_le_eq)
  have drop: "drop 7 (url_text host port rest) = host @ ?tail" by (simp add: url_text_def)
  let ?up = "up\<lparr>up_hostname := hb\<rparr>"
  have path: "length (content (up_path u)) + length rest < buf_limit" if "up_path u = up_path up" for u :: url_parts
    using that up(5) rest by (simp add: buf_limit_def)
  show ?thesis
  proof (cases port)
    case None
    have "check_port lc (string_lazyinit 16) = Done (HTTP_EOK, Some 80)"
      by (simp add: check_port_def string_get_def string_lazyinit_def)
    then show ?thesis
      using path_phase [OF lc, of ?up rest] path [of ?up] hb len up None unfolding drop by fastforce
  next
    case (Some p)
    with port have p: "p < 2 ^ 31" by simp
    have "list_all isdigit (nat_dec p)" using nat_dec_isdigit by (auto simp: list_all_iff)
    moreover have "length (nat_dec p) \<le> 10" using p by (intro nat_dec_length) simp_all
    ultimately obtain pb where pb: "buf_inv pb" "content pb = nat_dec p"
        "parseurl_loop lc (nat_dec p @ CHR ''/'' # rest) 1 ?up
           = parseurl_loop lc (CHR ''/'' # rest) 1 (?up\<lparr>up_portnum := pb\<rparr>)"
      using port_phase [OF lc, of "nat_dec p" ?up "CHR ''/'' # rest"] up(3)
      by (auto simp: string_lazyinit_inv buf_limit_def)
    show ?thesis
      using path_phase [OF lc, of "?up\<lparr>up_portnum := pb\<rparr>" rest] path [of "?up\<lparr>up_portnum := pb\<rparr>"]
        check_port_digits [OF lc pb(1,2) p] hb len up Some pb unfolding drop by fastforce
  qed
qed

lemma parseurl_url:
  assumes "alloc_total lc" and "url_host_ok host" and "length rest < 2 ^ 31"
    and "case port of None \<Rightarrow> True | Some p \<Rightarrow> p < 2 ^ 31" and "content url = url_text host port rest"
    and "buf_inv hostname" "content hostname = []" "buf_inv path" "content path = []"
  shows "\<exists>h p. http_parseurl lc url hostname path =
       Done (HTTP_EOK, h, Some (case port of None \<Rightarrow> 80 | Some p \<Rightarrow> int p), p)
     \<and> buf_inv h \<and> content h = host \<and> buf_inv p \<and> content p = CHR ''/'' # rest"
proof -
  obtain pa where pa: "string_concat lc path ''/'' = Done (True, pa)" "buf_inv pa" "content pa = ''/''"
    using concat_sink.append_total [OF assms(1,8), of "''/''"] assms(9) by (auto simp: buf_limit_def)
  have "length (url_text host port rest) \<ge> 7" "take 7 (url_text host port rest) = ''http://''"
    by (simp_all add: url_text_def)
  then show ?thesis
    using loop_url [where up = "\<lparr>up_hostname = hostname, up_portnum = string_lazyinit 16, up_path = pa\<rparr>",
        OF assms(1-4)]
      pa assms(5-7) by (auto simp: http_parseurl_def Let_def)
qed

section \<open>Properties\<close>

text \<open>
  C33: \<open>http_parseurl\<close> takes a URL apart as it was put together: for
  \<open>http://host[:port]/rest\<close> with a non-empty host it reports success, the host, the port (80 when
  there is none) and the path with its leading slash.
\<close>

theorem http_parseurl_correct:
  assumes "alloc_total lc" and "url_host_ok host" and "length rest < 2 ^ 31"
    and "case port of None \<Rightarrow> True | Some p \<Rightarrow> p < 2 ^ 31" and "content url = url_text host port rest"
    and "buf_inv hostname" "content hostname = []" "buf_inv path" "content path = []"
  shows "\<exists>h p. http_parseurl lc url hostname path =
       Done (HTTP_EOK, h, Some (case port of None \<Rightarrow> 80 | Some p \<Rightarrow> int p), p)
     \<and> buf_inv h \<and> content h = host \<and> buf_inv p \<and> content p = CHR ''/'' # rest"
  using assms by (rule parseurl_url)

theorem http_parseurl_correct_witness:
  "\<exists>h p. http_parseurl plain_libc (string_mkstatic (url_text ''example.org'' (Some 81) ''tinc?x'')) (string_lazyinit 64) (string_lazyinit 64) =
       Done (HTTP_EOK, h, Some (case Some 81 of None \<Rightarrow> 80 | Some p \<Rightarrow> int p), p)
     \<and> buf_inv h \<and> content h = ''example.org'' \<and> buf_inv p \<and> content p = CHR ''/'' # ''tinc?x''"
proof (rule http_parseurl_correct [OF alloc_total_plain])
  have "length (url_text ''example.org'' (Some 81) ''tinc?x'') = 28" by code_simp
  then show "content (string_mkstatic (url_text ''example.org'' (Some 81) ''tinc?x''))
      = url_text ''example.org'' (Some 81) ''tinc?x''"
    by (intro content_mkstatic) simp
qed (simp_all add: string_lazyinit_inv url_host_ok_def)

text \<open>
  a URL that does not start with \<open>http://\<close> is refused with \<open>HTTP_EINVURL\<close>, whatever follows, and
  the port is left unassigned; the code 5 differs from the 1 that the comment of the function states.
\<close>

theorem http_parseurl_scheme:
  assumes "take 7 (content url) \<noteq> ''http://''"
  shows "http_parseurl lc url hostname path = Done (5, hostname, None, path)"
  using assms by (simp add: http_parseurl_def Let_def HTTP_EINVURL_def)

theorem http_parseurl_scheme_witness:
  "http_parseurl plain_libc (string_mkstatic ''https://example.org/tinc'') (string_lazyinit 64) (string_lazyinit 64)
     = Done (5, string_lazyinit 64, None, string_lazyinit 64)"
  by (rule http_parseurl_scheme) (simp add: content_mkstatic)

end
