(* ===== verification/Httpget.thy ===== *)
theory Httpget
  imports Httpurl
begin

text \<open>
  \<^verbatim>\<open>src/httplib/http_get.c\<close>: the HTTP client.  A socket is what the peer will send, as a list of
  segments in order; at its end \<open>recv\<close> reports the end of the stream each time it is called.
\<close>

section \<open>Sockets\<close>

datatype segment = Chunk "char list" | Recv_error

definition BUFSIZE :: nat where
  "BUFSIZE = 8192"

text \<open>\<open>recv\<close> into \<open>n\<close> bytes of room: \<open>None\<close> is a negative result; an empty list is the result 0.\<close>

fun recv :: "nat \<Rightarrow> segment list \<Rightarrow> char list option \<times> segment list" where
  "recv n [] = (Some [], [])"
| "recv n (Recv_error # es) = (None, es)"
| "recv n (Chunk xs # es) =
     (Some (take n xs), if length xs \<le> n then es else Chunk (drop n xs) # es)"

section \<open>handle\_header\<close>

text \<open>
  \<open>b\<close> is fetched before the terminating zero is stored, so if storing it moves the block, the rc
  goes on with the old pointer.
\<close>

definition handle_header :: "libc \<Rightarrow> strbuf \<Rightarrow> int \<Rightarrow> (int \<times> strbuf \<times> int) run" where
  "handle_header lc s httpres =
     (let b = content s; l = length b in
      if l < 4 then Done (HTTP_ENETERR, s, httpres)
      else if NUL \<in> set b then Done (HTTP_ENETERR, s, httpres)
      else run_bind (string_putc lc s NUL) (\<lambda>(ok, s').
        if \<not> ok then Done (HTTP_ENOMEM, s', httpres)
        else if sb_size s = sb_length s then Fault Use_after_free
        else if take 4 b \<noteq> ''HTTP'' then Done (HTTP_ENETERR, s', httpres)
        else let p = dropWhile (\<lambda>c. c \<noteq> CHR '' '') b in
          if p = [] then Done (HTTP_ENETERR, s', httpres)
          else if CHR '' '' \<notin> set (tl p) then Done (HTTP_ENETERR, s', httpres)
          else Done (HTTP_EOK, s', atoi (hd p # takeWhile (\<lambda>c. c \<noteq> CHR '' '') (tl p)))))"

section \<open>httprecv\<close>

record rx =
  rx_in :: "segment list"
  rx_b :: "char list"
  rx_first :: bool
  rx_httpres :: int
  rx_oneline :: strbuf

text \<open>
  A line has been found at \<open>b\<close>: it is copied, a final carriage return is dropped, the buffer is
  moved up, and the first line is read as the status line.  A line whose newline is the last byte
  received so far is an error.  The first component is the result code; \<open>HTTP_EOK\<close> continues the loop.
\<close>

definition take_line :: "libc \<Rightarrow> rx \<Rightarrow> (int \<times> rx) run" where
  "take_line lc st =
     (let line = takeWhile (\<lambda>c. c \<noteq> CHR 0x0A) (rx_b st); rest = tl (dropWhile (\<lambda>c. c \<noteq> CHR 0x0A) (rx_b st)) in
      run_bind (string_concatb lc (string_clear (rx_oneline st)) line) (\<lambda>(ok, o1).
        if \<not> ok then Done (HTTP_ENOMEM, st\<lparr>rx_oneline := o1\<rparr>)
        else if content o1 = [] then Fault Out_of_bounds
        else let o2 = (if last (content o1) = CHR 0x0D
                       then o1\<lparr>sb_length := sb_length o1 - 1\<rparr> else o1)
          in if rest = [] then Done (HTTP_ESRVERR, st\<lparr>rx_oneline := o2\<rparr>)
             else if rx_first st
             then run_bind (handle_header lc o2 (rx_httpres st)) (\<lambda>(rc, o3, res).
                    let st' = st\<lparr>rx_oneline := o3, rx_httpres := res, rx_b := rest\<rparr>
                    in if rc \<noteq> HTTP_EOK then Done (HTTP_ESRVERR, st') else Done (HTTP_EOK, st'\<lparr>rx_first := False\<rparr>))
             else Done (HTTP_EOK, st\<lparr>rx_oneline := o2, rx_b := rest\<rparr>)))"

text \<open>
  The first loop of \<open>httprecv\<close>, one \<open>recv\<close> per line.  \<open>None\<close>: it does not end.  The code
  \<open>HTTP_EOK\<close> is the jump to the label \<open>finished\<close>.
\<close>

partial_function (option) header_loop :: "libc \<Rightarrow> rx \<Rightarrow> (int \<times> rx) run option" where
  "header_loop lc st =
     (case recv (BUFSIZE - length (rx_b st)) (rx_in st) of
        (None, es) \<Rightarrow> Some (Done (HTTP_ENETERR, st\<lparr>rx_in := es\<rparr>))
      | (Some xs, es) \<Rightarrow>
          if xs = [] \<and> rx_b st = [] then Some (Done (HTTP_EOK, st\<lparr>rx_in := es\<rparr>))
          else let st1 = st\<lparr>rx_in := es, rx_b := rx_b st @ xs\<rparr> in
            if hd (rx_b st1) \<in> {CHR 0x0A, CHR 0x0D} then Some (Done (HTTP_EOK, st1))
            else if CHR 0x0A \<notin> set (rx_b st1) then header_loop lc st1
            else (case take_line lc st1 of
                Done (rc, st2) \<Rightarrow> if rc \<noteq> HTTP_EOK then Some (Done (rc, st2)) else header_loop lc st2
              | Fault e \<Rightarrow> Some (Fault e) | Exit n \<Rightarrow> Some (Exit n) | Diverge \<Rightarrow> Some Diverge))"

text \<open>The bytes behind the blank line; the blank line is skipped only if more than two bytes are there.\<close>

definition skip_blank :: "char list \<Rightarrow> char list" where
  "skip_blank b =
     (if 2 < length b
      then if b ! 0 \<in> {CHR 0x0D, CHR 0x0A}
           then if b ! 1 \<in> {CHR 0x0D, CHR 0x0A} then drop 2 b else drop 1 b
           else b
      else b)"

definition stream_size :: "segment list \<Rightarrow> nat" where
  "stream_size es = sum_list (map (\<lambda>e. case e of Chunk ys \<Rightarrow> Suc (length ys) | Recv_error \<Rightarrow> 1) es)"

lemma recv_progress: "recv n es = (Some xs, es') \<Longrightarrow> xs \<noteq> [] \<Longrightarrow> stream_size es' < stream_size es"
  by (cases "(n, es)" rule: recv.cases) (auto simp: stream_size_def split: if_splits)

text \<open>The second loop: everything up to the end of the stream is appended.\<close>

function body_loop :: "libc \<Rightarrow> segment list \<Rightarrow> strbuf \<Rightarrow> (int \<times> strbuf) run" where
  "body_loop lc es buf =
     (case recv BUFSIZE es of
        (None, es') \<Rightarrow> Done (HTTP_ENETERR, buf)
      | (Some xs, es') \<Rightarrow>
          if xs = [] then Done (HTTP_EOK, buf)
          else run_bind (string_concatb lc buf xs)
                 (\<lambda>(ok, buf'). if \<not> ok then Done (HTTP_ENOMEM, buf') else body_loop lc es' buf'))"
  by pat_completeness auto
termination
  by (relation "measure (\<lambda>(lc, es, buf). stream_size es)") (auto intro: recv_progress [OF sym])

declare body_loop.simps [simp del]

definition httprecv :: "libc \<Rightarrow> segment list \<Rightarrow> strbuf \<Rightarrow> int \<Rightarrow> (int \<times> strbuf \<times> int) run" where
  "httprecv lc es buf httpres =
     (if \<not> lc_alloc lc BUFSIZE then Done (HTTP_ENOMEM, buf, httpres)
      else case header_loop lc \<lparr>rx_in = es, rx_b = [], rx_first = True, rx_httpres = httpres,
                                rx_oneline = string_init lc 512 512\<rparr> of
        None \<Rightarrow> Diverge
      | Some r \<Rightarrow> run_bind r (\<lambda>(rc, st).
          if rc \<noteq> HTTP_EOK then Done (rc, buf, rx_httpres st)
          else if rx_first st then Done (HTTP_ESRVERR, buf, rx_httpres st)
          else run_bind (string_concatb lc buf (skip_blank (rx_b st))) (\<lambda>(ok, buf1).
            if \<not> ok then Done (HTTP_ENOMEM, buf1, rx_httpres st)
            else run_bind (body_loop lc (rx_in st) buf1) (\<lambda>(rc, buf2).
              if rc \<noteq> HTTP_EOK then Done (rc, buf2, rx_httpres st)
              else Done (if rx_httpres st \<noteq> 200 then HTTP_ESRVERR else HTTP_EOK, buf2, rx_httpres st)))))"

section \<open>Sending\<close>

text \<open>
  The results of the successive calls of \<open>send\<close> are the argument.  \<open>None\<close>: the loop is still
  waiting when they are used up.  The second component is what has been sent.
\<close>

fun sendall :: "int list \<Rightarrow> char list \<Rightarrow> (int \<times> char list) option" where
  "sendall rs [] = Some (HTTP_EOK, [])"
| "sendall [] (c # buf) = None"
| "sendall (res # rs) (c # buf) =
     (if res < 0 then Some (res, [])
      else map_option (\<lambda>(rc, sent). (rc, take (nat res) (c # buf) @ sent)) (sendall rs (drop (nat res) (c # buf))))"

section \<open>http\_get\<close>

text \<open>
  What the network does, as a parameter: the addresses of a name, which of them a connection can
  be made to, how the calls of \<open>send\<close> on that connection end, and what the peer answers to the
  bytes it received.
\<close>

record 'a net =
  nt_getaddrinfo :: "string \<Rightarrow> string \<Rightarrow> 'a list option"
  nt_socket :: "'a \<Rightarrow> bool"
  nt_connect :: "'a \<Rightarrow> bool"
  nt_send :: "'a \<Rightarrow> int list"
  nt_answer :: "'a \<Rightarrow> char list \<Rightarrow> segment list"
  nt_strftime :: "int \<Rightarrow> string"

definition epoch2http :: "libc \<Rightarrow> 'a net \<Rightarrow> strbuf \<Rightarrow> int \<Rightarrow> (bool \<times> strbuf) run" where
  "epoch2http lc nt s time = string_concat lc s (nt_strftime nt time)"

definition find_connection :: "'a net \<Rightarrow> 'a list \<Rightarrow> 'a option" where
  "find_connection nt res = find (\<lambda>rp. nt_socket nt rp \<and> nt_connect nt rp) res"

text \<open>The request; the result of the first \<open>string_concat_sprintf\<close> is not looked at.\<close>

definition CRLF :: string where
  "CRLF = [CHR 0x0D, CHR 0x0A]"

definition build_request ::
  "libc \<Rightarrow> 'a net \<Rightarrow> strbuf \<Rightarrow> strbuf \<Rightarrow> int \<Rightarrow> strbuf \<Rightarrow> (bool \<times> strbuf) run" where
  "build_request lc nt path hostname ifmodifiedsince useragent =
     run_bind (string_concat_sprintf lc
         (''GET %S HTTP/1.1'' @ CRLF @ ''Host: %S'' @ CRLF @ ''User-Agent: %S'' @ CRLF)
         [Arg_S (content path), Arg_S (content hostname), Arg_S (content useragent)] (string_init lc 4096 4096))
       (\<lambda>(_, request).
          seq_step
            (if ifmodifiedsince \<noteq> 0
             then run_bind (epoch2http lc nt (string_init lc 512 512) ifmodifiedsince)
                    (\<lambda>(ok, ims). if \<not> ok then Done (False, request)
                       else string_concat_sprintf lc (''If-Modified-Since: %S'' @ CRLF) [Arg_S (content ims)] request)
             else Done (True, request))
            (\<lambda>request. run_seq [\<lambda>s. string_concat lc s (''Connection: close'' @ CRLF), \<lambda>s. string_concat lc s CRLF] request))"

definition http_get ::
  "libc \<Rightarrow> 'a net \<Rightarrow> strbuf \<Rightarrow> strbuf \<Rightarrow> int \<Rightarrow> strbuf \<Rightarrow> int \<Rightarrow> (int \<times> strbuf \<times> int) run" where
  "http_get lc nt url buffer ifmodifiedsince useragent servererror =
     run_bind (http_parseurl lc url (string_init lc 4096 4096) (string_init lc 4096 4096))
       (\<lambda>(retval, hostname, port, path).
          if retval \<noteq> HTTP_EOK then Done (retval, buffer, servererror)
          else run_bind (string_ensurez lc hostname) (\<lambda>(ok, hostname).
            if \<not> ok then Done (HTTP_ENOMEM, buffer, servererror)
            else case nt_getaddrinfo nt (string_cstr hostname) (take 15 (int_dec (the port))) of
              None \<Rightarrow> Done (HTTP_ENETERR, buffer, servererror)
            | Some res \<Rightarrow>
                (case find_connection nt res of
                   None \<Rightarrow> Done (HTTP_ENETERR, buffer, servererror)
                 | Some rp \<Rightarrow>
                     run_bind (build_request lc nt path hostname ifmodifiedsince useragent) (\<lambda>(ok, request).
                       if \<not> ok then Done (HTTP_ENOMEM, buffer, servererror)
                       else case sendall (nt_send nt rp) (content request) of
                         None \<Rightarrow> Diverge
                       | Some (rc, sent) \<Rightarrow>
                           if rc \<noteq> 0 then Done (HTTP_ENETERR, buffer, servererror)
                           else httprecv lc (nt_answer nt rp sent) buffer servererror))))"

section \<open>Facts on receiving\<close>

lemma body_loop_chunks:
  assumes "alloc_total lc" and "buf_inv buf" and "list_all (\<lambda>xs. xs \<noteq> []) cs"
    and "length (content buf) + length (concat cs) \<le> buf_limit"
  shows "\<exists>buf'. body_loop lc (map Chunk cs) buf = Done (HTTP_EOK, buf') \<and> buf_inv buf' \<and> content buf' = content buf @ concat cs"
  using assms(2-4)
proof (induction "length (concat cs)" arbitrary: cs buf rule: less_induct)
  case less
  show ?case
  proof (cases cs)
    case Nil
    then show ?thesis using less.prems by (simp add: body_loop.simps)
  next
    case (Cons x xs)
    then have x: "x \<noteq> []" using less.prems(2) by simp
    let ?d = "take BUFSIZE x"
    let ?rest = "if length x \<le> BUFSIZE then xs else drop BUFSIZE x # xs"
    have B: "0 < BUFSIZE" by (simp add: BUFSIZE_def)
    have split: "concat cs = ?d @ concat ?rest" using Cons by simp
    have r: "recv BUFSIZE (map Chunk cs) = (Some ?d, map Chunk ?rest)" using Cons by simp
    have ne: "?d \<noteq> []" using x B by simp
    have "length (content buf) + length ?d \<le> buf_limit" using less.prems(3) split by simp
    from string_concatb_core [OF less.prems(1) this, of lc] assms(1) obtain b1 where
      b1: "string_concatb lc buf ?d = Done (True, b1)" "buf_inv b1" "content b1 = content buf @ ?d" by auto
    have "length (concat ?rest) < length (concat cs)" using split ne by simp
    moreover have "list_all (\<lambda>xs. xs \<noteq> []) ?rest" using less.prems(2) Cons by simp
    moreover have "length (content b1) + length (concat ?rest) \<le> buf_limit"
      using less.prems(3) split b1(3) by simp
    ultimately obtain b2 where b2: "body_loop lc (map Chunk ?rest) b1 = Done (HTTP_EOK, b2)" "buf_inv b2"
        "content b2 = content b1 @ concat ?rest"
      using less.hyps b1(2) by blast
    have "body_loop lc (map Chunk cs) buf = body_loop lc (map Chunk ?rest) b1"
      using r ne b1(1) by (subst body_loop.simps) simp
    with b2 b1(3) split show ?thesis by simp
  qed
qed

text \<open>The end of the stream inside a header line: the loop is left with nothing to do and never ends.\<close>

lemma header_loop_stuck:
  assumes "header_loop lc st = Some r"
  shows "rx_in st = [] \<longrightarrow> rx_b st \<noteq> [] \<longrightarrow> hd (rx_b st) \<notin> {CHR 0x0A, CHR 0x0D} \<longrightarrow> CHR 0x0A \<in> set (rx_b st)"
  using assms
proof (induction rule: header_loop.raw_induct [rotated 1, consumes 1])
  case (1 header_loop lc st r)
  show ?case
  proof (intro impI, rule ccontr)
    assume s: "rx_in st = []" "rx_b st \<noteq> []" "hd (rx_b st) \<notin> {CHR 0x0A, CHR 0x0D}" "CHR 0x0A \<notin> set (rx_b st)"
    then have "header_loop lc (st\<lparr>rx_in := [], rx_b := rx_b st @ []\<rparr>) = Some r"
      using 1(2) by (simp add: Let_def)
    from 1(1) [OF this] s show False by simp
  qed
qed

lemma recv_chunks:
  assumes "list_all (\<lambda>xs. xs \<noteq> []) cs"
  obtains d cs' where "recv n (map Chunk cs) = (Some d, map Chunk cs')" "list_all (\<lambda>xs. xs \<noteq> []) cs'"
    "concat cs = d @ concat cs'"
proof (cases cs)
  case Nil
  with that [of "[]" "[]"] show ?thesis by simp
next
  case (Cons x xs)
  let ?cs = "if length x \<le> n then xs else drop n x # xs"
  have "recv n (map Chunk cs) = (Some (take n x), map Chunk ?cs)" "list_all (\<lambda>xs. xs \<noteq> []) ?cs"
    "concat cs = take n x @ concat ?cs"
    using Cons assms by simp_all
  with that show ?thesis by blast
qed

lemma string_clear_inv: "buf_inv s \<Longrightarrow> buf_inv (string_clear s) \<and> content (string_clear s) = []"
  by (auto simp: buf_inv_def buf_ok_def string_clear_def content_def split: option.splits)

text \<open>Copying one line that ends in a carriage return.\<close>

lemma take_line_copy:
  assumes lc: "alloc_total lc" and o: "buf_inv o0" and l: "length l < 2 ^ 31"
  obtains o1 where "string_concatb lc (string_clear o0) (l @ [CHR 0x0D]) = Done (True, o1)"
    "content o1 = l @ [CHR 0x0D]" "buf_inv (o1\<lparr>sb_length := sb_length o1 - 1\<rparr>)"
    "content (o1\<lparr>sb_length := sb_length o1 - 1\<rparr>) = l" "sb_size o1 \<noteq> sb_length o1 - 1"
proof -
  have "length (content (string_clear o0)) + length (l @ [CHR 0x0D]) \<le> buf_limit"
    using string_clear_inv [OF o] l by (simp add: buf_limit_def)
  from string_concatb_core [OF _ this, of lc] string_clear_inv [OF o] lc obtain o1 where
    o1: "string_concatb lc (string_clear o0) (l @ [CHR 0x0D]) = Done (True, o1)" "buf_inv o1"
      "content o1 = l @ [CHR 0x0D]" by auto
  have "unat (sb_length o1) = Suc (length l)" using o1(2,3) by (simp add: buf_inv_length)
  then have "unat (sb_length o1 - 1) < unat (sb_length o1)"
    by (metis lessI unat_minus_one unat_0 nat.distinct(1) diff_Suc_1)
  also have "\<dots> \<le> unat (sb_size o1)" using o1(2) by (simp add: buf_ok_length_le)
  finally have "sb_size o1 \<noteq> sb_length o1 - 1" by auto
  with that o1 drop_last_byte [OF o1(2,3)] show ?thesis by blast
qed

lemma takeWhile_delim:
  "d \<notin> set a \<Longrightarrow> takeWhile (\<lambda>c. c \<noteq> d) (a @ d # r) = a"
  "d \<notin> set a \<Longrightarrow> dropWhile (\<lambda>c. c \<noteq> d) (a @ d # r) = d # r"
  by (induction a) auto

lemma line_split:
  assumes "CHR 0x0A \<notin> set l" and "b = l @ CRLF @ rest"
  shows "takeWhile (\<lambda>c. c \<noteq> CHR 0x0A) b = l @ [CHR 0x0D]" "tl (dropWhile (\<lambda>c. c \<noteq> CHR 0x0A) b) = rest"
    "CHR 0x0A \<in> set b"
proof -
  have l: "CHR 0x0A \<notin> set (l @ [CHR 0x0D])" using assms(1) by simp
  have b: "b = (l @ [CHR 0x0D]) @ CHR 0x0A # rest" using assms(2) by (simp add: CRLF_def)
  show "takeWhile (\<lambda>c. c \<noteq> CHR 0x0A) b = l @ [CHR 0x0D]" unfolding b by (rule takeWhile_delim(1) [OF l])
  show "tl (dropWhile (\<lambda>c. c \<noteq> CHR 0x0A) b) = rest" unfolding b takeWhile_delim(2) [OF l] by simp
  show "CHR 0x0A \<in> set b" unfolding b by simp
qed

lemma take_line_header:
  assumes "alloc_total lc" and "buf_inv (rx_oneline st)" and "\<not> rx_first st"
    and "rx_b st = l @ CRLF @ rest" and "CHR 0x0A \<notin> set l" and "length l < 2 ^ 31" and "rest \<noteq> []"
  shows "\<exists>o'. take_line lc st = Done (HTTP_EOK, st\<lparr>rx_oneline := o', rx_b := rest\<rparr>) \<and> buf_inv o'"
proof -
  obtain o1 where "string_concatb lc (string_clear (rx_oneline st)) (l @ [CHR 0x0D]) = Done (True, o1)"
    "content o1 = l @ [CHR 0x0D]" "buf_inv (o1\<lparr>sb_length := sb_length o1 - 1\<rparr>)"
    using take_line_copy [OF assms(1,2,6)] by blast
  then show ?thesis using assms(3,7) line_split [OF assms(5,4)]
    by (intro exI [of _ "o1\<lparr>sb_length := sb_length o1 - 1\<rparr>"]) (simp add: take_line_def Let_def)
qed

text \<open>The header lines after the first, each followed by another \<open>recv\<close>.\<close>

definition header_ok :: "string \<Rightarrow> bool" where
  "header_ok h \<longleftrightarrow> h \<noteq> [] \<and> hd h \<noteq> CHR 0x0D \<and> CHR 0x0A \<notin> set h \<and> length h < 2 ^ 31"

definition header_block :: "string list \<Rightarrow> string" where
  "header_block hs = concat (map (\<lambda>h. h @ CRLF) hs) @ CRLF"

lemma header_block_Cons: "header_block (h # hs) = h @ CRLF @ header_block hs"
  by (simp add: header_block_def)

lemma header_lines:
  assumes lc: "alloc_total lc" and "list_all header_ok hs" and "\<not> rx_first st" and "buf_inv (rx_oneline st)"
    and "rx_b st = header_block hs @ b0" and "rx_in st = map Chunk cs" and "list_all (\<lambda>xs. xs \<noteq> []) cs"
  shows "\<exists>st' d cs'. header_loop lc st = Some (Done (HTTP_EOK, st')) \<and> \<not> rx_first st'
     \<and> rx_httpres st' = rx_httpres st \<and> rx_b st' = CRLF @ b0 @ d \<and> rx_in st' = map Chunk cs'
     \<and> list_all (\<lambda>xs. xs \<noteq> []) cs' \<and> concat cs = d @ concat cs'"
  using assms(2-)
proof (induction hs arbitrary: st b0 cs)
  case Nil
  obtain d cs' where r: "recv (BUFSIZE - length (rx_b st)) (map Chunk cs) = (Some d, map Chunk cs')"
      "list_all (\<lambda>xs. xs \<noteq> []) cs'" "concat cs = d @ concat cs'"
    using recv_chunks [OF Nil.prems(6)] by blast
  then show ?case using Nil.prems
    by (subst header_loop.simps) (simp add: Let_def header_block_def CRLF_def, blast)
next
  case (Cons h hs)
  obtain d cs' where r: "recv (BUFSIZE - length (rx_b st)) (map Chunk cs) = (Some d, map Chunk cs')"
      "list_all (\<lambda>xs. xs \<noteq> []) cs'" "concat cs = d @ concat cs'"
    using recv_chunks [OF Cons.prems(6)] by blast
  let ?st1 = "st\<lparr>rx_in := map Chunk cs', rx_b := rx_b st @ d\<rparr>"
  have h: "header_ok h" "list_all header_ok hs" using Cons.prems(1) by simp_all
  have b: "rx_b ?st1 = h @ CRLF @ header_block hs @ b0 @ d" using Cons.prems(4) by (simp add: header_block_Cons)
  have ne: "header_block hs @ b0 @ d \<noteq> []" by (simp add: header_block_def CRLF_def)
  obtain o' where o': "take_line lc ?st1 = Done (HTTP_EOK, ?st1\<lparr>rx_oneline := o', rx_b := header_block hs @ b0 @ d\<rparr>)"
      "buf_inv o'"
    using take_line_header [OF lc, of ?st1, OF _ _ b] Cons.prems(2,3) h(1) ne by (auto simp: header_ok_def)
  let ?st2 = "?st1\<lparr>rx_oneline := o', rx_b := header_block hs @ b0 @ d\<rparr>"
  have "hd (rx_b ?st1) = hd h" "hd h \<notin> {CHR 0x0A, CHR 0x0D}" "rx_b st \<noteq> []" "CHR 0x0A \<in> set (rx_b ?st1)"
    using h(1) b Cons.prems(4) by (auto simp: header_ok_def header_block_Cons CRLF_def dest: hd_in_set)
  then have "header_loop lc st = header_loop lc ?st2"
    using r(1) Cons.prems(5) o'(1) by (subst header_loop.simps) (simp add: Let_def del: rx.update_convs)
  moreover obtain st' d2 cs2 where "header_loop lc ?st2 = Some (Done (HTTP_EOK, st'))" "\<not> rx_first st'"
      "rx_httpres st' = rx_httpres st" "rx_b st' = CRLF @ (b0 @ d) @ d2" "rx_in st' = map Chunk cs2"
      "list_all (\<lambda>xs. xs \<noteq> []) cs2" "concat cs' = d2 @ concat cs2"
    using Cons.IH [of ?st2 "b0 @ d" cs'] h(2) Cons.prems(2) o'(2) r(2) by auto
  ultimately show ?case using r(3) by auto
qed

section \<open>The status line\<close>

definition status_line :: "nat \<Rightarrow> string \<Rightarrow> string" where
  "status_line n reason = ''HTTP/1.1 '' @ nat_dec n @ '' '' @ reason"

lemma atoi_blank_nat_dec: "n < 2 ^ 31 \<Longrightarrow> atoi (CHR '' '' # nat_dec n) = int n"
proof -
  assume n: "n < 2 ^ 31"
  obtain c cs where c: "nat_dec n = c # cs" by (cases "nat_dec n") auto
  then have d: "isdigit c" using hd_nat_dec_isdigit [of n] by simp
  have "isspace (CHR '' '')" by (simp add: isspace_def)
  then have "fst (strtol10 (CHR '' '' # nat_dec n)) = fst (strtol10 (nat_dec n))"
    using c d by (simp add: strtol10_def split: prod.splits)
  then show ?thesis using n atoi_nat_dec [of n] by (simp add: atoi_def)
qed

lemma handle_header_status:
  assumes lc: "alloc_total lc" and s: "buf_inv s" "sb_size s \<noteq> sb_length s"
    and c: "content s = status_line n reason" and n: "n < 2 ^ 31" and r: "NUL \<notin> set reason" "length reason < 2 ^ 31"
  shows "\<exists>s'. handle_header lc s res = Done (HTTP_EOK, s', int n) \<and> buf_inv s'"
proof -
  have l: "length (nat_dec n) \<le> 10" using n by (intro nat_dec_length) simp_all
  then have "length (content s) + 1 \<le> buf_limit" using c r(2) by (simp add: status_line_def buf_limit_def)
  from string_putc_core [OF s(1) this, of lc NUL] lc obtain s' where
    s': "string_putc lc s NUL = Done (True, s')" "buf_inv s'" by auto
  have d: "CHR '' '' \<notin> set (nat_dec n)" "NUL \<notin> set (nat_dec n)"
    using nat_dec_isdigit [of "CHR '' ''" n] nat_dec_isdigit [of NUL n] by (auto simp: isdigit_def)
  let ?p = "CHR '' '' # nat_dec n @ CHR '' '' # reason"
  have p: "dropWhile (\<lambda>c. c \<noteq> CHR '' '') (content s) = ?p" "take 4 (content s) = ''HTTP''"
      "NUL \<notin> set (content s)" "4 \<le> length (content s)"
    using c d r(1) by (auto simp: status_line_def)
  have "takeWhile (\<lambda>c. c \<noteq> CHR '' '') (nat_dec n @ CHR '' '' # reason) = nat_dec n"
    using d(1) by (rule takeWhile_delim(1))
  then show ?thesis
    using p s(2) s' atoi_blank_nat_dec [OF n] by (simp add: handle_header_def Let_def)
qed

lemma take_line_status:
  assumes lc: "alloc_total lc" and o: "buf_inv (rx_oneline st)" and first: "rx_first st"
    and b: "rx_b st = status_line n reason @ CRLF @ rest" and ne: "rest \<noteq> []"
    and n: "n < 2 ^ 31" and r: "NUL \<notin> set reason" "CHR 0x0A \<notin> set reason" "length reason < 2 ^ 30"
  shows "\<exists>o'. take_line lc st = Done (HTTP_EOK, st\<lparr>rx_oneline := o', rx_httpres := int n, rx_b := rest, rx_first := False\<rparr>)
     \<and> buf_inv o'"
proof -
  have l: "length (nat_dec n) \<le> 10" using n by (intro nat_dec_length) simp_all
  have len: "length (status_line n reason) < 2 ^ 31" using l r(3) by (simp add: status_line_def)
  have "CHR 0x0A \<notin> set (nat_dec n)" using nat_dec_isdigit [of "CHR 0x0A" n] by (auto simp: isdigit_def)
  then have nl: "CHR 0x0A \<notin> set (status_line n reason)" using r(2) by (simp add: status_line_def)
  obtain o1 where o1: "string_concatb lc (string_clear (rx_oneline st)) (status_line n reason @ [CHR 0x0D]) = Done (True, o1)"
    "content o1 = status_line n reason @ [CHR 0x0D]" "buf_inv (o1\<lparr>sb_length := sb_length o1 - 1\<rparr>)"
    "content (o1\<lparr>sb_length := sb_length o1 - 1\<rparr>) = status_line n reason" "sb_size o1 \<noteq> sb_length o1 - 1"
    using take_line_copy [OF lc o len] by blast
  from handle_header_status [OF lc o1(3) _ o1(4) n r(1), of "rx_httpres st"] o1(5) r(3) obtain o' where
    "handle_header lc (o1\<lparr>sb_length := sb_length o1 - 1\<rparr>) (rx_httpres st) = Done (HTTP_EOK, o', int n)" "buf_inv o'"
    by auto
  then show ?thesis using o1(1,2) first ne line_split [OF nl b]
    by (intro exI [of _ o']) (simp add: take_line_def Let_def)
qed

lemma header_loop_response:
  assumes lc: "alloc_total lc" and n: "n < 2 ^ 31"
    and r: "NUL \<notin> set reason" "CHR 0x0A \<notin> set reason" "length reason < 2 ^ 30"
    and hs: "list_all header_ok hs" and first: "first = status_line n reason @ CRLF @ header_block hs @ b0"
    and len: "length first \<le> BUFSIZE" and cs: "list_all (\<lambda>xs. xs \<noteq> []) cs"
    and st: "rx_in st = Chunk first # map Chunk cs" "rx_b st = []" "rx_first st" "buf_inv (rx_oneline st)"
  shows "\<exists>st' d cs'. header_loop lc st = Some (Done (HTTP_EOK, st')) \<and> \<not> rx_first st'
     \<and> rx_httpres st' = int n \<and> rx_b st' = CRLF @ b0 @ d \<and> rx_in st' = map Chunk cs'
     \<and> list_all (\<lambda>xs. xs \<noteq> []) cs' \<and> concat cs = d @ concat cs'"
proof -
  let ?st1 = "st\<lparr>rx_in := map Chunk cs, rx_b := first\<rparr>"
  have rest: "header_block hs @ b0 \<noteq> []" by (simp add: header_block_def CRLF_def)
  have b: "rx_b ?st1 = status_line n reason @ CRLF @ header_block hs @ b0" using first by simp
  obtain o' where o': "take_line lc ?st1 = Done (HTTP_EOK, ?st1\<lparr>rx_oneline := o', rx_httpres := int n,
        rx_b := header_block hs @ b0, rx_first := False\<rparr>)" "buf_inv o'"
    using take_line_status [OF lc _ _ b rest n r] st by auto
  let ?st2 = "?st1\<lparr>rx_oneline := o', rx_httpres := int n, rx_b := header_block hs @ b0, rx_first := False\<rparr>"
  have "recv (BUFSIZE - length (rx_b st)) (rx_in st) = (Some first, map Chunk cs)" using st len by simp
  moreover have "first \<noteq> []" "hd first = CHR ''H''" "CHR 0x0A \<in> set first"
    using first by (simp_all add: status_line_def CRLF_def)
  ultimately have "header_loop lc st = header_loop lc ?st2"
    using st(2) o'(1) by (subst header_loop.simps) (simp add: Let_def)
  moreover have "\<not> rx_first ?st2" "rx_b ?st2 = header_block hs @ b0" "rx_in ?st2 = map Chunk cs"
    "rx_httpres ?st2 = int n" "buf_inv (rx_oneline ?st2)" using o'(2) by simp_all
  ultimately show ?thesis using header_lines [OF lc hs, of ?st2 b0 cs] cs by metis
qed

lemma httprecv_response:
  assumes lc: "alloc_total lc" and "n < 2 ^ 31"
    and "NUL \<notin> set reason" "CHR 0x0A \<notin> set reason" "length reason < 2 ^ 30" and "list_all header_ok hs"
    and "first = status_line n reason @ CRLF @ header_block hs @ b0" and b0: "b0 \<noteq> []"
    and "length first \<le> BUFSIZE" and "list_all (\<lambda>xs. xs \<noteq> []) cs"
    and buf: "buf_inv buf" and lim: "length (content buf) + length b0 + length (concat cs) \<le> buf_limit"
  shows "\<exists>buf'. httprecv lc (Chunk first # map Chunk cs) buf res
       = Done (if n = 200 then HTTP_EOK else HTTP_ESRVERR, buf', int n)
     \<and> buf_inv buf' \<and> content buf' = content buf @ b0 @ concat cs"
proof -
  let ?st = "\<lparr>rx_in = Chunk first # map Chunk cs, rx_b = [], rx_first = True, rx_httpres = res,
     rx_oneline = string_init lc 512 512\<rparr>"
  have o: "buf_inv (rx_oneline ?st)" using lc by (simp add: string_init_inv alloc_total_def)
  obtain st' d cs' where st': "header_loop lc ?st = Some (Done (HTTP_EOK, st'))" "\<not> rx_first st'"
      "rx_httpres st' = int n" "rx_b st' = CRLF @ b0 @ d" "rx_in st' = map Chunk cs'"
      "list_all (\<lambda>xs. xs \<noteq> []) cs'" "concat cs = d @ concat cs'"
    using header_loop_response [OF assms(1-7,9,10), of ?st] o by auto
  have skip: "skip_blank (rx_b st') = b0 @ d"
    using st'(4) b0 by (simp add: skip_blank_def CRLF_def)
  have "length (content buf) + length (b0 @ d) \<le> buf_limit" using lim st'(7) by simp
  from string_concatb_core [OF buf this, of lc] lc obtain b1 where
    b1: "string_concatb lc buf (b0 @ d) = Done (True, b1)" "buf_inv b1" "content b1 = content buf @ b0 @ d" by auto
  have "length (content b1) + length (concat cs') \<le> buf_limit" using lim st'(7) b1(3) by simp
  from body_loop_chunks [OF lc b1(2) st'(6) this] obtain b2 where
    b2: "body_loop lc (map Chunk cs') b1 = Done (HTTP_EOK, b2)" "buf_inv b2" "content b2 = content b1 @ concat cs'"
    by blast
  show ?thesis
    using lc st'(1-3,5,7) skip b1 b2
    by (simp add: httprecv_def alloc_total_def http_codes)
qed

section \<open>Properties\<close>

text \<open>
  C30: a response whose status line, headers and at least one byte of the body arrive in the first
  segment, of at most 8192 bytes, is received correctly however the rest of the body is split into
  segments: the body is appended unchanged and in order, the status number is reported, and the
  result is success exactly for status 200.
\<close>

theorem httprecv_correct:
  assumes "alloc_total lc" and "n < 2 ^ 31"
    and "NUL \<notin> set reason" and "CHR 0x0A \<notin> set reason" and "length reason < 2 ^ 30" and "list_all header_ok hs"
    and "first = status_line n reason @ CRLF @ header_block hs @ b0" and "b0 \<noteq> []"
    and "length first \<le> BUFSIZE" and "list_all (\<lambda>xs. xs \<noteq> []) cs"
    and "buf_inv buf" and "length (content buf) + length b0 + length (concat cs) \<le> buf_limit"
  shows "\<exists>buf'. httprecv lc (Chunk first # map Chunk cs) buf res
       = Done (if n = 200 then HTTP_EOK else HTTP_ESRVERR, buf', int n)
     \<and> buf_inv buf' \<and> content buf' = content buf @ b0 @ concat cs"
  using assms by (rule httprecv_response)

theorem httprecv_correct_witness:
  "\<exists>buf'. httprecv plain_libc (Chunk (status_line 200 ''OK'' @ CRLF @ header_block [''Server: x'', ''A: b''] @ ''dat'')
         # map Chunk [''a1'', ''a2'']) (string_lazyinit 16) 0
       = Done (if (200 :: nat) = 200 then HTTP_EOK else HTTP_ESRVERR, buf', int 200)
     \<and> buf_inv buf' \<and> content buf' = content (string_lazyinit 16) @ ''dat'' @ concat [''a1'', ''a2'']"
proof (rule httprecv_correct [OF alloc_total_plain _ _ _ _ _ refl])
  have "length (status_line 200 ''OK'' @ CRLF @ header_block [''Server: x'', ''A: b''] @ ''dat'') = 39"
    by code_simp
  then show "length (status_line 200 ''OK'' @ CRLF @ header_block [''Server: x'', ''A: b''] @ ''dat'') \<le> BUFSIZE"
    by (simp add: BUFSIZE_def)
qed (simp_all add: header_ok_def string_lazyinit_inv buf_limit_def)



text \<open>
  the result depends on how the network cuts the stream: when the first segment is exactly the
  status line with its line end, the response is refused with \<open>HTTP_ESRVERR\<close>, whatever follows.
\<close>

theorem httprecv_segment_boundary:
  assumes "alloc_total lc" and "CHR 0x0A \<notin> set l" and "l \<noteq> []" and "hd l \<noteq> CHR 0x0D" and "length l < BUFSIZE - 1"
  shows "httprecv lc (Chunk (l @ CRLF) # es) buf res = Done (HTTP_ESRVERR, buf, res)"
proof -
  let ?o = "string_init lc 512 512"
  let ?st = "\<lparr>rx_in = Chunk (l @ CRLF) # es, rx_b = [], rx_first = True, rx_httpres = res, rx_oneline = ?o\<rparr>"
  have "buf_inv ?o" using assms(1) by (simp add: string_init_inv alloc_total_def)
  moreover have "length l < 2 ^ 31" using assms(5) by (simp add: BUFSIZE_def)
  ultimately obtain o1 where o1: "string_concatb lc (string_clear ?o) (l @ [CHR 0x0D]) = Done (True, o1)"
      "content o1 = l @ [CHR 0x0D]"
    using take_line_copy [OF assms(1)] by blast
  have hd: "hd (l @ CRLF) \<notin> {CHR 0x0A, CHR 0x0D}" using assms(2-4) by (auto dest: hd_in_set)
  have "take_line lc (?st\<lparr>rx_in := es, rx_b := l @ CRLF\<rparr>) = Done (HTTP_ESRVERR,
      ?st\<lparr>rx_in := es, rx_b := l @ CRLF, rx_oneline := o1\<lparr>sb_length := sb_length o1 - 1\<rparr>\<rparr>)"
    using o1 line_split [OF assms(2), of "l @ CRLF" "[]"] by (simp add: take_line_def Let_def)
  moreover have "length (l @ CRLF) \<le> BUFSIZE" using assms(5) by (simp add: CRLF_def)
  moreover have "CHR 0x0A \<in> set (l @ CRLF)" "l @ CRLF \<noteq> []" by (simp_all add: CRLF_def)
  ultimately have "\<exists>st. header_loop lc ?st = Some (Done (HTTP_ESRVERR, st)) \<and> rx_httpres st = res"
    using hd by (subst header_loop.simps) (simp add: Let_def http_codes del: set_append)
  then show ?thesis using assms(1) by (auto simp: httprecv_def alloc_total_def http_codes)
qed

theorem httprecv_segment_boundary_witness:
  "httprecv plain_libc (Chunk (''HTTP/1.1 200 OK'' @ CRLF) # [Chunk ''x'']) (string_lazyinit 16) 0
     = Done (HTTP_ESRVERR, string_lazyinit 16, 0)"
  by (rule httprecv_segment_boundary) (simp_all add: BUFSIZE_def)

section \<open>The whole request\<close>

definition request_text :: "string \<Rightarrow> string \<Rightarrow> string \<Rightarrow> string option \<Rightarrow> string" where
  "request_text path host ua ims =
     ''GET '' @ path @ '' HTTP/1.1'' @ CRLF @ ''Host: '' @ host @ CRLF @ ''User-Agent: '' @ ua @ CRLF
     @ (case ims of None \<Rightarrow> [] | Some t \<Rightarrow> ''If-Modified-Since: '' @ t @ CRLF)
     @ ''Connection: close'' @ CRLF @ CRLF"

lemma format_request:
  "format_text (''GET %S HTTP/1.1'' @ CRLF @ ''Host: %S'' @ CRLF @ ''User-Agent: %S'' @ CRLF) [Arg_S a, Arg_S b, Arg_S c]
     = Some (''GET '' @ a @ '' HTTP/1.1'' @ CRLF @ ''Host: '' @ b @ CRLF @ ''User-Agent: '' @ c @ CRLF)"
  "format_text (''If-Modified-Since: %S'' @ CRLF) [Arg_S a] = Some (''If-Modified-Since: '' @ a @ CRLF)"
  by (simp_all add: CRLF_def)

lemma sendall_complete: "sendall rs buf = Some (rc, sent) \<Longrightarrow> 0 \<le> rc \<Longrightarrow> sent = buf"
proof (induction rs buf arbitrary: rc sent rule: sendall.induct)
  case (3 res rs c buf)
  then show ?case by (auto split: if_splits)
qed (simp_all add: HTTP_EOK_def)

lemma string_init_4096: "alloc_total lc \<Longrightarrow> buf_inv (string_init lc 4096 4096) \<and> content (string_init lc 4096 4096) = []"
  and string_init_512: "alloc_total lc \<Longrightarrow> buf_inv (string_init lc 512 512) \<and> content (string_init lc 512 512) = []"
  by (simp_all add: string_init_inv alloc_total_def)

lemma build_request_text:
  assumes lc: "alloc_total lc"
    and len: "length (content path) < 2 ^ 32" "length (content host) < 2 ^ 32" "length (content ua) < 2 ^ 32"
      "length (nt_strftime nt t) < 512"
  shows "\<exists>r. build_request lc nt path host t ua = Done (True, r) \<and> buf_inv r
     \<and> content r = request_text (content path) (content host) (content ua)
          (if t = 0 then None else Some (nt_strftime nt t))"
proof -
  let ?a = "content path" and ?b = "content host" and ?c = "content ua" and ?d = "nt_strftime nt t"
  let ?t1 = "''GET '' @ ?a @ '' HTTP/1.1'' @ CRLF @ ''Host: '' @ ?b @ CRLF @ ''User-Agent: '' @ ?c @ CRLF"
  let ?t2 = "if t = 0 then [] else ''If-Modified-Since: '' @ ?d @ CRLF"
  have C: "length CRLF = 2" by (simp add: CRLF_def)
  have l1: "length ?t1 < 2 ^ 34" "length ?t2 < 1000" using len C by simp_all
  then have "length (content (string_init lc 4096 4096)) + length ?t1 < buf_limit"
    using string_init_4096 [OF lc] by (simp add: buf_limit_def)
  from writes_total [OF string_concat_sprintf_writes [OF format_request(1)] lc conjunct1 [OF string_init_4096 [OF lc]] this]
  obtain r1 where r1: "string_concat_sprintf lc
         (''GET %S HTTP/1.1'' @ CRLF @ ''Host: %S'' @ CRLF @ ''User-Agent: %S'' @ CRLF)
         [Arg_S ?a, Arg_S ?b, Arg_S ?c] (string_init lc 4096 4096) = Done (True, r1)" "buf_inv r1"
      "content r1 = content (string_init lc 4096 4096) @ ?t1" .
  let ?ims = "\<lambda>request. if t \<noteq> 0
             then run_bind (epoch2http lc nt (string_init lc 512 512) t)
                    (\<lambda>(ok, ims). if \<not> ok then Done (False, request)
                       else string_concat_sprintf lc (''If-Modified-Since: %S'' @ CRLF) [Arg_S (content ims)] request)
             else Done (True, request)"
  obtain i where i: "string_concat lc (string_init lc 512 512) ?d = Done (True, i)" "content i = ?d"
    using concat_sink.append_total [OF lc, of "string_init lc 512 512" ?d] string_init_512 [OF lc] len(4)
    by (auto simp: buf_limit_def)
  have c1: "content r1 = ?t1" using r1(3) string_init_4096 [OF lc] by (simp only: append_Nil)
  have b2: "length (content r1) + length (''If-Modified-Since: '' @ ?d @ CRLF) < buf_limit"
    using l1(1) len(4) C unfolding c1 buf_limit_def length_append by simp
  obtain r2 where r2: "?ims r1 = Done (True, r2)" "buf_inv r2" "content r2 = ?t1 @ ?t2"
  proof (cases "t = 0")
    case True
    with that [of r1] r1(2) c1 show ?thesis by simp
  next
    case False
    from writes_total [OF string_concat_sprintf_writes [OF format_request(2)] lc r1(2) b2] obtain r2 where
      "string_concat_sprintf lc (''If-Modified-Since: %S'' @ CRLF) [Arg_S ?d] r1 = Done (True, r2)" "buf_inv r2"
      "content r2 = content r1 @ ''If-Modified-Since: '' @ ?d @ CRLF" .
    with that [of r2] False i c1 show ?thesis by (simp add: epoch2http_def)
  qed
  have "writes lc (run_seq [\<lambda>s. string_concat lc s (''Connection: close'' @ CRLF), \<lambda>s. string_concat lc s CRLF])
      ((''Connection: close'' @ CRLF) @ CRLF @ [])"
    by (intro emits_seq_Cons emits_seq_Nil string_concat_writes)
  from writes_total [OF this lc r2(2)] l1 C obtain r where
    r: "run_seq [\<lambda>s. string_concat lc s (''Connection: close'' @ CRLF), \<lambda>s. string_concat lc s CRLF] r2 = Done (True, r)"
      "buf_inv r" "content r = (?t1 @ ?t2) @ (''Connection: close'' @ CRLF) @ CRLF @ []"
    unfolding r2(3) buf_limit_def length_append by force
  have "build_request lc nt path host t ua = Done (True, r)"
    using r1(1) r2(1) r(1) unfolding build_request_def by simp
  moreover have "content r = request_text ?a ?b ?c (if t = 0 then None else Some ?d)"
    unfolding r(3) request_text_def by simp
  ultimately show ?thesis using r(2) by blast
qed

text \<open>A network on which the address in question answers with a given response.\<close>

definition net_answers :: "'a net \<Rightarrow> string \<Rightarrow> int \<Rightarrow> string \<Rightarrow> segment list \<Rightarrow> bool" where
  "net_answers nt host port req es \<longleftrightarrow>
     (case nt_getaddrinfo nt host (int_dec port) of
        None \<Rightarrow> False
      | Some res \<Rightarrow> (case find_connection nt res of
           None \<Rightarrow> False
         | Some rp \<Rightarrow> (case sendall (nt_send nt rp) req of
              None \<Rightarrow> False
            | Some (rc, _) \<Rightarrow> rc = 0 \<and> nt_answer nt rp req = es)))"

lemma http_get_reaches_httprecv:
  assumes lc: "alloc_total lc" and host: "url_host_ok host" "NUL \<notin> set host" and rest: "length rest < 2 ^ 31"
    and port: "case port of None \<Rightarrow> True | Some p \<Rightarrow> p < 2 ^ 31" and url: "content url = url_text host port rest"
    and ua: "length (content ua) < 2 ^ 32" and tm: "length (nt_strftime nt t) < 512"
    and ans: "net_answers nt host (case port of None \<Rightarrow> 80 | Some p \<Rightarrow> int p)
       (request_text (CHR ''/'' # rest) host (content ua) (if t = 0 then None else Some (nt_strftime nt t))) es"
  shows "http_get lc nt url buffer t ua err = httprecv lc es buffer err"
proof -
  let ?port = "case port of None \<Rightarrow> 80 | Some p \<Rightarrow> int p"
  let ?req = "request_text (CHR ''/'' # rest) host (content ua) (if t = 0 then None else Some (nt_strftime nt t))"
  let ?init = "string_init lc 4096 4096"
  have init: "buf_inv ?init" "content ?init = []" using string_init_4096 [OF lc] by simp_all
  obtain h p where hp: "http_parseurl lc url ?init ?init = Done (HTTP_EOK, h, Some ?port, p)"
      "buf_inv h" "content h = host" "content p = CHR ''/'' # rest"
    using parseurl_url [OF lc host(1) rest port url init init] by blast
  have "content h \<noteq> []" "length (content h) + 1 \<le> buf_limit"
    using hp(3) host(1) by (simp_all add: url_host_ok_def buf_limit_def)
  with string_ensurez_total [OF hp(2) _ lc] obtain h' where
    h': "string_ensurez lc h = Done (True, h')" "content h' = host" "string_cstr h' = host"
    using hp(3) host(2) by (auto simp: cstr_simps)
  have "length (content p) < 2 ^ 32" "length (content h') < 2 ^ 32"
    using hp(4) h'(2) rest host(1) by (simp_all add: url_host_ok_def)
  from build_request_text [OF lc this ua tm] obtain r where
    r: "build_request lc nt p h' t ua = Done (True, r)" "content r = ?req"
    using hp(4) h'(2) by auto
  have "?port < 2 ^ 31" "0 \<le> ?port" using port by (simp_all split: option.splits)
  then have "length (int_dec ?port) \<le> 10"
    by (simp add: int_dec_def) (intro nat_dec_length, simp_all add: nat_less_iff)
  then have "take 15 (int_dec ?port) = int_dec ?port" by simp
  with ans obtain res rp sent where n: "nt_getaddrinfo nt host (take 15 (int_dec ?port)) = Some res"
      "find_connection nt res = Some rp" "sendall (nt_send nt rp) ?req = Some (0, sent)" "nt_answer nt rp ?req = es"
    by (auto simp: net_answers_def split: option.splits prod.splits)
  have "sent = ?req" using sendall_complete [OF n(3)] by simp
  with hp(1) h' r n show ?thesis by (simp add: http_get_def HTTP_EOK_def)
qed

text \<open>
  C31: fetching a URL end to end.  If the network finds a server for the host and port of the URL, and
  that server, given exactly the HTTP/1.1 request for the path with the host, the user agent and (when
  a time is given) the \<open>If-Modified-Since\<close> line, answers with a response whose header arrives with
  the first byte of the body, then \<open>http_get\<close> appends the body to the buffer, reports the status
  number, and returns 0 exactly for status 200.
\<close>

theorem http_get_correct:
  assumes "alloc_total lc" and "url_host_ok host" and "NUL \<notin> set host" and "length rest < 2 ^ 31"
    and "case port of None \<Rightarrow> True | Some p \<Rightarrow> p < 2 ^ 31" and "content url = url_text host port rest"
    and "length (content ua) < 2 ^ 32" and "length (nt_strftime nt t) < 512"
    and "net_answers nt host (case port of None \<Rightarrow> 80 | Some p \<Rightarrow> int p)
       (request_text (CHR ''/'' # rest) host (content ua) (if t = 0 then None else Some (nt_strftime nt t)))
       (Chunk first # map Chunk cs)"
    and "n < 2 ^ 31" and "NUL \<notin> set reason" and "CHR 0x0A \<notin> set reason" and "length reason < 2 ^ 30"
    and "list_all header_ok hs" and "first = status_line n reason @ CRLF @ header_block hs @ b0" and "b0 \<noteq> []"
    and "length first \<le> BUFSIZE" and "list_all (\<lambda>xs. xs \<noteq> []) cs"
    and "buf_inv buf" and "length (content buf) + length b0 + length (concat cs) \<le> buf_limit"
  shows "\<exists>buf'. http_get lc nt url buf t ua err = Done (if n = 200 then HTTP_EOK else HTTP_ESRVERR, buf', int n)
     \<and> buf_inv buf' \<and> content buf' = content buf @ b0 @ concat cs"
  unfolding http_get_reaches_httprecv [OF assms(1-9)]
  by (rule httprecv_response [OF assms(1,10-20)])

definition sample_net :: "unit net" where
  "sample_net = \<lparr>nt_getaddrinfo = \<lambda>_ _. Some [()], nt_socket = \<lambda>_. True, nt_connect = \<lambda>_. True, nt_send = \<lambda>_. [200],
     nt_answer = \<lambda>_ _. [Chunk (status_line 200 ''OK'' @ CRLF @ header_block [''Server: x''] @ ''dat''), Chunk ''a''],
     nt_strftime = \<lambda>_. ''Thu, 01 Jan 1970 00:00:01 GMT''\<rparr>"

theorem http_get_correct_witness:
  "\<exists>buf'. http_get plain_libc sample_net (string_mkstatic (url_text ''h'' None ''x'')) (string_lazyinit 16) 1 (string_mkstatic ''ua'') 0
       = Done (if (200 :: nat) = 200 then HTTP_EOK else HTTP_ESRVERR, buf', int 200)
     \<and> buf_inv buf' \<and> content buf' = content (string_lazyinit 16) @ ''dat'' @ concat [''a'']"
proof (rule http_get_correct [where host = "''h''" and port = None and rest = "''x''" and cs = "[''a'']"
      and reason = "''OK''" and hs = "[''Server: x'']", OF alloc_total_plain _ _ _ _ _ _ _ _ _ _ _ _ _ refl])
  show "net_answers sample_net ''h'' (case None of None \<Rightarrow> 80 | Some p \<Rightarrow> int p)
     (request_text (CHR ''/'' # ''x'') ''h'' (content (string_mkstatic ''ua''))
       (if (1 :: int) = 0 then None else Some (nt_strftime sample_net 1)))
     (Chunk (status_line 200 ''OK'' @ CRLF @ header_block [''Server: x''] @ ''dat'') # map Chunk [''a''])"
    by code_simp
  have "length (status_line 200 ''OK'' @ CRLF @ header_block [''Server: x''] @ ''dat'') = 33" by code_simp
  then show "length (status_line 200 ''OK'' @ CRLF @ header_block [''Server: x''] @ ''dat'') \<le> BUFSIZE"
    by (simp add: BUFSIZE_def)
  show "content (string_mkstatic (url_text ''h'' None ''x'')) = url_text ''h'' None ''x''"
    by (simp add: url_text_def content_mkstatic)
  show "length (content (string_mkstatic ''ua'')) < 2 ^ 32" by (simp add: content_mkstatic)
qed (simp_all add: url_host_ok_def header_ok_def string_lazyinit_inv buf_limit_def sample_net_def)

end
