(* ===== verification/Fetch.thy ===== *)
theory Fetch
  imports Confinit Crypto Ar Uncompress Httpget Fsdir
begin

text \<open>
  \<^verbatim>\<open>src/main.c\<close>: fetching the central configuration, checking its signature, and writing the files of tincd.
  Paths are absolute here, so a file has one name whatever the current directory is.
\<close>

section \<open>The platform\<close>

text \<open>The parameters of all parts the client is made of, its user agent, and the time of the call.\<close>

record ('a, 'k, 'z) platform =
  pf_libc :: libc
  pf_sys :: sysenv
  pf_dir :: direnv
  pf_net :: "'a net"
  pf_ssl :: "'k openssl"
  pf_inflate_init :: "char list \<Rightarrow> 'z option"
  pf_inflate :: "'z inflate"
  pf_useragent :: strbuf
  pf_time :: int
  pf_junk :: int
  pf_depth :: nat

section \<open>Requesting the configuration\<close>

text \<open>
  The keys in the decrypted RSA block: one byte with the size of the AES key, one with the size of the
  initialisation vector, and the two values.
\<close>

definition rsa_block_keys :: "libc \<Rightarrow> strbuf \<Rightarrow> (strbuf \<times> strbuf) option run" where
  "rsa_block_keys lc rsa_decrypted =
     (let buf = content rsa_decrypted in
      if length buf < 2 then Done None
      else if schar (buf ! 0) \<noteq> 32 then Done None
      else if schar (buf ! 1) \<noteq> 16 then Done None
      else if length buf < 32 + 16 + 2 then Done None
      else run_bind (string_concatb lc (string_lazyinit 64) (take 32 (drop 2 buf))) (\<lambda>(_, aes_key).
           run_bind (string_concatb lc (string_lazyinit 64) (take 16 (drop 34 buf))) (\<lambda>(_, aes_iv).
             Done (Some (aes_key, aes_iv)))))"

text \<open>A member of the archive, decrypted with the session key into a new buffer.\<close>

definition decrypt_member ::
  "('a, 'k, 'z) platform \<Rightarrow> strbuf \<Rightarrow> string \<Rightarrow> strbuf \<times> strbuf \<Rightarrow> strbuf \<Rightarrow> (bool \<times> strbuf) run" where
  "decrypt_member pf archive name keys result =
     run_bind (ar_extract (pf_libc pf) archive name (string_lazyinit 8192)) (\<lambda>(ok, encrypted).
       if \<not> ok then Done (False, result)
       else crypto_aes_decrypt (pf_libc pf) (pf_ssl pf) encrypted (fst keys) (snd keys) result)"

text \<open>The encrypted and signed form.  The result is the return code and the text.\<close>

definition read_signed ::
  "('a, 'k, 'z) platform \<Rightarrow> config \<Rightarrow> strbuf \<Rightarrow> strbuf \<Rightarrow> (int \<times> strbuf) run" where
  "read_signed pf cfg archive http_response =
     (let lc = pf_libc pf; os = pf_ssl pf in
      run_bind (ar_extract lc archive ''rsa'' (string_lazyinit 8192)) (\<lambda>(ok, encrypted).
      if \<not> ok then Done (- 1, http_response)
      else run_bind (buf_cstr (cf_privkey cfg)) (\<lambda>privkey.
      run_bind (crypto_rsa_decrypt lc os encrypted privkey (string_lazyinit 1024)) (\<lambda>(ok, rsa_decrypted).
      if \<not> ok then Done (- 1, http_response)
      else run_bind (rsa_block_keys lc rsa_decrypted) (\<lambda>keys. case keys of
        None \<Rightarrow> Done (- 1, http_response)
      | Some keys \<Rightarrow>
          run_bind (decrypt_member pf archive ''encrypted'' keys (string_lazyinit 8192)) (\<lambda>(ok, compressed).
          if \<not> ok then Done (- 1, http_response)
          else run_bind (uncompress_inflate lc (pf_inflate_init pf) (pf_inflate pf) compressed http_response)
            (\<lambda>(ok, http_response).
            if \<not> ok then Done (- 1, http_response)
            else run_bind (decrypt_member pf archive ''signature'' keys (string_lazyinit 1024)) (\<lambda>(ok, signature).
              if \<not> ok then Done (- 1, http_response)
              else run_bind (crypto_rsa_verify_signature os http_response signature (cf_masterdata_signkey cfg))
                (\<lambda>valid. Done (if valid then 1 else - 1, http_response))))))))))"

text \<open>What was received: the raw text, or an archive with a version.\<close>

definition read_archive ::
  "('a, 'k, 'z) platform \<Rightarrow> config \<Rightarrow> strbuf \<Rightarrow> strbuf \<Rightarrow> (int \<times> strbuf) run" where
  "read_archive pf cfg archive http_response =
     (let lc = pf_libc pf in
      if \<not> ar_is_ar_file archive
      then if str_is_empty (cf_masterdata_signkey cfg) then Done (1, snd (string_move archive))
           else Done (- 1, http_response)
      else run_bind (ar_extract lc archive ''chaosvpn-version'' (string_lazyinit 16)) (\<lambda>(ok, version).
        if \<not> ok then Done (- 1, http_response)
        else run_bind (string_ensurez lc version) (\<lambda>(_, version).
        run_bind (buf_cstr version) (\<lambda>v. case v of
          None \<Rightarrow> Fault Null_deref
        | Some v \<Rightarrow>
            if v \<noteq> ''3'' then Done (- 1, http_response)
            else if str_is_empty (cf_masterdata_signkey cfg)
            then run_bind (ar_extract lc archive ''cleartext'' http_response) (\<lambda>(ok, http_response).
                   Done (if ok then 1 else - 1, http_response))
            else read_signed pf cfg archive http_response))))"

text \<open>The request itself: the return code, the configuration with the time of the request, and the text.\<close>

definition request_url :: "libc \<Rightarrow> config \<Rightarrow> strbuf run" where
  "request_url lc cfg =
     (case (cf_master_url cfg, cf_peerid cfg) of
        (Some url, Some peerid) \<Rightarrow>
          run_bind (string_concat_sprintf lc ''%s?id=%s'' [Arg_s url, Arg_s peerid] (string_init lc 512 128))
            (\<lambda>(_, httpurl). Done httpurl)
      | _ \<Rightarrow> Fault Null_deref)"

definition request_archive ::
  "('a, 'k, 'z) platform \<Rightarrow> config \<Rightarrow> strbuf \<Rightarrow> (int \<times> config \<times> strbuf) run" where
  "request_archive pf cfg http_response =
     (let lc = pf_libc pf in
      run_bind (request_url lc cfg) (\<lambda>httpurl.
      run_bind (http_get lc (pf_net pf) httpurl (string_init lc 8192 8192) (cf_ifmodifiedsince cfg) (pf_useragent pf) (pf_junk pf))
       (\<lambda>(httpretval, archive, httpres).
          if httpretval \<noteq> HTTP_EOK
          then if httpretval = HTTP_ESRVERR then Done (if httpres = 304 then 0 else - 1, cfg, http_response)
               else if httpretval = HTTP_EINVURL then Exit 1
               else Done (- 1, cfg, http_response)
          else let cfg = cfg\<lparr>cf_ifmodifiedsince := pf_time pf\<rparr> in
               run_bind (read_archive pf cfg archive http_response)
                 (\<lambda>(retval, http_response). Done (retval, cfg, http_response)))))"

definition main_request_config ::
  "('a, 'k, 'z) platform \<Rightarrow> config \<Rightarrow> strbuf \<Rightarrow> (int \<times> config \<times> strbuf) run" where
  "main_request_config pf cfg http_response =
     run_bind (request_archive pf cfg http_response) (\<lambda>(retval, cfg, http_response).
       run_bind (string_ensurez (pf_libc pf) http_response) (\<lambda>(_, http_response). Done (retval, cfg, http_response)))"

section \<open>Parsing it\<close>

text \<open>The loop that looks for this node: every section with its name sets \<open>my_peer\<close>, nothing resets it.\<close>

fun find_my_peer :: "string option \<Rightarrow> peer_config option list \<Rightarrow> my_peer \<Rightarrow> my_peer run" where
  "find_my_peer peerid [] my_peer = Done my_peer"
| "find_my_peer peerid (p # ps) my_peer =
     (case (p, peerid) of
        (Some i, Some name) \<Rightarrow> find_my_peer peerid ps (if pc_name i = name then My_peer i else my_peer)
      | _ \<Rightarrow> Fault Null_deref)"

definition main_parse_config :: "libc \<Rightarrow> strbuf \<Rightarrow> config \<Rightarrow> (bool \<times> config) run" where
  "main_parse_config lc http_response cfg =
     run_bind (buf_cstr http_response) (\<lambda>data. case data of
        None \<Rightarrow> Fault Null_deref
      | Some data \<Rightarrow>
          run_bind (parser_parse_config lc data (cf_peer_config cfg)) (\<lambda>(ok, st).
            let cfg = cfg\<lparr>cf_peer_config := ps_list st\<rparr> in
            if \<not> ok then Done (False, cfg)
            else run_bind (find_my_peer (cf_peerid cfg) (cf_peer_config cfg) (cf_my_peer cfg)) (\<lambda>my_peer.
              Done (my_peer \<noteq> No_peer, cfg\<lparr>cf_my_peer := my_peer\<rparr>))))"

text \<open>Freeing the sections; \<open>my_peer\<close> keeps pointing at one of them.\<close>

fun freed :: "my_peer \<Rightarrow> my_peer" where
  "freed No_peer = No_peer"
| "freed (My_peer p) = Freed_peer"
| "freed Freed_peer = Freed_peer"

definition main_free_parsed_info :: "config \<Rightarrow> config run" where
  "main_free_parsed_info cfg =
     run_bind (parser_free_config (cf_peer_config cfg)) (\<lambda>list.
       Done (cfg\<lparr>cf_peer_config := list, cf_my_peer := freed (cf_my_peer cfg)\<rparr>))"

section \<open>The saved copy\<close>

definition main_tempsave_fetched_config ::
  "libc \<Rightarrow> sysenv \<Rightarrow> config \<Rightarrow> strbuf \<Rightarrow> files \<Rightarrow> (strbuf \<times> files) run" where
  "main_tempsave_fetched_config lc se cfg cnf files =
     (if str_is_empty (cf_tmpconffile cfg) then Done (cnf, files)
      else run_bind (string_ensurez lc cnf) (\<lambda>(_, cnf).
        let tmpconffile = the (cf_tmpconffile cfg) in
        case fs_writecontents se tmpconffile (content cnf) 384 files of
          (ok, files) \<Rightarrow> Done (cnf, if ok then files else files(canon tmpconffile := None))))"

definition main_load_previous_config ::
  "libc \<Rightarrow> sysenv \<Rightarrow> config \<Rightarrow> files \<Rightarrow> strbuf \<Rightarrow> (bool \<times> strbuf) run" where
  "main_load_previous_config lc se cfg files cnf =
     (if str_is_empty (cf_tmpconffile cfg) then Done (False, cnf)
      else run_bind (fs_read_file lc se files cnf (the (cf_tmpconffile cfg))) (\<lambda>(ok, cnf).
        run_bind (string_ensurez lc (if ok then cnf else string_clear cnf)) (\<lambda>(_, cnf). Done (ok, cnf))))"

section \<open>The directories\<close>

definition dir_name :: "libc \<Rightarrow> string list \<Rightarrow> (bool \<times> strbuf) run" where
  "dir_name lc parts =
     (let s = string_init lc 512 512 in
      if sb_s s = None then Done (False, s) else run_seq (map (\<lambda>p s. string_concat lc s p) parts) s)"

definition main_create_backup :: "('a, 'k, 'z) platform \<Rightarrow> config \<Rightarrow> fsys \<Rightarrow> (bool \<times> fsys) run" where
  "main_create_backup pf cfg fs =
     (case cf_base_path cfg of
        None \<Rightarrow> Fault Null_deref
      | Some base \<Rightarrow> run_bind (dir_name (pf_libc pf) [base, ''.old'']) (\<lambda>(ok, base_backup_fn).
          if \<not> ok then Done (False, fs)
          else run_bind (string_ensurez (pf_libc pf) base_backup_fn) (\<lambda>(_, base_backup_fn).
            fs_cp_r (pf_depth pf) (pf_libc pf) (pf_sys pf) (pf_dir pf) base (string_cstr base_backup_fn) fs)))"

definition main_cleanup_hosts_subdir :: "('a, 'k, 'z) platform \<Rightarrow> config \<Rightarrow> fsys \<Rightarrow> (bool \<times> fsys) run" where
  "main_cleanup_hosts_subdir pf cfg fs =
     (case cf_base_path cfg of
        None \<Rightarrow> Fault Null_deref
      | Some base \<Rightarrow> run_bind (dir_name (pf_libc pf) [base, ''/hosts'']) (\<lambda>(ok, hosts_dir).
          if \<not> ok then Done (False, fs)
          else fs_empty_dir (pf_libc pf) (pf_dir pf) (string_cstr hosts_dir) fs))"

section \<open>Fetching and applying\<close>

text \<open>The writers of the tincd files, on the files and links of the file system.\<close>

definition on_files :: "(files \<Rightarrow> (bool \<times> files) run) \<Rightarrow> fsys \<Rightarrow> (bool \<times> fsys) run" where
  "on_files f fs = run_bind (f (fy_files fs)) (\<lambda>(ok, files). Done (ok, fs\<lparr>fy_files := files\<rparr>))"

definition on_links :: "(files \<times> links \<Rightarrow> (bool \<times> files \<times> links) run) \<Rightarrow> fsys \<Rightarrow> (bool \<times> fsys) run" where
  "on_links f fs =
     run_bind (f (fy_files fs, fy_links fs)) (\<lambda>(ok, files, links). Done (ok, fs\<lparr>fy_files := files, fy_links := links\<rparr>))"

definition on_hosts :: "(fsys \<Rightarrow> files \<Rightarrow> (bool \<times> fsys \<times> files) run) \<Rightarrow> fsys \<Rightarrow> (bool \<times> fsys) run" where
  "on_hosts f fs = run_bind (f fs (fy_files fs)) (\<lambda>(ok, fs, files). Done (ok, fs\<lparr>fy_files := files\<rparr>))"

definition write_tincd_files :: "('a, 'k, 'z) platform \<Rightarrow> config \<Rightarrow> fsys \<Rightarrow> (bool \<times> fsys) run" where
  "write_tincd_files pf cfg =
     (let lc = pf_libc pf; se = pf_sys pf in
      run_seq
        [on_files (tinc_write_config lc se cfg), on_hosts (tinc_write_hosts lc se os_mkdir cfg),
         on_files (tinc_write_updown lc se cfg True), on_files (tinc_write_updown lc se cfg False),
         on_links (tinc_write_subnetupdown lc se cfg True), on_links (tinc_write_subnetupdown lc se cfg False)])"

text \<open>The part behind the backup, whose result is ignored.\<close>

definition install_config :: "('a, 'k, 'z) platform \<Rightarrow> config \<Rightarrow> fsys \<Rightarrow> (bool \<times> fsys) run" where
  "install_config pf cfg =
     run_seq [ignore_result (main_create_backup pf cfg), main_cleanup_hosts_subdir pf cfg, write_tincd_files pf cfg]"

text \<open>The text to use: the one fetched, or the saved one when there is an error or nothing new.\<close>

definition fetch_text ::
  "('a, 'k, 'z) platform \<Rightarrow> config \<Rightarrow> files \<Rightarrow> (bool \<times> config \<times> strbuf) run" where
  "fetch_text pf cfg files =
     run_bind (main_request_config pf cfg (string_init (pf_libc pf) 4096 512)) (\<lambda>(err, cfg, http_response).
       if err < 1
       then run_bind (main_load_previous_config (pf_libc pf) (pf_sys pf) cfg files (string_free http_response))
              (\<lambda>(ok, http_response). Done (ok, cfg, http_response))
       else Done (True, cfg, http_response))"

text \<open>The state: the configuration, the text applied last, and the file system.\<close>

definition main_fetch_and_apply_config ::
  "('a, 'k, 'z) platform \<Rightarrow> config \<times> strbuf \<times> fsys \<Rightarrow> (int \<times> config \<times> strbuf \<times> fsys) run" where
  "main_fetch_and_apply_config pf st =
     (case st of (cfg, oldconfig, fs) \<Rightarrow>
      let lc = pf_libc pf in
      run_bind (fetch_text pf cfg (fy_files fs)) (\<lambda>(ok, cfg, http_response).
        if \<not> ok then Done (- 1, cfg, oldconfig, fs)
        else if string_equals http_response oldconfig then Done (0, cfg, oldconfig, fs)
        else run_bind (main_parse_config lc http_response cfg) (\<lambda>(ok, cfg).
          if \<not> ok then Done (- 1, cfg, oldconfig, fs)
          else run_bind (main_tempsave_fetched_config lc (pf_sys pf) cfg http_response (fy_files fs)) (\<lambda>(cnf, files).
            let oldconfig = snd (string_move cnf); fs = fs\<lparr>fy_files := files\<rparr> in
            run_bind (install_config pf cfg fs) (\<lambda>(ok, fs).
              if \<not> ok then Done (- 1, cfg, oldconfig, fs)
              else run_bind (main_free_parsed_info cfg) (\<lambda>cfg. Done (1, cfg, oldconfig, fs)))))))"

end
