(* ===== verification/Request.thy ===== *)
theory Request
  imports Fetch
begin

text \<open>
  What \<open>main_request_config\<close> accepts: nothing that is not signed when a key is configured, and everything the
  master server publishes.
\<close>

section \<open>Only signed text is accepted\<close>

lemma inflate_loop_returns:
  "inflate_loop lc inflate strm u = Some r \<Longrightarrow> r = Done (ok, u') \<Longrightarrow> buf_ok u \<Longrightarrow> buf_ok u'"
proof (induction arbitrary: ok u' rule: inflate_loop.raw_induct [rotated, consumes 1, case_names step])
  case (step loop lc inflate strm u r)
  obtain retval out strm' where s: "inflate strm OUTBUF = (retval, out, strm')" by (cases "inflate strm OUTBUF") auto
  show ?case
  proof (cases "string_concatb lc u out")
    case (Done p)
    obtain ok1 u1 where p: "p = (ok1, u1)" by (cases p)
    then have "buf_ok u1" using string_concatb_returns [OF step(4)] Done by simp
    then show ?thesis using step(1) step(2,3) Done p s step(4) by (auto split: if_splits)
  qed (use step(2-4) s in \<open>auto split: if_splits\<close>)
qed

lemma uncompress_inflate_returns:
  "uncompress_inflate lc init inflate c u = Done (ok, u') \<Longrightarrow> buf_ok u \<Longrightarrow> buf_ok u'"
  by (auto simp: uncompress_inflate_def split: option.splits intro: inflate_loop_returns)

definition signed_by :: "'k openssl \<Rightarrow> string \<Rightarrow> char list \<Rightarrow> bool" where
  "signed_by os pem data \<longleftrightarrow> (\<exists>k sig. os_load_key os False pem = Some k \<and> os_verify os k data sig = 1)"

lemma read_signed_verified:
  assumes "read_signed pf cfg archive resp = Done (1, resp')" and "cf_masterdata_signkey cfg = Some pem" and "buf_ok resp"
  shows "buf_ok resp' \<and> signed_by (pf_ssl pf) pem (content resp')"
  using assms(1)
  by (auto simp: read_signed_def Let_def run_simps assms(2) crypto_rsa_verify_signature_eval signed_by_def
      split: if_splits option.splits dest!: uncompress_inflate_returns [OF _ assms(3)])

lemma read_archive_verified:
  assumes "read_archive pf cfg archive resp = Done (1, resp')" and "cf_masterdata_signkey cfg = Some pem" and "pem \<noteq> []"
    and "buf_ok resp"
  shows "buf_ok resp' \<and> signed_by (pf_ssl pf) pem (content resp')"
  using assms(1) read_signed_verified [OF _ assms(2,4)]
  by (auto simp: read_archive_def Let_def run_simps assms(2,3) split: if_splits option.splits)

lemma request_config_verified:
  assumes r: "main_request_config pf cfg resp = Done (1, cfg', resp')" and key: "cf_masterdata_signkey cfg = Some pem" "pem \<noteq> []"
    and ok: "buf_ok resp"
  shows "buf_ok resp' \<and> signed_by (pf_ssl pf) pem (content resp')"
proof -
  from r obtain archive resp1 b where
    "read_archive pf (cfg\<lparr>cf_ifmodifiedsince := pf_time pf\<rparr>) archive resp = Done (1, resp1)"
    "string_ensurez (pf_libc pf) resp1 = Done (b, resp')"
    by (auto simp: main_request_config_def request_archive_def Let_def run_simps split: if_splits)
  with read_archive_verified [OF this(1)] string_ensurez_returns [of resp1] key ok show ?thesis by simp
qed

section \<open>What the master server sends is accepted\<close>

text \<open>
  A response with status \<open>n\<close> whose header arrives together with the first bytes of the body; \<open>es\<close> are the
  segments on the socket.
\<close>

definition response_with :: "nat \<Rightarrow> char list \<Rightarrow> segment list \<Rightarrow> bool" where
  "response_with n body es \<longleftrightarrow>
     (\<exists>reason hs b0 cs. es = map Chunk ((status_line n reason @ CRLF @ header_block hs @ b0) # cs) \<and> body = b0 @ concat cs
        \<and> b0 \<noteq> [] \<and> NUL \<notin> set reason \<and> CHR 0x0A \<notin> set reason \<and> length reason < 2 ^ 30 \<and> list_all header_ok hs
        \<and> length (status_line n reason @ CRLF @ header_block hs @ b0) \<le> BUFSIZE \<and> list_all (\<lambda>xs. xs \<noteq> []) cs)"

text \<open>The platform at work: memory is granted and the server answers the request with status \<open>n\<close> and a body.\<close>

definition server_sends :: "('a, 'k, 'z) platform \<Rightarrow> config \<Rightarrow> nat \<Rightarrow> char list \<Rightarrow> bool" where
  "server_sends pf cfg n body \<longleftrightarrow>
     (\<exists>url peerid host port rest es. cf_master_url cfg = Some url \<and> cf_peerid cfg = Some peerid
        \<and> url @ ''?id='' @ peerid = url_text host port rest \<and> url_host_ok host \<and> NUL \<notin> set host
        \<and> length rest < 2 ^ 31 \<and> (case port of None \<Rightarrow> True | Some p \<Rightarrow> p < 2 ^ 31) \<and> length (url_text host port rest) < 2 ^ 32
        \<and> net_answers (pf_net pf) host (case port of None \<Rightarrow> 80 | Some p \<Rightarrow> int p)
            (request_text (CHR ''/'' # rest) host (content (pf_useragent pf))
              (if cf_ifmodifiedsince cfg = 0 then None else Some (nt_strftime (pf_net pf) (cf_ifmodifiedsince cfg)))) es
        \<and> response_with n body es)
     \<and> n < 2 ^ 31 \<and> length body < 2 ^ 32 \<and> length (content (pf_useragent pf)) < 2 ^ 32
     \<and> length (nt_strftime (pf_net pf) (cf_ifmodifiedsince cfg)) < 512"

lemma http_get_response:
  assumes lc: "alloc_total lc" and host: "url_host_ok host" "NUL \<notin> set host" and rest: "length rest < 2 ^ 31"
    and port: "case port of None \<Rightarrow> True | Some p \<Rightarrow> p < 2 ^ 31" and url: "content url = url_text host port rest"
    and ua: "length (content ua) < 2 ^ 32" and tm: "length (nt_strftime nt t) < 512"
    and ans: "net_answers nt host (case port of None \<Rightarrow> 80 | Some p \<Rightarrow> int p)
       (request_text (CHR ''/'' # rest) host (content ua) (if t = 0 then None else Some (nt_strftime nt t))) es"
    and resp: "response_with n body es" and n: "n < 2 ^ 31" and len: "length body < 2 ^ 32"
  obtains archive where "http_get lc nt url (string_init lc 8192 8192) t ua err
     = Done (if n = 200 then HTTP_EOK else HTTP_ESRVERR, archive, int n)" "buf_inv archive" "content archive = body"
proof -
  from resp obtain reason hs b0 cs where r: "es = Chunk (status_line n reason @ CRLF @ header_block hs @ b0) # map Chunk cs"
    "body = b0 @ concat cs" "b0 \<noteq> []" "NUL \<notin> set reason" "CHR 0x0A \<notin> set reason" "length reason < 2 ^ 30" "list_all header_ok hs"
    "length (status_line n reason @ CRLF @ header_block hs @ b0) \<le> BUFSIZE" "list_all (\<lambda>xs. xs \<noteq> []) cs"
    unfolding response_with_def by auto
  have buf: "buf_inv (string_init lc 8192 8192)" "content (string_init lc 8192 8192) = []"
    using lc by (simp_all add: string_init_inv alloc_total_def)
  have "length (content (string_init lc 8192 8192)) + length b0 + length (concat cs) \<le> buf_limit"
    using buf(2) r(2) len by (simp add: buf_limit_def)
  from httprecv_response [OF lc n r(4-7) refl r(3,8,9) buf(1) this, of err] obtain archive where
    "httprecv lc es (string_init lc 8192 8192) err = Done (if n = 200 then HTTP_EOK else HTTP_ESRVERR, archive, int n)"
    "buf_inv archive" "content archive = body"
    using r(1,2) buf(2) by auto
  then show ?thesis
    using that http_get_reaches_httprecv [OF lc host rest port url ua tm ans, of "string_init lc 8192 8192" err] by simp
qed

lemma request_stage:
  assumes lc: "alloc_total (pf_libc pf)" and s: "server_sends pf cfg n body"
  obtains httpurl archive where "request_url (pf_libc pf) cfg = Done httpurl"
    "http_get (pf_libc pf) (pf_net pf) httpurl (string_init (pf_libc pf) 8192 8192) (cf_ifmodifiedsince cfg) (pf_useragent pf) err
       = Done (if n = 200 then HTTP_EOK else HTTP_ESRVERR, archive, int n)"
    "buf_inv archive" "content archive = body"
proof -
  from s obtain url peerid host port rest es where u: "cf_master_url cfg = Some url" "cf_peerid cfg = Some peerid"
    "url @ ''?id='' @ peerid = url_text host port rest" and len: "length (url_text host port rest) < 2 ^ 32"
    and h: "url_host_ok host" "NUL \<notin> set host" "length rest < 2 ^ 31" "case port of None \<Rightarrow> True | Some p \<Rightarrow> p < 2 ^ 31"
    and a: "net_answers (pf_net pf) host (case port of None \<Rightarrow> 80 | Some p \<Rightarrow> int p)
            (request_text (CHR ''/'' # rest) host (content (pf_useragent pf))
              (if cf_ifmodifiedsince cfg = 0 then None else Some (nt_strftime (pf_net pf) (cf_ifmodifiedsince cfg)))) es"
      "response_with n body es"
    and b: "n < 2 ^ 31" "length body < 2 ^ 32" "length (content (pf_useragent pf)) < 2 ^ 32"
      "length (nt_strftime (pf_net pf) (cf_ifmodifiedsince cfg)) < 512"
    unfolding server_sends_def by blast
  have init: "buf_inv (string_init (pf_libc pf) 512 128)" "content (string_init (pf_libc pf) 512 128) = []"
    using lc by (simp_all add: string_init_inv alloc_total_def)
  have f: "format_text ''%s?id=%s'' [Arg_s url, Arg_s peerid] = Some (url_text host port rest)"
    using u(3) by simp
  have "length (content (string_init (pf_libc pf) 512 128)) + length (url_text host port rest) < buf_limit"
    using init(2) len by (simp add: buf_limit_def)
  from writes_total [OF string_concat_sprintf_writes [OF f] lc init(1) this] obtain httpurl where
    w: "string_concat_sprintf (pf_libc pf) ''%s?id=%s'' [Arg_s url, Arg_s peerid] (string_init (pf_libc pf) 512 128) = Done (True, httpurl)"
      "content httpurl = url_text host port rest" using init(2) by auto
  from http_get_response [OF lc h w(2) b(3,4) a b(1,2)] obtain archive where
    "http_get (pf_libc pf) (pf_net pf) httpurl (string_init (pf_libc pf) 8192 8192) (cf_ifmodifiedsince cfg) (pf_useragent pf) err
       = Done (if n = 200 then HTTP_EOK else HTTP_ESRVERR, archive, int n)"
    "buf_inv archive" "content archive = body" by blast
  moreover have "request_url (pf_libc pf) cfg = Done httpurl" using u(1,2) w(1) by (simp add: request_url_def)
  ultimately show ?thesis using that by blast
qed

section \<open>Opening a sealed archive\<close>

text \<open>
  What the server does to a text: it seals the session key and the initialisation vector for this node, compresses
  and encrypts the text, and encrypts a signature of it.
\<close>

definition decrypts :: "'k openssl \<Rightarrow> char list \<Rightarrow> char list \<Rightarrow> char list \<Rightarrow> char list \<Rightarrow> bool" where
  "decrypts os key iv c m \<longleftrightarrow>
     (\<exists>a b. os_aes_update os key iv c = Some a \<and> os_aes_final os key iv c = Some b \<and> m = a @ b
        \<and> length m \<le> length c + os_max_block os)"

definition sealed :: "('a, 'k, 'z) platform \<Rightarrow> string \<Rightarrow> string \<Rightarrow> ar_member list \<Rightarrow> char list \<Rightarrow> bool" where
  "sealed pf privkey signkey ms data \<longleftrightarrow>
     (\<exists>k pk key iv r e s packed sig z left.
        find_member ms ''rsa'' = Some r \<and> find_member ms ''encrypted'' = Some e \<and> find_member ms ''signature'' = Some s
      \<and> os_load_key (pf_ssl pf) True privkey = Some k \<and> os_load_key (pf_ssl pf) False signkey = Some pk
      \<and> length (m_data r) = os_pkey_size (pf_ssl pf) k \<and> os_rsa_len (pf_ssl pf) k (m_data r) = length (m_data r)
      \<and> os_rsa_decrypt (pf_ssl pf) k (m_data r) = Some (CHR 0x20 # CHR 0x10 # key @ iv)
      \<and> length key = 32 \<and> length iv = 16 \<and> os_key_len (pf_ssl pf) = 32 \<and> os_iv_len (pf_ssl pf) = 16
      \<and> length (m_data e) + os_max_block (pf_ssl pf) < 2 ^ 31 \<and> decrypts (pf_ssl pf) key iv (m_data e) packed
      \<and> length (m_data s) + os_max_block (pf_ssl pf) < 2 ^ 31 \<and> decrypts (pf_ssl pf) key iv (m_data s) sig
      \<and> pf_inflate_init pf packed = Some z \<and> delivers (pf_inflate pf) left \<and> left z = data
      \<and> os_verify (pf_ssl pf) pk data sig = 1)"

lemma crypto_rsa_decrypt_opens:
  assumes "alloc_total lc" and "os_ctx os" "os_ready os" and "os_load_key os True pem = Some k"
    and "buf_ok c" and "length (content c) = os_pkey_size os k" "os_rsa_len os k (content c) = length (content c)"
    and "os_rsa_decrypt os k (content c) = Some m" and "length m \<le> os_pkey_size os k" "os_pkey_size os k < 2 ^ 62"
  obtains s where "crypto_rsa_decrypt lc os c (Some pem) d = Done (True, s)" "buf_inv s" "content s = m"
proof -
  obtain s b where s: "fill_buffer (string_init lc (of_nat (os_pkey_size os k)) 512) m = Done s" "buf_inv s" "content s = m"
    by (rule fill_init [OF assms(1,10,9), of 512]) simp_all
  have "unat (sb_length c) = os_pkey_size os k" using buf_ok_length [OF assms(5)] assms(6) by simp
  moreover have "\<not> unat (sb_size (string_init lc (of_nat (os_pkey_size os k)) 512)) < os_pkey_size os k"
    using assms(1,10) by (simp add: string_init_def alloc_total_def unat_of_nat_size_t)
  ultimately have "crypto_rsa_decrypt lc os c (Some pem) d = Done (True, s)"
    using assms s(1) by (simp add: crypto_rsa_decrypt_def crypto_load_key_def Let_def)
  with s that show ?thesis by blast
qed

lemma rsa_block_keys_opens:
  assumes "alloc_total lc" and "content s = CHR 0x20 # CHR 0x10 # key @ iv" and "length key = 32" "length iv = 16"
  obtains k i where "rsa_block_keys lc s = Done (Some (k, i))" "buf_inv k" "content k = key" "buf_inv i" "content i = iv"
proof -
  have lz: "buf_inv (string_lazyinit 64)" "content (string_lazyinit 64) = []" by (simp_all add: string_lazyinit_inv)
  have "length (content (string_lazyinit 64)) + length x \<le> buf_limit" if "length x \<le> 32" for x
    using lz(2) that by (simp add: buf_limit_def)
  note copy = string_concatb_core [OF lz(1) this, of _ lc]
  from copy [of key] copy [of iv] assms(1,3,4) lz(2) obtain k i where
    "string_concatb lc (string_lazyinit 64) key = Done (True, k)" "buf_inv k" "content k = key"
    "string_concatb lc (string_lazyinit 64) iv = Done (True, i)" "buf_inv i" "content i = iv"
    by auto
  moreover have "schar (CHR 0x20) = 32" "schar (CHR 0x10) = 16" by (simp_all add: schar_def)
  moreover have "drop 34 (CHR 0x20 # CHR 0x10 # key @ iv) = iv" using assms(3) by (simp add: drop_Cons')
  ultimately show ?thesis using that assms(2-4) by (simp add: rsa_block_keys_def Let_def)
qed

lemma rsa_fitsD:
  assumes "rsa_fits os"
  shows "os_rsa_decrypt os k c = Some m \<Longrightarrow> length m \<le> os_pkey_size os k" "os_pkey_size os k < 2 ^ 62"
proof -
  show "os_rsa_decrypt os k c = Some m \<Longrightarrow> length m \<le> os_pkey_size os k" using assms by (simp add: rsa_fits_def)
  have "os_pkey_size os k < 2 ^ 31" using assms by (simp add: rsa_fits_def)
  then show "os_pkey_size os k < 2 ^ 62" by simp
qed

text \<open>Behind \<open>string_ensurez\<close> the pointer is a C string.\<close>

lemma string_ensurez_cstr:
  assumes s: "buf_ok s" and r: "string_ensurez lc s = Done (True, s')" and n: "content s \<noteq> [] \<or> sb_s s = None"
  shows "buf_cstr s' = Done (Some (string_cstr s'))"
proof -
  have append: "\<exists>b. sb_s s' = Some b \<and> NUL \<in> set b"
    if "run_bind (string_putc lc s NUL) (\<lambda>(ok, s'). if \<not> ok then Done (False, s')
          else Done (True, s'\<lparr>sb_length := sb_length s' - 1\<rparr>)) = Done (True, s')"
  proof -
    from that obtain s1 where p: "string_putc lc s NUL = Done (True, s1)" "s' = s1\<lparr>sb_length := sb_length s1 - 1\<rparr>"
      by (auto simp: run_simps split: if_splits)
    then have "NUL \<in> set (content s1)" using string_putc_returns [OF s p(1)] by simp
    then obtain b where b: "sb_s s1 = Some b" "NUL \<in> set (take (unat (sb_length s1)) b)"
      by (cases "sb_s s1") (simp_all add: content_def)
    from b(2) have "NUL \<in> set b" by (rule in_set_takeD)
    with b(1) p(2) show ?thesis by simp
  qed
  have "\<exists>b. sb_s s' = Some b \<and> NUL \<in> set b"
  proof (cases "sb_s s")
    case None
    then show ?thesis using append r by (simp add: string_ensurez_def Let_def)
  next
    case (Some b)
    then have l: "sb_length s \<noteq> 0" using n by (auto simp: content_def)
    show ?thesis
    proof (cases "string_last_byte lc s b = Done NUL")
      case True
      then have "unat (sb_length s - 1) < length b" "b ! unat (sb_length s - 1) = NUL"
        using l by (simp_all only: string_last_byte_def if_False split: if_split_asm) simp_all
      then have "NUL \<in> set b" by (metis nth_mem)
      moreover have "s' = s" using r Some True by (simp add: string_ensurez_def Let_def)
      ultimately show ?thesis using Some by blast
    next
      case False
      with r Some show ?thesis
        by (intro append) (cases "string_last_byte lc s b", simp_all add: string_ensurez_def Let_def split: if_split_asm)
    qed
  qed
  then show ?thesis by (auto simp: buf_cstr_def string_cstr_def)
qed

lemma find_member_ok: "list_all member_ok ms \<Longrightarrow> find_member ms n = Some m \<Longrightarrow> member_ok m"
  by (auto simp: find_member_def find_Some_iff list_all_length)

lemma decrypt_member_opens:
  assumes lc: "alloc_total (pf_libc pf)" and os: "os_ctx (pf_ssl pf)" "os_ready (pf_ssl pf)"
    and ms: "list_all member_ok ms" "ms \<noteq> []" "content archive = archive_image ms" "find_member ms name = Some m"
    and key: "buf_inv (fst keys)" "length (content (fst keys)) = os_key_len (pf_ssl pf)"
    and iv: "buf_inv (snd keys)" "length (content (snd keys)) = os_iv_len (pf_ssl pf)"
    and c: "length (m_data m) + os_max_block (pf_ssl pf) < 2 ^ 31"
    and d: "decrypts (pf_ssl pf) (content (fst keys)) (content (snd keys)) (m_data m) p"
  obtains s where "decrypt_member pf archive name keys r = Done (True, s)" "buf_inv s" "content s = p"
proof -
  have "buf_inv (string_lazyinit 8192)" by (simp add: string_lazyinit_inv)
  from ar_extract_finds [OF ms(1-3) this lc, of name] ms(4) obtain e where
    e: "ar_extract (pf_libc pf) archive name (string_lazyinit 8192) = Done (True, e)" "buf_inv e" "content e = m_data m" by auto
  from d obtain a b where u: "os_aes_update (pf_ssl pf) (content (fst keys)) (content (snd keys)) (content e) = Some a"
    "os_aes_final (pf_ssl pf) (content (fst keys)) (content (snd keys)) (content e) = Some b" "p = a @ b"
    "length (a @ b) \<le> length (content e) + os_max_block (pf_ssl pf)"
    unfolding decrypts_def e(3) by auto
  have l: "length a \<le> length (content e) + os_max_block (pf_ssl pf)" using u(4) by simp
  have fits: "length a + length b' \<le> length (content e) + os_max_block (pf_ssl pf)"
    if "os_aes_final (pf_ssl pf) (content (fst keys)) (content (snd keys)) (content e) = Some b'" for b'
    using that u(2,4) by simp
  have "length (content e) + os_max_block (pf_ssl pf) < 2 ^ 31" using c e(3) by simp
  from crypto_aes_decrypt_eval [OF lc os buf_inv_ok [OF key(1)] key(2) buf_inv_ok [OF iv(1)] iv(2) buf_inv_ok [OF e(2)] this u(1) l fits, of r]
  obtain s where "crypto_aes_decrypt (pf_libc pf) (pf_ssl pf) e (fst keys) (snd keys) r = Done (True, s)" "buf_inv s" "content s = p"
    using u(2,3) by auto
  with e(1) that show ?thesis by (simp add: decrypt_member_def)
qed

lemma read_signed_opens:
  assumes lc: "alloc_total (pf_libc pf)" and os: "os_ctx (pf_ssl pf)" "os_ready (pf_ssl pf)" "rsa_fits (pf_ssl pf)"
    and ms: "list_all member_ok ms" "ms \<noteq> []" "content archive = archive_image ms"
    and cfg: "buf_cstr (cf_privkey cfg) = Done (Some privkey)" "cf_masterdata_signkey cfg = Some signkey"
    and sealed: "sealed pf privkey signkey ms data"
    and resp: "buf_inv resp" "content resp = []" and len: "length data \<le> 2 ^ 32"
  obtains s where "read_signed pf cfg archive resp = Done (1, s)" "buf_inv s" "content s = data"
proof -
  from sealed obtain k pk key iv r e s packed sig z left where m: "find_member ms ''rsa'' = Some r"
    "find_member ms ''encrypted'' = Some e" "find_member ms ''signature'' = Some s"
    and k: "os_load_key (pf_ssl pf) True privkey = Some k" "os_load_key (pf_ssl pf) False signkey = Some pk"
    and rsa: "length (m_data r) = os_pkey_size (pf_ssl pf) k" "os_rsa_len (pf_ssl pf) k (m_data r) = length (m_data r)"
      "os_rsa_decrypt (pf_ssl pf) k (m_data r) = Some (CHR 0x20 # CHR 0x10 # key @ iv)"
    and l: "length key = 32" "length iv = 16" "os_key_len (pf_ssl pf) = 32" "os_iv_len (pf_ssl pf) = 16"
    and de: "length (m_data e) + os_max_block (pf_ssl pf) < 2 ^ 31" "decrypts (pf_ssl pf) key iv (m_data e) packed"
    and ds: "length (m_data s) + os_max_block (pf_ssl pf) < 2 ^ 31" "decrypts (pf_ssl pf) key iv (m_data s) sig"
    and z: "pf_inflate_init pf packed = Some z" "delivers (pf_inflate pf) left" "left z = data"
    and v: "os_verify (pf_ssl pf) pk data sig = 1"
    unfolding sealed_def by blast
  have "buf_inv (string_lazyinit 8192)" by (simp add: string_lazyinit_inv)
  from ar_extract_finds [OF ms this lc, of "''rsa''"] m(1) obtain enc where
    enc: "ar_extract (pf_libc pf) archive ''rsa'' (string_lazyinit 8192) = Done (True, enc)" "buf_inv enc" "content enc = m_data r" by auto
  have "length (CHR 0x20 # CHR 0x10 # key @ iv) \<le> os_pkey_size (pf_ssl pf) k" "os_pkey_size (pf_ssl pf) k < 2 ^ 62"
    using rsa_fitsD [OF os(3)] rsa(3) by blast+
  from crypto_rsa_decrypt_opens [OF lc os(1,2) k(1) buf_inv_ok [OF enc(2)] _ _ _ this, of "string_lazyinit 1024"] rsa enc(3)
  obtain block where b: "crypto_rsa_decrypt (pf_libc pf) (pf_ssl pf) enc (Some privkey) (string_lazyinit 1024) = Done (True, block)"
    "content block = CHR 0x20 # CHR 0x10 # key @ iv" by metis
  obtain kb ib where ki: "rsa_block_keys (pf_libc pf) block = Done (Some (kb, ib))" "buf_inv kb" "content kb = key" "buf_inv ib" "content ib = iv"
    by (rule rsa_block_keys_opens [OF lc b(2) l(1,2)])
  note open_member = decrypt_member_opens [OF lc os(1,2) ms, of _ _ "(kb, ib)", simplified, OF _ ki(2) _ ki(4)]
  obtain compressed where c: "decrypt_member pf archive ''encrypted'' (kb, ib) (string_lazyinit 8192) = Done (True, compressed)"
    "content compressed = packed"
    by (rule open_member [OF m(2), where p = packed and r = "string_lazyinit 8192"]) (use ki l de in simp_all)
  obtain signature where sg: "decrypt_member pf archive ''signature'' (kb, ib) (string_lazyinit 1024) = Done (True, signature)"
    "content signature = sig"
    by (rule open_member [OF m(3), where p = sig and r = "string_lazyinit 1024"]) (use ki l ds in simp_all)
  have zi: "pf_inflate_init pf (content compressed) = Some z" using z(1) c(2) by simp
  have "length (content resp) + length (left z) \<le> buf_limit" using resp(2) z(3) len by (simp add: buf_limit_def)
  from inflate_delivered [where inflateInit = "pf_inflate_init pf" and left = left, OF zi z(2) lc resp(1) this] obtain out where
    o: "uncompress_inflate (pf_libc pf) (pf_inflate_init pf) (pf_inflate pf) compressed resp = Done (True, out)" "buf_inv out"
      "content out = data" using resp(2) z(3) by auto
  have "crypto_rsa_verify_signature (pf_ssl pf) out signature (Some signkey) = Done True"
    using k(2) v os(1,2) o(3) sg(2) by (simp add: crypto_rsa_verify_signature_eval)
  then have "read_signed pf cfg archive resp = Done (1, out)"
    using enc(1) b(1) ki(1) c(1) sg(1) o(1) cfg by (simp add: read_signed_def Let_def)
  with o that show ?thesis by blast
qed

lemma read_archive_opens:
  assumes lc: "alloc_total (pf_libc pf)" and os: "os_ctx (pf_ssl pf)" "os_ready (pf_ssl pf)" "rsa_fits (pf_ssl pf)"
    and ms: "list_all member_ok ms" "ms \<noteq> []" "content archive = archive_image ms"
    and version: "map_option m_data (find_member ms ''chaosvpn-version'') = Some ''3''"
    and cfg: "buf_cstr (cf_privkey cfg) = Done (Some privkey)" "cf_masterdata_signkey cfg = Some signkey" "signkey \<noteq> []"
    and sealed: "sealed pf privkey signkey ms data"
    and resp: "buf_inv resp" "content resp = []" and len: "length data \<le> 2 ^ 32"
  obtains s where "read_archive pf cfg archive resp = Done (1, s)" "buf_inv s" "content s = data"
proof -
  have "buf_inv (string_lazyinit 16)" by (simp add: string_lazyinit_inv)
  from ar_extract_finds [OF ms this lc, of "''chaosvpn-version''"] version obtain v where
    v: "ar_extract (pf_libc pf) archive ''chaosvpn-version'' (string_lazyinit 16) = Done (True, v)" "buf_inv v" "content v = ''3''"
    by auto
  have "length (content v) + 1 \<le> buf_limit" "content v \<noteq> [] \<or> sb_s v = None" using v(3) by (simp_all add: buf_limit_def)
  from string_ensurez_total [OF v(2) this(1) lc this(2)] obtain v' where
    v': "string_ensurez (pf_libc pf) v = Done (True, v')" "buf_inv v'" "content v' = ''3''" "string_cstr v' = ''3''"
    using v(3) by (auto simp: cstr_simps)
  have "buf_cstr v' = Done (Some ''3'')"
    using string_ensurez_cstr [OF buf_inv_ok [OF v(2)] v'(1)] v(3) v'(4) by simp
  moreover have "ar_is_ar_file archive" using ms(3) by (simp add: ar_is_ar_file_def archive_image_def ARMAG_def)
  moreover obtain s where "read_signed pf cfg archive resp = Done (1, s)" "buf_inv s" "content s = data"
    by (rule read_signed_opens [OF lc os ms cfg(1,2) sealed resp len])
  ultimately show ?thesis using that v(1) v'(1) cfg(2,3) by (simp add: read_archive_def Let_def)
qed

lemma request_config_opens:
  assumes lc: "alloc_total (pf_libc pf)" and os: "os_ctx (pf_ssl pf)" "os_ready (pf_ssl pf)" "rsa_fits (pf_ssl pf)"
    and server: "server_sends pf cfg 200 (archive_image ms)" and ms: "list_all member_ok ms"
    and version: "map_option m_data (find_member ms ''chaosvpn-version'') = Some ''3''"
    and cfg: "buf_cstr (cf_privkey cfg) = Done (Some privkey)" "cf_masterdata_signkey cfg = Some signkey" "signkey \<noteq> []"
    and sealed: "sealed pf privkey signkey ms data" and data: "data \<noteq> []" "length data \<le> 2 ^ 32"
  obtains s where "main_request_config pf cfg (string_init (pf_libc pf) 4096 512) = Done (1, cfg\<lparr>cf_ifmodifiedsince := pf_time pf\<rparr>, s)"
    "buf_inv s" "content s = data" "buf_cstr s = Done (Some (cstr data))"
proof -
  obtain httpurl archive where a: "request_url (pf_libc pf) cfg = Done httpurl"
    "http_get (pf_libc pf) (pf_net pf) httpurl (string_init (pf_libc pf) 8192 8192) (cf_ifmodifiedsince cfg) (pf_useragent pf) (pf_junk pf)
       = Done (HTTP_EOK, archive, 200)" "content archive = archive_image ms"
    by (rule request_stage [OF lc server, of "pf_junk pf"]) (simp split: if_splits)
  have ne: "ms \<noteq> []" using version by (auto simp: find_member_def)
  have cfg': "buf_cstr (cf_privkey (cfg\<lparr>cf_ifmodifiedsince := pf_time pf\<rparr>)) = Done (Some privkey)"
    "cf_masterdata_signkey (cfg\<lparr>cf_ifmodifiedsince := pf_time pf\<rparr>) = Some signkey" using cfg by simp_all
  have init: "buf_inv (string_init (pf_libc pf) 4096 512)" "content (string_init (pf_libc pf) 4096 512) = []"
    using lc by (simp_all add: string_init_inv alloc_total_def)
  obtain s where s: "read_archive pf (cfg\<lparr>cf_ifmodifiedsince := pf_time pf\<rparr>) archive (string_init (pf_libc pf) 4096 512) = Done (1, s)"
    "buf_inv s" "content s = data"
    by (rule read_archive_opens [OF lc os ms ne a(3) version cfg' cfg(3) sealed init data(2)])
  have "length (content s) + 1 \<le> buf_limit" "content s \<noteq> [] \<or> sb_s s = None" using s(3) data by (simp_all add: buf_limit_def)
  from string_ensurez_total [OF s(2) this(1) lc this(2)] obtain s' where
    s': "string_ensurez (pf_libc pf) s = Done (True, s')" "buf_inv s'" "content s' = data" "string_cstr s' = cstr data"
    using s(3) by auto
  have "buf_cstr s' = Done (Some (cstr data))"
    using string_ensurez_cstr [OF buf_inv_ok [OF s(2)] s'(1)] s(3) data(1) s'(4) by simp
  moreover have "main_request_config pf cfg (string_init (pf_libc pf) 4096 512) = Done (1, cfg\<lparr>cf_ifmodifiedsince := pf_time pf\<rparr>, s')"
    using a(1,2) s(1) s'(1) by (simp add: main_request_config_def request_archive_def Let_def)
  ultimately show ?thesis using s'(2,3) that by blast
qed

text \<open>\<open>string_ensurez\<close> on an empty buffer with a block: it may or may not add the zero, but it returns.\<close>

lemma string_ensurez_empty:
  assumes s: "buf_inv s" "content s = []" "sb_s s = Some b" and lc: "alloc_total lc"
  obtains ok s' where "string_ensurez lc s = Done (ok, s')" "buf_ok s'" "content s' = []"
proof -
  have l: "sb_length s = 0" using buf_inv_length [OF s(1)] s(2) by (simp add: unat_eq_zero)
  have "length (content s) + 1 \<le> buf_limit" using s(2) by (simp add: buf_limit_def)
  from string_putc_core [OF s(1) this, of lc NUL] lc obtain s1 where "string_putc lc s NUL = Done (True, s1)" by auto
  then obtain ok s' where r: "string_ensurez lc s = Done (ok, s')"
    using that s(3) l by (cases "lc_before lc = NUL") (simp_all add: string_ensurez_def string_last_byte_def Let_def)
  with string_ensurez_returns [OF buf_inv_ok [OF s(1)] r] s(2) that show ?thesis by simp
qed

text \<open>An answer with another status: nothing is taken and the text stays empty.\<close>

lemma request_config_refused:
  assumes lc: "alloc_total (pf_libc pf)" and server: "server_sends pf cfg n body" and n: "n \<noteq> 200"
  obtains s where "main_request_config pf cfg (string_init (pf_libc pf) 4096 512) = Done (if n = 304 then 0 else - 1, cfg, s)"
    "buf_ok s" "content s = []" "sb_growby s = 512"
proof -
  obtain httpurl archive where a: "request_url (pf_libc pf) cfg = Done httpurl"
    "http_get (pf_libc pf) (pf_net pf) httpurl (string_init (pf_libc pf) 8192 8192) (cf_ifmodifiedsince cfg) (pf_useragent pf) (pf_junk pf)
       = Done (HTTP_ESRVERR, archive, int n)"
    by (rule request_stage [OF lc server, of "pf_junk pf"]) (use n in \<open>simp split: if_splits\<close>)
  have init: "buf_inv (string_init (pf_libc pf) 4096 512)" "content (string_init (pf_libc pf) 4096 512) = []"
    "sb_s (string_init (pf_libc pf) 4096 512) = Some (replicate 4096 NUL)" "sb_growby (string_init (pf_libc pf) 4096 512) = 512"
    using lc by (simp_all add: string_init_inv alloc_total_def) (simp_all add: string_init_def)
  obtain ok s where s: "string_ensurez (pf_libc pf) (string_init (pf_libc pf) 4096 512) = Done (ok, s)" "buf_ok s" "content s = []"
    by (rule string_ensurez_empty [OF init(1-3) lc])
  have "main_request_config pf cfg (string_init (pf_libc pf) 4096 512) = Done (if n = 304 then 0 else - 1, cfg, s)"
    using a s(1) by (simp add: main_request_config_def request_archive_def Let_def http_codes)
  with s(2,3) string_ensurez_returns [OF buf_inv_ok [OF init(1)] s(1)] init(4) that show ?thesis by simp
qed

section \<open>A platform for concrete instances\<close>

text \<open>
  Cryptography in which every text is its own ciphertext and its own signature, a server that always sends the
  same archive, and a stream that is stored.
\<close>

definition sample_ssl :: "unit openssl" where
  "sample_ssl = \<lparr>os_key_len = 32, os_iv_len = 16, os_max_block = 32, os_load_key = (\<lambda>_ pem. if pem = [] then None else Some ()),
     os_ctx = True, os_ready = True, os_verify = (\<lambda>_ d s. if d = s then 1 else 0), os_pkey_size = (\<lambda>_. 64), os_rsa_len = (\<lambda>_. length),
     os_rsa_decrypt = (\<lambda>_ c. if length c = 64 then Some (take 50 c) else None), os_aes_update = (\<lambda>_ _ c. Some c), os_aes_final = (\<lambda>_ _ _. Some [])\<rparr>"

definition sample_data :: string where
  "sample_data = ''[me]\<newline>''"

definition sample_archive :: "ar_member list" where
  "sample_archive =
     [sample_member ''chaosvpn-version'' ''3''\<lparr>m_slash := False\<rparr>,
      sample_member ''rsa'' (CHR 0x20 # CHR 0x10 # replicate 62 (CHR ''k'')),
      sample_member ''encrypted'' sample_data, sample_member ''signature'' sample_data]"

definition archive_net :: "nat \<Rightarrow> unit net" where
  "archive_net n = sample_net\<lparr>nt_answer := \<lambda>_ _. [Chunk (status_line n ''OK'' @ CRLF @ header_block [] @ archive_image sample_archive)]\<rparr>"

definition sample_platform :: "nat \<Rightarrow> (unit, unit, char list) platform" where
  "sample_platform n = \<lparr>pf_libc = total_libc, pf_sys = plain_env, pf_dir = sample_dir [], pf_net = archive_net n, pf_ssl = sample_ssl,
     pf_inflate_init = Some, pf_inflate = stored_inflate, pf_useragent = string_mkstatic ''ChaosVPN/2.19'', pf_time = 1000,
     pf_junk = 0, pf_depth = 10\<rparr>"

definition signed_config :: config where
  "signed_config = sample_config\<lparr>cf_master_url := Some ''http://m/c'', cf_masterdata_signkey := Some ''PUB'',
     cf_tmpconffile := Some ''/etc/tinc/chaos/data.sav'', cf_peer_config := [], cf_my_peer := No_peer,
     cf_privkey := \<lparr>sb_length = 3, sb_size = 4, sb_growby = 2048, sb_s = Some (''KEY'' @ [NUL])\<rparr>\<rparr>"

lemma sample_archive_ok: "list_all member_ok sample_archive"
  by (simp add: sample_archive_def member_ok_def sample_data_def)

lemma sample_image: "length (archive_image sample_archive) = 326"
  by code_simp

lemma sample_length: "length sample_data = 5"
  by (simp add: sample_data_def)

lemma sample_platform_facts:
  "alloc_total (pf_libc (sample_platform n))" "os_ctx (pf_ssl (sample_platform n))" "os_ready (pf_ssl (sample_platform n))"
  "rsa_fits (pf_ssl (sample_platform n))"
  by (simp_all add: sample_platform_def sample_ssl_def total_libc_facts rsa_fits_def)

lemma sample_sealed: "sealed (sample_platform n) ''KEY'' ''PUB'' sample_archive sample_data"
proof -
  have m: "find_member sample_archive ''rsa'' = Some (sample_member ''rsa'' (CHR 0x20 # CHR 0x10 # replicate 62 (CHR ''k'')))"
    "find_member sample_archive ''encrypted'' = Some (sample_member ''encrypted'' sample_data)"
    "find_member sample_archive ''signature'' = Some (sample_member ''signature'' sample_data)"
    by (simp_all add: find_member_def sample_archive_def)
  have d: "delivers stored_inflate (\<lambda>z. z)" by (simp add: delivers_def stored_inflate_def)
  have c: "decrypts sample_ssl k i sample_data sample_data" for k i
    by (simp add: decrypts_def sample_ssl_def)
  have k: "replicate 48 (CHR ''k'') = replicate 32 (CHR ''k'') @ replicate 16 (CHR ''k'')"
    by (simp flip: replicate_add)
  have s: "os_load_key sample_ssl b pem = (if pem = [] then None else Some ())" "os_pkey_size sample_ssl () = 64"
    "os_rsa_len sample_ssl () x = length x" "os_rsa_decrypt sample_ssl () x = (if length x = 64 then Some (take 50 x) else None)"
    "os_key_len sample_ssl = 32" "os_iv_len sample_ssl = 16" "os_max_block sample_ssl = 32" "os_verify sample_ssl () x x = 1" for b pem x
    by (simp_all add: sample_ssl_def)
  have p: "pf_ssl (sample_platform n) = sample_ssl" "pf_inflate_init (sample_platform n) = Some"
    "pf_inflate (sample_platform n) = stored_inflate" by (simp_all add: sample_platform_def)
  show ?thesis
    unfolding sealed_def p
    by (rule exI [of _ "()"], rule exI [of _ "()"], rule exI [of _ "replicate 32 (CHR ''k'')"],
        rule exI [of _ "replicate 16 (CHR ''k'')"],
        rule exI [of _ "sample_member ''rsa'' (CHR 0x20 # CHR 0x10 # replicate 62 (CHR ''k''))"],
        rule exI [of _ "sample_member ''encrypted'' sample_data"], rule exI [of _ "sample_member ''signature'' sample_data"],
        rule exI [of _ sample_data], rule exI [of _ sample_data], rule exI [of _ sample_data], rule exI [of _ "\<lambda>z. z"], intro conjI)
      (simp_all add: m d c s k sample_length)
qed

lemma sample_server_for:
  assumes "n = 200 \<or> n = 304" and cfg: "cf_master_url cfg = Some ''http://m/c''" "cf_peerid cfg = Some ''me''"
  shows "server_sends (sample_platform n) cfg n (archive_image sample_archive)"
proof -
  define ims where "ims = (if cf_ifmodifiedsince cfg = 0 then None else Some ''Thu, 01 Jan 1970 00:00:01 GMT'')"
  have "length (status_line n ''OK'' @ CRLF @ header_block [] @ archive_image sample_archive) \<le> 500"
    using sample_image nat_dec_length [of n 3] assms(1) by (auto simp: status_line_def header_block_def CRLF_def)
  then have "response_with n (archive_image sample_archive)
      [Chunk (status_line n ''OK'' @ CRLF @ header_block [] @ archive_image sample_archive)]"
    unfolding response_with_def
    by (intro exI [of _ "''OK''"] exI [of _ "[]"] exI [of _ "archive_image sample_archive"])
      (simp add: BUFSIZE_def archive_image_def ARMAG_def)
  moreover have "''http://m/c'' @ ''?id='' @ ''me'' = url_text ''m'' None ''c?id=me''" by (simp add: url_text_def)
  moreover have "net_answers (archive_net n) ''m'' 80 (request_text ''/c?id=me'' ''m'' ''ChaosVPN/2.19'' ims)
      [Chunk (status_line n ''OK'' @ CRLF @ header_block [] @ archive_image sample_archive)]"
  proof -
    define req where "req = request_text ''/c?id=me'' ''m'' ''ChaosVPN/2.19'' ims"
    have "req \<noteq> []" "length req \<le> 200" by (simp_all add: req_def request_text_def CRLF_def ims_def)
    then obtain c cs where "req = c # cs" "drop 200 req = []" "take 200 req = req" by (cases req) simp_all
    then have "sendall [200] req = Some (0, req)" by (simp add: HTTP_EOK_def)
    then show ?thesis by (simp add: net_answers_def archive_net_def sample_net_def find_connection_def flip: req_def)
  qed
  moreover have "(if cf_ifmodifiedsince cfg = 0 then None
      else Some (nt_strftime (pf_net (sample_platform n)) (cf_ifmodifiedsince cfg))) = ims"
    by (simp add: ims_def sample_platform_def archive_net_def sample_net_def)
  moreover have "length (nt_strftime (archive_net n) t) < 512" for t by (simp add: archive_net_def sample_net_def)
  moreover have "pf_net (sample_platform n) = archive_net n" "content (pf_useragent (sample_platform n)) = ''ChaosVPN/2.19''"
    by (simp_all add: sample_platform_def content_mkstatic)
  moreover have "url_host_ok ''m''" "length (url_text ''m'' None ''c?id=me'') < 2 ^ 32" by (simp_all add: url_host_ok_def url_text_def)
  moreover have "n < 2 ^ 31" using assms(1) by auto
  ultimately show ?thesis
    unfolding server_sends_def
    by (intro conjI exI [of _ "''http://m/c''"] exI [of _ "''me''"] exI [of _ "''m''"] exI [of _ "None"] exI [of _ "''c?id=me''"])
      (simp_all add: sample_image cfg, blast)
qed

lemma sample_server:
  "n = 200 \<or> n = 304 \<Longrightarrow> server_sends (sample_platform n) signed_config n (archive_image sample_archive)"
  by (rule sample_server_for) (simp_all add: signed_config_def sample_config_def config_alloc_def)

section \<open>Every path through the request\<close>

lemma uncompress_inflate_step:
  "buf_ok u \<Longrightarrow> (\<And>ok u'. buf_ok u' \<Longrightarrow> P (ok, u')) \<Longrightarrow> returns P (uncompress_inflate lc init inflate c u)"
  using uncompress_inflate_returns by (fastforce simp: returns_def)

lemma string_ensurez_step:
  "buf_ok s \<Longrightarrow> (\<And>ok s'. buf_ok s' \<Longrightarrow> content s' = content s \<Longrightarrow> P (ok, s')) \<Longrightarrow> returns P (string_ensurez lc s)"
  using string_ensurez_returns by (fastforce simp: returns_def)

text \<open>With a key configured, the buffer stays sound on every path through the request.\<close>

lemma read_signed_step:
  "buf_ok resp \<Longrightarrow> returns (\<lambda>(n, x). buf_ok x \<and> n \<le> 1) (read_signed pf c a resp)"
  unfolding read_signed_def Let_def
  by (simp, (clarsimp split: option.split | rule uncompress_inflate_step returns_all | assumption)+)

lemma read_archive_step:
  "buf_ok resp \<Longrightarrow> cf_masterdata_signkey c = Some pem \<Longrightarrow> pem \<noteq> [] \<Longrightarrow>
   returns (\<lambda>(n, x). buf_ok x \<and> n \<le> 1) (read_archive pf c a resp)"
  unfolding read_archive_def Let_def
  by (simp, (clarsimp split: option.split | rule read_signed_step returns_all | assumption)+)

lemma request_config_returns:
  assumes r: "main_request_config pf cfg resp = Done (err, cfg', resp')" and key: "cf_masterdata_signkey cfg = Some pem" "pem \<noteq> []"
    and ok: "buf_ok resp"
  shows "buf_ok resp' \<and> err \<le> 1 \<and> (cfg' = cfg \<or> cfg' = cfg\<lparr>cf_ifmodifiedsince := pf_time pf\<rparr>)"
proof -
  have archive: "returns (\<lambda>(n, x). buf_ok x \<and> n \<le> 1) (read_archive pf (cfg\<lparr>cf_ifmodifiedsince := pf_time pf\<rparr>) a resp)" for a
    by (rule read_archive_step [OF ok, where pem = pem]) (simp_all add: key)
  have "returns (\<lambda>(err, c, x). buf_ok x \<and> err \<le> 1 \<and> (c = cfg \<or> c = cfg\<lparr>cf_ifmodifiedsince := pf_time pf\<rparr>))
     (request_archive pf cfg resp)"
    unfolding request_archive_def Let_def
    by ((clarsimp simp: ok | rule conjI impI | rule returns_mono [OF archive] | rule returns_all)+)
  moreover from r obtain x b where "request_archive pf cfg resp = Done (err, cfg', x)" "string_ensurez (pf_libc pf) x = Done (b, resp')"
    by (auto simp: main_request_config_def run_simps)
  ultimately show ?thesis using string_ensurez_returns [of x] by (auto dest!: returnsD)
qed

section \<open>Properties\<close>

text \<open>
  C4: with a signing key configured, \<open>main_request_config\<close> reports success only for a text over which the
  library has verified a signature of that key: the text it hands over, not what was received, is what was
  verified, on every path through the archive, the decryption and the decompression.
\<close>

theorem main_request_config_verified:
  assumes "main_request_config pf cfg http_response = Done (1, cfg', http_response')"
    and "cf_masterdata_signkey cfg = Some pem" and "pem \<noteq> []" and "buf_ok http_response"
  shows "signed_by (pf_ssl pf) pem (content http_response')"
  using request_config_verified [OF assms] by blast

lemma signed_config_fields:
  "buf_cstr (cf_privkey signed_config) = Done (Some ''KEY'')" "cf_masterdata_signkey signed_config = Some ''PUB''"
  "cf_peerid signed_config = Some ''me''" "cf_my_peer signed_config = No_peer" "cf_peer_config signed_config = []"
  "cf_tmpconffile signed_config = Some ''/etc/tinc/chaos/data.sav''" "cf_base_path signed_config = Some ''/etc/tinc/chaos''"
  by (simp_all add: signed_config_def sample_config_def config_alloc_def buf_cstr_def cstr_def)

lemma sample_request:
  "\<exists>s. main_request_config (sample_platform 200) signed_config (string_init total_libc 4096 512)
       = Done (1, signed_config\<lparr>cf_ifmodifiedsince := 1000\<rparr>, s)
    \<and> buf_inv s \<and> content s = sample_data \<and> buf_cstr s = Done (Some sample_data)"
proof -
  have v: "map_option m_data (find_member sample_archive ''chaosvpn-version'') = Some ''3''"
    by (simp add: find_member_def sample_archive_def)
  have d: "sample_data \<noteq> []" "length sample_data \<le> 2 ^ 32" "cstr sample_data = sample_data"
    by (simp_all add: sample_data_def cstr_def)
  obtain s where "main_request_config (sample_platform 200) signed_config (string_init (pf_libc (sample_platform 200)) 4096 512)
       = Done (1, signed_config\<lparr>cf_ifmodifiedsince := pf_time (sample_platform 200)\<rparr>, s)"
    "buf_inv s" "content s = sample_data" "buf_cstr s = Done (Some (cstr sample_data))"
    by (rule request_config_opens [OF sample_platform_facts(1-4) sample_server sample_archive_ok v signed_config_fields(1,2) _
          sample_sealed d(1,2)]) simp_all
  with d(3) show ?thesis by (simp add: sample_platform_def)
qed

theorem main_request_config_verified_witness:
  "\<exists>s. main_request_config (sample_platform 200) signed_config (string_init total_libc 4096 512)
       = Done (1, signed_config\<lparr>cf_ifmodifiedsince := 1000\<rparr>, s) \<and> signed_by sample_ssl ''PUB'' (content s)"
proof -
  obtain s where s: "main_request_config (sample_platform 200) signed_config (string_init total_libc 4096 512)
       = Done (1, signed_config\<lparr>cf_ifmodifiedsince := 1000\<rparr>, s)" using sample_request by blast
  have "buf_ok (string_init total_libc 4096 512)" by (auto simp: string_init_def buf_ok_def)
  from main_request_config_verified [OF s signed_config_fields(2) _ this] s show ?thesis by (auto simp: sample_platform_def)
qed

text \<open>
  C9: what the master server publishes is accepted, end to end.  If the server, asked for this node, answers with
  an archive of the right version that holds a session key sealed for the node's private key, the compressed text
  encrypted with it, and an encrypted signature of the text that verifies, then \<open>main_request_config\<close> returns 1,
  hands over exactly that text, terminated, and has noted the time of the request.
\<close>

theorem main_request_config_accepts:
  assumes "alloc_total (pf_libc pf)" and "os_ctx (pf_ssl pf)" and "os_ready (pf_ssl pf)" and "rsa_fits (pf_ssl pf)"
    and "server_sends pf cfg 200 (archive_image ms)" and "list_all member_ok ms"
    and "map_option m_data (find_member ms ''chaosvpn-version'') = Some ''3''"
    and "buf_cstr (cf_privkey cfg) = Done (Some privkey)" and "cf_masterdata_signkey cfg = Some signkey" and "signkey \<noteq> []"
    and "sealed pf privkey signkey ms data" and "data \<noteq> []" and "length data \<le> 2 ^ 32"
  shows "\<exists>s. main_request_config pf cfg (string_init (pf_libc pf) 4096 512) = Done (1, cfg\<lparr>cf_ifmodifiedsince := pf_time pf\<rparr>, s)
     \<and> buf_inv s \<and> content s = data \<and> buf_cstr s = Done (Some (cstr data))"
  by (rule request_config_opens [OF assms]) blast

theorem main_request_config_accepts_witness:
  "\<exists>s. main_request_config (sample_platform 200) signed_config (string_init (pf_libc (sample_platform 200)) 4096 512)
         = Done (1, signed_config\<lparr>cf_ifmodifiedsince := pf_time (sample_platform 200)\<rparr>, s)
     \<and> buf_inv s \<and> content s = sample_data \<and> buf_cstr s = Done (Some (cstr sample_data))"
  by (rule main_request_config_accepts
      [OF sample_platform_facts(1-4) sample_server sample_archive_ok _ signed_config_fields(1,2) _ sample_sealed])
    (simp_all add: find_member_def sample_archive_def sample_data_def)

end
