(* ===== verification/Fscopy.thy ===== *)
theory Fscopy
  imports Fsdir Tinc "HOL-Library.Sublist"
begin

text \<open>
  What the recursive copy of \<^verbatim>\<open>src/fs.c\<close> does to a tree of any height: the functions that share two path buffers and the
  current directory are compared with a list of the files below the source.
\<close>

section \<open>What a copy is\<close>

definition copied :: "char list \<times> nat \<Rightarrow> (char list \<times> nat) option \<Rightarrow> char list \<times> nat" where
  "copied file old = (case old of None \<Rightarrow> file | Some (text, mode) \<Rightarrow> (fst file @ drop (length (fst file)) text, mode))"

text \<open>The names of the regular files below a directory, relative to it, as \<open>names\<close> lists each directory.\<close>

definition entry_files :: "(string \<Rightarrow> string list) \<Rightarrow> fsys \<Rightarrow> string \<Rightarrow> string \<Rightarrow> string \<Rightarrow> string list" where
  "entry_files inner fs src r n =
     (let q = r @ CHR ''/'' # n in
      if dot_name n then [] else if src @ q \<in> fy_dirs fs then inner q
      else if fy_files fs (src @ q) = None then [] else [q])"

fun tree_files :: "nat \<Rightarrow> (string \<Rightarrow> string list) \<Rightarrow> fsys \<Rightarrow> string \<Rightarrow> string \<Rightarrow> string list" where
  "tree_files 0 names fs src r = []"
| "tree_files (Suc depth) names fs src r =
     concat (map (entry_files (tree_files depth names fs src) fs src r) (names (src @ r)))"

text \<open>A tree that can be read, is not higher than \<open>depth\<close> and does not clash with directories of the copy.\<close>

definition entry_ok :: "(string \<Rightarrow> bool) \<Rightarrow> direnv \<Rightarrow> fsys \<Rightarrow> string \<Rightarrow> string \<Rightarrow> string \<Rightarrow> string \<Rightarrow> bool" where
  "entry_ok inner de fs src dst r n \<longleftrightarrow>
     (let q = r @ CHR ''/'' # n in
      name_ok n \<and> length n < 256
      \<and> (dot_name n \<or> (if src @ q \<in> fy_dirs fs then inner q
           else fy_files fs (src @ q) = None \<or> de_open_r de (src @ q) \<and> dst @ q \<notin> fy_dirs fs)))"

fun copyable :: "nat \<Rightarrow> direnv \<Rightarrow> (string \<Rightarrow> string list) \<Rightarrow> fsys \<Rightarrow> string \<Rightarrow> string \<Rightarrow> string \<Rightarrow> bool" where
  "copyable 0 de names fs src dst r \<longleftrightarrow> False"
| "copyable (Suc depth) de names fs src dst r \<longleftrightarrow>
     length (src @ r) < 2 ^ 31 \<and> length (dst @ r) < 2 ^ 31 \<and> src @ r \<in> fy_dirs fs \<and> de_chdir de (src @ r)
     \<and> list_all (entry_ok (copyable depth de names fs src dst) de fs src dst r) (names (src @ r))"

definition copy_files :: "fsys \<Rightarrow> string \<Rightarrow> string \<Rightarrow> string list \<Rightarrow> files \<Rightarrow> files" where
  "copy_files fs src dst qs files =
     (\<lambda>p. if prefix dst p \<and> drop (length dst) p \<in> set qs
          then Some (copied (the (fy_files fs (src @ drop (length dst) p))) (files p)) else files p)"

lemma copied_twice [simp]: "copied f (Some (copied f old)) = copied f old"
  by (cases old) (auto simp: copied_def split: prod.splits)

lemma copy_files_append: "copy_files fs src dst (qs @ qs') files = copy_files fs src dst qs' (copy_files fs src dst qs files)"
  by (auto simp: copy_files_def fun_eq_iff)

lemma copy_files_Nil [simp]: "copy_files fs src dst [] files = files"
  by (simp add: copy_files_def)

lemma copy_files_one:
  "copy_files fs src dst [q] files = files(dst @ q \<mapsto> copied (the (fy_files fs (src @ q))) (files (dst @ q)))"
  by (auto simp: copy_files_def fun_eq_iff elim: prefixE)

section \<open>Two trees that are apart\<close>

definition below :: "string \<Rightarrow> bool" where
  "below q \<longleftrightarrow> q = [] \<or> hd q = CHR ''/''"

definition apart :: "string \<Rightarrow> string \<Rightarrow> bool" where
  "apart src dst \<longleftrightarrow> \<not> prefix (src @ ''/'') (dst @ ''/'') \<and> \<not> prefix (dst @ ''/'') (src @ ''/'')"

lemma apart_paths:
  assumes "apart src dst" and "below p" and "below q"
  shows "src @ p \<noteq> dst @ q"
proof
  assume e: "src @ p = dst @ q"
  have pre: "prefix (x @ ''/'') (x @ y @ ''/'')" if "below y" for x y
    using that by (cases y) (auto simp: below_def)
  have "prefix (src @ ''/'') (src @ p @ ''/'')" "prefix (dst @ ''/'') (dst @ q @ ''/'')" by (rule pre [OF assms(2)], rule pre [OF assms(3)])
  moreover have "src @ p @ ''/'' = dst @ q @ ''/''" using e by (metis append.assoc)
  ultimately have "prefix (src @ ''/'') (dst @ ''/'') \<or> prefix (dst @ ''/'') (src @ ''/'')"
    using prefix_same_cases [of "src @ ''/''" "dst @ q @ ''/''" "dst @ ''/''"] by simp
  with assms(1) show False by (simp add: apart_def)
qed

lemma below_snoc [simp]: "below r \<Longrightarrow> below (r @ CHR ''/'' # n)"
  by (cases r) (auto simp: below_def)

lemma path_ok_entry: "path_ok p \<Longrightarrow> name_ok n \<Longrightarrow> path_ok (p @ CHR ''/'' # n)"
  using canon_snoc [of p n] last_entry [of n p] by (auto simp: path_ok_def name_ok_def hd_append)

text \<open>What the copy keeps while it runs.\<close>

definition cp_inv :: "fsys \<Rightarrow> string \<Rightarrow> string \<Rightarrow> fsys \<Rightarrow> bool" where
  "cp_inv fs0 src dst fs \<longleftrightarrow>
     fy_links fs = fy_links fs0 \<and> fy_dirs fs0 \<subseteq> fy_dirs fs \<and> (\<forall>p \<in> fy_dirs fs. p \<in> fy_dirs fs0 \<or> prefix dst p)
     \<and> (\<forall>q. below q \<longrightarrow> fy_files fs (src @ q) = fy_files fs0 (src @ q)
          \<and> (src @ q \<in> fy_dirs fs \<longrightarrow> src @ q \<in> fy_dirs fs0)
          \<and> (dst @ q \<in> fy_dirs fs \<longrightarrow> dst @ q \<in> fy_dirs fs0 \<or> src @ q \<in> fy_dirs fs0))"


lemma cp_inv_files: "cp_inv fs0 src dst fs \<Longrightarrow> below q \<Longrightarrow> fy_files fs (src @ q) = fy_files fs0 (src @ q)"
  by (simp add: cp_inv_def)

lemma cp_inv_dirs: "cp_inv fs0 src dst fs \<Longrightarrow> below q \<Longrightarrow> src @ q \<in> fy_dirs fs \<longleftrightarrow> src @ q \<in> fy_dirs fs0"
  by (auto simp: cp_inv_def)

lemma cp_inv_cwd [simp]: "cp_inv fs0 src dst (fs\<lparr>fy_cwd := p\<rparr>) \<longleftrightarrow> cp_inv fs0 src dst fs"
  by (simp add: cp_inv_def)

lemma cp_inv_file:
  assumes "cp_inv fs0 src dst fs" and "apart src dst" and "below q"
  shows "cp_inv fs0 src dst (fs\<lparr>fy_files := (fy_files fs)(dst @ q \<mapsto> file)\<rparr>)"
  using assms apart_paths [OF assms(2) _ assms(3)] by (auto simp: cp_inv_def)

section \<open>One file\<close>

lemma copy_loop_grants: "env_grants se \<Longrightarrow> copy_loop se dst data w = (True, w @ data)"
proof (induction se dst data w rule: copy_loop.induct)
  case (1 se dst data w)
  show ?case
  proof (cases "data = []")
    case False
    have "min (length (take 65536 data)) (se_write se dst (length (take 65536 data))) = length (take 65536 data)"
      using "1.prems" by (simp add: env_grants_def min_absorb1)
    with False "1.IH" [OF False refl refl] "1.prems" show ?thesis
      by (subst copy_loop.simps) (simp add: Let_def)
  qed (simp add: copy_loop.simps)
qed

text \<open>A buffer that is cut back to its beginning.\<close>

lemma holds_length: "holds s p \<Longrightarrow> unat (sb_length s) = length p"
  using buf_ok_length [OF buf_inv_ok, of s] by (auto simp: holds_def)

lemma holds_cut:
  assumes s: "holds s (p @ x)" and l: "unat l = length p"
  shows "holds (s\<lparr>sb_length := l\<rparr>) p"
proof -
  have len: "unat (sb_length s) = length p + length x" using holds_length [OF s] by simp
  show ?thesis
  proof (cases "sb_s s")
    case None
    with s len l show ?thesis by (auto simp: holds_def buf_inv_def buf_ok_def content_def unat_eq_zero)
  next
    case (Some b)
    with s have b: "take (length p + length x) b = p @ x" "length b = unat (sb_size s)" "sb_length s \<le> sb_size s"
      using len by (auto simp: holds_def buf_inv_def buf_ok_def content_def)
    have "take (length p) b = p" using b(1) by (metis append_eq_conv_conj le_add1 min.absorb1 take_take)
    with s Some b len l show ?thesis by (auto simp: holds_def buf_inv_def buf_ok_def content_def word_le_nat_alt)
  qed
qed

text \<open>No links at or below either tree.\<close>

definition no_links :: "fsys \<Rightarrow> string \<Rightarrow> string \<Rightarrow> bool" where
  "no_links fs src dst \<longleftrightarrow> (\<forall>q. below q \<longrightarrow> fy_links fs (src @ q) = None \<and> fy_links fs (dst @ q) = None)"

lemma no_links_cp_inv: "cp_inv fs0 src dst fs \<Longrightarrow> no_links fs0 src dst \<Longrightarrow> no_links fs src dst"
  by (simp add: no_links_def cp_inv_def)

lemma copy_entry_copies:
  assumes lc: "alloc_total lc" "env_grants se" and ok: "path_ok (src @ r)" "path_ok (dst @ r)" "length (dst @ r) < 2 ^ 31"
    and n: "name_ok n" "length n < 256" "below r" "q = r @ CHR ''/'' # n" and l: "no_links fs src dst"
    and cwd: "fy_cwd fs = src @ r" and f: "fy_files fs (src @ q) = Some file" "src @ q \<notin> fy_dirs fs"
    and may: "de_open_r de (src @ q)" "dst @ q \<notin> fy_dirs fs" and d: "holds d (dst @ r @ ''/'')"
  obtains d' where "copy_entry lc se de n (sb_length d) (s, d, fs)
      = Done (True, s, d', fs\<lparr>fy_files := (fy_files fs)(dst @ q \<mapsto> copied file (fy_files fs (dst @ q)))\<rparr>)" "holds d' (dst @ r @ ''/'')"
    "sb_length d' = sb_length d"
proof -
  have b: "below q" using n by simp
  have c: "cstr (dst @ q) = dst @ q" "dst @ q = (dst @ r @ ''/'') @ n" using ok(2) n(1,4) by (auto simp: path_ok_def name_ok_def cstr_simps)
  have "length ((dst @ r @ ''/'') @ n) < 2 ^ 32" using ok(3) n(2) by simp
  from holds_concat [OF d lc(1) this] obtain d1 where d1: "string_concat lc d n = Done (True, d1)" "holds d1 (dst @ q)"
    "sb_length d1 = sb_length d + of_nat (length n)" "holds (d1\<lparr>sb_length := sb_length d\<rparr>) (dst @ r @ ''/'')"
    unfolding c(2) by metis
  obtain d2 where d2: "string_ensurez lc d1 = Done (True, d2)" "holds d2 (dst @ q)" "string_cstr d2 = dst @ q"
    by (rule holds_ensurez [OF d1(2) lc(1)]) (use n(4) c in auto)
  have "resolve fs n = src @ q" "resolve fs (dst @ q) = dst @ q"
    using abs_path_entry [OF ok(1) n(1), of fs] abs_path_entry [OF ok(2) n(1), of fs] cwd l b n(4)
    by (simp_all add: resolve_def no_links_def)
  with f may lc(2) have "fs_cp_file se de n (dst @ q) fs
      = Done (True, fs\<lparr>fy_files := (fy_files fs)(dst @ q \<mapsto> copied file (fy_files fs (dst @ q)))\<rparr>)"
    by (auto simp: fs_cp_file_def os_stat_def Let_def copy_loop_grants env_grants_def copied_def split: option.splits prod.splits)
  moreover have "holds (d2\<lparr>sb_length := sb_length d\<rparr>) (dst @ r @ ''/'')"
    using holds_cut [of d2 "dst @ r @ ''/''" n] holds_length [OF d] d2(2) c(2) by simp
  ultimately show ?thesis using that d1(1) d2(1,3)
    by (simp add: copy_entry_def on_dst_def on_fs_def seq_step_def)
qed


section \<open>One directory\<close>

lemma cp_inv_mkdir:
  assumes "cp_inv fs0 src dst fs" and "apart src dst" and "below r" and "path_ok (dst @ r)" and "src @ r \<in> fy_dirs fs0"
  shows "cp_inv fs0 src dst (snd (os_mkdir (dst @ r @ ''/'') fs))"
    and "fy_files (snd (os_mkdir (dst @ r @ ''/'') fs)) = fy_files fs"
    and "fy_dirs fs \<subseteq> fy_dirs (snd (os_mkdir (dst @ r @ ''/'') fs))"
proof -
  have "abs_path fs (dst @ r @ ''/'') = dst @ r" using abs_path_dir(2) [OF assms(4)] by simp
  then have m: "snd (os_mkdir (dst @ r @ ''/'') fs) = fs \<or> snd (os_mkdir (dst @ r @ ''/'') fs) = fs\<lparr>fy_dirs := insert (dst @ r) (fy_dirs fs)\<rparr>"
    by (auto simp: os_mkdir_def tree_mkdir_def Let_def)
  have "cp_inv fs0 src dst (fs\<lparr>fy_dirs := insert (dst @ r) (fy_dirs fs)\<rparr>)"
    using assms(1,5) apart_paths [OF assms(2) _ assms(3)] by (auto simp: cp_inv_def)
  with m assms(1) show "cp_inv fs0 src dst (snd (os_mkdir (dst @ r @ ''/'') fs))" by auto
  from m show "fy_files (snd (os_mkdir (dst @ r @ ''/'') fs)) = fy_files fs"
    "fy_dirs fs \<subseteq> fy_dirs (snd (os_mkdir (dst @ r @ ''/'') fs))" by auto
qed

lemma resolve_below:
  assumes "path_ok (p @ r)" and "fy_links fs (p @ r) = None"
  shows "resolve fs (p @ r @ ''/'') = p @ r"
  using abs_path_dir(2) [OF assms(1), of fs] assms(2) by (simp add: resolve_def)

lemma enter_dir_enters:
  assumes lc: "alloc_total lc" and ok: "path_ok (src @ r)" "path_ok (dst @ r)" and r: "below r" and ap: "apart src dst"
    and l: "no_links fs0 src dst" and i: "cp_inv fs0 src dst fs" and m: "src @ r \<in> fy_dirs fs0" "de_chdir de (src @ r)"
    and s: "holds s (src @ r @ ''/'')" and d: "holds d (dst @ r @ ''/'')"
  obtains s' d' fs' where "enter_dir lc de (s, d, fs) = Done (True, s', d', fs')" "holds s' (src @ r @ ''/'')" "holds d' (dst @ r @ ''/'')"
    "string_cstr s' = src @ r @ ''/''" "cp_inv fs0 src dst fs'" "fy_cwd fs' = src @ r" "fy_files fs' = fy_files fs" "fy_dirs fs \<subseteq> fy_dirs fs'"
proof -
  have c: "cstr (src @ r @ ''/'') = src @ r @ ''/''" "cstr (dst @ r @ ''/'') = dst @ r @ ''/''"
    using ok by (simp_all add: path_ok_def cstr_simps)
  obtain s1 where s1: "string_ensurez lc s = Done (True, s1)" "holds s1 (src @ r @ ''/'')" "string_cstr s1 = src @ r @ ''/''"
    by (rule holds_ensurez [OF s lc]) (use c in simp_all)
  obtain d1 where d1: "string_ensurez lc d = Done (True, d1)" "holds d1 (dst @ r @ ''/'')" "string_cstr d1 = dst @ r @ ''/''"
    by (rule holds_ensurez [OF d lc]) (use c in simp_all)
  let ?fs = "snd (os_mkdir (dst @ r @ ''/'') fs)"
  note mk = cp_inv_mkdir [OF i ap r ok(2) m(1)]
  have "fy_links fs (src @ r) = None" "fy_links ?fs (src @ r) = None"
    using no_links_cp_inv [OF i l] no_links_cp_inv [OF mk(1) l] r by (simp_all add: no_links_def)
  then have res: "resolve fs (src @ r @ ''/'') = src @ r" "resolve ?fs (src @ r @ ''/'') = src @ r"
    by (simp_all add: resolve_below [OF ok(1)])
  have "src @ r \<in> fy_dirs fs" "src @ r \<in> fy_dirs ?fs" using i mk(1) m(1) by (auto simp: cp_inv_def)
  with res m(2) s1 d1 have "enter_dir lc de (s, d, fs) = Done (True, s1, d1, ?fs\<lparr>fy_cwd := src @ r\<rparr>)"
    by (simp add: enter_dir_def on_src_def on_dst_def on_fs_def seq_step_def os_stat_def os_chdir_def)
  with s1(2,3) d1(2) mk that [of s1 d1 "?fs\<lparr>fy_cwd := src @ r\<rparr>"] show ?thesis by simp
qed

lemma holds_step:
  assumes lc: "alloc_total lc" and s: "holds s (p @ r @ ''/'')" and n: "name_ok n" and len: "length (p @ r @ CHR ''/'' # n) < 2 ^ 31"
  obtains s1 s2 where "string_concat lc s n = Done (True, s1)" "fs_ensure_suffix lc s1 = Done (True, s2)"
    "holds s2 (p @ (r @ CHR ''/'' # n) @ ''/'')"
proof -
  have "length ((p @ r @ ''/'') @ n) < 2 ^ 32" using len by simp
  from holds_concat [OF s lc this] obtain s1 where s1: "string_concat lc s n = Done (True, s1)" "holds s1 ((p @ r) @ CHR ''/'' # n)"
    by auto
  have "Suc (length ((p @ r) @ CHR ''/'' # n)) < 2 ^ 32" using len by simp
  from holds_suffix [OF s1(2) lc this _ last_entry [OF n]] obtain s2 where
    "fs_ensure_suffix lc s1 = Done (True, s2)" "holds s2 ((p @ r @ CHR ''/'' # n) @ ''/'')" by auto
  with s1(1) that show ?thesis by simp
qed

lemma descend_goes:
  assumes lc: "alloc_total lc" and s: "holds s (src @ r @ ''/'')" and d: "holds d (dst @ r @ ''/'')" and n: "name_ok n"
    and len: "length (src @ r @ CHR ''/'' # n) < 2 ^ 31" "length (dst @ r @ CHR ''/'' # n) < 2 ^ 31"
  obtains s' d' where "descend lc n (s, d, fs) = Done (True, s', d', fs)"
    "holds s' (src @ (r @ CHR ''/'' # n) @ ''/'')" "holds d' (dst @ (r @ CHR ''/'' # n) @ ''/'')"
proof -
  obtain s1 s2 where s2: "string_concat lc s n = Done (True, s1)" "fs_ensure_suffix lc s1 = Done (True, s2)"
    "holds s2 (src @ (r @ CHR ''/'' # n) @ ''/'')" by (rule holds_step [OF lc s n len(1)])
  obtain d1 d2 where d2: "string_concat lc d n = Done (True, d1)" "fs_ensure_suffix lc d1 = Done (True, d2)"
    "holds d2 (dst @ (r @ CHR ''/'' # n) @ ''/'')" by (rule holds_step [OF lc d n len(2)])
  from s2(1,2) d2(1,2) have "descend lc n (s, d, fs) = Done (True, s2, d2, fs)"
    by (simp add: descend_def on_src_def on_dst_def seq_step_def)
  with s2(3) d2(3) that show ?thesis by blast
qed

lemma ascend_returns:
  assumes lc: "alloc_total lc" and ok: "path_ok (src @ r)" "path_ok (dst @ r)"
    and s: "holds s (src @ (r @ CHR ''/'' # n) @ ''/'')" and d: "holds d (dst @ (r @ CHR ''/'' # n) @ ''/'')"
    and len: "unat ls = length (src @ r @ ''/'')" "unat ld = length (dst @ r @ ''/'')"
    and fs: "fy_links fs (src @ r) = None" "src @ r \<in> fy_dirs fs" "de_chdir de (src @ r)"
  obtains s' d' where "ascend lc de ls ld (s, d, fs) = Done (True, s', d', fs\<lparr>fy_cwd := src @ r\<rparr>)"
    "holds s' (src @ r @ ''/'')" "holds d' (dst @ r @ ''/'')"
proof -
  have c: "cstr (src @ r @ ''/'') = src @ r @ ''/''" using ok(1) by (simp add: path_ok_def cstr_simps)
  have s1: "holds (s\<lparr>sb_length := ls\<rparr>) (src @ r @ ''/'')" using holds_cut [of s "src @ r @ ''/''" "n @ ''/''" ls] s len(1) by simp
  have d1: "holds (d\<lparr>sb_length := ld\<rparr>) (dst @ r @ ''/'')" using holds_cut [of d "dst @ r @ ''/''" "n @ ''/''" ld] d len(2) by simp
  obtain s2 where s2: "string_ensurez lc (s\<lparr>sb_length := ls\<rparr>) = Done (True, s2)" "holds s2 (src @ r @ ''/'')" "string_cstr s2 = src @ r @ ''/''"
    by (rule holds_ensurez [OF s1 lc]) (use c in simp_all)
  obtain d2 where d2: "string_ensurez lc (d\<lparr>sb_length := ld\<rparr>) = Done (True, d2)" "holds d2 (dst @ r @ ''/'')"
    by (rule holds_ensurez [OF d1 lc]) simp_all
  have "os_chdir de (src @ r @ ''/'') fs = (True, fs\<lparr>fy_cwd := src @ r\<rparr>)"
    using fs resolve_below [OF ok(1) fs(1)] by (simp add: os_chdir_def)
  with s2 d2 have "ascend lc de ls ld (s, d, fs) = Done (True, s2, d2, fs\<lparr>fy_cwd := src @ r\<rparr>)"
    by (simp add: ascend_def on_src_def on_dst_def on_fs_def ignore_result_def seq_step_def)
  with s2(2) d2(2) that show ?thesis by blast
qed


section \<open>The whole tree\<close>

text \<open>What the copy of some files leads to: the buffers hold the directory again, and the files have been copied.\<close>

definition copies :: "fsys \<Rightarrow> string \<Rightarrow> string \<Rightarrow> string \<Rightarrow> string list \<Rightarrow> fsys \<Rightarrow> cpstate \<Rightarrow> bool" where
  "copies fs0 src dst r qs fs st \<longleftrightarrow>
     (case st of (s, d, fs') \<Rightarrow> holds s (src @ r @ ''/'') \<and> holds d (dst @ r @ ''/'') \<and> cp_inv fs0 src dst fs'
        \<and> fy_cwd fs' = src @ r \<and> fy_files fs' = copy_files fs0 src dst qs (fy_files fs) \<and> fy_dirs fs \<subseteq> fy_dirs fs')"

lemma copies_trans:
  "copies fs0 src dst r qs fs (s, d, fs1) \<Longrightarrow> copies fs0 src dst r qs' fs1 st \<Longrightarrow> copies fs0 src dst r (qs @ qs') fs st"
  by (auto simp: copies_def copy_files_append)

lemma copies_files: "copies fs0 src dst r qs fs st \<Longrightarrow> fy_files fs' = fy_files fs \<Longrightarrow> fy_dirs fs' \<subseteq> fy_dirs fs \<Longrightarrow> copies fs0 src dst r qs fs' st"
  by (auto simp: copies_def)

lemma copies_refl:
  "holds s (src @ r @ ''/'') \<Longrightarrow> holds d (dst @ r @ ''/'') \<Longrightarrow> cp_inv fs0 src dst fs \<Longrightarrow> fy_cwd fs = src @ r \<Longrightarrow>
   copies fs0 src dst r [] fs (s, d, fs)"
  by (simp add: copies_def)

lemma stat_entry:
  assumes "path_ok (src @ r)" and "name_ok n" and "below r" and "q = r @ CHR ''/'' # n" and "no_links fs src dst" and "fy_cwd fs = src @ r"
  shows "os_stat fs n = (if src @ q \<in> fy_dirs fs then Some S_DIR
     else map_option (\<lambda>(data, mode). S_REG mode (length data)) (fy_files fs (src @ q)))"
proof -
  have "resolve fs n = src @ q"
    using abs_path_entry(2) [OF assms(1,2,6)] assms(3-5) by (simp add: resolve_def no_links_def)
  then show ?thesis by (simp add: os_stat_def)
qed

lemma copyable_length:
  "copyable depth de names fs src dst q \<Longrightarrow> length (src @ q) < 2 ^ 31 \<and> length (dst @ q) < 2 ^ 31"
  by (cases depth) auto

text \<open>A directory inside: down, through it, and back.\<close>

lemma copy_subdir:
  assumes lc: "alloc_total lc" and l: "no_links fs0 src dst"
    and ih: "\<And>s d fs. cp_inv fs0 src dst fs \<Longrightarrow> holds s (src @ q @ ''/'') \<Longrightarrow> holds d (dst @ q @ ''/'') \<Longrightarrow>
      \<exists>st. handledir depth lc se de (s, d, fs) = Done (True, st) \<and> copies fs0 src dst q qs fs st"
    and q: "q = r @ CHR ''/'' # n" "name_ok n" "below r" "length (src @ q) < 2 ^ 31" "length (dst @ q) < 2 ^ 31"
    and ok: "path_ok (src @ r)" "path_ok (dst @ r)" and m: "src @ r \<in> fy_dirs fs0" "de_chdir de (src @ r)"
    and i: "cp_inv fs0 src dst fs" and s: "holds s (src @ r @ ''/'')" and d: "holds d (dst @ r @ ''/'')"
  shows "\<exists>st. seq_step (descend lc n (s, d, fs)) (\<lambda>st. seq_step (handledir depth lc se de st)
       (ascend lc de (sb_length s) (sb_length d))) = Done (True, st) \<and> copies fs0 src dst r qs fs st"
proof -
  have len: "length (src @ r @ CHR ''/'' # n) < 2 ^ 31" "length (dst @ r @ CHR ''/'' # n) < 2 ^ 31" using q by simp_all
  obtain s1 d1 where 1: "descend lc n (s, d, fs) = Done (True, s1, d1, fs)" "holds s1 (src @ q @ ''/'')" "holds d1 (dst @ q @ ''/'')"
    unfolding q(1) by (rule descend_goes [OF lc s d q(2) len])
  from ih [OF i 1(2,3)] obtain s2 d2 fs2 where 2: "handledir depth lc se de (s1, d1, fs) = Done (True, s2, d2, fs2)"
    "copies fs0 src dst q qs fs (s2, d2, fs2)" by auto
  then have h: "holds s2 (src @ (r @ CHR ''/'' # n) @ ''/'')" "holds d2 (dst @ (r @ CHR ''/'' # n) @ ''/'')"
    and i2: "cp_inv fs0 src dst fs2" by (simp_all add: copies_def q(1))
  have "fy_links fs2 (src @ r) = None" "src @ r \<in> fy_dirs fs2"
    using no_links_cp_inv [OF i2 l] q(3) i2 m(1) by (auto simp: no_links_def cp_inv_def)
  with ascend_returns [OF lc ok h holds_length [OF s] holds_length [OF d] _ _ m(2)] obtain s3 d3 where
    3: "ascend lc de (sb_length s) (sb_length d) (s2, d2, fs2) = Done (True, s3, d3, fs2\<lparr>fy_cwd := src @ r\<rparr>)"
    "holds s3 (src @ r @ ''/'')" "holds d3 (dst @ r @ ''/'')" by metis
  with 2(2) have "copies fs0 src dst r qs fs (s3, d3, fs2\<lparr>fy_cwd := src @ r\<rparr>)" by (auto simp: copies_def)
  with 1(1) 2(1) 3(1) show ?thesis by (simp add: seq_step_def)
qed

lemma copy_next_entry:
  assumes lc: "alloc_total lc" "env_grants se" and ap: "apart src dst" and l: "no_links fs0 src dst"
    and ih: "\<And>q s d fs. copyable depth de names fs0 src dst q \<Longrightarrow> below q \<Longrightarrow> path_ok (src @ q) \<Longrightarrow> path_ok (dst @ q) \<Longrightarrow>
      cp_inv fs0 src dst fs \<Longrightarrow> holds s (src @ q @ ''/'') \<Longrightarrow> holds d (dst @ q @ ''/'') \<Longrightarrow>
      \<exists>st. handledir depth lc se de (s, d, fs) = Done (True, st) \<and> copies fs0 src dst q (tree_files depth names fs0 src q) fs st"
    and n: "entry_ok (copyable depth de names fs0 src dst) de fs0 src dst r n" and r: "below r"
    and ok: "path_ok (src @ r)" "path_ok (dst @ r)" "length (dst @ r) < 2 ^ 31" and m: "src @ r \<in> fy_dirs fs0" "de_chdir de (src @ r)"
    and st: "copies fs0 src dst r qs fs1 (s, d, fs)"
  shows "\<exists>st'. dir_entries depth lc se de (n # ns) (s, d, fs) = dir_entries depth lc se de ns st'
     \<and> copies fs0 src dst r (entry_files (tree_files depth names fs0 src) fs0 src r n) fs st'"
proof -
  define q where "q = r @ CHR ''/'' # n"
  from st have i: "cp_inv fs0 src dst fs" and cwd: "fy_cwd fs = src @ r" and s: "holds s (src @ r @ ''/'')" and d: "holds d (dst @ r @ ''/'')"
    by (simp_all add: copies_def)
  have no: "name_ok n" "length n < 256" and q: "below q" using n r by (simp_all add: entry_ok_def Let_def q_def)
  have same: "src @ q \<in> fy_dirs fs \<longleftrightarrow> src @ q \<in> fy_dirs fs0" "fy_files fs (src @ q) = fy_files fs0 (src @ q)"
    using cp_inv_dirs [OF i q] cp_inv_files [OF i q] by simp_all
  have stat: "os_stat fs n = (if src @ q \<in> fy_dirs fs0 then Some S_DIR
     else map_option (\<lambda>(data, mode). S_REG mode (length data)) (fy_files fs0 (src @ q)))"
    using stat_entry [OF ok(1) no(1) r q_def no_links_cp_inv [OF i l] cwd] same by simp

  consider (skip) "dot_name n \<or> src @ q \<notin> fy_dirs fs0 \<and> fy_files fs0 (src @ q) = None"
    | (dir) "\<not> dot_name n" "src @ q \<in> fy_dirs fs0"
    | (reg) fl where "\<not> dot_name n" "src @ q \<notin> fy_dirs fs0" "fy_files fs0 (src @ q) = Some fl"
    by (cases "fy_files fs0 (src @ q)") blast+
  then show ?thesis
  proof cases
    case skip
    then have "dir_entries depth lc se de (n # ns) (s, d, fs) = dir_entries depth lc se de ns (s, d, fs)"
      using stat by (auto split: option.splits)
    moreover have "entry_files (tree_files depth names fs0 src) fs0 src r n = []" using skip by (auto simp: entry_files_def Let_def q_def)
    ultimately show ?thesis using copies_refl [OF s d i cwd] by auto
  next
    case dir
    then have t: "copyable depth de names fs0 src dst q" using n by (simp add: entry_ok_def Let_def q_def)
    have okq: "path_ok (src @ q)" "path_ok (dst @ q)"
      using path_ok_entry [OF ok(1) no(1)] path_ok_entry [OF ok(2) no(1)] by (simp_all add: q_def)
    from copyable_length [OF t] have len: "length (src @ q) < 2 ^ 31" "length (dst @ q) < 2 ^ 31" by simp_all
    from copy_subdir [OF lc(1) l ih [OF t q okq] q_def no(1) r len ok(1,2) m i s d] obtain s' d' fs' where
      c: "seq_step (descend lc n (s, d, fs)) (\<lambda>st. seq_step (handledir depth lc se de st)
        (ascend lc de (sb_length s) (sb_length d))) = Done (True, s', d', fs')"
      "copies fs0 src dst r (tree_files depth names fs0 src q) fs (s', d', fs')" by auto
    then have "dir_entries depth lc se de (n # ns) (s, d, fs) = dir_entries depth lc se de ns (s', d', fs')"
      using stat dir by (auto simp: seq_step_def run_simps split: if_splits)
    moreover have "entry_files (tree_files depth names fs0 src) fs0 src r n = tree_files depth names fs0 src q"
      using dir by (simp add: entry_files_def Let_def q_def)
    ultimately show ?thesis using c(2) by auto
  next
    case reg
    then have may: "de_open_r de (src @ q)" "dst @ q \<notin> fy_dirs fs0" using n by (simp_all add: entry_ok_def Let_def q_def)
    then have "dst @ q \<notin> fy_dirs fs" using i q reg(2) by (auto simp: cp_inv_def)
    moreover have "fy_files fs (src @ q) = Some fl" "src @ q \<notin> fy_dirs fs" using same reg by simp_all
    ultimately obtain d' where c: "copy_entry lc se de n (sb_length d) (s, d, fs)
        = Done (True, s, d', fs\<lparr>fy_files := (fy_files fs)(dst @ q \<mapsto> copied fl (fy_files fs (dst @ q)))\<rparr>)" "holds d' (dst @ r @ ''/'')"
      using copy_entry_copies [OF lc ok no r q_def no_links_cp_inv [OF i l] cwd _ _ may(1) _ d, of fl s] by metis
    have "copies fs0 src dst r [q] fs (s, d', fs\<lparr>fy_files := (fy_files fs)(dst @ q \<mapsto> copied fl (fy_files fs (dst @ q)))\<rparr>)"
      using s c(2) cwd cp_inv_file [OF i ap q] reg(3) by (simp add: copies_def copy_files_one)
    moreover have "entry_files (tree_files depth names fs0 src) fs0 src r n = [q]" using reg by (simp add: entry_files_def Let_def q_def)
    ultimately show ?thesis using stat reg c(1) by (auto simp: seq_step_def split: prod.splits)
  qed
qed


lemma copy_entries:
  assumes lc: "alloc_total lc" "env_grants se" and ap: "apart src dst" and l: "no_links fs0 src dst"
    and ih: "\<And>q s d fs. copyable depth de names fs0 src dst q \<Longrightarrow> below q \<Longrightarrow> path_ok (src @ q) \<Longrightarrow> path_ok (dst @ q) \<Longrightarrow>
      cp_inv fs0 src dst fs \<Longrightarrow> holds s (src @ q @ ''/'') \<Longrightarrow> holds d (dst @ q @ ''/'') \<Longrightarrow>
      \<exists>st. handledir depth lc se de (s, d, fs) = Done (True, st) \<and> copies fs0 src dst q (tree_files depth names fs0 src q) fs st"
    and r: "below r" and ok: "path_ok (src @ r)" "path_ok (dst @ r)" "length (dst @ r) < 2 ^ 31"
    and m: "src @ r \<in> fy_dirs fs0" "de_chdir de (src @ r)"
  shows "list_all (entry_ok (copyable depth de names fs0 src dst) de fs0 src dst r) ns \<Longrightarrow>
    copies fs0 src dst r [] fs (s, d, fs) \<Longrightarrow>
    \<exists>st. dir_entries depth lc se de ns (s, d, fs) = Done (True, st)
      \<and> copies fs0 src dst r (concat (map (entry_files (tree_files depth names fs0 src) fs0 src r) ns)) fs st"
proof (induction ns arbitrary: s d fs)
  case (Cons n ns)
  from Cons.prems(1) have n: "entry_ok (copyable depth de names fs0 src dst) de fs0 src dst r n"
    "list_all (entry_ok (copyable depth de names fs0 src dst) de fs0 src dst r) ns" by simp_all
  from copy_next_entry [OF lc ap l ih n(1) r ok m Cons.prems(2), of ns] obtain st1 where
    0: "dir_entries depth lc se de (n # ns) (s, d, fs) = dir_entries depth lc se de ns st1"
    "copies fs0 src dst r (entry_files (tree_files depth names fs0 src) fs0 src r n) fs st1" by blast
  obtain s1 d1 fs1 where "st1 = (s1, d1, fs1)" by (cases st1)
  note 1 = 0 [unfolded this]
  then have "copies fs0 src dst r [] fs1 (s1, d1, fs1)" by (simp add: copies_def)
  from Cons.IH [OF n(2) this] obtain st where "dir_entries depth lc se de ns (s1, d1, fs1) = Done (True, st)"
    "copies fs0 src dst r (concat (map (entry_files (tree_files depth names fs0 src) fs0 src r) ns)) fs1 st" by blast
  with 1 copies_trans show ?case by fastforce
qed auto

lemma copy_tree:
  assumes lc: "alloc_total lc" "env_grants se" and ap: "apart src dst" and l: "no_links fs0 src dst"
    and list: "\<And>fs p. de_list de fs p = Some (names p)"
  shows "copyable depth de names fs0 src dst r \<Longrightarrow> below r \<Longrightarrow> path_ok (src @ r) \<Longrightarrow> path_ok (dst @ r) \<Longrightarrow>
    cp_inv fs0 src dst fs \<Longrightarrow> holds s (src @ r @ ''/'') \<Longrightarrow> holds d (dst @ r @ ''/'') \<Longrightarrow>
    \<exists>st. handledir depth lc se de (s, d, fs) = Done (True, st) \<and> copies fs0 src dst r (tree_files depth names fs0 src r) fs st"
proof (induction depth arbitrary: r s d fs)
  case (Suc depth)
  from Suc.prems(1) have t: "length (dst @ r) < 2 ^ 31" "src @ r \<in> fy_dirs fs0" "de_chdir de (src @ r)"
    "list_all (entry_ok (copyable depth de names fs0 src dst) de fs0 src dst r) (names (src @ r))" by simp_all
  obtain s1 d1 fs1 where 1: "enter_dir lc de (s, d, fs) = Done (True, s1, d1, fs1)" "holds s1 (src @ r @ ''/'')" "holds d1 (dst @ r @ ''/'')"
    "string_cstr s1 = src @ r @ ''/''" "cp_inv fs0 src dst fs1" "fy_cwd fs1 = src @ r" "fy_files fs1 = fy_files fs" "fy_dirs fs \<subseteq> fy_dirs fs1"
    by (rule enter_dir_enters [OF lc(1) Suc.prems(3,4,2) ap l Suc.prems(5) t(2,3) Suc.prems(6,7)])
  have "copies fs0 src dst r [] fs1 (s1, d1, fs1)" using 1 by (simp add: copies_def)
  from copy_entries [OF lc ap l Suc.IH Suc.prems(2-4) t(1-4) this] obtain st where
    2: "dir_entries depth lc se de (names (src @ r)) (s1, d1, fs1) = Done (True, st)"
    "copies fs0 src dst r (tree_files (Suc depth) names fs0 src r) fs1 st" by auto
  have "fy_links fs1 (src @ r) = None" using no_links_cp_inv [OF 1(5) l] Suc.prems(2) by (simp add: no_links_def)
  then have "resolve fs1 (src @ r @ ''/'') = src @ r" by (rule resolve_below [OF Suc.prems(3)])
  then have "handledir (Suc depth) lc se de (s, d, fs) = Done (True, st)" using 1(1,4) 2(1) list by simp
  with copies_files [OF 2(2)] 1(7,8) show ?case by metis
qed simp

section \<open>The operation\<close>

lemma start_dir_holds:
  assumes lc: "alloc_total lc" and p: "path_ok p" "length p < 2 ^ 31"
  obtains s where "seq_step (start_path lc de fs p) (fs_ensure_suffix lc) = Done (True, s)" "holds s (p @ ''/'')"
proof -
  obtain s1 where s1: "start_path lc de fs p = Done (True, s1)" "holds s1 p" by (rule start_path_holds [OF lc p])
  have "Suc (length p) < 2 ^ 32" "p \<noteq> []" "last p \<noteq> CHR ''/''" using p by (simp_all add: path_ok_def)
  from holds_suffix [OF s1(2) lc this] obtain s2 where "fs_ensure_suffix lc s1 = Done (True, s2)" "holds s2 (p @ ''/'')" by metis
  with s1(1) that show ?thesis by (simp add: seq_step_def)
qed

lemma cp_inv_refl: "cp_inv fs src dst fs"
  by (simp add: cp_inv_def)

lemma cp_r_copies:
  assumes lc: "alloc_total lc" "env_grants se" and cwd: "cwd_ok de fs" and ap: "apart src dst" and l: "no_links fs src dst"
    and ok: "path_ok src" "path_ok dst" and list: "\<And>fs p. de_list de fs p = Some (names p)"
    and t: "copyable depth de names fs src dst []"
  shows "\<exists>dirs. fs_cp_r depth lc se de src dst fs
       = Done (True, fs\<lparr>fy_files := copy_files fs src dst (tree_files depth names fs src []) (fy_files fs), fy_dirs := dirs\<rparr>)
     \<and> fy_dirs fs \<subseteq> dirs \<and> (\<forall>p \<in> dirs. p \<in> fy_dirs fs \<or> prefix dst p)"
proof -
  have len: "length src < 2 ^ 31" "length dst < 2 ^ 31" using copyable_length [OF t] by simp_all
  obtain s where s: "seq_step (start_path lc de fs src) (fs_ensure_suffix lc) = Done (True, s)" "holds s (src @ [] @ ''/'')"
    using start_dir_holds [OF lc(1) ok(1) len(1)] by auto
  obtain d where d: "seq_step (start_path lc de fs dst) (fs_ensure_suffix lc) = Done (True, d)" "holds d (dst @ [] @ ''/'')"
    using start_dir_holds [OF lc(1) ok(2) len(2)] by auto
  have "below []" "path_ok (src @ [])" "path_ok (dst @ [])" using ok by (simp_all add: below_def)
  from copy_tree [OF lc ap l list t this cp_inv_refl s(2) d(2)] obtain s' d' fs' where
    h: "handledir depth lc se de (s, d, fs) = Done (True, s', d', fs')"
    and c: "copies fs src dst [] (tree_files depth names fs src []) fs (s', d', fs')" by auto
  let ?body = "\<lambda>fs. run_bind (seq_step (start_path lc de fs src) (fs_ensure_suffix lc)) (\<lambda>(ok, source).
         if \<not> ok then Done (False, fs)
         else run_bind (seq_step (start_path lc de fs dst) (fs_ensure_suffix lc)) (\<lambda>(ok, destination).
           if \<not> ok then Done (False, fs)
           else run_bind (handledir depth lc se de (source, destination, fs)) (\<lambda>(ok, _, _, fs). Done (ok, fs))))"
  have body: "?body fs = Done (True, fs')" using s(1) d(1) h by simp
  have k: "fy_links fs' (fy_cwd fs) = None" "fy_dirs fs \<subseteq> fy_dirs fs'"
    using cwd c by (auto simp: cwd_ok_def copies_def cp_inv_def)
  from keeping_cwd_returns [where body = ?body, OF lc(1) cwd body k(2,1)]
  have "fs_cp_r depth lc se de src dst fs = Done (True, fs'\<lparr>fy_cwd := fy_cwd fs\<rparr>)" by (simp add: fs_cp_r_def)
  moreover have "fs'\<lparr>fy_cwd := fy_cwd fs\<rparr>
      = fs\<lparr>fy_files := copy_files fs src dst (tree_files depth names fs src []) (fy_files fs), fy_dirs := fy_dirs fs'\<rparr>"
    using c by (simp add: copies_def cp_inv_def)
  moreover have "\<forall>p \<in> fy_dirs fs'. p \<in> fy_dirs fs \<or> prefix dst p" using c by (simp add: copies_def cp_inv_def)
  ultimately show ?thesis using k(2) by (intro exI [of _ "fy_dirs fs'"]) simp
qed


text \<open>A small tree, and an older copy of one of its files.\<close>

definition tree_names :: "string \<Rightarrow> string list" where
  "tree_names p = (if p = ''/b'' then [''.'', ''tinc.conf'', ''hosts''] else if p = ''/b/hosts'' then [''you'', ''gone''] else [])"

definition tree_dir :: direnv where
  "tree_dir = (sample_dir [])\<lparr>de_list := (\<lambda>_ p. Some (tree_names p))\<rparr>"

definition tree_fs :: fsys where
  "tree_fs = \<lparr>fy_files = [''/b/hosts/you'' \<mapsto> (''x'', 384), ''/b/tinc.conf'' \<mapsto> (''y'', 384), ''/b.old/tinc.conf'' \<mapsto> (''old'', 420)],
     fy_links = Map.empty, fy_dirs = {''/b'', ''/b/hosts'', ''/b.old''}, fy_cwd = ''/b''\<rparr>"

lemma tree_sample_files: "tree_files (Suc (Suc 0)) tree_names tree_fs ''/b'' [] = [''/tinc.conf'', ''/hosts/you'']"
  by (simp add: tree_names_def tree_fs_def entry_files_def dot_name_def)

lemma tree_sample_ok: "copyable (Suc (Suc 0)) tree_dir tree_names tree_fs ''/b'' ''/b.old'' []"
  by (simp add: tree_names_def tree_fs_def tree_dir_def sample_dir_def entry_ok_def dot_name_def name_ok_def)


end
