(* ===== verification/Apply.thy ===== *)
theory Apply
  imports Request Fscopy
begin

text \<open>
  What \<open>main_fetch_and_apply_config\<close> of \<^verbatim>\<open>src/main.c\<close> may apply, and what a successful update leaves on the
  disk.
\<close>

section \<open>What may be applied\<close>

lemma read_chunks_returns:
  "read_chunks lc data s = Done (ok, s') \<Longrightarrow> buf_ok s \<Longrightarrow> buf_ok s' \<and> (ok \<longrightarrow> content s' = content s @ data)"
proof (induction lc data s arbitrary: ok s' rule: read_chunks.induct)
  case (1 lc data s)
  show ?case
  proof (cases "data = []")
    case True
    with "1.prems" show ?thesis by (simp add: read_chunks.simps)
  next
    case False
    with "1.prems"(1) obtain ok1 s1 where c: "string_concatb lc s (take 4096 data) = Done (ok1, s1)"
      "(if \<not> ok1 then Done (False, s1) else read_chunks lc (drop 4096 data) s1) = Done (ok, s')"
      by (subst (asm) read_chunks.simps) (auto simp: run_simps)
    from string_concatb_returns [OF "1.prems"(2) c(1)]
    have s1: "buf_ok s1" "ok1 \<Longrightarrow> content s1 = content s @ take 4096 data" by simp_all
    show ?thesis
    proof (cases ok1)
      case True
      with c have "read_chunks lc (drop 4096 data) s1 = Done (ok, s')" by simp
      from "1.IH" [OF False _ this s1(1)] True s1(2) show ?thesis
        by auto
    qed (use c s1 in auto)
  qed
qed

lemma load_previous_returns:
  assumes r: "main_load_previous_config lc se cfg files cnf = Done (True, cnf')" and ok: "buf_ok cnf"
  shows "buf_ok cnf' \<and> (\<exists>path data mode. cf_tmpconffile cfg = Some path \<and> files (canon path) = Some (data, mode)
     \<and> content cnf' = content cnf @ data)"
proof -
  from r obtain path c where p: "cf_tmpconffile cfg = Some path" "fs_read_file lc se files cnf path = Done (True, c)"
    "\<exists>b. string_ensurez lc c = Done (b, cnf')"
    by (cases "cf_tmpconffile cfg") (auto simp: main_load_previous_config_def run_simps split: if_splits)
  from p(2) obtain data mode where d: "files (canon path) = Some (data, mode)" "read_chunks lc data cnf = Done (True, c)"
    by (auto simp: fs_read_file_def run_simps split: option.splits if_splits)
  from read_chunks_returns [OF d(2) ok] have c: "buf_ok c" "content c = content cnf @ data" by simp_all
  from p(3) obtain b where "string_ensurez lc c = Done (b, cnf')" by blast
  from string_ensurez_returns [OF c(1) this] c(2) d(1) p(1) show ?thesis by simp
qed

text \<open>The text an update works with is signed, or it is the saved copy.\<close>

definition may_apply :: "('a, 'k, 'z) platform \<Rightarrow> config \<Rightarrow> string \<Rightarrow> files \<Rightarrow> char list \<Rightarrow> bool" where
  "may_apply pf cfg pem files data \<longleftrightarrow>
     signed_by (pf_ssl pf) pem data
     \<or> (case cf_tmpconffile cfg of None \<Rightarrow> False | Some path \<Rightarrow> map_option fst (files (canon path)) = Some data)"

lemma fetch_text_origin:
  assumes r: "fetch_text pf cfg files = Done (True, cfg', resp)" and key: "cf_masterdata_signkey cfg = Some pem" "pem \<noteq> []"
  shows "buf_ok resp \<and> may_apply pf cfg pem files (content resp)"
proof -
  have init: "buf_ok (string_init (pf_libc pf) 4096 512)" by (auto simp: string_init_def buf_ok_def)
  from r obtain err cfg1 resp1 where q: "main_request_config pf cfg (string_init (pf_libc pf) 4096 512) = Done (err, cfg1, resp1)"
    "if err < 1 then main_load_previous_config (pf_libc pf) (pf_sys pf) cfg1 files (string_free resp1) = Done (True, resp) \<and> cfg' = cfg1
     else cfg' = cfg1 \<and> resp = resp1"
    by (auto simp: fetch_text_def run_simps split: if_splits)
  note s = request_config_returns [OF q(1) key init]
  show ?thesis
  proof (cases "err < 1")
    case True
    have f: "buf_ok (string_free resp1)" "content (string_free resp1) = []"
      using s by (auto simp: string_free_def buf_ok_def content_def)
    have "cf_tmpconffile cfg1 = cf_tmpconffile cfg" using s by auto
    with load_previous_returns [OF _ f(1), of "pf_libc pf" "pf_sys pf" cfg1 files resp] q(2) True f(2)
    show ?thesis by (auto simp: may_apply_def)
  next
    case False
    then have "err = 1" using s by simp
    with request_config_verified [OF _ key init] q False show ?thesis by (auto simp: may_apply_def)
  qed
qed

lemma tempsave_returns:
  assumes "main_tempsave_fetched_config lc se cfg cnf files = Done (cnf', files')" and "buf_ok cnf"
  shows "buf_ok cnf' \<and> content cnf' = content cnf"
proof -
  have "returns (\<lambda>(s, _). buf_ok s \<and> content s = content cnf) (main_tempsave_fetched_config lc se cfg cnf files)"
    using assms(2) by (auto simp: main_tempsave_fetched_config_def Let_def split: prod.split intro!: string_ensurez_step)
  from returnsD [OF this assms(1)] show ?thesis by simp
qed

lemma fetch_and_apply_origin:
  assumes r: "main_fetch_and_apply_config pf (cfg, oldconfig, fs) = Done (r, cfg', oldconfig', fs')"
    and key: "cf_masterdata_signkey cfg = Some pem" "pem \<noteq> []"
  shows "(r \<le> 0 \<and> oldconfig' = oldconfig \<and> fs' = fs) \<or> (r \<noteq> 0 \<and> may_apply pf cfg pem (fy_files fs) (content oldconfig'))"
proof -
  from r obtain ok cfg1 resp where f: "fetch_text pf cfg (fy_files fs) = Done (ok, cfg1, resp)"
    by (auto simp: main_fetch_and_apply_config_def Let_def run_simps)
  show ?thesis
  proof (cases "ok \<and> \<not> string_equals resp oldconfig")
    case False
    then show ?thesis using r f by (auto simp: main_fetch_and_apply_config_def Let_def split: if_splits)
  next
    case True
    then have f: "fetch_text pf cfg (fy_files fs) = Done (True, cfg1, resp)" "\<not> string_equals resp oldconfig" using f by simp_all
    note o = fetch_text_origin [OF f(1) key]
    from r f obtain ok2 cfg2 where p: "main_parse_config (pf_libc pf) resp cfg1 = Done (ok2, cfg2)"
      by (auto simp: main_fetch_and_apply_config_def Let_def run_simps)
    show ?thesis
    proof (cases ok2)
      case False
      then show ?thesis using r f p by (simp add: main_fetch_and_apply_config_def Let_def)
    next
      case True
      from r f p True obtain cnf files ok3 where
        t: "main_tempsave_fetched_config (pf_libc pf) (pf_sys pf) cfg2 resp (fy_files fs) = Done (cnf, files)"
        and i: "install_config pf cfg2 (fs\<lparr>fy_files := files\<rparr>) = Done (ok3, fs')" "oldconfig' = cnf" "r = (if ok3 then 1 else - 1)"
        by (auto simp: main_fetch_and_apply_config_def Let_def run_simps string_move_def split: if_splits)
      with tempsave_returns [OF t] o show ?thesis by simp
    qed
  qed
qed

section \<open>What a successful update leaves\<close>

text \<open>The files of tincd, without dynamic routes, in a base directory.\<close>

definition installed :: "libc \<Rightarrow> config \<Rightarrow> string \<Rightarrow> peer_config \<Rightarrow> string \<Rightarrow> string \<Rightarrow> files \<Rightarrow> bool" where
  "installed lc cfg base me peerid version files \<longleftrightarrow>
     map_option fst (files (base @ ''/tinc.conf'')) = Some (tinc_conf_text cfg me peerid)
   \<and> (\<forall>p \<in> set (peers_of cfg).
        map_option fst (files (base @ ''/hosts/'' @ safe_name (pc_name p))) = Some (host_file_text cfg version peerid p))
   \<and> map_option fst (files (base @ ''/tinc-up'')) = Some (updown_text lc cfg True peerid)
   \<and> map_option fst (files (base @ ''/tinc-down'')) = Some (updown_text lc cfg False peerid)
   \<and> files (base @ ''/subnet-up'') = None \<and> files (base @ ''/subnet-down'') = None"

text \<open>What the writers rely on: a complete configuration, and texts that fit into memory.\<close>

definition writable :: "libc \<Rightarrow> sysenv \<Rightarrow> config \<Rightarrow> string \<Rightarrow> peer_config \<Rightarrow> string \<Rightarrow> string \<Rightarrow> bool" where
  "writable lc se cfg base me peerid version \<longleftrightarrow>
     alloc_total lc \<and> env_grants se \<and> getaddrinfo_sized lc \<and> ntop_text lc
   \<and> cf_base_path cfg = Some base \<and> path_ok base \<and> length base < 2 ^ 31
   \<and> cf_my_peer cfg = My_peer me \<and> cf_peerid cfg = Some peerid \<and> cf_tincd_version cfg = Some version
   \<and> (\<exists>key. buf_cstr (cf_ed25519publickey cfg) = Done key) \<and> \<not> cf_use_dynamic_routes cfg
   \<and> updown_ready lc cfg True \<and> updown_ready lc cfg False
   \<and> None \<notin> set (cf_peer_config cfg) \<and> distinct (map (\<lambda>p. safe_name (pc_name p)) (peers_of cfg))
   \<and> length (tinc_conf_text cfg me peerid) < 2 ^ 61
   \<and> list_all (\<lambda>p. length (host_file_text cfg version peerid p) < 2 ^ 61) (peers_of cfg)
   \<and> length (updown_text lc cfg True peerid) < 2 ^ 61 \<and> length (updown_text lc cfg False peerid) < 2 ^ 61"

lemma base_paths:
  assumes "path_ok base"
  shows "canon (base @ ''/tinc.conf'') = base @ ''/tinc.conf''" "canon (base @ ''/tinc-up'') = base @ ''/tinc-up''"
    "canon (base @ ''/tinc-down'') = base @ ''/tinc-down''" "canon (base @ ''/subnet-up'') = base @ ''/subnet-up''"
    "canon (base @ ''/subnet-down'') = base @ ''/subnet-down''" "canon (base @ ''/hosts/'' @ safe_name n) = base @ ''/hosts/'' @ safe_name n"
proof -
  have s: "canon (base @ CHR ''/'' # x) = base @ CHR ''/'' # x" if "CHR ''/'' \<notin> set x" for x
    using assms that by (intro canon_snoc) (simp_all add: path_ok_def)
  from s [of "''tinc.conf''"] s [of "''tinc-up''"] s [of "''tinc-down''"] s [of "''subnet-up''"] s [of "''subnet-down''"]
  show "canon (base @ ''/tinc.conf'') = base @ ''/tinc.conf''" "canon (base @ ''/tinc-up'') = base @ ''/tinc-up''"
    "canon (base @ ''/tinc-down'') = base @ ''/tinc-down''" "canon (base @ ''/subnet-up'') = base @ ''/subnet-up''"
    "canon (base @ ''/subnet-down'') = base @ ''/subnet-down''" by simp_all
  have "canon (base @ ''/hosts'') = base @ ''/hosts''" using s [of "''hosts''"] by simp
  from canon_snoc [OF this, of "safe_name n"] safe_name_no_slash [of n]
  show "canon (base @ ''/hosts/'' @ safe_name n) = base @ ''/hosts/'' @ safe_name n" by simp
qed

lemma write_tincd_files_installs:
  assumes w: "writable (pf_libc pf) (pf_sys pf) cfg base me peerid version"
  shows "\<exists>fs'. write_tincd_files pf cfg fs = Done (True, fs') \<and> installed (pf_libc pf) cfg base me peerid version (fy_files fs')"
proof -
  let ?lc = "pf_libc pf" and ?se = "pf_sys pf"
  from w obtain key where e: "alloc_total ?lc" "env_grants ?se" "getaddrinfo_sized ?lc" "ntop_text ?lc"
    and b0: "cf_base_path cfg = Some base" "length base < 2 ^ 31" "path_ok base"
    and c: "cf_my_peer cfg = My_peer me" "cf_peerid cfg = Some peerid" "cf_tincd_version cfg = Some version"
      "buf_cstr (cf_ed25519publickey cfg) = Done key" "\<not> cf_use_dynamic_routes cfg"
    and r: "updown_ready ?lc cfg True" "updown_ready ?lc cfg False"
    and d: "distinct (map (\<lambda>p. safe_name (pc_name p)) (peers_of cfg))" and all: "None \<notin> set (cf_peer_config cfg)"
    and l: "length (tinc_conf_text cfg me peerid) < 2 ^ 61"
      "list_all (\<lambda>p. length (host_file_text cfg version peerid p) < 2 ^ 61) (peers_of cfg)"
      "length (updown_text ?lc cfg True peerid) < 2 ^ 61" "length (updown_text ?lc cfg False peerid) < 2 ^ 61"
    unfolding writable_def by blast
  have "c_text base" using b0(2,3) by (simp add: c_text_def path_ok_def)
  note b = b0(1) this b0(2,3)
  note p = base_paths [OF b(4)]
  obtain m1 where f1: "tinc_write_config ?lc ?se cfg (fy_files fs)
      = Done (True, (fy_files fs)(base @ ''/tinc.conf'' \<mapsto> (tinc_conf_text cfg me peerid, m1)))"
    using write_config_spec [OF e(1,2) b(1-3) c(1,2) all l(1)] unfolding p by blast
  define fs1 where "fs1 = fs\<lparr>fy_files := (fy_files fs)(base @ ''/tinc.conf'' \<mapsto> (tinc_conf_text cfg me peerid, m1))\<rparr>"
  have hp: "host_path (base @ ''/hosts/'') q = base @ ''/hosts/'' @ safe_name (pc_name q)" for q
    using canon_double [of "base @ ''/hosts''"] p(6) by (simp add: host_path_def)
  have dist: "distinct (map (host_path (base @ ''/hosts/'')) (peers_of cfg))"
    using d unfolding hp distinct_map inj_on_def by simp
  from write_hosts_spec [OF e(1,2) b(1-3) c(3,2,4) l(2) dist all, of os_mkdir fs1 "fy_files fs1"] obtain dirs files2 where
    f2: "tinc_write_hosts ?lc ?se os_mkdir cfg fs1 (fy_files fs1) = Done (True, dirs, files2)"
      "\<forall>q \<in> set (peers_of cfg). map_option fst (files2 (base @ ''/hosts/'' @ safe_name (pc_name q))) = Some (host_file_text cfg version peerid q)"
      "\<forall>path. (\<forall>q \<in> set (peers_of cfg). path \<noteq> base @ ''/hosts/'' @ safe_name (pc_name q)) \<longrightarrow> files2 path = fy_files fs1 path"
    unfolding p by blast
  obtain m3 where f3: "tinc_write_updown ?lc ?se cfg True files2
      = Done (True, files2(base @ ''/tinc-up'' \<mapsto> (updown_text ?lc cfg True peerid, m3)))"
    using write_updown_spec [OF e(1-4) b(1-3) c(2) r(1) l(3), where files = files2] unfolding if_True p by blast
  define files3 where "files3 = files2(base @ ''/tinc-up'' \<mapsto> (updown_text ?lc cfg True peerid, m3))"
  obtain m4 where f4: "tinc_write_updown ?lc ?se cfg False files3
      = Done (True, files3(base @ ''/tinc-down'' \<mapsto> (updown_text ?lc cfg False peerid, m4)))"
    using write_updown_spec [OF e(1-4) b(1-3) c(2) r(2) l(4), where files = files3] unfolding if_False p by blast
  define files4 where "files4 = files3(base @ ''/tinc-down'' \<mapsto> (updown_text ?lc cfg False peerid, m4))"
  note su = write_subnetupdown_static_spec [OF e(1) b(1-3) c(5)]
  obtain links5 where f5: "tinc_write_subnetupdown ?lc ?se cfg True (files4, fy_links dirs) = Done (True, files4(base @ ''/subnet-up'' := None), links5)"
    unfolding su if_True Let_def p by blast
  obtain links6 where f6: "tinc_write_subnetupdown ?lc ?se cfg False (files4(base @ ''/subnet-up'' := None), links5)
      = Done (True, files4(base @ ''/subnet-up'' := None, base @ ''/subnet-down'' := None), links6)"
    unfolding su if_False Let_def p by blast
  let ?fs' = "dirs\<lparr>fy_files := files4(base @ ''/subnet-up'' := None, base @ ''/subnet-down'' := None), fy_links := links6\<rparr>"
  have "write_tincd_files pf cfg fs = Done (True, ?fs')"
    using f1 f2(1) f3 f4 f5 f6
    by (simp add: write_tincd_files_def Let_def on_files_def on_hosts_def on_links_def fs1_def flip: files3_def files4_def)
  moreover have "installed ?lc cfg base me peerid version (fy_files ?fs')"
    using f2(2,3) by (auto simp: installed_def files4_def files3_def fs1_def)
  ultimately show ?thesis by blast
qed

section \<open>Finding this node\<close>

lemma find_my_peer_last:
  "find_my_peer (Some name) (map Some ps) m =
     Done (let own = filter (\<lambda>p. pc_name p = name) ps in if own = [] then m else My_peer (last own))"
  by (induction ps arbitrary: m) auto

lemma parse_config_self:
  assumes "buf_cstr http_response = Done (Some data)" and "cf_peerid cfg = Some peerid"
    and "parser_parse_config lc data (cf_peer_config cfg) = Done (True, st)" and "ps_list st = map Some peers"
  shows "main_parse_config lc http_response cfg =
     (let own = filter (\<lambda>p. pc_name p = peerid) peers;
          my_peer = (if own = [] then cf_my_peer cfg else My_peer (last own))
      in Done (my_peer \<noteq> No_peer, cfg\<lparr>cf_peer_config := map Some peers, cf_my_peer := my_peer\<rparr>))"
  using assms by (simp add: main_parse_config_def Let_def find_my_peer_last)

lemma free_parsed_info:
  assumes "None \<notin> set (cf_peer_config cfg)" and "cf_my_peer cfg = My_peer me"
  shows "main_free_parsed_info cfg = Done (cfg\<lparr>cf_peer_config := [], cf_my_peer := Freed_peer\<rparr>)"
  using assms by (simp add: main_free_parsed_info_def parser_free_config_all)

section \<open>Nothing new\<close>

lemma string_free_fresh: "buf_ok s \<Longrightarrow> sb_growby s = 512 \<Longrightarrow> string_free s = string_lazyinit 512"
  by (cases "sb_s s") (simp_all add: string_free_def string_lazyinit_def buf_ok_def)

lemma load_saved:
  assumes lc: "alloc_total lc" and p: "cf_tmpconffile cfg = Some path" "path \<noteq> []"
    and f: "files (canon path) = Some (data, mode)" "\<not> se_read_error se path" and d: "data \<noteq> []" "length data < 2 ^ 32"
  obtains s where "main_load_previous_config lc se cfg files (string_lazyinit 512) = Done (True, s)" "buf_inv s" "content s = data"
    "buf_cstr s = Done (Some (cstr data))"
proof -
  have init: "buf_inv (string_lazyinit 512)" "content (string_lazyinit 512) = []" by (simp_all add: string_lazyinit_inv)
  have "length (content (string_lazyinit 512)) + length data < buf_limit" using init(2) d(2) by (simp add: buf_limit_def)
  from writes_total [OF read_chunks_writes lc init(1) this] init(2) obtain c where
    c: "read_chunks lc data (string_lazyinit 512) = Done (True, c)" "buf_inv c" "content c = data" by auto
  have "length (content c) + 1 \<le> buf_limit" "content c \<noteq> [] \<or> sb_s c = None" using c(3) d by (simp_all add: buf_limit_def)
  from string_ensurez_total [OF c(2) this(1) lc this(2)] c(3) obtain s where s:
    "string_ensurez lc c = Done (True, s)" "buf_inv s" "content s = data" "string_cstr s = cstr data" by auto
  moreover have "buf_cstr s = Done (Some (cstr data))"
    using string_ensurez_cstr [OF buf_inv_ok [OF c(2)] s(1)] c(3) d s(4) by simp
  ultimately show ?thesis using c(1) p f s(2,3) that by (simp add: main_load_previous_config_def fs_read_file_def)
qed

lemma fetch_and_apply_installs:
  assumes "fetch_text pf cfg (fy_files fs) = Done (True, cfg1, http_response)"
    and "\<not> string_equals http_response oldconfig"
    and "main_parse_config (pf_libc pf) http_response cfg1 = Done (True, cfg2)"
    and "main_tempsave_fetched_config (pf_libc pf) (pf_sys pf) cfg2 http_response (fy_files fs) = Done (cnf, saved)"
    and "main_create_backup pf cfg2 (fs\<lparr>fy_files := saved\<rparr>) = Done (backed_up, fs2)"
    and "main_cleanup_hosts_subdir pf cfg2 fs2 = Done (True, fs3)"
    and "writable (pf_libc pf) (pf_sys pf) cfg2 base me peerid version"
  shows "\<exists>fs'. main_fetch_and_apply_config pf (cfg, oldconfig, fs) = Done (1, cfg2\<lparr>cf_peer_config := [], cf_my_peer := Freed_peer\<rparr>, cnf, fs')
     \<and> installed (pf_libc pf) cfg2 base me peerid version (fy_files fs')"
proof -
  from write_tincd_files_installs [OF assms(7), of fs3] obtain fs' where
    w: "write_tincd_files pf cfg2 fs3 = Done (True, fs')" "installed (pf_libc pf) cfg2 base me peerid version (fy_files fs')" by blast
  have "install_config pf cfg2 (fs\<lparr>fy_files := saved\<rparr>) = Done (True, fs')"
    using assms(5,6) w(1) by (simp add: install_config_def ignore_result_def)
  moreover have "main_free_parsed_info cfg2 = Done (cfg2\<lparr>cf_peer_config := [], cf_my_peer := Freed_peer\<rparr>)"
    using assms(7) by (intro free_parsed_info) (auto simp: writable_def)
  ultimately show ?thesis using assms(1-4) w(2) by (simp add: main_fetch_and_apply_config_def Let_def string_move_def)
qed

section \<open>Properties\<close>

text \<open>
  C8: nothing but signed text is ever applied, except the copy saved before.  With a signing key configured, an
  update that ends with 0, or with -1 before anything was stored, has left the file system and the text applied
  last alone; otherwise the new text has been verified under that key, or it is exactly the saved copy.
\<close>

theorem main_fetch_and_apply_origin:
  assumes "main_fetch_and_apply_config pf (cfg, oldconfig, fs) = Done (r, cfg', oldconfig', fs')"
    and "cf_masterdata_signkey cfg = Some pem" and "pem \<noteq> []"
  shows "(r \<le> 0 \<and> oldconfig' = oldconfig \<and> fs' = fs) \<or> (r \<noteq> 0 \<and> may_apply pf cfg pem (fy_files fs) (content oldconfig'))"
  using assms by (rule fetch_and_apply_origin)

text \<open>
  when the server answers that nothing has changed and the saved copy is the text applied last, an update
  returns 0 and changes nothing, not even the time of the last request.
\<close>

theorem main_fetch_not_modified:
  assumes "alloc_total (pf_libc pf)" and "server_sends pf cfg 304 body"
    and "cf_tmpconffile cfg = Some path" and "path \<noteq> []" and "fy_files fs (canon path) = Some (data, mode)"
    and "\<not> se_read_error (pf_sys pf) path" and "data \<noteq> []" and "length data < 2 ^ 32"
    and "buf_ok oldconfig" and "content oldconfig = data"
  shows "main_fetch_and_apply_config pf (cfg, oldconfig, fs) = Done (0, cfg, oldconfig, fs)"
proof -
  obtain s where s: "main_request_config pf cfg (string_init (pf_libc pf) 4096 512) = Done (0, cfg, s)" "buf_ok s" "sb_growby s = 512"
    by (rule request_config_refused [OF assms(1,2)]) simp_all
  obtain t where t: "main_load_previous_config (pf_libc pf) (pf_sys pf) cfg (fy_files fs) (string_lazyinit 512) = Done (True, t)"
    "buf_inv t" "content t = data" by (rule load_saved [where files = "fy_files fs" and path = path, OF assms(1,3-8)])
  have some: "sb_s x \<noteq> None" if "content x \<noteq> []" for x using that by (cases "sb_s x") (simp_all add: content_def)
  then have "sb_s t \<noteq> None" "sb_s oldconfig \<noteq> None" using some [of t] some [of oldconfig] t(3) assms(7,10) by simp_all
  then have "string_equals t oldconfig" using string_equals_content [OF buf_inv_ok [OF t(2)] assms(9)] t(3) assms(10) by auto
  then show ?thesis
    using s t(1) string_free_fresh [OF s(2,3)] by (simp add: main_fetch_and_apply_config_def fetch_text_def Let_def)
qed


section \<open>A complete update\<close>

definition update_fs :: "files \<Rightarrow> fsys" where
  "update_fs files = \<lparr>fy_files = files, fy_links = Map.empty, fy_dirs = {''/etc/tinc/chaos'', ''/etc/tinc/chaos/hosts''},
     fy_cwd = ''/etc/tinc/chaos''\<rparr>"

definition saved_fs :: fsys where
  "saved_fs = update_fs [''/etc/tinc/chaos/data.sav'' \<mapsto> (sample_data, 384)]"

definition applied_text :: strbuf where
  "applied_text = \<lparr>sb_length = 5, sb_size = 6, sb_growby = 512, sb_s = Some (sample_data @ [NUL])\<rparr>"

lemma dir_name_holds:
  assumes lc: "alloc_total lc" and l: "length (p @ q) < 2 ^ 32" and n: "NUL \<notin> set (p @ q)"
  obtains s where "dir_name lc [p, q] = Done (True, s)" "holds s (p @ q)" "string_cstr s = p @ q"
proof -
  have len: "length ([] @ p) < 2 ^ 32" using l by simp
  obtain s1 where s1: "string_concat lc (string_init lc 512 512) p = Done (True, s1)" "holds s1 p"
    by (rule holds_concat [OF holds_init [OF lc] lc len]) simp
  obtain s2 where s2: "string_concat lc s1 q = Done (True, s2)" "holds s2 (p @ q)" "string_cstr s2 = cstr (p @ q)"
    by (rule holds_concat [OF s1(2) lc l])
  have "sb_s (string_init lc 512 512) \<noteq> None" using lc by (simp add: string_init_def alloc_total_def)
  then have "dir_name lc [p, q] = Done (True, s2)" using s1(1) s2(1) by (simp add: dir_name_def Let_def)
  with s2 n that show ?thesis by (simp add: cstr_simps)
qed

lemma update_cwd: "cwd_ok (sample_dir names) (update_fs files\<lparr>fy_dirs := dirs\<rparr>)" if "''/etc/tinc/chaos'' \<in> dirs"
  using that by (simp add: cwd_ok_def sample_dir_def update_fs_def path_ok_def)

lemma update_dirs: "fy_dirs (update_fs files) = {''/etc/tinc/chaos'', ''/etc/tinc/chaos/hosts''}"
  by (simp add: update_fs_def)

lemma sample_backup:
  assumes "cf_base_path cfg = Some ''/etc/tinc/chaos''" and c: "cwd_ok (sample_dir []) fs"
    and l: "no_links fs ''/etc/tinc/chaos'' ''/etc/tinc/chaos.old''" and d: "''/etc/tinc/chaos'' \<in> fy_dirs fs"
  shows "\<exists>dirs. main_create_backup (sample_platform n) cfg fs = Done (True, fs\<lparr>fy_dirs := dirs\<rparr>)
     \<and> fy_dirs fs \<subseteq> dirs \<and> (\<forall>p \<in> dirs. p \<in> fy_dirs fs \<or> prefix ''/etc/tinc/chaos.old'' p)"
proof -
  have lc: "alloc_total (pf_libc (sample_platform n))" by (rule sample_platform_facts)
  obtain s where s: "dir_name (pf_libc (sample_platform n)) [''/etc/tinc/chaos'', ''.old''] = Done (True, s)" "holds s ''/etc/tinc/chaos.old''"
    by (rule dir_name_holds [OF lc, of "''/etc/tinc/chaos''" "''.old''"]) simp_all
  obtain t where t: "string_ensurez (pf_libc (sample_platform n)) s = Done (True, t)" "string_cstr t = ''/etc/tinc/chaos.old''"
    by (rule holds_ensurez [OF s(2) lc]) (simp_all add: cstr_simps)
  have p: "apart ''/etc/tinc/chaos'' ''/etc/tinc/chaos.old''" "path_ok ''/etc/tinc/chaos''" "path_ok ''/etc/tinc/chaos.old''"
    "\<And>k. copyable (Suc k) (sample_dir []) (\<lambda>_. []) fs ''/etc/tinc/chaos'' ''/etc/tinc/chaos.old'' []"
    using d by (simp_all add: apart_def path_ok_def sample_dir_def)
  have e: "de_list (sample_dir []) fs p = Some ((\<lambda>_. []) p)" for fs p by (simp add: sample_dir_def)
  have f: "tree_files (Suc k) (\<lambda>_. []) fs src r = []" for k fs src r by simp
  have u: "fs\<lparr>fy_files := fy_files fs, fy_dirs := dirs\<rparr> = fs\<lparr>fy_dirs := dirs\<rparr>" for dirs by simp
  have "pf_sys (sample_platform n) = plain_env" "pf_dir (sample_platform n) = sample_dir []" "pf_depth (sample_platform n) = Suc 9"
    by (simp_all add: sample_platform_def)
  with cp_r_copies [OF lc env_grants_plain c p(1) l p(2,3) e p(4) [of 9]] s(1) t assms(1) show ?thesis
    unfolding f copy_files_Nil u by (simp add: main_create_backup_def)
qed

lemma update_backup:
  assumes "cf_base_path cfg = Some ''/etc/tinc/chaos''"
  shows "\<exists>dirs. main_create_backup (sample_platform n) cfg (update_fs files) = Done (True, update_fs files\<lparr>fy_dirs := dirs\<rparr>)
     \<and> fy_dirs (update_fs files) \<subseteq> dirs"
proof -
  have "cwd_ok (sample_dir []) (update_fs files)" "no_links (update_fs files) ''/etc/tinc/chaos'' ''/etc/tinc/chaos.old''"
    "''/etc/tinc/chaos'' \<in> fy_dirs (update_fs files)"
    by (simp_all add: cwd_ok_def sample_dir_def update_fs_def path_ok_def no_links_def)
  from sample_backup [OF assms this] show ?thesis by blast
qed

lemma update_cleanup:
  assumes "cf_base_path cfg = Some ''/etc/tinc/chaos''" and "fy_dirs (update_fs files) \<subseteq> dirs"
  shows "\<exists>fs. main_cleanup_hosts_subdir (sample_platform n) cfg (update_fs files\<lparr>fy_dirs := dirs\<rparr>) = Done (True, fs)"
proof -
  have lc: "alloc_total (pf_libc (sample_platform n))" by (rule sample_platform_facts)
  obtain s where s: "dir_name (pf_libc (sample_platform n)) [''/etc/tinc/chaos'', ''/hosts''] = Done (True, s)"
    "string_cstr s = ''/etc/tinc/chaos/hosts''"
    by (rule dir_name_holds [OF lc, of "''/etc/tinc/chaos''" "''/hosts''"]) simp_all
  have d: "''/etc/tinc/chaos'' \<in> dirs" "''/etc/tinc/chaos/hosts'' \<in> dirs" using assms(2) by (simp_all add: update_dirs)
  have l: "de_list (sample_dir []) (update_fs files\<lparr>fy_dirs := dirs, fy_cwd := ''/etc/tinc/chaos/hosts''\<rparr>) ''/etc/tinc/chaos/hosts'' = Some []"
    by (simp add: sample_dir_def)
  have "fs_empty_dir (pf_libc (sample_platform n)) (sample_dir []) ''/etc/tinc/chaos/hosts'' (update_fs files\<lparr>fy_dirs := dirs\<rparr>)
     = Done (True, update_fs files\<lparr>fy_dirs := dirs, fy_files := without (update_fs files\<lparr>fy_dirs := dirs\<rparr>) ''/etc/tinc/chaos/hosts'' []\<rparr>)"
    by (rule empty_dir_removes [OF lc update_cwd [OF d(1)] _ _ _ _ _ _ l]) (simp_all add: d path_ok_def update_fs_def sample_dir_def)
  with s assms(1) show ?thesis by (simp add: main_cleanup_hosts_subdir_def sample_platform_def)
qed

lemma sample_parse:
  obtains st where "parser_parse_config total_libc sample_data [] = Done (True, st)" "ps_list st = [Some (parser_new_config ''me'')]"
proof -
  have "case parser_parse_config total_libc sample_data [] of
      Done (ok, st) \<Rightarrow> ok \<and> ps_list st = [Some (parser_new_config ''me'')] | _ \<Rightarrow> False" by code_simp
  with that show ?thesis by (auto split: run.splits)
qed

definition fetched_config :: config where
  "fetched_config = signed_config\<lparr>cf_ifmodifiedsince := 1000\<rparr>"

definition parsed_config :: config where
  "parsed_config = fetched_config\<lparr>cf_peer_config := [Some (parser_new_config ''me'')], cf_my_peer := My_peer (parser_new_config ''me'')\<rparr>"

lemma parsed_config_fields:
  "cf_base_path parsed_config = Some ''/etc/tinc/chaos''" "cf_peerid parsed_config = Some ''me''"
  "cf_tincd_version parsed_config = Some ''1.0.19''" "cf_my_peer parsed_config = My_peer (parser_new_config ''me'')"
  "cf_peer_config parsed_config = [Some (parser_new_config ''me'')]" "buf_cstr (cf_ed25519publickey parsed_config) = Done None"
  "cf_tmpconffile parsed_config = Some ''/etc/tinc/chaos/data.sav''" "\<not> cf_use_dynamic_routes parsed_config"
  by (simp_all add: parsed_config_def fetched_config_def signed_config_def sample_config_def config_alloc_def buf_cstr_def
      string_lazyinit_def)

lemma parsed_writable:
  "writable total_libc plain_env parsed_config ''/etc/tinc/chaos'' (parser_new_config ''me'') ''me'' ''1.0.19''"
proof -
  have "length (tinc_conf_text parsed_config (parser_new_config ''me'') ''me'') < 1000" by code_simp
  then have t: "length (tinc_conf_text parsed_config (parser_new_config ''me'') ''me'') < 2 ^ 61" by simp
  have "length (host_file_text parsed_config ''1.0.19'' ''me'' (parser_new_config ''me'')) < 1000" by code_simp
  then have h: "length (host_file_text parsed_config ''1.0.19'' ''me'' (parser_new_config ''me'')) < 2 ^ 61" by simp
  have u: "length (updown_text total_libc parsed_config u ''me'') < 2 ^ 61" for u
    by (cases u) (simp_all add: updown_text_def node_text_def routecmd_of_def parsed_config_def fetched_config_def signed_config_def
        sample_config_def config_alloc_def opt_line_def parser_new_config_def strip_weight_def tinc_check_if_excluded_def)
  have n: "addr_ok net_10_8" by code_simp
  have r: "updown_ready total_libc parsed_config u" for u
    using n by (cases u) (simp_all add: updown_ready_def config_nets_ok_def cmd_ok_def routecmd_of_def dest_ok_def parsed_config_def
        fetched_config_def signed_config_def sample_config_def config_alloc_def parser_new_config_def strip_weight_def c_text_def)
  show ?thesis
    unfolding writable_def
    using t h u r total_libc_facts(1,2) env_grants_plain ntop_text_total
    by (simp add: parsed_config_fields path_ok_def)
qed

text \<open>One update on a fresh installation: every stage of it.\<close>

lemma update_stages:
  obtains s cnf saved dirs fs3 where
    "fetch_text (sample_platform 200) signed_config Map.empty = Done (True, fetched_config, s)"
    "\<not> string_equals s (string_lazyinit 512)"
    "main_parse_config (pf_libc (sample_platform 200)) s fetched_config = Done (True, parsed_config)"
    "main_tempsave_fetched_config (pf_libc (sample_platform 200)) (pf_sys (sample_platform 200)) parsed_config s Map.empty = Done (cnf, saved)"
    "main_create_backup (sample_platform 200) parsed_config (update_fs saved) = Done (True, update_fs saved\<lparr>fy_dirs := dirs\<rparr>)"
    "main_cleanup_hosts_subdir (sample_platform 200) parsed_config (update_fs saved\<lparr>fy_dirs := dirs\<rparr>) = Done (True, fs3)"
    "buf_ok cnf" "content cnf = sample_data"
proof -
  have lc: "pf_libc (sample_platform 200) = total_libc" "pf_sys (sample_platform 200) = plain_env"
    by (simp_all add: sample_platform_def)
  obtain s where s: "main_request_config (sample_platform 200) signed_config (string_init total_libc 4096 512) = Done (1, fetched_config, s)"
    "buf_inv s" "content s = sample_data" "buf_cstr s = Done (Some sample_data)"
    using sample_request by (auto simp: fetched_config_def)
  then have f: "fetch_text (sample_platform 200) signed_config Map.empty = Done (True, fetched_config, s)"
    by (simp add: fetch_text_def lc)
  have d: "sample_data \<noteq> []" by (simp add: sample_data_def)
  have e: "\<not> string_equals s (string_lazyinit 512)"
    using string_equals_content [OF buf_inv_ok [OF s(2)] buf_inv_ok [OF string_lazyinit_inv(1)], of 512] s(3) d
      by (simp add: string_lazyinit_inv)
  obtain st where st: "parser_parse_config total_libc sample_data [] = Done (True, st)" "ps_list st = [Some (parser_new_config ''me'')]"
    by (rule sample_parse)
  have p: "main_parse_config total_libc s fetched_config = Done (True, parsed_config)"
    using s(4) st by (simp add: main_parse_config_def fetched_config_def signed_config_fields parsed_config_def parser_new_config_def)
  obtain cnf saved where t: "main_tempsave_fetched_config total_libc plain_env parsed_config s Map.empty = Done (cnf, saved)"
  proof -
    have "length (content s) + 1 \<le> buf_limit" "content s \<noteq> [] \<or> sb_s s = None" using s(3) d by (simp_all add: buf_limit_def sample_length)
    from string_ensurez_total [OF s(2) this(1) total_libc_facts(1) this(2)] obtain t where "string_ensurez total_libc s = Done (True, t)" by auto
    with that show ?thesis
      by (cases "fs_writecontents plain_env ''/etc/tinc/chaos/data.sav'' (content t) 384 Map.empty")
        (simp add: main_tempsave_fetched_config_def parsed_config_fields Let_def)
  qed
  obtain dirs where b: "main_create_backup (sample_platform 200) parsed_config (update_fs saved) = Done (True, update_fs saved\<lparr>fy_dirs := dirs\<rparr>)"
    "fy_dirs (update_fs saved) \<subseteq> dirs" using update_backup [OF parsed_config_fields(1)] by blast
  obtain fs3 where "main_cleanup_hosts_subdir (sample_platform 200) parsed_config (update_fs saved\<lparr>fy_dirs := dirs\<rparr>) = Done (True, fs3)"
    using update_cleanup [OF parsed_config_fields(1) b(2)] by blast
  moreover have "buf_ok cnf" "content cnf = sample_data" using tempsave_returns [OF t buf_inv_ok [OF s(2)]] s(3) by simp_all
  ultimately show ?thesis using that f e p t b(1) unfolding lc by blast
qed

lemma update_fs_files: "update_fs files\<lparr>fy_files := saved\<rparr> = update_fs saved" "fy_files (update_fs files) = files"
  by (simp_all add: update_fs_def)

lemma platform_writable:
  "writable (pf_libc (sample_platform n)) (pf_sys (sample_platform n)) parsed_config ''/etc/tinc/chaos'' (parser_new_config ''me'') ''me'' ''1.0.19''"
  using parsed_writable by (simp add: sample_platform_def)


theorem main_fetch_not_modified_witness:
  "main_fetch_and_apply_config (sample_platform 304) (signed_config, applied_text, saved_fs) = Done (0, signed_config, applied_text, saved_fs)"
  by (rule main_fetch_not_modified [OF sample_platform_facts(1) sample_server signed_config_fields(6), where data = sample_data and mode = 384])
    (simp_all add: saved_fs_def update_fs_def applied_text_def sample_data_def buf_ok_def content_def sample_platform_def plain_env_def)

lemma sample_update:
  obtains cnf fs' where "main_fetch_and_apply_config (sample_platform 200) (signed_config, string_lazyinit 512, update_fs Map.empty)
       = Done (1, parsed_config\<lparr>cf_peer_config := [], cf_my_peer := Freed_peer\<rparr>, cnf, fs')"
    "buf_ok cnf" "content cnf = sample_data"
proof -
  obtain s cnf saved dirs fs3 where st: "fetch_text (sample_platform 200) signed_config Map.empty = Done (True, fetched_config, s)"
    "\<not> string_equals s (string_lazyinit 512)"
    "main_parse_config (pf_libc (sample_platform 200)) s fetched_config = Done (True, parsed_config)"
    "main_tempsave_fetched_config (pf_libc (sample_platform 200)) (pf_sys (sample_platform 200)) parsed_config s Map.empty = Done (cnf, saved)"
    "main_create_backup (sample_platform 200) parsed_config (update_fs saved) = Done (True, update_fs saved\<lparr>fy_dirs := dirs\<rparr>)"
    "main_cleanup_hosts_subdir (sample_platform 200) parsed_config (update_fs saved\<lparr>fy_dirs := dirs\<rparr>) = Done (True, fs3)"
    "buf_ok cnf" "content cnf = sample_data"
    by (rule update_stages)
  have b: "main_create_backup (sample_platform 200) parsed_config (update_fs Map.empty\<lparr>fy_files := saved\<rparr>)
      = Done (True, update_fs saved\<lparr>fy_dirs := dirs\<rparr>)" using st(5) by (simp add: update_fs_files)
  have "\<exists>fs'. main_fetch_and_apply_config (sample_platform 200) (signed_config, string_lazyinit 512, update_fs Map.empty)
       = Done (1, parsed_config\<lparr>cf_peer_config := [], cf_my_peer := Freed_peer\<rparr>, cnf, fs')
     \<and> installed (pf_libc (sample_platform 200)) parsed_config ''/etc/tinc/chaos'' (parser_new_config ''me'') ''me'' ''1.0.19'' (fy_files fs')"
    by (rule fetch_and_apply_installs [OF _ st(2,3) _ b st(6) platform_writable]) (simp_all add: update_fs_files st)
  with that st(7,8) show ?thesis by blast
qed

theorem main_fetch_and_apply_origin_witness:
  "\<exists>cfg' cnf fs'. main_fetch_and_apply_config (sample_platform 200) (signed_config, string_lazyinit 512, update_fs Map.empty)
       = Done (1, cfg', cnf, fs') \<and> may_apply (sample_platform 200) signed_config ''PUB'' Map.empty (content cnf)"
proof -
  obtain cnf fs' where r: "main_fetch_and_apply_config (sample_platform 200) (signed_config, string_lazyinit 512, update_fs Map.empty)
       = Done (1, parsed_config\<lparr>cf_peer_config := [], cf_my_peer := Freed_peer\<rparr>, cnf, fs')" by (rule sample_update)
  from main_fetch_and_apply_origin [OF r signed_config_fields(2)] r show ?thesis by (auto simp: update_fs_files)
qed

end
