(* ===== verification/Mainloop.thy ===== *)
theory Mainloop
  imports Startup Workerinv Apply
begin

text \<open>
  \<open>main\<close> of \<^verbatim>\<open>src/main.c\<close>: the start of the client and the loop of its main process, which fetches the configuration
  from time to time and sends commands to the worker.
\<close>

section \<open>The main process\<close>

text \<open>The signals it handles; \<open>SIGCHLD\<close> comes with the wait status of the worker.\<close>

datatype main_signal = SIG_HUP | SIG_TERM | SIG_INT | SIG_CHLD int

text \<open>\<open>mn_sent\<close> is what has been written into the pipe to the worker.\<close>

record main_state =
  mn_cfg :: config
  mn_old :: strbuf
  mn_fs :: fsys
  mn_sent :: "command list"
  mn_nextupdate :: int
  mn_sighup :: bool
  mn_sigterm :: bool
  mn_sigint :: bool

definition p_sigint :: "main_state \<Rightarrow> main_state" where "p_sigint st = st\<lparr>mn_sigint := True\<rparr>"
definition p_sigterm :: "main_state \<Rightarrow> main_state" where "p_sigterm st = st\<lparr>mn_sigterm := True\<rparr>"
definition p_sighup :: "main_state \<Rightarrow> main_state" where "p_sighup st = st\<lparr>mn_sighup := True\<rparr>"

definition p_sigchild :: "int \<Rightarrow> main_state run" where
  "p_sigchild status = Exit (status div 256)"

fun handle_signals :: "main_signal list \<Rightarrow> main_state \<Rightarrow> main_state run" where
  "handle_signals [] st = Done st"
| "handle_signals (SIG_HUP # sigs) st = handle_signals sigs (p_sighup st)"
| "handle_signals (SIG_TERM # sigs) st = handle_signals sigs (p_sigterm st)"
| "handle_signals (SIG_INT # sigs) st = handle_signals sigs (p_sigint st)"
| "handle_signals (SIG_CHLD status # sigs) st = p_sigchild status"

text \<open>Commands: the flag is the result of \<open>write\<close>.\<close>

definition send_command :: "command \<Rightarrow> bool \<Rightarrow> main_state \<Rightarrow> main_state run" where
  "send_command c written st = (if \<not> written then Exit 1 else Done (st\<lparr>mn_sent := mn_sent st @ [c]\<rparr>))"

definition handler_start_tincd :: "bool \<Rightarrow> main_state \<Rightarrow> main_state run" where "handler_start_tincd = send_command START_TINCD"
definition handler_restart_tincd :: "bool \<Rightarrow> main_state \<Rightarrow> main_state run" where "handler_restart_tincd = send_command RESTART_TINCD"
definition handler_stop :: "bool \<Rightarrow> main_state \<Rightarrow> main_state run" where "handler_stop = send_command STOP"
definition handler_signal_old_tincd :: "bool \<Rightarrow> main_state \<Rightarrow> main_state run" where
  "handler_signal_old_tincd = send_command SIGNAL_OLD_TINCD"

definition main_updated :: "int \<Rightarrow> main_state \<Rightarrow> main_state" where
  "main_updated now st = st\<lparr>mn_nextupdate := now + uint (cf_update_interval (mn_cfg st))\<rparr>"

text \<open>Whether the warning about an old tincd is printed.\<close>

definition main_warn_about_old_tincd :: "config \<Rightarrow> bool" where
  "main_warn_about_old_tincd cfg = (case cf_tincd_version cfg of None \<Rightarrow> False | Some v \<Rightarrow> strnatcmp v ''1.0.12'' \<le> 0)"

section \<open>Its loop\<close>

text \<open>
  What one round finds: the signals during the sleep, the time behind it, the world the fetch works in and the
  signals meanwhile, the time after it, and whether the write into the pipe succeeds.
\<close>

record ('a, 'k, 'z) round =
  rd_sleep :: "main_signal list"
  rd_time :: int
  rd_platform :: "('a, 'k, 'z) platform"
  rd_fetch :: "main_signal list"
  rd_after :: int
  rd_write :: bool

datatype wakeup = Again | Update | Bail_out

definition main_wake :: "int \<Rightarrow> main_state \<Rightarrow> wakeup \<times> main_state" where
  "main_wake now st =
     (if mn_sighup st then (Update, st\<lparr>mn_sighup := False\<rparr>)
      else if mn_nextupdate st < now then (Update, st)
      else if mn_sigterm st \<or> mn_sigint st then (Bail_out, st)
      else (Again, st))"

definition main_fetch :: "('a, 'k, 'z) round \<Rightarrow> main_state \<Rightarrow> (int \<times> main_state) run" where
  "main_fetch rd st =
     run_bind (main_fetch_and_apply_config (rd_platform rd) (mn_cfg st, mn_old st, mn_fs st)) (\<lambda>(r, cfg, old, fs).
       run_bind (handle_signals (rd_fetch rd) (st\<lparr>mn_cfg := cfg, mn_old := old, mn_fs := fs\<rparr>)) (\<lambda>st. Done (r, st)))"

definition main_update :: "('a, 'k, 'z) round \<Rightarrow> main_state \<Rightarrow> main_state run" where
  "main_update rd st =
     run_bind (main_fetch rd st) (\<lambda>(r, st).
       if r = - 1 then Done st
       else if r = 0 then Done st
       else handler_restart_tincd (rd_write rd) st)"

text \<open>The result tells whether the loop has ended; a run is followed for as many rounds as are given.\<close>

fun main_loop :: "('a, 'k, 'z) round list \<Rightarrow> main_state \<Rightarrow> (bool \<times> main_state) run" where
  "main_loop [] st = Done (False, st)"
| "main_loop (rd # rds) st =
     run_bind (handle_signals (rd_sleep rd) st) (\<lambda>st.
       case main_wake (rd_time rd) st of
         (Again, st) \<Rightarrow> main_loop rds st
       | (Bail_out, st) \<Rightarrow> run_bind (handler_stop (rd_write rd) st) (\<lambda>st. Done (True, st))
       | (Update, st) \<Rightarrow>
           run_bind (main_update rd st) (\<lambda>st.
             if \<not> mn_sigterm st \<and> \<not> mn_sigint st then main_loop rds (main_updated (rd_after rd) st)
             else run_bind (handler_stop (rd_write rd) st) (\<lambda>st. Done (True, st))))"

text \<open>From the first fetch on; the result of that fetch is not looked at.\<close>

definition main_run ::
  "('a, 'k, 'z) round \<Rightarrow> ('a, 'k, 'z) round list \<Rightarrow> config \<Rightarrow> fsys \<Rightarrow> (bool \<times> main_state) run" where
  "main_run rd rds cfg fs =
     run_bind (main_fetch rd \<lparr>mn_cfg = cfg, mn_old = string_init (pf_libc (rd_platform rd)) 4096 4096, mn_fs = fs, mn_sent = [],
         mn_nextupdate = 0, mn_sighup = False, mn_sigterm = False, mn_sigint = False\<rparr>) (\<lambda>(_, st).
     run_bind (handler_signal_old_tincd (rd_write rd) (main_updated (rd_after rd) st)) (\<lambda>st.
     run_bind (handler_start_tincd (rd_write rd) st) (\<lambda>st.
       if \<not> cf_oneshot (mn_cfg st) then main_loop rds (main_updated (rd_after rd) st)
       else Done (True, st))))"

section \<open>Its start\<close>

text \<open>What the start finds, besides the files.\<close>

record start_env =
  sv_libc :: libc
  sv_sys :: sysenv
  sv_tincdir :: string
  sv_uid :: nat
  sv_tun :: tunenv
  sv_fork1 :: int
  sv_fork2 :: int
  sv_setsid :: bool
  sv_limit :: nat
  sv_pid :: pidenv
  sv_worker :: bool
  sv_setids :: "nat \<Rightarrow> nat \<Rightarrow> bool"

text \<open>\<open>sv_worker\<close>: the pipes and the worker are made and the worker reports that it is ready.\<close>

definition main_start :: "start_env \<Rightarrow> string list \<Rightarrow> fsys \<Rightarrow> nat set \<Rightarrow> (config \<times> fsys \<times> nat set) run" where
  "main_start sv argv fs fds =
     run_bind (main_parse_opts (sv_libc sv) (getopt_words argv) (config_alloc (sv_tincdir sv))) (\<lambda>cfg.
     if \<not> main_check_root (sv_uid sv) then Exit 1
     else if \<not> tun_check_or_create (sv_tun sv) then Exit 1
     else run_bind (config_init (sv_libc sv) (sv_sys sv) os_mkdir (fy_files fs) fs cfg) (\<lambda>(ok, fs, cfg).
     if \<not> ok then Exit 1
     else run_bind (if cf_daemonmode cfg then daemonize (sv_fork1 sv) (sv_fork2 sv) (sv_setsid sv) (sv_limit sv) fds else Done (True, fds)) (\<lambda>(ok, fds).
     if \<not> ok then Exit 1
     else case (if str_is_nonempty (cf_pidfile cfg)
                then pidfile_create_pidfile (sv_pid sv) (sv_sys sv) (the (cf_pidfile cfg)) (fy_files fs) else (True, fy_files fs)) of
       (ok, files) \<Rightarrow>
         if \<not> ok then Exit 1
         else if \<not> sv_worker sv then Exit 1
         else if \<not> sv_setids sv (cf_tincd_gid cfg) (cf_tincd_uid cfg) then Exit 1
         else Done (cfg, fs\<lparr>fy_files := files\<rparr>, fds))))"

section \<open>The commands follow the protocol\<close>

lemma handle_signals_keeps: "handle_signals sigs st = Done st' \<Longrightarrow> mn_sent st' = mn_sent st \<and> mn_cfg st' = mn_cfg st \<and> mn_old st' = mn_old st \<and> mn_fs st' = mn_fs st"
  by (induction sigs st rule: handle_signals.induct) (auto simp: p_sighup_def p_sigterm_def p_sigint_def p_sigchild_def)

lemma main_fetch_sent: "main_fetch rd st = Done (r, st') \<Longrightarrow> mn_sent st' = mn_sent st"
  by (auto simp: main_fetch_def run_simps dest!: handle_signals_keeps)

lemma main_update_sent:
  "main_update rd st = Done st' \<Longrightarrow> mn_sent st' = mn_sent st \<or> mn_sent st' = mn_sent st @ [RESTART_TINCD]"
  by (auto simp: main_update_def run_simps handler_restart_tincd_def send_command_def dest!: main_fetch_sent split: if_splits)

lemma main_wake_sent: "main_wake now st = (w, st') \<Longrightarrow> mn_sent st' = mn_sent st"
  by (auto simp: main_wake_def split: if_splits)

lemma main_loop_sent:
  "main_loop rds st = Done (ended, st') \<Longrightarrow> \<exists>n. mn_sent st' = mn_sent st @ replicate n RESTART_TINCD @ (if ended then [STOP] else [])"
proof (induction rds st arbitrary: ended st' rule: main_loop.induct)
  case (1 st)
  then show ?case by (auto intro: exI [of _ 0])
next
  case (2 rd rds st)
  from "2.prems" obtain st1 where s1: "handle_signals (rd_sleep rd) st = Done st1" by (auto simp: run_simps)
  then have k1: "mn_sent st1 = mn_sent st" by (simp add: handle_signals_keeps)
  obtain w st2 where w: "main_wake (rd_time rd) st1 = (w, st2)" by (cases "main_wake (rd_time rd) st1")
  then have k2: "mn_sent st2 = mn_sent st" using k1 main_wake_sent by simp
  have stop: "\<exists>n. mn_sent st' = mn_sent st @ replicate n RESTART_TINCD @ (if ended then [STOP] else [])"
    if "handler_stop (rd_write rd) st3 = Done st'" "ended" "mn_sent st3 = mn_sent st @ replicate n RESTART_TINCD" for st3 n
    using that by (auto simp: handler_stop_def send_command_def split: if_splits)
  show ?case
  proof (cases w)
    case Again
    with "2.prems" s1 w have "main_loop rds st2 = Done (ended, st')" by simp
    from "2.IH"(1) [OF w [symmetric] Again this] k2 show ?thesis by simp
  next
    case Bail_out
    with "2.prems" s1 w k2 show ?thesis by (intro stop [of st2 0]) (auto simp: run_simps)
  next
    case Update
    with "2.prems" s1 w obtain st3 where u: "main_update rd st2 = Done st3" by (auto simp: run_simps)
    from main_update_sent [OF u] k2 obtain m where m: "mn_sent st3 = mn_sent st @ replicate m RESTART_TINCD"
      by (metis append.right_neutral replicate_0 replicate_Suc)
    show ?thesis
    proof (cases "mn_sigterm st3 \<or> mn_sigint st3")
      case True
      with "2.prems" s1 w Update u m show ?thesis by (intro stop [of st3 m]) (auto simp: run_simps)
    next
      case False
      with "2.prems" s1 w Update u have l: "main_loop rds (main_updated (rd_after rd) st3) = Done (ended, st')" by simp
      have c: "\<not> mn_sigterm st3 \<and> \<not> mn_sigint st3" using False by simp
      from "2.IH"(2) [OF w [symmetric] Update c l] obtain n where
        "mn_sent st' = mn_sent st3 @ replicate n RESTART_TINCD @ (if ended then [STOP] else [])" by (auto simp: main_updated_def)
      then show ?thesis using m by (intro exI [of _ "m + n"]) (simp add: replicate_add)
    qed
  qed
qed

lemma main_run_sent:
  assumes "main_run rd rds cfg fs = Done (ended, st)"
  shows "\<exists>n stop. mn_sent st = [SIGNAL_OLD_TINCD, START_TINCD] @ replicate n RESTART_TINCD @ stop
     \<and> (stop = [] \<or> stop = [STOP]) \<and> (ended \<longrightarrow> stop = [STOP] \<or> n = 0 \<and> cf_oneshot (mn_cfg st))"
proof -
  from assms obtain r st0 where f: "main_fetch rd \<lparr>mn_cfg = cfg, mn_old = string_init (pf_libc (rd_platform rd)) 4096 4096, mn_fs = fs,
      mn_sent = [], mn_nextupdate = 0, mn_sighup = False, mn_sigterm = False, mn_sigint = False\<rparr> = Done (r, st0)"
    by (auto simp: main_run_def run_simps)
  note s0 = main_fetch_sent [OF f, simplified]
  define st2 where "st2 = (main_updated (rd_after rd) st0)\<lparr>mn_sent := [SIGNAL_OLD_TINCD, START_TINCD]\<rparr>"
  from assms f s0 have r: "(if \<not> cf_oneshot (mn_cfg st2) then main_loop rds (main_updated (rd_after rd) st2) else Done (True, st2)) = Done (ended, st)"
    by (auto simp: main_run_def run_simps handler_signal_old_tincd_def handler_start_tincd_def send_command_def st2_def main_updated_def
        split: if_splits)
  show ?thesis
  proof (cases "cf_oneshot (mn_cfg st2)")
    case True
    with r have "st = st2" by simp
    with True show ?thesis by (intro exI [of _ 0] exI [of _ "[]"]) (simp add: st2_def)
  next
    case False
    with r have "main_loop rds (main_updated (rd_after rd) st2) = Done (ended, st)" by simp
    from main_loop_sent [OF this] obtain n where
      "mn_sent st = [SIGNAL_OLD_TINCD, START_TINCD] @ replicate n RESTART_TINCD @ (if ended then [STOP] else [])"
      by (auto simp: main_updated_def st2_def)
    then show ?thesis by (intro exI [of _ n] exI [of _ "if ended then [STOP] else []"]) simp
  qed
qed

lemma restarts_replicate: "restarts (replicate n RESTART_TINCD @ stop) \<longleftrightarrow> restarts stop"
  by (induction n) auto

lemma main_run_protocol:
  assumes "main_run rd rds cfg fs = Done (ended, st)"
  shows "protocol (mn_sent st)"
  using main_run_sent [OF assms] restarts_replicate [of _ "[]"] by (auto simp: restarts_replicate)

section \<open>The worker can receive them\<close>

lemma protocol_append: "protocol (xs @ ys) \<Longrightarrow> protocol xs"
proof (induction xs rule: protocol.induct)
  case (3 c d cs)
  have "restarts (as @ bs) \<Longrightarrow> restarts as" for as bs by (induction as) auto
  with 3 show ?case by auto
next
  case (2 c)
  then show ?case by (cases ys) auto
qed simp

lemma worker_receives:
  assumes "wk_exit w = None" and "\<not> wk_closed w" and "wk_read w = []" and "protocol cs"
  shows "(wstep we)\<^sup>*\<^sup>* (w\<lparr>wk_pipe := []\<rparr>) (w\<lparr>wk_pipe := cs\<rparr>)"
  using assms(4)
proof (induction cs rule: rev_induct)
  case (snoc c cs)
  from snoc.prems have "protocol cs" by (rule protocol_append)
  then have "(wstep we)\<^sup>*\<^sup>* (w\<lparr>wk_pipe := []\<rparr>) (w\<lparr>wk_pipe := cs\<rparr>)" by (rule snoc.IH)
  moreover have "wstep we (w\<lparr>wk_pipe := cs\<rparr>) (w\<lparr>wk_pipe := cs @ [c]\<rparr>)"
    using wstep.send [of "w\<lparr>wk_pipe := cs\<rparr>" c we] assms(1-3) snoc.prems by simp
  ultimately show ?case by simp
qed simp

section \<open>The loop ends\<close>

lemma handle_signals_total:
  assumes "\<forall>s. SIG_CHLD s \<notin> set sigs"
  shows "\<exists>st'. handle_signals sigs st = Done st' \<and> (mn_sigterm st \<longrightarrow> mn_sigterm st') \<and> (mn_sigint st \<longrightarrow> mn_sigint st')
     \<and> (SIG_TERM \<in> set sigs \<longrightarrow> mn_sigterm st') \<and> (SIG_INT \<in> set sigs \<longrightarrow> mn_sigint st')"
  using assms
proof (induction sigs st rule: handle_signals.induct)
  case (2 sigs st)
  then show ?case by (auto simp: p_sighup_def)
next
  case (3 sigs st)
  then show ?case by (fastforce simp: p_sigterm_def)
next
  case (4 sigs st)
  then show ?case by (fastforce simp: p_sigint_def)
qed auto

lemma main_loop_ends:
  assumes sig: "mn_sigterm st \<or> mn_sigint st \<or> SIG_TERM \<in> set (rd_sleep rd) \<or> SIG_INT \<in> set (rd_sleep rd)"
    and nochld: "\<forall>s. SIG_CHLD s \<notin> set (rd_sleep rd)" "\<forall>s. SIG_CHLD s \<notin> set (rd_fetch rd)" and w: "rd_write rd"
    and fetch: "main_fetch_and_apply_config (rd_platform rd) (mn_cfg st, mn_old st, mn_fs st) = Done res"
  shows "\<exists>st' cs. main_loop (rd # rds) st = Done (True, st') \<and> mn_sent st' = mn_sent st @ cs @ [STOP] \<and> (cs = [] \<or> cs = [RESTART_TINCD])"
proof -
  obtain st1 where s1: "handle_signals (rd_sleep rd) st = Done st1" "mn_sigterm st1 \<or> mn_sigint st1"
    using handle_signals_total [OF nochld(1), of st] sig by blast
  note k1 = handle_signals_keeps [OF s1(1)]
  have stop: "handler_stop (rd_write rd) x = Done (x\<lparr>mn_sent := mn_sent x @ [STOP]\<rparr>)" for x using w by (simp add: handler_stop_def send_command_def)
  show ?thesis
  proof (cases "mn_sighup st1 \<or> mn_nextupdate st1 < rd_time rd")
    case False
    then have "main_wake (rd_time rd) st1 = (Bail_out, st1)" using s1(2) by (simp add: main_wake_def)
    with s1(1) stop k1 show ?thesis by auto
  next
    case True
    obtain st2 where s2: "main_wake (rd_time rd) st1 = (Update, st2)" "mn_sigterm st2 \<or> mn_sigint st2" "mn_cfg st2 = mn_cfg st1"
      "mn_old st2 = mn_old st1" "mn_fs st2 = mn_fs st1" "mn_sent st2 = mn_sent st1"
      using True s1(2) by (cases "mn_sighup st1") (auto simp: main_wake_def)
    obtain r cfg old fs where res: "res = (r, cfg, old, fs)" by (cases res)
    let ?st = "st2\<lparr>mn_cfg := cfg, mn_old := old, mn_fs := fs\<rparr>"
    obtain st3 where s3: "handle_signals (rd_fetch rd) ?st = Done st3" "mn_sigterm st3 \<or> mn_sigint st3"
      using handle_signals_total [OF nochld(2), of ?st] s2(2) by auto
    have "mn_sent st3 = mn_sent st" using handle_signals_keeps [OF s3(1)] s2(6) k1 by simp
    moreover have "main_fetch rd st2 = Done (r, st3)" using fetch res s3(1) s2(3-5) k1 by (simp add: main_fetch_def)
    then have "main_update rd st2 = Done (if r = - 1 \<or> r = 0 then st3 else st3\<lparr>mn_sent := mn_sent st3 @ [RESTART_TINCD]\<rparr>)"
      using w by (simp add: main_update_def handler_restart_tincd_def send_command_def)
    ultimately show ?thesis using s1(1) s2(1) s3(2) stop by (auto split: if_splits)
  qed
qed

lemma fetch_and_apply_codes:
  "main_fetch_and_apply_config pf st = Done (r, st') \<Longrightarrow> r = - 1 \<or> r = 0 \<or> r = 1"
  by (cases st) (auto simp: main_fetch_and_apply_config_def Let_def run_simps split: if_splits)

section \<open>Properties\<close>

text \<open>
  C1: the main process and the worker fit together.  Whatever happens to the main process, what it has written to
  the pipe is the order to signal the old tincd, one start, any number of restarts and at most one stop, so the
  worker can receive all of it, and in every state the worker reaches then it has at most one tincd; when the main
  process ends it has sent the stop, or runs once and has sent just the first two commands.
\<close>

theorem main_drives_worker:
  assumes "main_run rd rds cfg fs = Done (ended, st)" and "worker_init we w"
  shows "(wstep we)\<^sup>*\<^sup>* w (w\<lparr>wk_pipe := mn_sent st\<rparr>)
     \<and> (\<forall>w' p q. (wstep we)\<^sup>*\<^sup>* (w\<lparr>wk_pipe := mn_sent st\<rparr>) w' \<longrightarrow> wk_procs w' p \<noteq> None \<longrightarrow> wk_procs w' q \<noteq> None \<longrightarrow> p = q)
     \<and> (ended \<longrightarrow> last (mn_sent st) = STOP \<or> cf_oneshot (mn_cfg st) \<and> mn_sent st = [SIGNAL_OLD_TINCD, START_TINCD])"
proof -
  have init: "wk_exit w = None" "\<not> wk_closed w" "wk_read w = []" "wk_pipe w = []" using assms(2) by (simp_all add: worker_init_def)
  have p: "(wstep we)\<^sup>*\<^sup>* (w\<lparr>wk_pipe := []\<rparr>) (w\<lparr>wk_pipe := mn_sent st\<rparr>)"
    by (rule worker_receives [OF init(1-3) main_run_protocol [OF assms(1)]])
  have "w\<lparr>wk_pipe := []\<rparr> = w" using init(4) by (metis worker.surjective worker.update_convs(8))
  with p have r: "(wstep we)\<^sup>*\<^sup>* w (w\<lparr>wk_pipe := mn_sent st\<rparr>)" by simp
  have "core w'" if "(wstep we)\<^sup>*\<^sup>* (w\<lparr>wk_pipe := mn_sent st\<rparr>) w'" for w'
    using worker.reachable_good [OF assms(2) rtranclp_trans [OF r that]] by (simp add: worker_inv_iff)
  moreover have "ended \<longrightarrow> last (mn_sent st) = STOP \<or> cf_oneshot (mn_cfg st) \<and> mn_sent st = [SIGNAL_OLD_TINCD, START_TINCD]"
    using main_run_sent [OF assms(1)] by auto
  ultimately show ?thesis using r core_procs by blast
qed


text \<open>
  C2: tincd is restarted for nothing but checked text.  With a signing key configured, an update makes the main
  process send a restart only when the text it has stored as applied is signed by that key, or is the copy saved
  before; in all other cases it has sent nothing.
\<close>

theorem main_update_restarts_signed:
  assumes "main_update rd st = Done st'" and "cf_masterdata_signkey (mn_cfg st) = Some pem" and "pem \<noteq> []"
  shows "mn_sent st' = mn_sent st
     \<or> mn_sent st' = mn_sent st @ [RESTART_TINCD] \<and> may_apply (rd_platform rd) (mn_cfg st) pem (fy_files (mn_fs st)) (content (mn_old st'))"
proof -
  from assms(1) obtain r st1 where f: "main_fetch rd st = Done (r, st1)"
    "st' = (if r = - 1 \<or> r = 0 then st1 else st1\<lparr>mn_sent := mn_sent st1 @ [RESTART_TINCD]\<rparr>)"
    by (auto simp: main_update_def run_simps handler_restart_tincd_def send_command_def split: if_splits)
  from f(1) obtain cfg old fs where g: "main_fetch_and_apply_config (rd_platform rd) (mn_cfg st, mn_old st, mn_fs st) = Done (r, cfg, old, fs)"
    "handle_signals (rd_fetch rd) (st\<lparr>mn_cfg := cfg, mn_old := old, mn_fs := fs\<rparr>) = Done st1"
    by (auto simp: main_fetch_def run_simps)
  from handle_signals_keeps [OF g(2)] have "mn_old st1 = old" by simp
  with fetch_and_apply_codes [OF g(1)] fetch_and_apply_origin [OF g(1) assms(2,3)] main_fetch_sent [OF f(1)] show ?thesis
    by (auto simp: f(2))
qed

section \<open>Runs\<close>

text \<open>A server that has nothing new, with no saved copy: the update fails and changes nothing.\<close>

lemma sample_fetch_fails:
  "main_fetch_and_apply_config (sample_platform 304) (signed_config, old, update_fs Map.empty) = Done (- 1, signed_config, old, update_fs Map.empty)"
proof -
  let ?lc = "pf_libc (sample_platform 304)"
  obtain s where s: "main_request_config (sample_platform 304) signed_config (string_init ?lc 4096 512) = Done (if (304 :: nat) = 304 then 0 else - 1, signed_config, s)"
    "buf_ok s" "sb_growby s = 512"
    by (rule request_config_refused [OF sample_platform_facts(1) sample_server [where n = 304]]) simp_all
  have f: "string_clear (string_free s) = string_lazyinit 512"
    using string_free_fresh [OF s(2,3)] by (simp add: string_clear_def string_lazyinit_def)
  have "length (content (string_lazyinit 512)) + 1 \<le> buf_limit" "content (string_lazyinit 512) \<noteq> [] \<or> sb_s (string_lazyinit 512) = None"
    by (simp_all add: string_lazyinit_inv string_lazyinit_def buf_limit_def content_def)
  from string_ensurez_total [OF string_lazyinit_inv(1) this(1) sample_platform_facts(1) this(2)] obtain t where
    "string_ensurez ?lc (string_lazyinit 512) = Done (True, t)" by auto
  then have "main_load_previous_config ?lc (pf_sys (sample_platform 304)) signed_config Map.empty (string_free s) = Done (False, t)"
    by (simp add: main_load_previous_config_def signed_config_fields str_is_empty_def fs_read_file_def f)
  with s show ?thesis by (auto simp: main_fetch_and_apply_config_def fetch_text_def update_fs_files Let_def)
qed

text \<open>A first round that fails, and a round in which \<open>SIGTERM\<close> arrives during the sleep.\<close>

definition sample_round :: "main_signal list \<Rightarrow> (unit, unit, char list) round" where
  "sample_round sigs = \<lparr>rd_sleep = sigs, rd_time = 1000, rd_platform = sample_platform 304, rd_fetch = [], rd_after = 1000, rd_write = True\<rparr>"

definition sample_main :: "config \<Rightarrow> strbuf \<Rightarrow> fsys \<Rightarrow> main_state" where
  "sample_main cfg old fs = \<lparr>mn_cfg = cfg, mn_old = old, mn_fs = fs, mn_sent = [SIGNAL_OLD_TINCD, START_TINCD], mn_nextupdate = 5000,
     mn_sighup = False, mn_sigterm = False, mn_sigint = False\<rparr>"

lemma sample_main_run:
  "\<exists>st. main_run (sample_round []) [sample_round [SIG_TERM]] signed_config (update_fs Map.empty) = Done (True, st)
     \<and> mn_sent st = [SIGNAL_OLD_TINCD, START_TINCD, STOP]"
proof -
  have "\<not> cf_oneshot signed_config" by (simp add: signed_config_def sample_config_def config_alloc_def)
  moreover have "0 \<le> uint (cf_update_interval signed_config)" by simp
  ultimately show ?thesis
    by (simp add: main_run_def main_fetch_def sample_round_def sample_fetch_fails handler_signal_old_tincd_def handler_start_tincd_def
        send_command_def main_updated_def main_wake_def handler_stop_def p_sigterm_def)
qed

theorem main_drives_worker_witness:
  "\<exists>st w. main_run (sample_round []) [sample_round [SIG_TERM]] signed_config (update_fs Map.empty) = Done (True, st)
     \<and> worker_init sample_worker_env w \<and> (wstep sample_worker_env)\<^sup>*\<^sup>* w (w\<lparr>wk_pipe := mn_sent st\<rparr>) \<and> last (mn_sent st) = STOP"
proof -
  obtain st where st: "main_run (sample_round []) [sample_round [SIG_TERM]] signed_config (update_fs Map.empty) = Done (True, st)"
    "mn_sent st = [SIGNAL_OLD_TINCD, START_TINCD, STOP]" using sample_main_run by blast
  obtain w where w: "worker_init sample_worker_env w" by (rule sample_worker)
  from main_drives_worker [OF st(1) w] st w show ?thesis by auto
qed


text \<open>A round in which the signed configuration is fetched for the first time.\<close>

definition update_round :: "(unit, unit, char list) round" where
  "update_round = \<lparr>rd_sleep = [], rd_time = 1000, rd_platform = sample_platform 200, rd_fetch = [], rd_after = 1000, rd_write = True\<rparr>"

theorem main_update_restarts_signed_witness:
  "\<exists>st'. main_update update_round (sample_main signed_config (string_lazyinit 512) (update_fs Map.empty)) = Done st'
     \<and> mn_sent st' = [SIGNAL_OLD_TINCD, START_TINCD, RESTART_TINCD]
     \<and> may_apply (sample_platform 200) signed_config ''PUB'' Map.empty (content (mn_old st'))"
proof -
  obtain cnf fs' where r: "main_fetch_and_apply_config (sample_platform 200) (signed_config, string_lazyinit 512, update_fs Map.empty)
       = Done (1, parsed_config\<lparr>cf_peer_config := [], cf_my_peer := Freed_peer\<rparr>, cnf, fs')" by (rule sample_update)
  let ?st = "sample_main signed_config (string_lazyinit 512) (update_fs Map.empty)"
  have f: "mn_cfg ?st = signed_config" "mn_old ?st = string_lazyinit 512" "mn_fs ?st = update_fs Map.empty"
    "mn_sent ?st = [SIGNAL_OLD_TINCD, START_TINCD]" by (simp_all add: sample_main_def)
  obtain st' where u: "main_update update_round ?st = Done st'" "mn_sent st' = [SIGNAL_OLD_TINCD, START_TINCD, RESTART_TINCD]"
    using r f by (simp add: main_update_def main_fetch_def update_round_def handler_restart_tincd_def send_command_def)
  have "cf_masterdata_signkey (mn_cfg ?st) = Some ''PUB''" by (simp add: f(1) signed_config_fields)
  from main_update_restarts_signed [OF u(1) this] u f show ?thesis by (simp add: update_fs_files update_round_def)
qed

end
