(* ===== verification/Ownpeer.thy ===== *)
theory Ownpeer
  imports Apply
begin

text \<open>
  The pointer \<open>my_peer\<close> of \<^verbatim>\<open>src/main.c\<close> from one update to the next.
\<close>

section \<open>The section of this node after an update\<close>

lemma parser_free_config_result: "parser_free_config ps = Done l \<Longrightarrow> l = []"
  by (induction ps rule: parser_free_config.induct) auto

lemma update_frees_self:
  assumes "main_fetch_and_apply_config pf (cfg, oldconfig, fs) = Done (1, cfg', oldconfig', fs')"
  shows "cf_my_peer cfg' = Freed_peer" and "cf_peer_config cfg' = []"
proof -
  from assms obtain ok cfg1 resp where f: "fetch_text pf cfg (fy_files fs) = Done (ok, cfg1, resp)"
    by (auto simp: main_fetch_and_apply_config_def Let_def run_simps)
  with assms have ok: "ok" "\<not> string_equals resp oldconfig"
    by (auto simp: main_fetch_and_apply_config_def Let_def split: if_splits)
  with assms f obtain cfg2 where p: "main_parse_config (pf_libc pf) resp cfg1 = Done (True, cfg2)"
    and fr: "main_free_parsed_info cfg2 = Done cfg'"
    by (auto simp: main_fetch_and_apply_config_def Let_def run_simps split: if_splits)
  from p have "cf_my_peer cfg2 \<noteq> No_peer"
    by (auto simp: main_parse_config_def Let_def run_simps split: option.splits if_splits)
  with fr parser_free_config_result show "cf_my_peer cfg' = Freed_peer" "cf_peer_config cfg' = []"
    by (cases "cf_my_peer cfg2"; auto simp: main_free_parsed_info_def run_simps)+
qed

lemma request_config_keeps:
  assumes "main_request_config pf cfg resp0 = Done (r, cfg', resp)"
  shows "\<exists>t. cfg' = cfg\<lparr>cf_ifmodifiedsince := t\<rparr>"
proof -
  have same: "\<exists>t. cfg = cfg\<lparr>cf_ifmodifiedsince := t\<rparr>" by (rule exI [of _ "cf_ifmodifiedsince cfg"]) simp
  from assms obtain resp1 where "request_archive pf cfg resp0 = Done (r, cfg', resp1)"
    by (auto simp: main_request_config_def run_bind_Done_iff)
  then obtain hv archive hres where
    "(if hv \<noteq> HTTP_EOK
      then if hv = HTTP_ESRVERR then Done (if hres = (304 :: int) then 0 else - 1, cfg, resp0)
           else if hv = HTTP_EINVURL then Exit 1 else Done (- 1, cfg, resp0)
      else run_bind (read_archive pf (cfg\<lparr>cf_ifmodifiedsince := pf_time pf\<rparr>) archive resp0)
             (\<lambda>(retval, http_response). Done (retval, cfg\<lparr>cf_ifmodifiedsince := pf_time pf\<rparr>, http_response))) = Done (r, cfg', resp1)"
    unfolding request_archive_def Let_def run_bind_Done_iff by (auto simp only: prod.case split_paired_Ex)
  then show ?thesis using same by (cases "hv = HTTP_EOK") (auto simp: run_bind_Done_iff split: if_splits)
qed

lemma fetch_text_keeps:
  assumes "fetch_text pf cfg files = Done (ok, cfg', resp)"
  shows "\<exists>t. cfg' = cfg\<lparr>cf_ifmodifiedsince := t\<rparr>"
  using assms by (auto simp: fetch_text_def run_simps dest!: request_config_keeps split: if_splits)

text \<open>
  C6: the configuration of the next update.  A successful update frees the sections but leaves the pointer to this
  node's section.  When the next text has no section for this node the search finds nothing, yet the stale pointer
  passes for a result: the text is stored and the host files are removed, and then the freed section is read.
\<close>

theorem main_update_without_self:
  assumes first: "main_fetch_and_apply_config pf1 (cfg0, oldconfig0, fs0) = Done (1, cfg, oldconfig, fs1)"
    and fetch: "fetch_text pf cfg (fy_files fs) = Done (True, cfg1, resp)" and new: "\<not> string_equals resp oldconfig"
    and data: "buf_cstr resp = Done (Some data)" and peerid: "cf_peerid cfg = Some peerid"
    and parse: "parser_parse_config (pf_libc pf) data [] = Done (True, st)" "ps_list st = map Some peers"
    and missing: "peerid \<notin> pc_name ` set peers"
    and cfg2: "cfg2 = cfg1\<lparr>cf_peer_config := map Some peers\<rparr>"
    and stages: "main_tempsave_fetched_config (pf_libc pf) (pf_sys pf) cfg2 resp (fy_files fs) = Done (cnf, saved)"
      "main_create_backup pf cfg2 (fs\<lparr>fy_files := saved\<rparr>) = Done (backed_up, fs2)"
      "main_cleanup_hosts_subdir pf cfg2 fs2 = Done (True, fs3)"
    and mem: "alloc_total (pf_libc pf)" and len: "length (options_text cfg2 peerid) < 2 ^ 61"
  shows "main_fetch_and_apply_config pf (cfg, oldconfig, fs) = Fault Use_after_free"
proof -
  from fetch_text_keeps [OF fetch] obtain t where t: "cfg1 = cfg\<lparr>cf_ifmodifiedsince := t\<rparr>" by blast
  with update_frees_self [OF first] peerid
  have c: "cf_my_peer cfg1 = Freed_peer" "cf_peer_config cfg1 = []" "cf_peerid cfg1 = Some peerid" by simp_all
  have "filter (\<lambda>p. pc_name p = peerid) peers = []" using missing by (auto simp: filter_empty_conv)
  moreover have "cfg1\<lparr>cf_peer_config := map Some peers, cf_my_peer := Freed_peer\<rparr> = cfg2"
    using c(1) t unfolding cfg2 by simp
  ultimately have p: "main_parse_config (pf_libc pf) resp cfg1 = Done (True, cfg2)"
    using parse_config_self [OF data c(3), of "pf_libc pf" st peers] parse c by simp
  have "cf_my_peer cfg2 = Freed_peer" "cf_peerid cfg2 = Some peerid" using c by (simp_all add: cfg2)
  then have "generate_tinc_conf (pf_libc pf) cfg2 (string_init (pf_libc pf) 8192 2048) = Fault Use_after_free"
    by (intro generate_tinc_conf_freed [OF mem _ len])
  then have "write_tincd_files pf cfg2 fs3 = Fault Use_after_free"
    by (simp add: write_tincd_files_def Let_def on_files_def tinc_write_config_def seq_step_def)
  then have "install_config pf cfg2 (fs\<lparr>fy_files := saved\<rparr>) = Fault Use_after_free"
    using stages(2,3) by (simp add: install_config_def ignore_result_def seq_step_def)
  with fetch new p stages(1) show ?thesis by (simp add: main_fetch_and_apply_config_def Let_def string_move_def)
qed

text \<open>After the update of the sample, a saved copy that names another node only.\<close>

definition freed_config :: config where
  "freed_config = parsed_config\<lparr>cf_peer_config := [], cf_my_peer := Freed_peer\<rparr>"

definition other_data :: string where
  "other_data = ''[you]'' @ [CHR 0x0A]"

definition other_fs :: fsys where
  "other_fs = update_fs [''/etc/tinc/chaos/data.sav'' \<mapsto> (other_data, 384)]"

lemma freed_config_fields:
  "cf_base_path freed_config = Some ''/etc/tinc/chaos''" "cf_peerid freed_config = Some ''me''"
  "cf_master_url freed_config = Some ''http://m/c''" "cf_tmpconffile freed_config = Some ''/etc/tinc/chaos/data.sav''"
  by (simp_all add: freed_config_def parsed_config_def fetched_config_def signed_config_def sample_config_def config_alloc_def)

lemma tempsave_total:
  assumes lc: "alloc_total lc" and s: "buf_inv s" "content s \<noteq> []" "length (content s) < 2 ^ 32" and f: "str_is_nonempty (cf_tmpconffile cfg)"
  shows "\<exists>r. main_tempsave_fetched_config lc se cfg s files = Done r"
proof -
  have "length (content s) + 1 \<le> buf_limit" "content s \<noteq> [] \<or> sb_s s = None" using s(2,3) by (simp_all add: buf_limit_def)
  from string_ensurez_total [OF s(1) this(1) lc this(2)] obtain t where "string_ensurez lc s = Done (True, t)" by auto
  then show ?thesis using f by (simp add: main_tempsave_fetched_config_def Let_def split: prod.split)
qed

lemma other_parse:
  obtains st where "parser_parse_config total_libc other_data [] = Done (True, st)" "ps_list st = map Some [parser_new_config ''you'']"
proof -
  have "case parser_parse_config total_libc other_data [] of
      Done (ok, st) \<Rightarrow> ok \<and> ps_list st = map Some [parser_new_config ''you''] | _ \<Rightarrow> False" by code_simp
  with that show ?thesis by (auto split: run.splits)
qed

lemma other_fetch:
  obtains s where "fetch_text (sample_platform 304) freed_config (fy_files other_fs) = Done (True, freed_config, s)"
    "buf_inv s" "content s = other_data" "buf_cstr s = Done (Some other_data)"
proof -
  obtain s where s: "main_request_config (sample_platform 304) freed_config (string_init (pf_libc (sample_platform 304)) 4096 512) = Done (0, freed_config, s)"
    "buf_ok s" "sb_growby s = 512"
    by (rule request_config_refused [OF sample_platform_facts(1) sample_server_for [where n = 304, OF _ freed_config_fields(3,2)]]) simp_all
  have f: "fy_files other_fs (canon ''/etc/tinc/chaos/data.sav'') = Some (other_data, 384)"
    "\<not> se_read_error (pf_sys (sample_platform 304)) ''/etc/tinc/chaos/data.sav''"
    by (simp_all add: other_fs_def update_fs_def sample_platform_def plain_env_def)
  have d: "other_data \<noteq> []" "length other_data < 2 ^ 32" "cstr other_data = other_data" by (simp_all add: other_data_def cstr_def)
  obtain t where "main_load_previous_config (pf_libc (sample_platform 304)) (pf_sys (sample_platform 304)) freed_config (fy_files other_fs)
      (string_lazyinit 512) = Done (True, t)" "buf_inv t" "content t = other_data" "buf_cstr t = Done (Some (cstr other_data))"
    by (rule load_saved [where files = "fy_files other_fs" and path = "''/etc/tinc/chaos/data.sav''", OF sample_platform_facts(1) freed_config_fields(4) _ f d(1,2)]) simp
  with s string_free_fresh [OF s(2,3)] d(3) that show ?thesis by (simp add: fetch_text_def)
qed

theorem main_update_without_self_witness:
  "\<exists>cnf fs1. main_fetch_and_apply_config (sample_platform 200) (signed_config, string_lazyinit 512, update_fs Map.empty)
       = Done (1, freed_config, cnf, fs1)
     \<and> main_fetch_and_apply_config (sample_platform 304) (freed_config, cnf, other_fs) = Fault Use_after_free"
proof -
  obtain cnf fs1 where u: "main_fetch_and_apply_config (sample_platform 200) (signed_config, string_lazyinit 512, update_fs Map.empty)
       = Done (1, freed_config, cnf, fs1)" "buf_ok cnf" "content cnf = sample_data"
    by (rule sample_update) (simp add: freed_config_def)
  obtain s where s: "fetch_text (sample_platform 304) freed_config (fy_files other_fs) = Done (True, freed_config, s)"
    "buf_inv s" "content s = other_data" "buf_cstr s = Done (Some other_data)" by (rule other_fetch)
  have new: "\<not> string_equals s cnf"
    using string_equals_content [OF buf_inv_ok [OF s(2)] u(2)] s(3) u(3) by (simp add: other_data_def sample_data_def)
  have lc: "pf_libc (sample_platform 304) = total_libc" by (simp add: sample_platform_def)
  obtain st where st: "parser_parse_config total_libc other_data [] = Done (True, st)" "ps_list st = map Some [parser_new_config ''you'']"
    by (rule other_parse)
  define cfg2 where "cfg2 = freed_config\<lparr>cf_peer_config := map Some [parser_new_config ''you'']\<rparr>"
  have b: "cf_base_path cfg2 = Some ''/etc/tinc/chaos''" and f: "str_is_nonempty (cf_tmpconffile cfg2)"
    by (simp_all add: cfg2_def freed_config_fields)
  obtain t saved where t: "main_tempsave_fetched_config (pf_libc (sample_platform 304)) (pf_sys (sample_platform 304)) cfg2 s (fy_files other_fs) = Done (t, saved)"
    using tempsave_total [OF sample_platform_facts(1) s(2) _ _ f] s(3) by (fastforce simp: other_data_def)
  obtain dirs where d: "main_create_backup (sample_platform 304) cfg2 (update_fs saved) = Done (True, update_fs saved\<lparr>fy_dirs := dirs\<rparr>)"
    "fy_dirs (update_fs saved) \<subseteq> dirs" using update_backup [OF b] by blast
  obtain fs3 where c: "main_cleanup_hosts_subdir (sample_platform 304) cfg2 (update_fs saved\<lparr>fy_dirs := dirs\<rparr>) = Done (True, fs3)"
    using update_cleanup [OF b d(2)] by blast
  have o: "other_fs\<lparr>fy_files := saved\<rparr> = update_fs saved" by (simp add: other_fs_def update_fs_def)
  have len: "length (options_text cfg2 ''me'') < 2 ^ 61"
    by (simp add: options_text_def cfg2_def freed_config_def parsed_config_def fetched_config_def signed_config_def sample_config_def
        config_alloc_def opt_line_def yes_no_def)
  have "main_fetch_and_apply_config (sample_platform 304) (freed_config, cnf, other_fs) = Fault Use_after_free"
    by (rule main_update_without_self [OF u(1) s(1) new s(4) freed_config_fields(2) _ st(2) _ cfg2_def t _ c sample_platform_facts(1) len])
      (use st(1) d(1) in \<open>simp_all add: lc o parser_new_config_def\<close>)
  with u(1) show ?thesis by blast
qed

end
