(* ===== verification/Retry.thy ===== *)
theory Retry
  imports Ownpeer
begin

text \<open>
  What an update of \<^verbatim>\<open>src/main.c\<close> leaves when it fails behind the point where the text was stored.
\<close>

section \<open>An update that fails behind the store\<close>

lemma string_equals_same:
  assumes "buf_ok s" and "buf_ok t" and "content s = content t" and "content s \<noteq> []"
  shows "string_equals s t"
proof -
  have "sb_s x \<noteq> None" if "content x \<noteq> []" for x using that by (cases "sb_s x") (simp_all add: content_def)
  then have "sb_s s \<noteq> None" "sb_s t \<noteq> None" using assms(3,4) by metis+
  then show ?thesis using string_equals_content [OF assms(1,2)] assms(3) by auto
qed

text \<open>
  C7: a failed update is not tried again.  When the text has been parsed and stored but a directory or file of tincd
  cannot be changed, the update returns -1, yet the text counts as applied and the peers stay in the list: the next
  update that gets the same text returns 0 and leaves the half-written files as they are.
\<close>

theorem main_update_failure_final:
  assumes fetch: "fetch_text pf cfg (fy_files fs) = Done (True, cfg1, resp)" and new: "\<not> string_equals resp oldconfig"
    and parse: "main_parse_config (pf_libc pf) resp cfg1 = Done (True, cfg2)"
    and save: "main_tempsave_fetched_config (pf_libc pf) (pf_sys pf) cfg2 resp (fy_files fs) = Done (cnf, saved)"
    and failed: "install_config pf cfg2 (fs\<lparr>fy_files := saved\<rparr>) = Done (False, fs1)"
    and again: "fetch_text pf1 cfg2 (fy_files fs1) = Done (True, cfg3, resp1)"
    and same: "buf_ok resp" "buf_ok resp1" "content resp1 = content resp" "content resp \<noteq> []"
  shows "main_fetch_and_apply_config pf (cfg, oldconfig, fs) = Done (- 1, cfg2, cnf, fs1)
     \<and> main_fetch_and_apply_config pf1 (cfg2, cnf, fs1) = Done (0, cfg3, cnf, fs1)"
proof
  show "main_fetch_and_apply_config pf (cfg, oldconfig, fs) = Done (- 1, cfg2, cnf, fs1)"
    using fetch new parse save failed by (simp add: main_fetch_and_apply_config_def Let_def string_move_def)
  have "buf_ok cnf" "content cnf = content resp" using tempsave_returns [OF save same(1)] by simp_all
  then have "string_equals resp1 cnf" using same by (intro string_equals_same) simp_all
  with again show "main_fetch_and_apply_config pf1 (cfg2, cnf, fs1) = Done (0, cfg3, cnf, fs1)"
    by (simp add: main_fetch_and_apply_config_def Let_def)
qed

text \<open>The sample again, with a regular file where the directory of the host files should be.\<close>

definition blocked_fs :: "files \<Rightarrow> fsys" where
  "blocked_fs files = \<lparr>fy_files = files(''/etc/tinc/chaos/hosts'' \<mapsto> ([], 384)), fy_links = Map.empty,
     fy_dirs = {''/etc/tinc/chaos''}, fy_cwd = ''/etc/tinc/chaos''\<rparr>"

lemma blocked_cwd: "''/etc/tinc/chaos'' \<in> dirs \<Longrightarrow> cwd_ok (sample_dir []) (blocked_fs files\<lparr>fy_dirs := dirs\<rparr>)"
  by (simp add: cwd_ok_def sample_dir_def blocked_fs_def path_ok_def)

lemma blocked_backup:
  assumes "cf_base_path cfg = Some ''/etc/tinc/chaos''"
  obtains dirs where "main_create_backup (sample_platform n) cfg (blocked_fs files) = Done (True, blocked_fs files\<lparr>fy_dirs := dirs\<rparr>)"
    "''/etc/tinc/chaos'' \<in> dirs" "''/etc/tinc/chaos/hosts'' \<notin> dirs"
proof -
  have b: "cwd_ok (sample_dir []) (blocked_fs files)" "no_links (blocked_fs files) ''/etc/tinc/chaos'' ''/etc/tinc/chaos.old''"
    "''/etc/tinc/chaos'' \<in> fy_dirs (blocked_fs files)" "''/etc/tinc/chaos/hosts'' \<notin> fy_dirs (blocked_fs files)"
    by (simp_all add: cwd_ok_def sample_dir_def blocked_fs_def path_ok_def no_links_def)
  from sample_backup [OF assms b(1-3), of n] obtain dirs where
    d: "main_create_backup (sample_platform n) cfg (blocked_fs files) = Done (True, blocked_fs files\<lparr>fy_dirs := dirs\<rparr>)"
      "fy_dirs (blocked_fs files) \<subseteq> dirs" "\<forall>p \<in> dirs. p \<in> fy_dirs (blocked_fs files) \<or> prefix ''/etc/tinc/chaos.old'' p" by blast
  have "\<not> prefix ''/etc/tinc/chaos.old'' ''/etc/tinc/chaos/hosts''" by simp
  with d(3) b(4) have "''/etc/tinc/chaos/hosts'' \<notin> dirs" by blast
  moreover have "''/etc/tinc/chaos'' \<in> dirs" using d(2) b(3) by blast
  ultimately show ?thesis using that d(1) by blast
qed

lemma blocked_cleanup:
  assumes "cf_base_path cfg = Some ''/etc/tinc/chaos''" and "''/etc/tinc/chaos'' \<in> dirs" and "''/etc/tinc/chaos/hosts'' \<notin> dirs"
  shows "main_cleanup_hosts_subdir (sample_platform n) cfg (blocked_fs files\<lparr>fy_dirs := dirs\<rparr>) = Done (False, blocked_fs files\<lparr>fy_dirs := dirs\<rparr>)"
proof -
  have lc: "alloc_total (pf_libc (sample_platform n))" by (rule sample_platform_facts)
  let ?fs = "blocked_fs files\<lparr>fy_dirs := dirs\<rparr>" and ?h = "''/etc/tinc/chaos/hosts''"
  obtain s where s: "dir_name (pf_libc (sample_platform n)) [''/etc/tinc/chaos'', ''/hosts''] = Done (True, s)" "string_cstr s = ?h"
    by (rule dir_name_holds [OF lc, of "''/etc/tinc/chaos''" "''/hosts''"]) simp_all
  have h: "path_ok ?h" "length ?h < 2 ^ 31" by (simp_all add: path_ok_def)
  obtain s1 where s1: "start_path (pf_libc (sample_platform n)) (sample_dir []) ?fs ?h = Done (True, s1)" "holds s1 ?h"
    by (rule start_path_holds [OF lc h])
  obtain s2 where s2: "string_ensurez (pf_libc (sample_platform n)) s1 = Done (True, s2)" "string_cstr s2 = ?h"
    by (rule holds_ensurez [OF s1(2) lc]) (simp_all add: cstr_simps)
  have "resolve ?fs ?h = ?h" using abs_path_dir(1) [OF h(1), of ?fs] by (simp add: resolve_def blocked_fs_def)
  then have st: "os_stat ?fs ?h = Some (S_REG 384 0)" using assms(3) by (simp add: os_stat_def blocked_fs_def)
  let ?body = "\<lambda>fs. run_bind (seq_step (start_path (pf_libc (sample_platform n)) (sample_dir []) fs ?h) (string_ensurez (pf_libc (sample_platform n)))) (\<lambda>(ok, dst).
         if \<not> ok then Done (False, fs) else Done (False, fs))"
  have "fs_empty_dir (pf_libc (sample_platform n)) (sample_dir []) ?h ?fs = Done (False, ?fs\<lparr>fy_cwd := fy_cwd ?fs\<rparr>)"
    unfolding fs_empty_dir_def
    by (rule keeping_cwd_returns [OF lc blocked_cwd [OF assms(2)]])
      (use s1(1) s2 st in \<open>simp_all add: seq_step_def, simp add: blocked_fs_def\<close>)
  with s assms(1) show ?thesis by (simp add: main_cleanup_hosts_subdir_def sample_platform_def)
qed

lemma blocked_install:
  assumes "cf_base_path cfg = Some ''/etc/tinc/chaos''"
  obtains dirs where "install_config (sample_platform n) cfg (blocked_fs files) = Done (False, blocked_fs files\<lparr>fy_dirs := dirs\<rparr>)"
proof -
  obtain dirs where b: "main_create_backup (sample_platform n) cfg (blocked_fs files) = Done (True, blocked_fs files\<lparr>fy_dirs := dirs\<rparr>)"
    "''/etc/tinc/chaos'' \<in> dirs" "''/etc/tinc/chaos/hosts'' \<notin> dirs" by (rule blocked_backup [OF assms])
  from b(1) blocked_cleanup [OF assms b(2,3)] that [of dirs] show ?thesis
    by (simp add: install_config_def ignore_result_def seq_step_def)
qed

lemma sample_stored:
  assumes "buf_inv s" and "content s = sample_data"
  obtains cnf mode where "main_tempsave_fetched_config (pf_libc (sample_platform n)) (pf_sys (sample_platform n)) parsed_config s files
    = Done (cnf, files(''/etc/tinc/chaos/data.sav'' \<mapsto> (sample_data, mode)))"
proof -
  have "length (content s) + 1 \<le> buf_limit" "content s \<noteq> [] \<or> sb_s s = None"
    using assms(2) by (simp_all add: buf_limit_def sample_length sample_data_def)
  from string_ensurez_total [OF assms(1) this(1) total_libc_facts(1) this(2)] obtain t where
    t: "string_ensurez total_libc s = Done (True, t)" "content t = sample_data" using assms(2) by auto
  have "\<exists>m. fs_writecontents plain_env ''/etc/tinc/chaos/data.sav'' sample_data 384 files
      = (True, files(''/etc/tinc/chaos/data.sav'' \<mapsto> (sample_data, m)))"
    by (simp add: fs_writecontents_def plain_env_def Let_def) blast
  with t that show ?thesis by (auto simp: main_tempsave_fetched_config_def sample_platform_def parsed_config_fields Let_def)
qed

theorem main_update_failure_final_witness:
  "\<exists>cnf fs1 cfg. main_fetch_and_apply_config (sample_platform 200) (signed_config, string_lazyinit 512, blocked_fs Map.empty)
       = Done (- 1, cfg, cnf, fs1)
     \<and> main_fetch_and_apply_config (sample_platform 304) (cfg, cnf, fs1) = Done (0, cfg, cnf, fs1)"
proof -
  have lc: "pf_libc (sample_platform 200) = total_libc" by (simp add: sample_platform_def)
  let ?sav = "''/etc/tinc/chaos/data.sav''"
  obtain s where s: "main_request_config (sample_platform 200) signed_config (string_init total_libc 4096 512) = Done (1, fetched_config, s)"
    "buf_inv s" "content s = sample_data" "buf_cstr s = Done (Some sample_data)"
    using sample_request by (auto simp: fetched_config_def)
  have f: "fetch_text (sample_platform 200) signed_config (fy_files (blocked_fs Map.empty)) = Done (True, fetched_config, s)"
    using s(1) by (simp add: fetch_text_def lc)
  have d: "sample_data \<noteq> []" by (simp add: sample_data_def)
  have e: "\<not> string_equals s (string_lazyinit 512)"
    using string_equals_content [OF buf_inv_ok [OF s(2)] buf_inv_ok [OF string_lazyinit_inv(1)], of 512] s(3) d
    by (simp add: string_lazyinit_inv)
  obtain st where st: "parser_parse_config total_libc sample_data [] = Done (True, st)" "ps_list st = [Some (parser_new_config ''me'')]"
    by (rule sample_parse)
  have p: "main_parse_config (pf_libc (sample_platform 200)) s fetched_config = Done (True, parsed_config)"
    using s(4) st by (simp add: lc main_parse_config_def fetched_config_def signed_config_fields parsed_config_def parser_new_config_def Let_def)
  obtain cnf mode where t: "main_tempsave_fetched_config (pf_libc (sample_platform 200)) (pf_sys (sample_platform 200)) parsed_config s
      (fy_files (blocked_fs Map.empty)) = Done (cnf, (fy_files (blocked_fs Map.empty))(?sav \<mapsto> (sample_data, mode)))"
    by (rule sample_stored [OF s(2,3)])
  have b: "blocked_fs Map.empty\<lparr>fy_files := (fy_files (blocked_fs Map.empty))(?sav \<mapsto> (sample_data, mode))\<rparr>
      = blocked_fs [?sav \<mapsto> (sample_data, mode)]" by (simp add: blocked_fs_def fun_upd_twist)
  obtain dirs where i: "install_config (sample_platform 200) parsed_config (blocked_fs [?sav \<mapsto> (sample_data, mode)])
      = Done (False, blocked_fs [?sav \<mapsto> (sample_data, mode)]\<lparr>fy_dirs := dirs\<rparr>)" by (rule blocked_install [OF parsed_config_fields(1)])
  let ?fs1 = "blocked_fs [?sav \<mapsto> (sample_data, mode)]\<lparr>fy_dirs := dirs\<rparr>"
  have m: "cf_master_url parsed_config = Some ''http://m/c''"
    by (simp add: parsed_config_def fetched_config_def signed_config_def)
  obtain u where u: "main_request_config (sample_platform 304) parsed_config (string_init (pf_libc (sample_platform 304)) 4096 512) = Done (0, parsed_config, u)"
    "buf_ok u" "sb_growby u = 512"
    by (rule request_config_refused [OF sample_platform_facts(1) sample_server_for [where n = 304, OF _ m parsed_config_fields(2)]]) simp_all
  have g: "fy_files ?fs1 (canon ?sav) = Some (sample_data, mode)" "\<not> se_read_error (pf_sys (sample_platform 304)) ?sav"
    by (simp_all add: blocked_fs_def sample_platform_def plain_env_def)
  obtain v where v: "main_load_previous_config (pf_libc (sample_platform 304)) (pf_sys (sample_platform 304)) parsed_config (fy_files ?fs1)
      (string_lazyinit 512) = Done (True, v)" "buf_inv v" "content v = sample_data"
    by (rule load_saved [where files = "fy_files ?fs1" and path = ?sav, OF sample_platform_facts(1) parsed_config_fields(7) _ g d])
      (simp_all add: sample_data_def)
  have a: "fetch_text (sample_platform 304) parsed_config (fy_files ?fs1) = Done (True, parsed_config, v)"
    using u v(1) string_free_fresh [OF u(2,3)] by (simp add: fetch_text_def)
  have j: "install_config (sample_platform 200) parsed_config
      (blocked_fs Map.empty\<lparr>fy_files := (fy_files (blocked_fs Map.empty))(?sav \<mapsto> (sample_data, mode))\<rparr>) = Done (False, ?fs1)"
    unfolding b by (rule i)
  from main_update_failure_final [OF f e p t j a buf_inv_ok [OF s(2)] buf_inv_ok [OF v(2)]] s(3) v(3) d
  show ?thesis by auto
qed

end
