(* ===== verification/Confsafe.thy ===== *)
theory Confsafe
  imports Confgram
begin

text \<open>
  What any configuration file can do: reading it returns or ends the program, and it changes no field but
  those its settings name.
\<close>

section \<open>What a file can do to the configuration\<close>

text \<open>The fields that no setting names: what the command line, the start and the updates fill in.\<close>

definition untouched :: "config \<Rightarrow> config \<Rightarrow> bool" where
  "untouched cfg cfg' \<longleftrightarrow>
     cf_pidfile cfg' = cf_pidfile cfg \<and> cf_configfile cfg' = cf_configfile cfg \<and> cf_daemonmode cfg' = cf_daemonmode cfg
     \<and> cf_oneshot cfg' = cf_oneshot cfg \<and> cf_tincd_version cfg' = cf_tincd_version cfg \<and> cf_privkey cfg' = cf_privkey cfg
     \<and> cf_ed25519publickey cfg' = cf_ed25519publickey cfg \<and> cf_my_peer cfg' = cf_my_peer cfg
     \<and> cf_peer_config cfg' = cf_peer_config cfg \<and> cf_ifmodifiedsince cfg' = cf_ifmodifiedsince cfg
     \<and> cf_mergeroutes_supernet cfg' = cf_mergeroutes_supernet cfg \<and> cf_ignore_subnets cfg' = cf_ignore_subnets cfg
     \<and> cf_whitelist_subnets cfg' = cf_whitelist_subnets cfg \<and> cf_tincd_uid cfg' = cf_tincd_uid cfg
     \<and> cf_tincd_gid cfg' = cf_tincd_gid cfg"

lemma untouched_refl: "untouched cfg cfg"
  by (simp add: untouched_def)

lemma untouched_trans: "untouched a b \<Longrightarrow> untouched b c \<Longrightarrow> untouched a c"
  by (simp add: untouched_def)

fun harmless :: "token \<Rightarrow> bool" where
  "harmless (KEYWORD_S p) = (\<forall>v cfg. untouched cfg (fd_put p v cfg))"
| "harmless (KEYWORD_I p) = (\<forall>v cfg. untouched cfg (fd_put p v cfg))"
| "harmless (KEYWORD_B p) = (\<forall>v cfg. untouched cfg (fd_put p v cfg))"
| "harmless (KEYWORD_L p) = (\<forall>v cfg. untouched cfg (fd_put p v cfg))"
| "harmless t = True"

lemma variables_harmless: "list_all (\<lambda>(name, t). harmless t) variables"
  by (simp add: variables_def untouched_def)

definition harmless_action :: "(string \<Rightarrow> scanner \<Rightarrow> outcome) \<Rightarrow> bool" where
  "harmless_action a \<longleftrightarrow> (\<forall>s sc t sc'. a s sc = Return t sc' \<longrightarrow> harmless t)"

lemma rules_harmless: "list_all (\<lambda>(cond, pattern, action). harmless_action action) rules"
  using variables_harmless
  by (auto simp: rules_def variable_rules_def value_rules_def string_rules_def list_rules_def other_rules_def list_all_iff
      harmless_action_def scan_actions unknown_variable_def)

lemma foldr_try_action:
  "list_all (\<lambda>(cond, pattern, action). P action) rs \<Longrightarrow> P (snd later) \<Longrightarrow> P (snd (foldr (try_rule start s) rs later))"
  by (induction rs) (auto simp: try_rule_def split: option.splits)

lemma tokens_harmless: "list_all harmless (yylex_all s sc)"
proof (induction s sc rule: yylex_all.induct)
  case (2 c input sc)
  obtain n action where p: "pick (yy_start sc) (c # input) = (n, action)" by fastforce
  have "harmless_action (snd (pick (yy_start sc) (c # input)))"
    unfolding pick_def by (rule foldr_try_action [OF rules_harmless]) (simp add: harmless_action_def ignore_def)
  then have a: "harmless_action action" by (simp add: p)
  show ?case
  proof (cases "action (take n (c # input)) sc")
    case (Return t sc')
    with "2.IH"(1) [OF p [symmetric] Return] a show ?thesis by (auto simp: yylex_all.simps(2) p harmless_action_def)
  next
    case (Ignore sc')
    with "2.IH"(2) [OF p [symmetric] Ignore] show ?thesis by (simp add: yylex_all.simps(2) p)
  qed (simp add: yylex_all.simps(2) p)
qed simp

text \<open>The outcomes of a parser: it ends the program, or it returns something with a property.\<close>

definition ends_or :: "('a \<Rightarrow> bool) \<Rightarrow> 'a run \<Rightarrow> bool" where
  "ends_or P r \<longleftrightarrow> r = Exit 1 \<or> r = Exit 111 \<or> (\<exists>x. r = Done x \<and> P x)"

lemma ends_or_simps [simp]: "ends_or P (Done x) = P x" "ends_or P (Exit 1)" "ends_or P (Exit 111)"
  by (simp_all add: ends_or_def)

lemma ends_or_bind: "ends_or P r \<Longrightarrow> (\<And>x. P x \<Longrightarrow> ends_or Q (f x)) \<Longrightarrow> ends_or Q (run_bind r f)"
  by (cases r) (auto simp: ends_or_def)

lemma string_value_ends: "ends_or (\<lambda>s. True) (string_value lc cfg ts)"
  by (induction lc cfg ts rule: string_value.induct)
    (auto intro!: ends_or_bind simp: catandfree_def concatias_def Let_def split: option.split)

lemma dropWhile_suffix: "list_all P ts \<Longrightarrow> dropWhile f ts = x # rest \<Longrightarrow> list_all P rest"
  by (metis dropWhile_eq_drop list_all_iff in_set_dropD list.set_intros(2))

lemma parse_string_ends: "list_all P ts \<Longrightarrow> ends_or (\<lambda>(s, rest). list_all P rest) (parse_string lc cfg ts)"
proof (cases "dropWhile in_string ts")
  case (Cons t rest)
  assume "list_all P ts"
  from dropWhile_suffix [OF this Cons] have "list_all P rest" .
  then show ?thesis
    by (cases t) (simp_all add: parse_string_def Cons ends_or_bind [OF string_value_ends])
next
  case Nil
  then show ?thesis unfolding parse_string_def Nil list.case by (intro ends_or_bind [OF string_value_ends]) simp
qed

lemma parse_listentry_ends: "list_all P ts \<Longrightarrow> ends_or (\<lambda>(e, rest). list_all P rest) (parse_listentry lc cfg ts)"
  by (auto simp: parse_listentry_def list_mkientry_def list_mksentry_def intro!: ends_or_bind [OF parse_string_ends]
      split: list.split token.split)


lemma ends_or_close_sep:
  assumes "\<And>r. ts = LISTCLOSE # r \<Longrightarrow> ends_or Q (f r)" and "\<And>r. ts = LISTSEP # r \<Longrightarrow> ends_or Q (g r)"
  shows "ends_or Q (case ts of LISTCLOSE # r \<Rightarrow> f r | LISTSEP # r \<Rightarrow> g r | _ \<Rightarrow> Exit 1)"
  using assms by (simp split: list.split token.split)

lemma ends_or_close:
  assumes "\<And>r. ts = LISTCLOSE # r \<Longrightarrow> ends_or Q (f r)" and "ends_or Q g"
  shows "ends_or Q (case ts of LISTCLOSE # r \<Rightarrow> f r | _ \<Rightarrow> g)"
  using assms by (simp split: list.split token.split)

lemma list_allocate_ends: "ends_or (\<lambda>l. True) (list_allocate lc)" "ends_or (\<lambda>l. True) (list_add_elem lc l e)"
  by (simp_all add: list_allocate_def list_add_elem_def)

lemma ends_or_conj: "r = Done x \<Longrightarrow> P x \<Longrightarrow> ends_or P r"
  by simp

lemma parse_listentry_ends_shorter:
  "list_all P ts \<Longrightarrow> ends_or (\<lambda>(e, rest). list_all P rest \<and> length rest < length ts) (parse_listentry lc cfg ts)"
  using parse_listentry_ends [of P ts lc cfg] parse_listentry_shorter [of lc cfg ts] by (auto simp: ends_or_def)

lemma parse_list_ends: "list_all P ts \<Longrightarrow> ends_or (\<lambda>(l, rest). list_all P rest) (parse_list lc cfg ts)"
proof (induction ts rule: length_induct)
  case (1 ts)
  show ?case
  proof (subst parse_list.simps, rule ends_or_close)
    fix r assume "ts = LISTCLOSE # r"
    then show "ends_or (\<lambda>(l, rest). list_all P rest) (run_bind (list_allocate lc) (\<lambda>l. Done (l, r)))"
      using 1 by (intro ends_or_bind [OF list_allocate_ends(1)]) simp
  next
    show "ends_or (\<lambda>(l, rest). list_all P rest) (run_bind (parse_listentry lc cfg ts) (\<lambda>(e, ts). case ts of
            LISTCLOSE # rest \<Rightarrow> run_bind (list_allocate lc) (\<lambda>l. run_bind (list_add_elem lc l e) (\<lambda>l. Done (l, rest)))
          | LISTSEP # rest \<Rightarrow>
              run_bind (parse_list lc cfg rest) (\<lambda>(l, ts). run_bind (list_add_elem lc l e) (\<lambda>l. Done (l, ts)))
          | _ \<Rightarrow> Exit 1))"
    proof (rule ends_or_bind [OF parse_listentry_ends_shorter [OF 1(2)]], clarify, rule ends_or_close_sep)
      fix e ts1 r assume "list_all P ts1" "ts1 = LISTCLOSE # r"
      then show "ends_or (\<lambda>(l, rest). list_all P rest)
          (run_bind (list_allocate lc) (\<lambda>l. run_bind (list_add_elem lc l e) (\<lambda>l. Done (l, r))))"
        by (intro ends_or_bind [OF list_allocate_ends(1)] ends_or_bind [OF list_allocate_ends(2)]) simp
    next
      fix e ts1 r assume r: "list_all P ts1" "length ts1 < length ts" "ts1 = LISTSEP # r"
      then have "ends_or (\<lambda>(l, rest). list_all P rest) (parse_list lc cfg r)" using 1(1) by simp
      then show "ends_or (\<lambda>(l, rest). list_all P rest)
          (run_bind (parse_list lc cfg r) (\<lambda>(l, ts). run_bind (list_add_elem lc l e) (\<lambda>l. Done (l, ts))))"
        by (rule ends_or_bind) (auto intro: ends_or_bind [OF list_allocate_ends(2)])
    qed
  qed
qed

lemma parse_setting_ends:
  assumes "list_all harmless ts"
  shows "ends_or (\<lambda>(cfg', rest). untouched cfg cfg' \<and> list_all harmless rest \<and> length rest < length ts) (parse_setting lc cfg ts)"
proof -
  have s: "list_all harmless r \<Longrightarrow> ends_or (\<lambda>(s, rest). list_all harmless rest) (parse_string lc cfg r)"
    and l: "list_all harmless r \<Longrightarrow> ends_or (\<lambda>(s, rest). list_all harmless rest) (parse_list lc cfg r)" for r
    by (rule parse_string_ends parse_list_ends; assumption)+
  have "ends_or (\<lambda>(cfg', rest). untouched cfg cfg' \<and> list_all harmless rest) (parse_setting lc cfg ts)"
    using assms
    by (auto simp: parse_setting_def intro!: ends_or_bind [OF s] ends_or_bind [OF l] split: list.split token.split)
  then show ?thesis using parse_setting_shorter [of lc cfg ts] by (auto simp: ends_or_def)
qed

lemma parse_settings_ends: "list_all harmless ts \<Longrightarrow> ends_or (untouched cfg) (parse_settings lc cfg ts)"
proof (induction ts arbitrary: cfg rule: length_induct)
  case (1 ts)
  show ?case
  proof (cases "ts = []")
    case False
    then have "parse_settings lc cfg ts = run_bind (parse_setting lc cfg ts) (\<lambda>(cfg, ts).
             case ts of SEPARATOR # rest \<Rightarrow> parse_settings lc cfg rest | _ \<Rightarrow> Exit 1)" by (subst parse_settings.simps) simp
    also have "ends_or (untouched cfg) \<dots>"
    proof (rule ends_or_bind [OF parse_setting_ends [OF 1(2)]], clarify)
      fix c ts1 assume c: "untouched cfg c" "list_all harmless ts1" "length ts1 < length ts"
      have "ends_or (untouched cfg) (parse_settings lc c r)" if "ts1 = SEPARATOR # r" for r
      proof -
        from 1(1) c that have "ends_or (untouched c) (parse_settings lc c r)" by simp
        with untouched_trans [OF c(1)] show ?thesis by (auto simp: ends_or_def)
      qed
      then show "ends_or (untouched cfg) (case ts1 of SEPARATOR # rest \<Rightarrow> parse_settings lc c rest | _ \<Rightarrow> Exit 1)"
        by (simp split: list.split token.split)
    qed
    finally show ?thesis .
  qed (simp add: parse_settings.simps untouched_refl)
qed

section \<open>Properties\<close>


end
