(* ===== verification/Confload.thy ===== *)
theory Confload
  imports Mainloop Confsafe
begin

text \<open>
  What is in force after the start: the settings of the file as \<open>config_init\<close> and \<open>main\<close> leave them.
\<close>

text \<open>
  \<open>config_init\<close> keeps what the command line has set and the settings it has no default for, fills an absent one of the others in, and turns the
  three lists of subnets into address lists.
\<close>

definition in_force :: "libc \<Rightarrow> config \<Rightarrow> config \<Rightarrow> bool" where
  "in_force lc c cfg \<longleftrightarrow>
     list_all (\<lambda>get. get cfg = get c)
       [cf_pidfile, cf_configfile, cf_peerid, cf_vpn_ip, cf_vpn_ip6, cf_networkname, cf_tincd_bin, cf_routemetric, cf_routeadd, cf_routeadd6, cf_routedel,
        cf_routedel6, cf_postup, cf_ifconfig, cf_ifconfig6, cf_master_url, cf_base_path, cf_masterdata_signkey,
        cf_tincd_graphdumpfile, cf_tincd_user, cf_tincd_raw_config]
     \<and> list_all (\<lambda>get. get cfg = get c) [cf_oneshot, cf_daemonmode, cf_use_dynamic_routes, cf_connect_only_to_primary_nodes,
        cf_run_ifdown, cf_localdiscovery]
     \<and> list_all (\<lambda>get. get cfg = get c) [cf_tincd_debuglevel, cf_tincd_restart_delay, cf_update_interval]
     \<and> cf_exclude cfg = cf_exclude c
     \<and> list_all (\<lambda>get. get c \<noteq> None \<longrightarrow> get cfg = get c) [cf_tincd_pidfile, cf_tmpconffile]
     \<and> list_all (\<lambda>get. str_is_nonempty (get c) \<longrightarrow> get cfg = get c) [cf_tincd_device, cf_tincd_interface, cf_my_addressfamily]
     \<and> parse_and_free_raw_subnetlist lc (cf_mergeroutes_supernet_raw c) = Done (cf_mergeroutes_supernet cfg)
     \<and> parse_and_free_raw_subnetlist lc (cf_ignore_subnets_raw c) = Done (cf_ignore_subnets cfg)
     \<and> parse_and_free_raw_subnetlist lc (cf_whitelist_subnets_raw c) = Done (cf_whitelist_subnets cfg)"

lemma subnet_lists_parse:
  assumes "subnet_lists lc cfg = Done (True, cfg')"
  shows "parse_and_free_raw_subnetlist lc (cf_mergeroutes_supernet_raw cfg) = Done (cf_mergeroutes_supernet cfg')
     \<and> parse_and_free_raw_subnetlist lc (cf_ignore_subnets_raw cfg) = Done (cf_ignore_subnets cfg')
     \<and> parse_and_free_raw_subnetlist lc (cf_whitelist_subnets_raw cfg) = Done (cf_whitelist_subnets cfg')"
  using assms by (auto simp: subnet_lists_def load_mergeroutes_def load_ignore_def load_whitelist_def load_subnets_def run_simps)

lemma check_addressfamily_keeps:
  assumes "check_addressfamily cfg = Done (True, cfg')"
  shows "\<exists>v. cfg' = cfg\<lparr>cf_my_addressfamily := v\<rparr> \<and> (str_is_nonempty (cf_my_addressfamily cfg) \<longrightarrow> v = cf_my_addressfamily cfg)"
  using assms
  by (intro exI [of _ "cf_my_addressfamily cfg'"]) (auto simp: check_addressfamily_def str_is_nonempty_iff split: if_splits)

lemma identity_checks_keep:
  assumes "identity_checks lc se cfg = Done (True, cfg')"
  shows "\<exists>ip fam uid gid. cfg' = cfg\<lparr>cf_my_ip := ip, cf_my_addressfamily := fam, cf_tincd_uid := uid, cf_tincd_gid := gid\<rparr>
     \<and> (str_is_nonempty (cf_my_addressfamily cfg) \<longrightarrow> fam = cf_my_addressfamily cfg)"
proof -
  from assms obtain c1 c2 where c: "check_my_ip lc cfg = Done (True, c1)" "check_addressfamily c1 = Done (True, c2)"
      "lookup_user se c2 = Done (True, cfg')"
    unfolding identity_checks_def run_seq.simps seq_step_Done_True_iff by auto
  obtain ip where c1: "c1 = cfg\<lparr>cf_my_ip := ip\<rparr>" by (rule check_my_ip_True [OF c(1)])
  obtain v where v: "c2 = c1\<lparr>cf_my_addressfamily := v\<rparr>" "str_is_nonempty (cf_my_addressfamily c1) \<longrightarrow> v = cf_my_addressfamily c1"
    using check_addressfamily_keeps [OF c(2)] by blast
  obtain uid gid where "cfg' = c2\<lparr>cf_tincd_uid := uid, cf_tincd_gid := gid\<rparr>" using lookup_user_True [OF c(3)] by blast
  with c1 v show ?thesis by (intro exI [of _ ip] exI [of _ v] exI [of _ uid] exI [of _ gid]) simp
qed

lemma default_device_keeps:
  assumes "default_device cfg = Done (True, cfg')"
  shows "\<exists>d i. cfg' = cfg\<lparr>cf_tincd_device := d, cf_tincd_interface := i\<rparr>
     \<and> (str_is_nonempty (cf_tincd_device cfg) \<longrightarrow> d = cf_tincd_device cfg)
     \<and> (str_is_nonempty (cf_tincd_interface cfg) \<longrightarrow> i = cf_tincd_interface cfg)"
  using assms
  by (intro exI [of _ "cf_tincd_device cfg'"] exI [of _ "cf_tincd_interface cfg'"])
    (auto simp: default_device_def str_is_nonempty_iff Let_def split: if_splits option.splits)

lemma config_checks_in_force:
  assumes "config_checks lc se c0 = Done (True, cfg)" and lc: "getaddrinfo_sized lc"
  shows "in_force lc c0 (cfg\<lparr>cf_privkey := a, cf_ed25519publickey := b, cf_tincd_version := v, cf_tincctl_bin := t\<rparr>)
     \<and> cf_tincd_pidfile cfg = cf_tincd_pidfile c0 \<and> cf_tmpconffile cfg = cf_tmpconffile c0"
proof -
  from assms(1) obtain c1 c2 c3 c4 where c: "required_params se c0 = Done (True, c1)" "identity_checks lc se c1 = Done (True, c2)"
      "address_checks lc c2 = Done (True, c3)" "subnet_lists lc c3 = Done (True, c4)" "default_device c4 = Done (True, cfg)"
    unfolding config_checks_def run_seq.simps seq_step_Done_True_iff by auto
  have c1: "c1 = c0" and c3: "c3 = c2" using required_params_True [OF c(1)] address_checks_True [OF c(3)] by blast+
  obtain ip fam uid gid where
    c2: "c2 = c0\<lparr>cf_my_ip := ip, cf_my_addressfamily := fam, cf_tincd_uid := uid, cf_tincd_gid := gid\<rparr>"
    and f: "str_is_nonempty (cf_my_addressfamily c0) \<longrightarrow> fam = cf_my_addressfamily c0"
    using identity_checks_keep [OF c(2)] c1 by blast
  note p = subnet_lists_parse [OF c(4)]
  obtain m i w where
    c4: "c4 = c2\<lparr>cf_mergeroutes_supernet := m, cf_mergeroutes_supernet_raw := None, cf_ignore_subnets := i,
         cf_ignore_subnets_raw := None, cf_whitelist_subnets := w, cf_whitelist_subnets_raw := None\<rparr>"
    by (rule subnet_lists_True [OF c(4) [unfolded c3] lc]) (rule that; assumption)
  obtain d ifc where
    cfg: "cfg = c4\<lparr>cf_tincd_device := d, cf_tincd_interface := ifc\<rparr>"
    and "str_is_nonempty (cf_tincd_device c4) \<longrightarrow> d = cf_tincd_device c4"
      "str_is_nonempty (cf_tincd_interface c4) \<longrightarrow> ifc = cf_tincd_interface c4"
    using default_device_keeps [OF c(5)] by blast
  with f p show ?thesis by (simp add: in_force_def c2 c3 c4 cfg)
qed

lemma default_files_in_force:
  assumes "default_files c4 = Done (True, cfg)" and "in_force lc c0 c4"
    and "cf_tincd_pidfile c4 = cf_tincd_pidfile c0" "cf_tmpconffile c4 = cf_tmpconffile c0"
  shows "in_force lc c0 cfg"
proof -
  from default_files_parts [OF assms(1)] obtain name base where "cf_networkname c4 = Some name" "cf_base_path c4 = Some base"
    by blast
  from default_files_eq [OF this] assms(1) have "cfg = c4\<lparr>
     cf_tincd_pidfile := if cf_tincd_pidfile c4 = None then Some (snprintf1024 (''/var/run/tinc.'' @ name @ ''.pid''))
                         else cf_tincd_pidfile c4,
     cf_tmpconffile := if cf_tmpconffile c4 = None then Some (snprintf1024 (base @ ''/data.sav'')) else cf_tmpconffile c4\<rparr>"
    by (simp only: run.inject prod.inject simp_thms)
  with assms(2-4) show ?thesis by (simp add: in_force_def)
qed

lemma config_file_in_force:
  assumes "alloc_total lc" and "getaddrinfo_sized lc" and "list_all conf_line_ok ls"
    and "cf_configfile cfg0 = Some configfile" and "files (canon configfile) = Some (print_lines ls, mode)"
    and "config_init lc se mkdir files dirs cfg0 = Done (True, dirs', cfg)"
  shows "\<exists>c. apply_lines ls cfg0 = Some c \<and> in_force lc c cfg"
proof -
  from assms(6) obtain c c2 c3 c4 where c: "yyparse lc (print_lines ls) cfg0 = Done c" "config_checks lc se c = Done (True, c2)"
      "read_keys lc se files c2 = Done (True, c3)" "find_version lc se c3 = Done (True, c4)" "default_files c4 = Done (True, cfg)"
    unfolding config_init_def assms(4,5) option.case prod.case by (auto simp: run_simps split: if_splits)
  from c(1) have read: "apply_lines ls cfg0 = Some c" by (simp add: yyparse_lines [OF assms(1,3)] split: option.splits)
  obtain priv pub where c3: "c3 = c2\<lparr>cf_privkey := priv, cf_ed25519publickey := pub\<rparr>" by (rule read_keys_True [OF c(3)])
  obtain v t where c4: "c4 = c3\<lparr>cf_tincd_version := v, cf_tincctl_bin := t\<rparr>" by (rule find_version_True [OF c(4)])
  have "in_force lc c cfg"
    by (rule default_files_in_force [OF c(5)]) (use config_checks_in_force [OF c(2) assms(2)] in \<open>simp_all add: c4 c3\<close>)
  with read show ?thesis by blast
qed

text \<open>Settings leave alone what the command line has set.\<close>

lemma apply_lines_untouched:
  assumes "alloc_total lc" and "list_all conf_line_ok ls" and "apply_lines ls cfg0 = Some c"
  shows "untouched cfg0 c"
  using parse_settings_ends [OF tokens_harmless, of cfg0 lc "print_lines ls" start_scanner] yyparse_lines [OF assms(1,2), of cfg0] assms(3)
  by (simp add: yyparse_def)

section \<open>Properties\<close>


text \<open>A start of the client with \<open>-o\<close>, on the sample file.\<close>

definition sample_start :: start_env where
  "sample_start = \<lparr>sv_libc = total_libc, sv_sys = version_env, sv_tincdir = ''/etc/tinc'', sv_uid = 0,
     sv_tun = \<lparr>te_exists = \<lambda>_. True, te_mkdir = \<lambda>_. True, te_mknod = \<lambda>_ _. True\<rparr>, sv_fork1 = 0, sv_fork2 = 0,
     sv_setsid = True, sv_limit = 10, sv_pid = \<lparr>pe_pid = 1, pe_fprintf = True, pe_chmod = True\<rparr>, sv_worker = True,
     sv_setids = \<lambda>_ _. True\<rparr>"

definition sample_disk :: fsys where
  "sample_disk = \<lparr>fy_files = start_files, fy_links = \<lambda>_. None, fy_dirs = {''/etc/tinc''}, fy_cwd = ''/''\<rparr>"

lemma sample_opts: "main_parse_opts total_libc (getopt_words [''-o'']) (config_alloc ''/etc/tinc'') = Done start_config"
  by (simp add: start_config_def config_alloc_def)

lemma sample_base: "fst (fs_mkdir_p os_mkdir ''/etc/tinc/chaos'' sample_disk)"
  by (subst fs_mkdir_p.simps)
    (simp add: os_mkdir_def sample_disk_def abs_path_def strip_slash_def tree_mkdir_def last_slash_def start_files_def Let_def)

lemma sample_starts: "\<exists>cfg fs'. main_start sample_start [''-o''] sample_disk {} = Done (cfg, fs', {})"
proof -
  from sample_base obtain s' where "fs_mkdir_p os_mkdir ''/etc/tinc/chaos'' sample_disk = (True, s')"
    by (metis prod.collapse)
  from start_succeeds_in [OF this] obtain fs1 cfg where
    init: "config_init total_libc version_env os_mkdir start_files sample_disk start_config = Done (True, fs1, cfg)" by blast
  have conf: "cf_configfile start_config = Some ''/etc/tinc/chaosvpn.conf''"
    "start_files (canon ''/etc/tinc/chaosvpn.conf'') = Some (print_lines start_lines, 420)"
    by (simp_all add: start_config_def config_alloc_def start_files_def)
  obtain c where c: "apply_lines start_lines start_config = Some c" "in_force total_libc c cfg"
    using config_file_in_force [OF total_libc_facts(1,2) start_lines_ok conf init] by blast
  have "untouched start_config c" by (rule apply_lines_untouched [OF total_libc_facts(1) start_lines_ok c(1)])
  with c(2) have "cf_daemonmode cfg = cf_daemonmode start_config" "cf_pidfile cfg = cf_pidfile start_config"
    by (simp_all add: in_force_def untouched_def)
  then have "\<not> cf_daemonmode cfg" "cf_pidfile cfg = None" by (simp_all add: start_config_def config_alloc_def)
  with init sample_opts show ?thesis
    by (simp add: main_start_def main_check_root_def tun_check_or_create_def sample_start_def) (simp add: sample_disk_def)
qed


end
