(* ===== verification/Tinclog.thy ===== *)
theory Tinclog
  imports Prelude
begin

text \<open>
  The part of the worker of \<^verbatim>\<open>src/main.c\<close> that copies the error output of tincd into the log, line by line, through
  a buffer of 1024 bytes that keeps the beginning of a line for the next round.
\<close>

section \<open>The buffer\<close>

definition stderr_size :: nat where "stderr_size = 1024"

text \<open>\<open>strlen\<close> and the position of a character, in a buffer with a zero byte.\<close>

definition strlen :: "char list \<Rightarrow> nat" where
  "strlen buf = length (cstr buf)"

definition strchr :: "char list \<Rightarrow> char \<Rightarrow> nat option" where
  "strchr buf c = (if c \<in> set (cstr buf) then Some (length (takeWhile (\<lambda>d. d \<noteq> c) buf)) else None)"

text \<open>Bytes stored at an offset, and bytes moved to the front.\<close>

definition store_at :: "nat \<Rightarrow> char list \<Rightarrow> char list \<Rightarrow> char list" where
  "store_at i bs buf = take i buf @ bs @ drop (i + length bs) buf"

definition memmove_front :: "nat \<Rightarrow> nat \<Rightarrow> char list \<Rightarrow> char list" where
  "memmove_front from n buf = store_at 0 (take n (drop from buf)) buf"

text \<open>
  What one call of \<open>fgets\<close> with a size can store in front of its zero byte: at most one line, and something when
  there is room for more than the zero byte.
\<close>

definition fgets_gives :: "nat \<Rightarrow> char list \<Rightarrow> bool" where
  "fgets_gives room chunk \<longleftrightarrow> length chunk < room \<and> CHR 0x0A \<notin> set (butlast chunk) \<and> (1 < room \<longrightarrow> chunk \<noteq> [])"

definition fgets_room :: "char list \<Rightarrow> nat" where
  "fgets_room buf = stderr_size - strlen buf - 1"

section \<open>One round\<close>

text \<open>
  The loop over the lines in the buffer; \<open>len\<close> is not brought up to date in it, so that it ends has to be shown.
\<close>

partial_function (option) log_lines :: "nat \<Rightarrow> char list \<Rightarrow> (string list \<times> char list) option" where
  "log_lines len buf =
     (case strchr buf (CHR 0x0A) of
        None \<Rightarrow> Some ([], buf)
      | Some e \<Rightarrow>
          let tocopy = len - e;
              buf1 = buf[e := NUL];
              buf2 = (if 0 < tocopy then memmove_front (e + 1) tocopy buf1 else buf1[0 := NUL]) in
          Option.bind (log_lines len buf2) (\<lambda>(lines, buf). Some (cstr buf1 # lines, buf)))"

text \<open>A round: the bytes \<open>fgets\<close> stores behind the leftovers, and the lines logged.\<close>

definition stderr_round :: "char list \<Rightarrow> char list \<Rightarrow> (string list \<times> char list) option" where
  "stderr_round chunk buf =
     (let buf = store_at (strlen buf) (chunk @ [NUL]) buf in log_lines (strlen buf) buf)"

fun stderr_rounds :: "char list list \<Rightarrow> char list \<Rightarrow> (string list \<times> char list) option" where
  "stderr_rounds [] buf = Some ([], buf)"
| "stderr_rounds (chunk # chunks) buf =
     Option.bind (stderr_round chunk buf) (\<lambda>(lines, buf).
       Option.bind (stderr_rounds chunks buf) (\<lambda>(lines', buf). Some (lines @ lines', buf)))"

section \<open>What is logged\<close>

text \<open>The state between rounds: the array, and in it the beginning \<open>left\<close> of a line.\<close>

definition stderr_holds :: "char list \<Rightarrow> char list \<Rightarrow> bool" where
  "stderr_holds buf left \<longleftrightarrow>
     length buf = stderr_size \<and> NUL \<notin> set left \<and> CHR 0x0A \<notin> set left \<and> length left + 2 \<le> stderr_size \<and> (\<exists>rest. buf = left @ NUL # rest)"

lemma holds_strlen: "stderr_holds buf left \<Longrightarrow> cstr buf = left \<and> strlen buf = length left"
  by (auto simp: stderr_holds_def strlen_def cstr_simps)

lemma store_chunk:
  assumes "stderr_holds buf left" and "fgets_gives (fgets_room buf) chunk"
  shows "\<exists>rest. store_at (strlen buf) (chunk @ [NUL]) buf = (left @ chunk) @ NUL # rest \<and> length (left @ chunk) + 1 + length rest = stderr_size"
proof -
  obtain rest where r: "buf = left @ NUL # rest" "length buf = stderr_size" using assms(1) by (auto simp: stderr_holds_def)
  have l: "strlen buf = length left" using holds_strlen [OF assms(1)] by simp
  have c: "length left + length chunk + 2 \<le> stderr_size"
    using assms(2) l by (auto simp: fgets_gives_def fgets_room_def)
  have "store_at (strlen buf) (chunk @ [NUL]) buf = (left @ chunk) @ NUL # drop (length chunk) rest"
    using r(1) l by (simp add: store_at_def)
  moreover have "length (left @ chunk) + 1 + length (drop (length chunk) rest) = stderr_size" using r c by simp
  ultimately show ?thesis by blast
qed

lemma strchr_None: "NUL \<notin> set t \<Longrightarrow> CHR 0x0A \<notin> set t \<Longrightarrow> strchr (t @ NUL # rest) (CHR 0x0A) = None"
  by (simp add: strchr_def cstr_simps)

text \<open>One line at the front of the buffer, ended by the last byte of the text.\<close>

lemma log_one_line:
  assumes "NUL \<notin> set line" and "CHR 0x0A \<notin> set line" and "length line + 2 + length rest = stderr_size"
  shows "\<exists>buf. log_lines (length line + 1) (line @ CHR 0x0A # NUL # rest) = Some ([line], buf) \<and> stderr_holds buf []"
proof -
  let ?buf = "line @ CHR 0x0A # NUL # rest"
  have s: "strchr ?buf (CHR 0x0A) = Some (length line)"
  proof -
    have "cstr ?buf = line @ [CHR 0x0A]" using assms(1) cstr_append_NUL [of "line @ [CHR 0x0A]" rest] by simp
    moreover have "takeWhile (\<lambda>d. d \<noteq> CHR 0x0A) ?buf = line" using assms(2) by (induction line) auto
    ultimately show ?thesis by (simp add: strchr_def)
  qed
  have u: "?buf[length line := NUL] = line @ NUL # NUL # rest" by simp
  have m: "memmove_front (length line + 1) (length line + 1 - length line) (line @ NUL # NUL # rest) = NUL # drop 1 (line @ NUL # NUL # rest)"
    by (simp add: memmove_front_def store_at_def)
  define buf where "buf = NUL # drop 1 (line @ NUL # NUL # rest)"
  have "strchr buf (CHR 0x0A) = None" using strchr_None [of "[]" "drop 1 (line @ NUL # NUL # rest)"] by (simp add: buf_def)
  then have "log_lines (length line + 1) buf = Some ([], buf)" by (subst log_lines.simps) simp
  moreover have "log_lines (length line + 1) ?buf = Option.bind (log_lines (length line + 1)
      (memmove_front (length line + 1) (length line + 1 - length line) (?buf[length line := NUL])))
      (\<lambda>(lines, b). Some (cstr (?buf[length line := NUL]) # lines, b))" by (subst log_lines.simps) (simp add: s Let_def)
  ultimately have "log_lines (length line + 1) ?buf = Some ([line], buf)"
    unfolding u m buf_def [symmetric] using assms(1) by (simp add: cstr_simps)
  moreover have "stderr_holds buf []" using assms(3) by (auto simp: stderr_holds_def buf_def stderr_size_def)
  ultimately show ?thesis by blast
qed

text \<open>What \<open>fgets\<close> gives in the rounds of a run, for output without zero bytes.\<close>

fun fgets_run :: "char list list \<Rightarrow> char list \<Rightarrow> bool" where
  "fgets_run [] buf \<longleftrightarrow> True"
| "fgets_run (chunk # chunks) buf \<longleftrightarrow> fgets_gives (fgets_room buf) chunk \<and> NUL \<notin> set chunk
     \<and> (case stderr_round chunk buf of None \<Rightarrow> True | Some (_, buf) \<Rightarrow> fgets_run chunks buf)"

definition lines_of :: "string list \<Rightarrow> char list" where
  "lines_of ls = concat (map (\<lambda>l. l @ [CHR 0x0A]) ls)"

lemma round_logs:
  assumes h: "stderr_holds buf left" and g: "fgets_gives (fgets_room buf) chunk" and n: "NUL \<notin> set chunk"
  shows "\<exists>ls buf' left'. stderr_round chunk buf = Some (ls, buf') \<and> stderr_holds buf' left' \<and> lines_of ls @ left' = left @ chunk
     \<and> (\<forall>l \<in> set ls. CHR 0x0A \<notin> set l)"
proof -
  obtain rest where r: "store_at (strlen buf) (chunk @ [NUL]) buf = (left @ chunk) @ NUL # rest"
    "length (left @ chunk) + 1 + length rest = stderr_size" using store_chunk [OF h g] by blast
  have l: "NUL \<notin> set left" "CHR 0x0A \<notin> set left" using h by (simp_all add: stderr_holds_def)
  have len: "length (left @ chunk) + 2 \<le> stderr_size"
    using g holds_strlen [OF h] by (auto simp: fgets_gives_def fgets_room_def)
  have s: "strlen ((left @ chunk) @ NUL # rest) = length (left @ chunk)"
    unfolding strlen_def using l(1) n by (subst cstr_append_NUL) simp_all
  show ?thesis
  proof (cases "CHR 0x0A \<in> set chunk")
    case False
    then have "strchr ((left @ chunk) @ NUL # rest) (CHR 0x0A) = None" using l n by (intro strchr_None) simp_all
    then have "stderr_round chunk buf = Some ([], (left @ chunk) @ NUL # rest)"
      unfolding stderr_round_def Let_def r(1) by (subst log_lines.simps) simp
    moreover have "stderr_holds ((left @ chunk) @ NUL # rest) (left @ chunk)"
      using l n False r(2) len by (auto simp: stderr_holds_def)
    ultimately show ?thesis
      by (intro exI [of _ "[]"] exI [of _ "(left @ chunk) @ NUL # rest"] exI [of _ "left @ chunk"]) (simp add: lines_of_def)
  next
    case True
    with g obtain b where b: "chunk = b @ [CHR 0x0A]" "CHR 0x0A \<notin> set b"
      unfolding fgets_gives_def by (cases chunk rule: rev_cases) auto
    have e: "length (left @ b) + 1 = length (left @ chunk)" "(left @ b) @ CHR 0x0A # NUL # rest = (left @ chunk) @ NUL # rest"
      using b(1) by simp_all
    have "length (left @ b) + 2 + length rest = stderr_size" using r(2) b(1) by simp
    with log_one_line [of "left @ b" rest] b n l obtain buf' where
      "log_lines (length (left @ b) + 1) ((left @ b) @ CHR 0x0A # NUL # rest) = Some ([left @ b], buf')" "stderr_holds buf' []" by auto
    then have "stderr_round chunk buf = Some ([left @ b], buf')" "stderr_holds buf' []"
      unfolding stderr_round_def Let_def r(1) s e by simp_all
    then show ?thesis using b l by (intro exI [of _ "[left @ b]"] exI [of _ buf'] exI [of _ "[]"]) (simp add: lines_of_def)
  qed
qed

lemma rounds_log:
  "stderr_holds buf left \<Longrightarrow> fgets_run chunks buf \<Longrightarrow>
   \<exists>ls buf' left'. stderr_rounds chunks buf = Some (ls, buf') \<and> stderr_holds buf' left' \<and> lines_of ls @ left' = left @ concat chunks
     \<and> (\<forall>l \<in> set ls. CHR 0x0A \<notin> set l)"
proof (induction chunks arbitrary: buf left)
  case Nil
  then show ?case by (intro exI [of _ "[]"] exI [of _ buf] exI [of _ left]) (simp add: lines_of_def)
next
  case (Cons chunk chunks)
  from Cons.prems(2) have "fgets_gives (fgets_room buf) chunk" "NUL \<notin> set chunk" by simp_all
  from round_logs [OF Cons.prems(1) this] obtain ls1 buf1 left1 where 1: "stderr_round chunk buf = Some (ls1, buf1)"
    "stderr_holds buf1 left1" "lines_of ls1 @ left1 = left @ chunk" "\<forall>l \<in> set ls1. CHR 0x0A \<notin> set l" by blast
  with Cons.prems(2) have "fgets_run chunks buf1" by simp
  from Cons.IH [OF 1(2) this] obtain ls2 buf2 left2 where 2: "stderr_rounds chunks buf1 = Some (ls2, buf2)"
    "stderr_holds buf2 left2" "lines_of ls2 @ left2 = left1 @ concat chunks" "\<forall>l \<in> set ls2. CHR 0x0A \<notin> set l" by blast
  have "lines_of (ls1 @ ls2) @ left2 = lines_of ls1 @ left1 @ concat chunks" using 2(3) by (simp add: lines_of_def)
  also have "\<dots> = left @ concat (chunk # chunks)" using 1(3) by (metis append_assoc concat.simps(2))
  finally show ?case using 1 2 by (intro exI [of _ "ls1 @ ls2"] exI [of _ buf2] exI [of _ left2]) auto
qed

text \<open>Pieces that fit into the buffer together, and the full buffer.\<close>

lemma short_run:
  "stderr_holds buf left \<Longrightarrow> length left + length (concat chunks) + 2 \<le> stderr_size \<Longrightarrow>
   \<forall>c \<in> set chunks. c \<noteq> [] \<and> CHR 0x0A \<notin> set (butlast c) \<and> NUL \<notin> set c \<Longrightarrow> fgets_run chunks buf"
proof (induction chunks arbitrary: buf left)
  case (Cons c cs)
  have g: "fgets_gives (fgets_room buf) c" "NUL \<notin> set c"
    using Cons.prems holds_strlen [OF Cons.prems(1)] by (auto simp: fgets_gives_def fgets_room_def)
  from round_logs [OF Cons.prems(1) g] obtain ls buf' left' where r: "stderr_round c buf = Some (ls, buf')" "stderr_holds buf' left'"
    "lines_of ls @ left' = left @ c" by blast
  have "length left' \<le> length (left @ c)" using arg_cong [OF r(3), of length] by simp
  with Cons.prems have "fgets_run cs buf'" by (intro Cons.IH [OF r(2)]) auto
  with g r(1) show ?case by simp
qed simp

lemma full_round:
  assumes "stderr_holds buf left" and "length left = 1022"
  shows "fgets_gives (fgets_room buf) c \<longleftrightarrow> c = []" and "\<exists>buf'. stderr_round [] buf = Some ([], buf') \<and> stderr_holds buf' left"
proof -
  have "fgets_room buf = 1" using holds_strlen [OF assms(1)] assms(2) by (simp add: fgets_room_def stderr_size_def)
  then show g: "fgets_gives (fgets_room buf) c \<longleftrightarrow> c = []" for c by (auto simp: fgets_gives_def)
  from round_logs [OF assms(1) g [THEN iffD2, OF refl]] obtain ls buf' left' where r: "stderr_round [] buf = Some (ls, buf')"
    "stderr_holds buf' left'" "lines_of ls @ left' = left" by auto
  have "ls = []" using r(3) assms(1) by (cases ls) (auto simp: lines_of_def stderr_holds_def)
  with r show "\<exists>buf'. stderr_round [] buf = Some ([], buf') \<and> stderr_holds buf' left" by (simp add: lines_of_def)
qed

lemma full_rounds:
  "stderr_holds buf left \<Longrightarrow> length left = 1022 \<Longrightarrow> fgets_run chunks buf \<Longrightarrow>
   concat chunks = [] \<and> (\<exists>buf'. stderr_rounds chunks buf = Some ([], buf') \<and> stderr_holds buf' left)"
proof (induction chunks arbitrary: buf)
  case (Cons c cs)
  from full_round [OF Cons.prems(1,2)] Cons.prems(3) obtain buf' where
    r: "c = []" "stderr_round [] buf = Some ([], buf')" "stderr_holds buf' left" by auto
  with Cons.IH [OF r(3) Cons.prems(2)] Cons.prems(3) show ?case by auto
qed auto

lemma full_run: "stderr_holds buf left \<Longrightarrow> length left = 1022 \<Longrightarrow> fgets_run (replicate n []) buf"
proof (induction n arbitrary: buf)
  case (Suc n)
  from full_round [OF Suc.prems] obtain buf' where "stderr_round [] buf = Some ([], buf')" "stderr_holds buf' left"
    "fgets_gives (fgets_room buf) []" by auto
  with Suc show ?case by simp
qed simp

section \<open>Properties\<close>

text \<open>
  the log gets the error output of tincd line by line, however the pieces arrive: the loop over the buffer ends
  in every round, the lines logged, each with its newline, and what is left in the buffer are together exactly the
  bytes received, and no write leaves the 1024 bytes of the buffer.
\<close>

theorem stderr_lines_logged:
  assumes "stderr_holds buf left" and "fgets_run chunks buf"
  shows "\<exists>ls buf' left'. stderr_rounds chunks buf = Some (ls, buf') \<and> length buf' = stderr_size \<and> cstr buf' = left'
     \<and> concat (map (\<lambda>l. l @ [CHR 0x0A]) ls) @ left' = left @ concat chunks \<and> (\<forall>l \<in> set ls. CHR 0x0A \<notin> set l)"
  using rounds_log [OF assms] holds_strlen unfolding lines_of_def stderr_holds_def by blast

definition empty_stderr :: "char list" where
  "empty_stderr = replicate stderr_size NUL"

lemma empty_stderr_holds: "stderr_holds empty_stderr []"
proof -
  have "replicate stderr_size NUL = [] @ NUL # replicate 1023 NUL" unfolding stderr_size_def by (simp flip: replicate_Suc)
  then show ?thesis unfolding stderr_holds_def empty_stderr_def by (auto simp: stderr_size_def)
qed

theorem stderr_lines_logged_witness:
  "\<exists>ls buf' left'. stderr_rounds [''Rea'', ''dy'' @ [CHR 0x0A], ''Got''] empty_stderr = Some (ls, buf') \<and> length buf' = stderr_size
     \<and> cstr buf' = left' \<and> concat (map (\<lambda>l. l @ [CHR 0x0A]) ls) @ left' = [] @ concat [''Rea'', ''dy'' @ [CHR 0x0A], ''Got'']
     \<and> (\<forall>l \<in> set ls. CHR 0x0A \<notin> set l)"
proof (rule stderr_lines_logged)
  show "stderr_holds empty_stderr []" by (rule empty_stderr_holds)
  then show "fgets_run [''Rea'', ''dy'' @ [CHR 0x0A], ''Got''] empty_stderr"
    by (rule short_run) (simp_all add: stderr_size_def)
qed

text \<open>
  C25: a line of 1022 characters or more stops the log for good: the buffer is full, \<open>fgets\<close> is called with room for
  its zero byte only and stores nothing, so no round ever reads a byte again, although the pipe stays readable.
\<close>

theorem stderr_long_line_stuck:
  assumes "stderr_holds buf left" and "length left = 1022" and "fgets_run chunks buf"
  shows "concat chunks = [] \<and> (\<exists>buf'. stderr_rounds chunks buf = Some ([], buf') \<and> cstr buf' = left)"
  using full_rounds [OF assms] holds_strlen by blast

theorem stderr_long_line_stuck_witness:
  "\<exists>buf'. stderr_rounds (replicate 3 []) (replicate 1022 (CHR ''x'') @ [NUL, NUL]) = Some ([], buf') \<and> cstr buf' = replicate 1022 (CHR ''x'')"
proof -
  let ?b = "replicate 1022 (CHR ''x'') @ [NUL, NUL]"
  have h: "stderr_holds ?b (replicate 1022 (CHR ''x''))" unfolding stderr_holds_def stderr_size_def by (auto)
  have l: "length (replicate 1022 (CHR ''x'')) = 1022" by (simp only: length_replicate)
  from stderr_long_line_stuck [OF h l full_run [OF h l]] show ?thesis by blast
qed

end
