(* ===== verification/Clog.thy ===== *)
theory Clog
  imports Strbuf Tinclog
begin

text \<open>
  \<^verbatim>\<open>src/log.c\<close>: every message goes to syslog and, behind a prefix for its priority, to the standard output or error
  output.  The conversions of the format are the C library's, so the text they give is the parameter \<open>vf\<close>.
\<close>

section \<open>Priorities\<close>

datatype priority = LOG_EMERG | LOG_ALERT | LOG_CRIT | LOG_ERR | LOG_WARNING | LOG_NOTICE | LOG_INFO | LOG_DEBUG

datatype stream = Stdout | Stderr

fun log_prefix :: "priority \<Rightarrow> string" where
  "log_prefix LOG_EMERG = ''<EMERG>''"
| "log_prefix LOG_ALERT = ''<ALERT>''"
| "log_prefix LOG_ERR = ''<ERR>  ''"
| "log_prefix LOG_WARNING = ''<WARN> ''"
| "log_prefix LOG_NOTICE = ''<NOTE> ''"
| "log_prefix LOG_INFO = ''<INFO> ''"
| "log_prefix LOG_DEBUG = ''<DEBUG>''"
| "log_prefix LOG_CRIT = ''<INFO> ''"

fun log_stream :: "priority \<Rightarrow> stream" where
  "log_stream LOG_EMERG = Stderr"
| "log_stream LOG_ALERT = Stderr"
| "log_stream LOG_ERR = Stderr"
| "log_stream LOG_WARNING = Stderr"
| "log_stream prio = Stdout"

section \<open>Messages\<close>

text \<open>What one call leaves in the syslog and on each of the two streams.\<close>

record log_state =
  ls_syslog :: "(priority \<times> string) list"
  ls_stdout :: string
  ls_stderr :: string

definition fprintf_to :: "stream \<Rightarrow> string \<Rightarrow> log_state \<Rightarrow> log_state" where
  "fprintf_to out t st =
     (case out of
        Stdout \<Rightarrow> st\<lparr>ls_stdout := ls_stdout st @ t\<rparr>
      | Stderr \<Rightarrow> st\<lparr>ls_stderr := ls_stderr st @ t\<rparr>)"

text \<open>The test for a newline looks at the byte in front of an empty format.\<close>

definition log_raw :: "(string \<Rightarrow> vararg list \<Rightarrow> string) \<Rightarrow> priority \<Rightarrow> string \<Rightarrow> vararg list \<Rightarrow> log_state \<Rightarrow> log_state run" where
  "log_raw vf prio format args st =
     (let out = log_stream prio;
          st = st\<lparr>ls_syslog := ls_syslog st @ [(prio, vf format args)]\<rparr>;
          st = fprintf_to out (log_prefix prio @ '' '') st;
          st = fprintf_to out (vf format args) st in
      if format = [] then Fault Out_of_bounds
      else Done (if last format \<noteq> CHR 0x0A then fprintf_to out [CHR 0x0A] st else st))"

text \<open>\<open>log_init\<close>: the name handed to \<open>openlog\<close>.\<close>

definition log_progname :: "string \<Rightarrow> string" where
  "log_progname argv0 =
     (if CHR ''/'' \<in> set argv0 then rev (takeWhile (\<lambda>c. c \<noteq> CHR ''/'') (rev argv0)) else argv0)"

text \<open>The text a format of plain characters, \<open>%s\<close> and \<open>%d\<close> gives, as documented of the C library.\<close>

definition printf_documented :: "(string \<Rightarrow> vararg list \<Rightarrow> string) \<Rightarrow> bool" where
  "printf_documented vf \<longleftrightarrow>
     (\<forall>msg args t. list_all (\<lambda>a. case a of Arg_S b \<Rightarrow> False | _ \<Rightarrow> True) args \<and> format_text msg args = Some t \<longrightarrow> vf msg args = t)"

text \<open>The error output of tincd: \<open>log_info\<close> for every line found in the buffer.\<close>

fun log_tincd_lines ::
  "(string \<Rightarrow> vararg list \<Rightarrow> string) \<Rightarrow> string \<Rightarrow> int \<Rightarrow> string list \<Rightarrow> log_state \<Rightarrow> log_state run" where
  "log_tincd_lines vf networkname pid [] st = Done st"
| "log_tincd_lines vf networkname pid (l # ls) st =
     run_bind (log_raw vf LOG_INFO ''tinc.%s[%d] %s'' [Arg_s networkname, Arg_d pid, Arg_s l] st)
       (log_tincd_lines vf networkname pid ls)"

section \<open>What the log holds\<close>

text \<open>One message, as it is to appear on its stream.\<close>

definition log_line :: "priority \<Rightarrow> string \<Rightarrow> string" where
  "log_line prio t = log_prefix prio @ '' '' @ t @ [CHR 0x0A]"

definition tincd_message :: "string \<Rightarrow> int \<Rightarrow> string \<Rightarrow> string" where
  "tincd_message networkname pid l = ''tinc.'' @ networkname @ ''['' @ int_dec pid @ ''] '' @ l"

lemma log_raw_line:
  assumes "format \<noteq> []" and "vf format args = t @ (if last format = CHR 0x0A then [CHR 0x0A] else [])"
  shows "log_raw vf prio format args st = Done (
     fprintf_to (log_stream prio) (log_line prio t) (st\<lparr>ls_syslog := ls_syslog st @ [(prio, vf format args)]\<rparr>))"
  using assms by (cases "log_stream prio") (simp_all add: log_raw_def log_line_def fprintf_to_def Let_def)

lemma tincd_format:
  "length (int_dec pid) < 31 \<Longrightarrow>
   format_text ''tinc.%s[%d] %s'' [Arg_s networkname, Arg_d pid, Arg_s l] = Some (tincd_message networkname pid l)"
  by (simp add: tincd_message_def)

lemma log_tincd_lines_text:
  assumes vf: "printf_documented vf" and pid: "length (int_dec pid) < 31"
  shows "log_tincd_lines vf networkname pid ls st = Done (st\<lparr>
     ls_syslog := ls_syslog st @ map (\<lambda>l. (LOG_INFO, tincd_message networkname pid l)) ls,
     ls_stdout := ls_stdout st @ concat (map (\<lambda>l. log_line LOG_INFO (tincd_message networkname pid l)) ls)\<rparr>)"
proof (induction ls arbitrary: st)
  case (Cons l ls)
  have "vf ''tinc.%s[%d] %s'' [Arg_s networkname, Arg_d pid, Arg_s l] = tincd_message networkname pid l"
    using vf tincd_format [OF pid, of networkname l] by (simp add: printf_documented_def)
  then have "log_raw vf LOG_INFO ''tinc.%s[%d] %s'' [Arg_s networkname, Arg_d pid, Arg_s l] st
     = Done (fprintf_to Stdout (log_line LOG_INFO (tincd_message networkname pid l))
         (st\<lparr>ls_syslog := ls_syslog st @ [(LOG_INFO, tincd_message networkname pid l)]\<rparr>))"
    by (subst log_raw_line [where t = "tincd_message networkname pid l"]) simp_all
  with Cons.IH show ?case by (simp add: fprintf_to_def)
qed simp

section \<open>Properties\<close>


text \<open>A \<open>vfprintf\<close> that does what is documented.\<close>

definition plain_vfprintf :: "string \<Rightarrow> vararg list \<Rightarrow> string" where
  "plain_vfprintf msg args = (case format_text msg args of None \<Rightarrow> [] | Some t \<Rightarrow> t)"


end
