(* ===== verification/Hexdump.thy ===== *)
theory Hexdump
  imports Strbuf
begin

text \<open>\<^verbatim>\<open>src/string/string_hexdump.c\<close>: the text of a block of bytes, sixteen to a line, for debugging.\<close>

section \<open>The routine\<close>

definition hex_digit :: "nat \<Rightarrow> nat \<Rightarrow> char" where
  "hex_digit letter d = (if d < 10 then digit_char d else char_of (letter + d - 10))"

fun hex_digits :: "nat \<Rightarrow> string" where
  "hex_digits n = (if n < 16 then [hex_digit 97 n] else hex_digits (n div 16) @ [hex_digit 97 (n mod 16)])"

declare hex_digits.simps [simp del]

text \<open>\<open>snprintf\<close> of an offset, an \<open>int\<close>, with \<open>%.4x\<close>, into 10 bytes, and of a byte with \<open>%02X\<close> and a blank.\<close>

definition print_offset :: "nat \<Rightarrow> string" where
  "print_offset n = (let t = hex_digits (n mod 2 ^ 32) in take 9 (replicate (4 - length t) (CHR ''0'') @ t))"

definition print_byte :: "uchar \<Rightarrow> string" where
  "print_byte b = [hex_digit 65 (unat b div 16), hex_digit 65 (unat b mod 16), CHR '' '']"

definition isalnum :: "nat \<Rightarrow> bool" where
  "isalnum c \<longleftrightarrow> 48 \<le> c \<and> c \<le> 57 \<or> 65 \<le> c \<and> c \<le> 90 \<or> 97 \<le> c \<and> c \<le> 122"

definition print_char :: "uchar \<Rightarrow> char" where
  "print_char b = (if isalnum (unat b) then char_of (unat b) else CHR ''.'')"

text \<open>\<open>strncat\<close> into an array of this size, as the routine calls it.\<close>

definition strncat :: "nat \<Rightarrow> string \<Rightarrow> string \<Rightarrow> string" where
  "strncat room dest src = dest @ take (room - length dest - 1) src"

definition hexdump_line :: "libc \<Rightarrow> string \<Rightarrow> string \<Rightarrow> string \<Rightarrow> strbuf \<Rightarrow> (bool \<times> strbuf) run" where
  "hexdump_line lc addrstr hexstr charstr s =
     string_concat_sprintf lc (''[%4.4s]   %-50.50s  %s'' @ [CHR 0x0A]) [Arg_s addrstr, Arg_s hexstr, Arg_s charstr] s"

fun hexdump_loop :: "libc \<Rightarrow> uchar list \<Rightarrow> nat \<Rightarrow> string \<Rightarrow> string \<Rightarrow> string \<Rightarrow> strbuf \<Rightarrow> strbuf run" where
  "hexdump_loop lc [] n addrstr hexstr charstr s =
     (if 0 < length hexstr
      then run_bind (hexdump_line lc addrstr hexstr charstr s) (\<lambda>(_, s). Done s)
      else Done s)"
| "hexdump_loop lc (b # p) n addrstr hexstr charstr s =
     (let addrstr = (if n mod 16 = 1 then print_offset (n - 1) else addrstr);
          hexstr = strncat (16 * 3 + 5) hexstr (print_byte b);
          charstr = strncat (16 * 1 + 5) charstr [print_char b] in
      if n mod 16 = 0
      then run_bind (hexdump_line lc addrstr hexstr charstr s) (\<lambda>(_, s). hexdump_loop lc p (n + 1) addrstr '''' '''' s)
      else if n mod 8 = 0
      then hexdump_loop lc p (n + 1) addrstr (strncat (16 * 3 + 5) hexstr ''  '') (strncat (16 * 1 + 5) charstr '' '') s
      else hexdump_loop lc p (n + 1) addrstr hexstr charstr s)"

definition string_hexdump :: "libc \<Rightarrow> strbuf \<Rightarrow> uchar list \<Rightarrow> strbuf run" where
  "string_hexdump lc s data = hexdump_loop lc data 1 '''' '''' '''' s"

text \<open>\<open>debug_hexdump\<close>: the dump as it is written to the error output.\<close>

definition debug_hexdump :: "libc \<Rightarrow> uchar list \<Rightarrow> string option run" where
  "debug_hexdump lc data =
     run_bind (string_hexdump lc (string_init lc 1024 1024) data) (\<lambda>s.
     run_bind (string_putc lc s NUL) (\<lambda>(_, s). Done (map_option cstr (sb_s s))))"

section \<open>The dump\<close>

text \<open>The line of up to sixteen bytes: its offset, the bytes in two groups of eight, and their characters.\<close>

definition pad_to :: "nat \<Rightarrow> string \<Rightarrow> string" where
  "pad_to k t = t @ replicate (k - length t) (CHR '' '')"

definition dump_hex :: "uchar list \<Rightarrow> string" where
  "dump_hex bs = concat (map print_byte (take 8 bs)) @ (if 8 \<le> length bs then ''  '' else '''') @ concat (map print_byte (drop 8 bs))"

definition dump_chars :: "uchar list \<Rightarrow> string" where
  "dump_chars bs = map print_char (take 8 bs) @ (if 8 \<le> length bs then '' '' else '''') @ map print_char (drop 8 bs)"

definition dump_line :: "nat \<Rightarrow> uchar list \<Rightarrow> string" where
  "dump_line offset bs =
     ''['' @ take 4 (print_offset offset) @ '']   '' @ pad_to 50 (dump_hex bs) @ ''  '' @ dump_chars bs @ [CHR 0x0A]"

function dump_lines :: "nat \<Rightarrow> uchar list \<Rightarrow> string" where
  "dump_lines offset bs =
     (if bs = [] then [] else dump_line offset (take 16 bs) @ dump_lines (offset + 16) (drop 16 bs))"
  by pat_completeness auto
termination by (relation "measure (\<lambda>(offset, bs). length bs)") auto

declare dump_lines.simps [simp del]

text \<open>The two conversions the C library does.\<close>

definition pads_strings :: "libc \<Rightarrow> bool" where
  "pads_strings lc \<longleftrightarrow>
     (\<forall>t args. lc_vsnprintf lc ''%4.4s'' (Arg_s t # args) = (replicate (4 - length t) (CHR '' '') @ take 4 t, args)
             \<and> lc_vsnprintf lc ''%-50.50s'' (Arg_s t # args) = (pad_to 50 (take 50 t), args))"

lemma end_step: "writes lc (sprintf_loop lc [] args) []"
  by (simp add: emits_def)

lemma plain_step:
  assumes "c \<noteq> CHR ''%''" and "writes lc (sprintf_loop lc msg args) t"
  shows "writes lc (sprintf_loop lc (c # msg) args) (c # t)"
proof -
  have "sprintf_loop lc (c # msg) args = (\<lambda>s. seq_step (string_putc lc s c) (sprintf_loop lc msg args))"
    using assms(1) by (intro ext) simp
  with seq_step_writes [OF string_putc_writes assms(2), of c] show ?thesis by simp
qed

lemma string_step:
  assumes "writes lc (sprintf_loop lc msg args) t"
  shows "writes lc (sprintf_loop lc (CHR ''%'' # CHR ''s'' # msg) (Arg_s a # args)) (a @ t)"
proof -
  have "sprintf_loop lc (CHR ''%'' # CHR ''s'' # msg) (Arg_s a # args) = (\<lambda>s. seq_step (string_concat lc s a) (sprintf_loop lc msg args))"
    by (intro ext) simp
  with seq_step_writes [OF string_concat_writes assms, of a] show ?thesis by simp
qed

lemma flags_step:
  assumes "list_all fmt_flag flags" "flags \<noteq> []" "length flags < 30" "\<not> fmt_flag conv"
    and "lc_vsnprintf lc (CHR ''%'' # flags @ [conv]) args = (out, args')" and "length out < 4096"
    and "writes lc (sprintf_loop lc msg args') t"
  shows "writes lc (sprintf_loop lc (CHR ''%'' # flags @ conv # msg) args) (out @ t)"
proof -
  obtain f fs where f: "flags = f # fs" "fmt_flag f" using assms(1,2) by (cases flags) auto
  have "f \<noteq> CHR ''s''" "f \<noteq> CHR ''S''" "f \<noteq> CHR ''d''" using f(2) by (auto simp: fmt_flag_def isdigit_def)
  moreover have "takeWhile fmt_flag (flags @ conv # msg) = flags" "dropWhile fmt_flag (flags @ conv # msg) = conv # msg"
    using assms(1,4) by (simp_all add: list_all_iff takeWhile_append2 dropWhile_append2)
  ultimately have "sprintf_loop lc (CHR ''%'' # flags @ conv # msg) args s
     = seq_step (string_concatb lc s out) (sprintf_loop lc msg args')" for s
    using f assms(3,5,6) by (simp add: defprintf_def)
  then have "sprintf_loop lc (CHR ''%'' # flags @ conv # msg) args = (\<lambda>s. seq_step (string_concatb lc s out) (sprintf_loop lc msg args'))"
    by (rule ext)
  with seq_step_writes [OF string_concatb_writes assms(7), of out] show ?thesis by simp
qed

lemma hexdump_line_writes:
  assumes "pads_strings lc" and "4 \<le> length a" and "length h \<le> 50"
  shows "writes lc (hexdump_line lc a h c) (''['' @ take 4 a @ '']   '' @ pad_to 50 h @ ''  '' @ c @ [CHR 0x0A])"
proof -
  have "writes lc (sprintf_loop lc (''  %s'' @ [CHR 0x0A]) [Arg_s c]) (''  '' @ c @ [CHR 0x0A])"
    using string_step [OF plain_step [OF _ end_step, of "CHR 0x0A"], where a = c]
    by (simp del: sprintf_loop.simps add: plain_step)
  then have "writes lc (sprintf_loop lc (CHR ''%'' # ''-50.50'' @ CHR ''s'' # ''  %s'' @ [CHR 0x0A]) [Arg_s h, Arg_s c]) (pad_to 50 h @ ''  '' @ c @ [CHR 0x0A])"
    by (intro flags_step [where args' = "[Arg_s c]"]) (use assms in \<open>simp_all add: pads_strings_def fmt_flag_def isdigit_def pad_to_def\<close>)
  then have "writes lc (sprintf_loop lc (''   %-50.50s  %s'' @ [CHR 0x0A]) [Arg_s h, Arg_s c]) (''   '' @ pad_to 50 h @ ''  '' @ c @ [CHR 0x0A])"
    by (simp del: sprintf_loop.simps add: plain_step)
  then have "writes lc (sprintf_loop lc (CHR ''%'' # ''4.4'' @ CHR ''s'' # '']   %-50.50s  %s'' @ [CHR 0x0A]) [Arg_s a, Arg_s h, Arg_s c])
     (take 4 a @ '']   '' @ pad_to 50 h @ ''  '' @ c @ [CHR 0x0A])"
    by (intro flags_step [where args' = "[Arg_s h, Arg_s c]"])
      (use assms in \<open>simp_all add: pads_strings_def fmt_flag_def isdigit_def plain_step del: sprintf_loop.simps\<close>)
  then have "writes lc (sprintf_loop lc (''[%4.4s]   %-50.50s  %s'' @ [CHR 0x0A]) [Arg_s a, Arg_s h, Arg_s c])
     (''['' @ take 4 a @ '']   '' @ pad_to 50 h @ ''  '' @ c @ [CHR 0x0A])"
    by (simp del: sprintf_loop.simps add: plain_step)
  from sprintf_writes [OF this] show ?thesis unfolding hexdump_line_def .
qed

lemma length_print_bytes: "length (concat (map print_byte xs)) = 3 * length xs"
  by (induction xs) (simp_all add: print_byte_def)

lemma length_dump_hex: "length bs \<le> 16 \<Longrightarrow> length (dump_hex bs) \<le> 50"
  by (cases "8 \<le> length bs") (auto simp: dump_hex_def length_print_bytes)

lemma print_offset_length: "4 \<le> length (print_offset n)"
  by (simp add: print_offset_def Let_def)

text \<open>A line being filled: what the arrays hold after the bytes \<open>bs\<close> of the line.\<close>

lemma fill_hex:
  assumes "length bs < 16"
  shows "strncat 53 (dump_hex bs) (print_byte b) = (if length bs = 7 then concat (map print_byte (bs @ [b])) else dump_hex (bs @ [b]))"
    and "length bs = 7 \<Longrightarrow> strncat 53 (concat (map print_byte (bs @ [b]))) ''  '' = dump_hex (bs @ [b])"
proof -
  have "length (dump_hex bs) + 3 \<le> 52" using assms by (cases "8 \<le> length bs") (auto simp: dump_hex_def length_print_bytes)
  then show "strncat 53 (dump_hex bs) (print_byte b) = (if length bs = 7 then concat (map print_byte (bs @ [b])) else dump_hex (bs @ [b]))"
    by (auto simp: strncat_def dump_hex_def print_byte_def not_le)
  show "length bs = 7 \<Longrightarrow> strncat 53 (concat (map print_byte (bs @ [b]))) ''  '' = dump_hex (bs @ [b])"
    by (simp add: strncat_def dump_hex_def length_print_bytes print_byte_def)
qed

lemma fill_chars:
  assumes "length bs < 16"
  shows "strncat 21 (dump_chars bs) [print_char b] = (if length bs = 7 then map print_char (bs @ [b]) else dump_chars (bs @ [b]))"
    and "length bs = 7 \<Longrightarrow> strncat 21 (map print_char (bs @ [b])) '' '' = dump_chars (bs @ [b])"
proof -
  have "length (dump_chars bs) + 1 \<le> 20" using assms by (simp add: dump_chars_def)
  then show "strncat 21 (dump_chars bs) [print_char b] = (if length bs = 7 then map print_char (bs @ [b]) else dump_chars (bs @ [b]))"
    by (auto simp: strncat_def dump_chars_def not_le)
  show "length bs = 7 \<Longrightarrow> strncat 21 (map print_char (bs @ [b])) '' '' = dump_chars (bs @ [b])"
    by (simp add: strncat_def dump_chars_def)
qed

lemma dump_lines_full: "length l = 16 \<Longrightarrow> dump_lines offset (l @ p) = dump_line offset l @ dump_lines (offset + 16) p"
  by (subst dump_lines.simps) auto

lemma dump_lines_last: "l \<noteq> [] \<Longrightarrow> length l \<le> 16 \<Longrightarrow> dump_lines offset l = dump_line offset l"
  by (subst dump_lines.simps) (simp add: dump_lines.simps [of _ "[]"])

lemma hexdump_line_text:
  assumes "pads_strings lc" "alloc_total lc" and "length bs \<le> 16" and "buf_inv s"
    and "length (content s) + length (dump_line offset bs) < buf_limit"
  obtains s' where "hexdump_line lc (print_offset offset) (dump_hex bs) (dump_chars bs) s = Done (True, s')" "buf_inv s'"
    "content s' = content s @ dump_line offset bs"
proof -
  have "writes lc (hexdump_line lc (print_offset offset) (dump_hex bs) (dump_chars bs)) (dump_line offset bs)"
    unfolding dump_line_def by (rule hexdump_line_writes [OF assms(1) print_offset_length length_dump_hex [OF assms(3)]])
  from writes_total [OF this assms(2,4,5)] that show ?thesis by blast
qed

lemma hexdump_loop_text:
  assumes lc: "pads_strings lc" "alloc_total lc"
  shows "length bs < 16 \<Longrightarrow> n mod 16 = Suc (length bs) mod 16 \<Longrightarrow> 0 < n \<Longrightarrow> (bs \<noteq> [] \<longrightarrow> addr = print_offset (n - 1 - length bs)) \<Longrightarrow>
     length bs < n \<Longrightarrow> buf_inv s \<Longrightarrow> length (content s) + length (dump_lines (n - 1 - length bs) (bs @ p)) < buf_limit \<Longrightarrow>
     \<exists>s'. hexdump_loop lc p n addr (dump_hex bs) (dump_chars bs) s = Done s' \<and> buf_inv s'
        \<and> content s' = content s @ dump_lines (n - 1 - length bs) (bs @ p)"
proof (induction p arbitrary: n addr bs s)
  case Nil
  show ?case
  proof (cases "bs = []")
    case True
    with Nil show ?thesis by (auto simp: dump_hex_def dump_lines.simps)
  next
    case False
    then have h: "0 < length (dump_hex bs)" by (cases bs) (simp_all add: dump_hex_def print_byte_def)
    have line: "dump_lines (n - 1 - length bs) (bs @ []) = dump_line (n - 1 - length bs) bs"
      using dump_lines_last [OF False] Nil.prems(1) by simp
    with Nil.prems obtain s' where "hexdump_line lc (print_offset (n - 1 - length bs)) (dump_hex bs) (dump_chars bs) s = Done (True, s')"
      "buf_inv s'" "content s' = content s @ dump_line (n - 1 - length bs) bs"
      using hexdump_line_text [OF lc, of bs s "n - 1 - length bs"] by auto
    with h False Nil.prems(4) line show ?thesis by simp
  qed
next
  case (Cons b p)
  let ?off = "n - 1 - length bs" and ?l = "bs @ [b]"
  define a where "a = (if n mod 16 = 1 then print_offset (n - 1) else addr)"
  have first: "n mod 16 = 1 \<longleftrightarrow> bs = []" using Cons.prems(1,2) by (cases "length bs = 15") (auto simp: mod_Suc)
  have a: "a = print_offset ?off" using first Cons.prems(4) by (auto simp: a_def)
  have same: "bs @ b # p = ?l @ p" by simp
  consider (full) "length bs = 15" | (half) "length bs = 7" | (other) "length bs \<noteq> 15" "length bs \<noteq> 7" by blast
  then show ?case
  proof cases
    case full
    then have n: "n mod 16 = 0" using Cons.prems(2) by simp
    have lines: "dump_lines ?off (bs @ b # p) = dump_line ?off ?l @ dump_lines (?off + 16) p"
      unfolding same by (rule dump_lines_full) (simp add: full)
    have "length (content s) + length (dump_line ?off ?l) < buf_limit" using Cons.prems(7) unfolding lines by simp
    from hexdump_line_text [OF lc _ Cons.prems(6) this] full obtain s1 where
      s1: "hexdump_line lc a (dump_hex ?l) (dump_chars ?l) s = Done (True, s1)" "buf_inv s1" "content s1 = content s @ dump_line ?off ?l"
      unfolding a by auto
    have off: "?off + 16 = n" using full Cons.prems(5) by simp
    have "\<exists>s'. hexdump_loop lc p (n + 1) a (dump_hex []) (dump_chars []) s1 = Done s' \<and> buf_inv s'
        \<and> content s' = content s1 @ dump_lines (n + 1 - 1 - length ([] :: uchar list)) ([] @ p)"
      by (rule Cons.IH) (use n s1 Cons.prems(7) lines off in \<open>simp_all add: mod_Suc\<close>)
    then show ?thesis using s1 n full lines off fill_hex(1) [of bs b] fill_chars(1) [of bs b]
      by (simp add: a_def Let_def dump_hex_def [of "[]"] dump_chars_def [of "[]"])
  next
    case half
    then have n: "n mod 16 = 8" using Cons.prems(2) by simp
    then have n8: "n mod 8 = 0" using mod_mod_cancel [of 8 16 n] by simp
    have off: "n + 1 - 1 - length ?l = ?off" using Cons.prems(5) by simp
    have "\<exists>s'. hexdump_loop lc p (n + 1) a (dump_hex ?l) (dump_chars ?l) s = Done s' \<and> buf_inv s'
        \<and> content s' = content s @ dump_lines (n + 1 - 1 - length ?l) (?l @ p)"
      by (rule Cons.IH) (use n half Cons.prems(5-7) a off in \<open>simp_all add: mod_Suc\<close>)
    then show ?thesis using n n8 half off fill_hex [of bs b] fill_chars [of bs b] by (simp add: a_def Let_def)
  next
    case other
    have n16: "n mod 16 = Suc (length bs)" using other(1) Cons.prems(1,2) by simp
    have "n mod 8 = n mod 16 mod 8" by (simp add: mod_mod_cancel)
    moreover have "length bs mod 8 \<noteq> 7" using other Cons.prems(1) by presburger
    ultimately have n: "n mod 16 \<noteq> 0" "n mod 8 \<noteq> 0" using n16 by (simp_all add: mod_Suc)
    have off: "n + 1 - 1 - length ?l = ?off" using Cons.prems(5) by simp
    have m: "(n + 1) mod 16 = Suc (length ?l) mod 16" using Cons.prems(2) by (simp add: mod_Suc)
    have "\<exists>s'. hexdump_loop lc p (n + 1) a (dump_hex ?l) (dump_chars ?l) s = Done s' \<and> buf_inv s'
        \<and> content s' = content s @ dump_lines (n + 1 - 1 - length ?l) (?l @ p)"
      by (rule Cons.IH) (use m other Cons.prems a off in simp_all)
    then show ?thesis using n other off fill_hex [of bs b] fill_chars [of bs b] Cons.prems(1) by (simp add: a_def Let_def)
  qed
qed

lemma string_hexdump_text:
  assumes "pads_strings lc" "alloc_total lc" and "buf_inv s" and "length (content s) + length (dump_lines 0 data) < buf_limit"
  shows "\<exists>s'. string_hexdump lc s data = Done s' \<and> buf_inv s' \<and> content s' = content s @ dump_lines 0 data"
  using hexdump_loop_text [OF assms(1,2), of "[]" 1 "[]" s data] assms(3,4)
  by (simp add: string_hexdump_def dump_hex_def dump_chars_def)

text \<open>Only four digits of an offset are shown, so offsets from 65536 on cannot be told from smaller ones.\<close>

lemma dump_offset_ambiguous: "take 4 (print_offset 65536) = take 4 (print_offset 4096)"
  by (simp add: print_offset_def Let_def hex_digits.simps hex_digit_def digit_char_def)

section \<open>Properties\<close>

text \<open>
  the dump of a block of any length appends one line for every sixteen bytes and one for the rest, in order,
  with the offset, every byte in hexadecimal in two groups of eight, and its character; no line leaves the arrays on
  the stack, and the buffer stays well-formed.
\<close>

theorem string_hexdump_correct:
  assumes "pads_strings lc" and "alloc_total lc" and "buf_inv s" and "length (content s) + length (dump_lines 0 data) < buf_limit"
  shows "\<exists>s'. string_hexdump lc s data = Done s' \<and> buf_inv s' \<and> content s' = content s @ dump_lines 0 data"
  using assms by (rule string_hexdump_text)

definition padding_libc :: libc where
  "padding_libc =
     \<lparr>lc_alloc = \<lambda>n. True, lc_before = NUL,
      lc_vsnprintf = \<lambda>f args. case args of
          Arg_s t # args \<Rightarrow>
            (if f = ''%4.4s'' then replicate (4 - length t) (CHR '' '') @ take 4 t else pad_to 50 (take 50 t), args)
        | _ \<Rightarrow> ([], args),
      lc_getaddrinfo = \<lambda>f h. None, lc_inet_ntop = \<lambda>f a. None\<rparr>"

lemma sample_dump: "length (dump_lines 0 [0x75, 0x6E, 0x20, 0xFF, 0, 0, 0, 0x30, 0x39]) < 100"
  by (simp add: dump_lines_last dump_line_def dump_hex_def dump_chars_def pad_to_def print_byte_def print_offset_def Let_def
      hex_digits.simps)

theorem string_hexdump_correct_witness:
  "\<exists>s'. string_hexdump padding_libc (string_init padding_libc 1024 1024) [0x75, 0x6E, 0x20, 0xFF, 0, 0, 0, 0x30, 0x39] = Done s'
     \<and> buf_inv s' \<and> content s' = content (string_init padding_libc 1024 1024)
         @ dump_lines 0 [0x75, 0x6E, 0x20, 0xFF, 0, 0, 0, 0x30, 0x39]"
proof (rule string_hexdump_correct)
  show "pads_strings padding_libc" by (simp add: pads_strings_def padding_libc_def)
  show "alloc_total padding_libc" by (simp add: alloc_total_def padding_libc_def)
  show "buf_inv (string_init padding_libc 1024 1024)" by (simp add: string_init_inv)
  show "length (content (string_init padding_libc 1024 1024)) + length (dump_lines 0 [0x75, 0x6E, 0x20, 0xFF, 0, 0, 0, 0x30, 0x39]) < buf_limit"
    using sample_dump by (simp add: string_init_inv buf_limit_def)
qed

end
